(* ===== verification/GT_Prelude.thy ===== *)
theory GT_Prelude
  imports Main "HOL-Library.Word"
begin

text \<open>
  Shared vocabulary of the development: the faults a C run can end in, the result type of an
  operation that may fault, the machine types, and the generic lemmas on results, sums and lists
  that the component theories rely on.

  A run of the C code that dereferences a null pointer, leaves the bounds of an array, fails an
  \<open>assert\<close>, reads an undefined register, throws an exception that nothing catches, is killed by a signal or spins on a
  lock that nobody will release has no result. Such a run is the value \<open>Inl f\<close>, with the reason \<open>f\<close>; a run that returns is
  \<open>Inr x\<close>.
\<close>

named_theorems result_simps \<open>rewriting of results of operations that may fault\<close>
named_theorems frame_simps \<open>what an operation leaves alone\<close>

type_synonym u32 = "32 word"

datatype fault =
    NullDeref
  | OutOfBounds
  | AssertFail
  | Undefined
  | SpinForever
  | ProcessExit int
  | KilledBySignal
  | Uncaught

type_synonym 'a res = "fault + 'a"

definition rbind :: "'a res \<Rightarrow> ('a \<Rightarrow> 'b res) \<Rightarrow> 'b res" where
  "rbind m f = (case m of Inl e \<Rightarrow> Inl e | Inr x \<Rightarrow> f x)"

definition c_assert :: "bool \<Rightarrow> 'a res \<Rightarrow> 'a res" where
  "c_assert b m = (if b then m else Inl AssertFail)"

definition deref :: "'a option \<Rightarrow> ('a \<Rightarrow> 'b res) \<Rightarrow> 'b res" where
  "deref p f = (case p of None \<Rightarrow> Inl NullDeref | Some x \<Rightarrow> f x)"

definition in_bounds :: "nat \<Rightarrow> nat \<Rightarrow> 'a res \<Rightarrow> 'a res" where
  "in_bounds i n m = (if i < n then m else Inl OutOfBounds)"

subsection \<open>Rewriting results\<close>

lemma rbind_Inr [simp, result_simps]: "rbind (Inr x) f = f x"
  by (simp add: rbind_def)

lemma rbind_Inl [simp, result_simps]: "rbind (Inl e) f = Inl e"
  by (simp add: rbind_def)

lemma rbind_eq_Inr [result_simps]: "rbind m f = Inr y \<longleftrightarrow> (\<exists>x. m = Inr x \<and> f x = Inr y)"
  by (cases m) auto

lemma rbind_assoc: "rbind (rbind m f) g = rbind m (\<lambda>x. rbind (f x) g)"
  by (cases m) auto

text \<open>Operations that may fail, one after the other.\<close>

primrec run_all :: "('a \<Rightarrow> 's \<Rightarrow> 's res) \<Rightarrow> 'a list \<Rightarrow> 's \<Rightarrow> 's res" where
  "run_all f [] s = Inr s"
| "run_all f (x # xs) s = rbind (f x s) (run_all f xs)"

lemma c_assert_True [simp]: "b \<Longrightarrow> c_assert b m = m"
  by (simp add: c_assert_def)

lemma c_assert_eq_Inr [result_simps]: "c_assert b m = Inr y \<longleftrightarrow> b \<and> m = Inr y"
  by (simp add: c_assert_def)

lemma c_assert_False [simp]: "\<not> b \<Longrightarrow> c_assert b m = Inl AssertFail"
  by (simp add: c_assert_def)

lemma deref_Some [simp]: "deref (Some x) f = f x"
  by (simp add: deref_def)

lemma deref_None [simp]: "deref None f = Inl NullDeref"
  by (simp add: deref_def)

lemma deref_eq_Inr [result_simps]: "deref p f = Inr y \<longleftrightarrow> (\<exists>x. p = Some x \<and> f x = Inr y)"
  by (cases p) auto

lemma in_bounds_less [simp]: "i < n \<Longrightarrow> in_bounds i n m = m"
  by (simp add: in_bounds_def)

lemma in_bounds_geq [simp]: "\<not> i < n \<Longrightarrow> in_bounds i n m = Inl OutOfBounds"
  by (simp add: in_bounds_def)

lemma in_bounds_eq_Inr [result_simps]: "in_bounds i n m = Inr y \<longleftrightarrow> i < n \<and> m = Inr y"
  by (simp add: in_bounds_def)

subsection \<open>Counting loops\<close>

text \<open>A loop \<open>for(i = i0; i < n; i++)\<close> whose body may fault.\<close>

function for_res :: "(nat \<Rightarrow> 's \<Rightarrow> 's res) \<Rightarrow> nat \<Rightarrow> nat \<Rightarrow> 's \<Rightarrow> 's res" where
  "for_res body i n s = (if i < n then rbind (body i s) (for_res body (Suc i) n) else Inr s)"
  by pat_completeness auto
termination
  by (relation "measure (\<lambda>(body, i, n, s). n - i)") auto

declare for_res.simps [simp del]

lemma for_res_inv:
  assumes step: "\<And>k s. i \<le> k \<Longrightarrow> k < n \<Longrightarrow> I k s \<Longrightarrow> \<exists>s'. body k s = Inr s' \<and> I (Suc k) s'"
    and "I i s" and "i \<le> n"
  shows "\<exists>s'. for_res body i n s = Inr s' \<and> I n s'"
  using assms
proof (induction "n - i" arbitrary: i s)
  case 0
  then show ?case by (auto simp: for_res.simps [of _ i])
next
  case (Suc d)
  then have "i < n" by simp
  with Suc.prems(1,2) obtain s1 where s1: "body i s = Inr s1" "I (Suc i) s1" by blast
  have "\<exists>s'. for_res body (Suc i) n s1 = Inr s' \<and> I n s'"
    using Suc.hyps(2) Suc.prems(1) s1(2) \<open>i < n\<close> by (intro Suc.hyps(1)) auto
  with s1(1) \<open>i < n\<close> show ?case by (simp add: for_res.simps [of body i n])
qed

subsection \<open>Sums and lists\<close>

lemma sum_upd_add:
  fixes f :: "'a \<Rightarrow> nat"
  assumes "finite A" and "a \<in> A"
  shows "(\<Sum>x\<in>A. (f(a := f a + n)) x) = sum f A + n"
proof -
  have "(\<Sum>x\<in>A. (f(a := f a + n)) x) = (f a + n) + sum f (A - {a})"
    using assms by (simp add: sum.remove)
  also have "\<dots> = sum f A + n"
    using assms by (simp add: sum.remove)
  finally show ?thesis .
qed

lemma sum_upd_diff:
  fixes f :: "'a \<Rightarrow> nat"
  assumes "finite A" and "a \<in> A" and "n \<le> f a"
  shows "(\<Sum>x\<in>A. (f(a := f a - n)) x) = sum f A - n"
proof -
  have "sum f A = f a + sum f (A - {a})"
    using assms by (simp add: sum.remove)
  moreover have "(\<Sum>x\<in>A. (f(a := f a - n)) x) = (f a - n) + sum f (A - {a})"
    using assms by (simp add: sum.remove)
  ultimately show ?thesis using assms(3) by simp
qed

lemma length_remove1_mem: "x \<in> set xs \<Longrightarrow> length (remove1 x xs) = length xs - 1"
  by (simp add: length_remove1)

lemma remove1_hd: "xs \<noteq> [] \<Longrightarrow> remove1 (hd xs) xs = tl xs"
  by (cases xs) auto

subsection \<open>Counters of type \<open>unsigned int\<close>\<close>

lemma unat_inc: "unat (x :: u32) + 1 < 2 ^ 32 \<Longrightarrow> unat (x + 1) = unat x + 1"
  by (simp add: unat_word_ariths)

lemma unat_dec: "0 < unat (x :: u32) \<Longrightarrow> unat (x - 1) = unat x - 1"
  by (metis gr0_conv_Suc unat_eq_zero unat_minus_one less_numeral_extra(3))

subsection \<open>Invariants of step relations\<close>

text \<open>
  The contract between a state machine and its invariant: the initial states satisfy it and every
  step keeps it. Each step relation of the development interprets this locale.
\<close>

locale invariant_system =
  fixes init :: "'s \<Rightarrow> bool"
    and step :: "'s \<Rightarrow> 's \<Rightarrow> bool"
    and inv :: "'s \<Rightarrow> bool"
  assumes inv_init: "init s \<Longrightarrow> inv s"
    and inv_step: "inv s \<Longrightarrow> step s t \<Longrightarrow> inv t"
begin

lemma inv_steps: "step\<^sup>*\<^sup>* s t \<Longrightarrow> inv s \<Longrightarrow> inv t"
  by (induction rule: rtranclp_induct) (auto intro: inv_step)

lemma reachable_inv: "init s \<Longrightarrow> step\<^sup>*\<^sup>* s t \<Longrightarrow> inv t"
  by (rule inv_steps) (auto intro: inv_init)

end

text \<open>Systems whose steps take from a fixed amount of work and can only stop early in a blocked state. A run has
  as many steps as there is work, or it ends blocked.\<close>

locale fallible_work =
  fixes step :: "'s \<Rightarrow> 's \<Rightarrow> bool"
    and inv :: "'s \<Rightarrow> bool"
    and left :: "'s \<Rightarrow> nat"
    and final :: "'s \<Rightarrow> bool"
    and blocked :: "'s \<Rightarrow> bool"
  assumes step_keeps: "inv s \<Longrightarrow> step s t \<Longrightarrow> inv t"
    and step_takes: "inv s \<Longrightarrow> step s t \<Longrightarrow> left s = Suc (left t)"
    and step_or_blocked: "inv s \<Longrightarrow> 0 < left s \<Longrightarrow> blocked s \<or> (\<exists>t. step s t)"
    and final_at_end: "inv s \<Longrightarrow> left s = 0 \<Longrightarrow> final s"
begin

lemma run_takes: "inv s \<Longrightarrow> (step ^^ n) s t \<Longrightarrow> inv t \<and> left s = n + left t"
  by (induction n arbitrary: t) (fastforce dest: step_takes intro: step_keeps)+

lemma run_ends: "inv s \<Longrightarrow> \<exists>n t. (step ^^ n) s t \<and> (n = left s \<and> final t \<or> n < left s \<and> blocked t)"
proof (induction "left s" arbitrary: s)
  case 0
  then show ?case using final_at_end by (metis relpowp_0_I)
next
  case (Suc n)
  show ?case
  proof (cases "\<exists>t. step s t")
    case False
    then have "blocked s" using step_or_blocked Suc.prems Suc.hyps(2) by fastforce
    then show ?thesis using Suc.hyps(2) by (metis relpowp_0_I zero_less_Suc)
  next
    case True
    then obtain t where t: "step s t" by blast
    then have l: "left t = n" "inv t" using step_takes [OF Suc.prems t] Suc.hyps(2) step_keeps [OF Suc.prems t] by simp_all
    with Suc.hyps(1) obtain m r where r: "(step ^^ m) t r" "m = left t \<and> final r \<or> m < left t \<and> blocked r" by blast
    have "(step ^^ Suc m) s r" by (rule relpowp_Suc_I2 [OF t r(1)])
    then show ?thesis using r(2) l(1) Suc.hyps(2) by (metis Suc_mono)
  qed
qed

lemma completes_unblocked:
  assumes "inv s" and "\<And>t. step\<^sup>*\<^sup>* s t \<Longrightarrow> \<not> blocked t"
  shows "\<exists>t. (step ^^ left s) s t \<and> final t"
  using run_ends [OF assms(1)] assms(2) relpowp_imp_rtranclp by metis

end

text \<open>Systems that are never blocked.\<close>

locale work_system = fallible_work step inv left final "\<lambda>_. False"
  for step :: "'s \<Rightarrow> 's \<Rightarrow> bool" and inv and left and final
begin

lemma completes: "inv s \<Longrightarrow> \<exists>t. (step ^^ left s) s t \<and> final t"
  using run_ends by auto

end

sublocale fallible_work \<subseteq> invariant_system inv step inv
  by unfold_locales (auto intro: step_keeps)

end
