(* ===== verification/GT_Bitops.thy ===== *)
theory GT_Bitops
  imports GT_Prelude
begin

unbundle bit_operations_syntax

text \<open>
  The bit macros of gt_bitops.h on 32-bit masks. \<open>SET_BIT\<close> and \<open>RESET_BIT\<close> are the
  \<open>bts\<close> and \<open>btr\<close> instructions, \<open>IS_BIT_SET\<close> is the C expression \<open>m & (1<<off)\<close> and
  \<open>LOWEST_BIT_SET\<close> is \<open>bsf\<close>, whose destination is undefined for a zero source: reading it is a
  fault. The macros are used with offsets below 32 only: every caller has used the same offset to
  index an array of 32 entries before, which faults in the model when the offset is out of range.
\<close>

definition SET_BIT :: "u32 \<Rightarrow> nat \<Rightarrow> u32" where
  "SET_BIT m off = m OR push_bit off 1"

definition RESET_BIT :: "u32 \<Rightarrow> nat \<Rightarrow> u32" where
  "RESET_BIT m off = m AND NOT (push_bit off 1)"

definition IS_BIT_SET :: "u32 \<Rightarrow> nat \<Rightarrow> u32" where
  "IS_BIT_SET m off = m AND push_bit off 1"

function bsf_from :: "nat \<Rightarrow> u32 \<Rightarrow> nat res" where
  "bsf_from i m =
     (if i < 32 then if bit m i then Inr i else bsf_from (Suc i) m else Inl Undefined)"
  by pat_completeness auto
termination
  by (relation "measure (\<lambda>(i, m). 32 - i)") auto

definition LOWEST_BIT_SET :: "u32 \<Rightarrow> nat res" where
  "LOWEST_BIT_SET m = bsf_from 0 m"

declare bsf_from.simps [simp del]

lemma bit_SET_BIT [simp]: "n < 32 \<Longrightarrow> bit (SET_BIT m off) n \<longleftrightarrow> n = off \<or> bit m n"
  by (auto simp: SET_BIT_def bit_simps)

lemma bit_RESET_BIT [simp]: "n < 32 \<Longrightarrow> bit (RESET_BIT m off) n \<longleftrightarrow> n \<noteq> off \<and> bit m n"
  by (auto simp: RESET_BIT_def bit_simps)

lemma IS_BIT_SET_iff: "off < 32 \<Longrightarrow> IS_BIT_SET m off \<noteq> 0 \<longleftrightarrow> bit m off"
  by (simp add: IS_BIT_SET_def push_bit_eq_mult and_exp_eq_0_iff_not_bit)

lemma SET_BIT_idem: "off < 32 \<Longrightarrow> bit m off \<Longrightarrow> SET_BIT m off = m"
  by (rule bit_word_eqI) auto

text \<open>The guarded update \<open>if(!IS_BIT_SET(m, o)) SET_BIT(m, o);\<close> of the callers.\<close>

lemma guarded_SET_BIT:
  "off < 32 \<Longrightarrow> (if IS_BIT_SET m off = 0 then SET_BIT m off else m) = SET_BIT m off"
  by (metis IS_BIT_SET_iff SET_BIT_idem)

lemma mask_zero_iff: "(m :: u32) = 0 \<longleftrightarrow> (\<forall>n<32. \<not> bit m n)"
  by (auto simp: bit_eq_iff dest: bit_imp_le_length)

lemma bsf_from_Inr:
  "bsf_from i m = Inr p \<longleftrightarrow> i \<le> p \<and> p < 32 \<and> bit m p \<and> (\<forall>q. i \<le> q \<and> q < p \<longrightarrow> \<not> bit m q)"
proof (induction i m rule: bsf_from.induct)
  case (1 i m)
  show ?case
  proof (cases "i < 32 \<and> \<not> bit m i")
    case True
    with "1.IH" have "bsf_from i m = Inr p \<longleftrightarrow>
      Suc i \<le> p \<and> p < 32 \<and> bit m p \<and> (\<forall>q. Suc i \<le> q \<and> q < p \<longrightarrow> \<not> bit m q)"
      by (simp add: bsf_from.simps [of i])
    with True show ?thesis by (metis Suc_leD le_antisym not_less_eq_eq)
  next
    case False
    then show ?thesis by (auto simp: bsf_from.simps [of i] not_le) 
  qed
qed

lemma LOWEST_BIT_SET_Inr:
  "LOWEST_BIT_SET m = Inr p \<longleftrightarrow> p < 32 \<and> bit m p \<and> (\<forall>q<p. \<not> bit m q)"
  by (auto simp: LOWEST_BIT_SET_def bsf_from_Inr)

lemma LOWEST_BIT_SET_ex:
  assumes "m \<noteq> 0"
  shows "\<exists>p. LOWEST_BIT_SET m = Inr p"
proof -
  from assms have "\<exists>n. n < 32 \<and> bit m n" by (simp add: mask_zero_iff)
  then obtain p where p: "p < 32 \<and> bit m p" and least: "\<And>q. q < p \<Longrightarrow> \<not> (q < 32 \<and> bit m q)"
    using exists_least_iff [of "\<lambda>n. n < 32 \<and> bit m n"] by blast
  have "\<not> bit m q" if "q < p" for q
    using least [OF that] p that by simp
  with p have "LOWEST_BIT_SET m = Inr p" by (simp add: LOWEST_BIT_SET_Inr)
  then show ?thesis ..
qed

lemma bsf_from_Inl: "bsf_from i m = Inl f \<Longrightarrow> f = Undefined"
  by (induction i m rule: bsf_from.induct) (simp add: bsf_from.simps [of _ m for m] split: if_splits)

lemma LOWEST_BIT_SET_zero: "LOWEST_BIT_SET m = Inl Undefined \<longleftrightarrow> m = 0"
proof
  show "m = 0" if "LOWEST_BIT_SET m = Inl Undefined"
    using that LOWEST_BIT_SET_ex [of m] by force
  assume "m = 0"
  then have "LOWEST_BIT_SET m \<noteq> Inr p" for p by (simp add: LOWEST_BIT_SET_Inr)
  then obtain f where f: "LOWEST_BIT_SET m = Inl f" by (cases "LOWEST_BIT_SET m") auto
  then have "f = Undefined" unfolding LOWEST_BIT_SET_def by (rule bsf_from_Inl)
  with f show "LOWEST_BIT_SET m = Inl Undefined" by simp
qed

end
