(* ===== verification/GT_Spinlock.thy ===== *)
theory GT_Spinlock
  imports GT_Prelude
begin

text \<open>
  gt_spinlock.h and gt_spinlock.c. The first group of definitions is the code as one thread runs
  it alone: the spin loop is a loop that may not end, so its result is an option, and a lock
  operation on a word nobody will clear is the fault \<open>SpinForever\<close>. The second group is the same
  code as a step relation of any number of threads, in which the read of the lock word and the
  \<open>xchg\<close> are separate atomic steps, as in \<open>gt_actual_spinlock\<close>.
\<close>

record gt_spinlock_t =
  locked :: int
  holder :: u32

subsection \<open>The code, run by one thread\<close>

text \<open>A null pointer argument is \<open>None\<close>; the result pairs the return value with what the pointer
  refers to afterwards.\<close>

definition gt_spinlock_init :: "gt_spinlock_t option \<Rightarrow> int \<times> gt_spinlock_t option" where
  "gt_spinlock_init spinlock =
     (case spinlock of
        None \<Rightarrow> (-1, None)
      | Some l \<Rightarrow> (0, Some (l\<lparr>locked := 0\<rparr>)))"

text \<open>\<open>spin_loop sp_val w\<close>: the \<open>while(sp_val)\<close> loop with \<open>w\<close> in the lock word. The exchange
  stores 1 in the word and the old word in \<open>sp_val\<close>.\<close>

partial_function (option) spin_loop :: "int \<Rightarrow> int \<Rightarrow> int option" where
  "spin_loop sp_val w =
     (if sp_val = 0 then Some w
      else if w = 0 then spin_loop w 1
      else spin_loop sp_val w)"

definition gt_actual_spinlock :: "int \<Rightarrow> int option" where
  "gt_actual_spinlock w = spin_loop 1 w"

definition gt_spin_lock :: "gt_spinlock_t option \<Rightarrow> (int \<times> gt_spinlock_t option) res" where
  "gt_spin_lock spinlock =
     (case spinlock of
        None \<Rightarrow> Inr (-1, None)
      | Some l \<Rightarrow>
          (case gt_actual_spinlock (locked l) of
             None \<Rightarrow> Inl SpinForever
           | Some w \<Rightarrow> Inr (0, Some (l\<lparr>locked := w\<rparr>))))"

definition gt_spin_unlock :: "gt_spinlock_t option \<Rightarrow> int \<times> gt_spinlock_t option" where
  "gt_spin_unlock spinlock =
     (case spinlock of
        None \<Rightarrow> (-1, None)
      | Some l \<Rightarrow> (0, Some (if locked l \<noteq> 0 then l\<lparr>locked := 0\<rparr> else l)))"

text \<open>The calls \<open>gt_spin_lock(&x)\<close> and \<open>gt_spin_unlock(&x)\<close> of a lock embedded in a struct: the
  pointer is never null and the return value is ignored.\<close>

definition spin_lock_at :: "gt_spinlock_t \<Rightarrow> gt_spinlock_t res" where
  "spin_lock_at l = rbind (gt_spin_lock (Some l)) (\<lambda>(_, p). deref p Inr)"

definition spin_unlock_at :: "gt_spinlock_t \<Rightarrow> gt_spinlock_t" where
  "spin_unlock_at l = (case gt_spin_unlock (Some l) of (_, Some l') \<Rightarrow> l' | (_, None) \<Rightarrow> l)"

subsection \<open>The code, run by many threads\<close>

text \<open>Where a thread is: before the call, at the read of the lock word, between that read and the
  \<open>xchg\<close>, after the loop (in the critical section), between the read and the write of
  \<open>gt_spin_unlock\<close>.\<close>

datatype spin_pc = Outside | Testing | Exchanging | Inside | Leaving

record spin_sys =
  lock_word :: int
  pcs :: "nat \<Rightarrow> spin_pc"

definition spin_init :: "spin_sys \<Rightarrow> bool" where
  "spin_init s \<longleftrightarrow> lock_word s = 0 \<and> pcs s = (\<lambda>_. Outside)"

inductive spin_step :: "spin_sys \<Rightarrow> spin_sys \<Rightarrow> bool" where
  call: "pcs s i = Outside \<Longrightarrow> spin_step s (s\<lparr>pcs := (pcs s)(i := Testing)\<rparr>)"
| read_held: "pcs s i = Testing \<Longrightarrow> lock_word s \<noteq> 0 \<Longrightarrow> spin_step s s"
| read_free: "pcs s i = Testing \<Longrightarrow> lock_word s = 0 \<Longrightarrow>
     spin_step s (s\<lparr>pcs := (pcs s)(i := Exchanging)\<rparr>)"
| xchg: "pcs s i = Exchanging \<Longrightarrow> old = lock_word s \<Longrightarrow>
     spin_step s (s\<lparr>lock_word := 1, pcs := (pcs s)(i := (if old = 0 then Inside else Testing))\<rparr>)"
| unlock_read: "pcs s i = Inside \<Longrightarrow>
     spin_step s (s\<lparr>pcs := (pcs s)(i := (if lock_word s \<noteq> 0 then Leaving else Outside))\<rparr>)"
| unlock_write: "pcs s i = Leaving \<Longrightarrow>
     spin_step s (s\<lparr>lock_word := 0, pcs := (pcs s)(i := Outside)\<rparr>)"

definition owns :: "spin_sys \<Rightarrow> nat \<Rightarrow> bool" where
  "owns s i \<longleftrightarrow> pcs s i = Inside \<or> pcs s i = Leaving"

definition spin_inv :: "spin_sys \<Rightarrow> bool" where
  "spin_inv s \<longleftrightarrow>
     (\<forall>i. owns s i \<longrightarrow> lock_word s \<noteq> 0) \<and>
     (\<forall>i j. owns s i \<longrightarrow> owns s j \<longrightarrow> i = j) \<and>
     (lock_word s \<noteq> 0 \<longrightarrow> (\<exists>i. owns s i))"

subsection \<open>Sequential behaviour\<close>

lemma spin_loop_held: "sp_val \<noteq> 0 \<Longrightarrow> w \<noteq> 0 \<Longrightarrow> spin_loop sp_val w = None"
proof (rule ccontr)
  assume held: "sp_val \<noteq> 0" "w \<noteq> 0" and "spin_loop sp_val w \<noteq> None"
  then obtain r where ret: "spin_loop sp_val w = Some r" by blast
  have "sp_val \<noteq> 0 \<longrightarrow> w = 0"
  proof (rule spin_loop.raw_induct [where P = "\<lambda>sp w r. sp \<noteq> 0 \<longrightarrow> w = 0", OF _ ret])
    fix loop sp v r
    assume "\<And>sp w r. loop sp w = Some r \<Longrightarrow> sp \<noteq> (0::int) \<longrightarrow> w = (0::int)"
      and "(if sp = 0 then Some v else if v = 0 then loop v 1 else loop sp v) = Some r"
    then show "sp \<noteq> 0 \<longrightarrow> v = 0" by (auto split: if_splits)
  qed
  with held show False by simp
qed

lemma gt_actual_spinlock_eq: "gt_actual_spinlock w = (if w = 0 then Some 1 else None)"
  by (simp add: gt_actual_spinlock_def spin_loop.simps [of 1 0] spin_loop.simps [of 0 1] spin_loop_held)

lemma spin_lock_at_eq:
  "spin_lock_at l = (if locked l = 0 then Inr (l\<lparr>locked := 1\<rparr>) else Inl SpinForever)"
  by (simp add: spin_lock_at_def gt_spin_lock_def gt_actual_spinlock_eq)

lemma spin_lock_at_free [simp]: "locked l = 0 \<Longrightarrow> spin_lock_at l = Inr (l\<lparr>locked := 1\<rparr>)"
  by (simp add: spin_lock_at_eq)

lemma spin_lock_at_Inr [result_simps]:
  "spin_lock_at l = Inr l' \<longleftrightarrow> locked l = 0 \<and> l' = l\<lparr>locked := 1\<rparr>"
  by (auto simp: spin_lock_at_eq)

lemma locked_spin_unlock_at [simp]: "locked (spin_unlock_at l) = 0"
  by (simp add: spin_unlock_at_def gt_spin_unlock_def)

lemma holder_spin_unlock_at [simp]: "holder (spin_unlock_at l) = holder l"
  by (simp add: spin_unlock_at_def gt_spin_unlock_def)

subsection \<open>Mutual exclusion\<close>

lemma spin_step_inv: "spin_inv s \<Longrightarrow> spin_step s t \<Longrightarrow> spin_inv t"
  by (erule spin_step.cases;
      auto simp: spin_inv_def owns_def split: if_splits;
      metis spin_pc.distinct)

interpretation spin: invariant_system spin_init spin_step spin_inv
proof
  show "spin_inv s" if "spin_init s" for s
    using that by (simp add: spin_init_def spin_inv_def owns_def)
qed (rule spin_step_inv)

lemma unlocked_progress:
  assumes "lock_word s = 0" and "pcs s i = Testing"
  shows "\<exists>t. spin_step\<^sup>*\<^sup>* s t \<and> pcs t i = Inside"
proof -
  let ?u = "s\<lparr>pcs := (pcs s)(i := Exchanging)\<rparr>"
  have "spin_step s ?u"
    using assms by (intro read_free)
  moreover have "spin_step ?u (?u\<lparr>lock_word := 1, pcs := (pcs ?u)(i := (if lock_word ?u = 0 then Inside else Testing))\<rparr>)"
    by (rule xchg) simp_all
  ultimately have "spin_step\<^sup>*\<^sup>* s (?u\<lparr>lock_word := 1, pcs := (pcs ?u)(i := Inside)\<rparr>)"
    using assms(1) by (auto intro: converse_rtranclp_into_rtranclp)
  then show ?thesis by fastforce
qed

end
