(* ===== verification/GT_Tailq.thy ===== *)
theory GT_Tailq
  imports GT_Prelude
begin

text \<open>
  gt_tailq.h: the tail queue macros, on an explicit store of list heads and list links. A tail
  queue mixes pointers to elements (\<open>tqh_first\<close>, \<open>tqe_next\<close>) with pointers to the cells that
  hold such pointers (\<open>tqh_last\<close>, \<open>tqe_prev\<close>): a cell is either the \<open>tqh_first\<close> of a head or the
  \<open>tqe_next\<close> of an element. Null pointers are \<open>None\<close>, and storing through one is a fault, so a
  queue that was never initialised cannot be used silently.

  The macros are shown to implement finite sequences (\<open>tq_rep\<close>), for a whole family of queues over
  one set of links (\<open>tq_world\<close>), because the scheduler threads every runqueue and every zombie list
  through the same \<open>uthread_runq\<close> link.
\<close>

datatype ('h, 'e) slot = FirstOf 'h | NextOf 'e

record ('h, 'e) tailqs =
  tqh_first :: "'h \<Rightarrow> 'e option"
  tqh_last :: "'h \<Rightarrow> ('h, 'e) slot option"
  tqe_next :: "'e \<Rightarrow> 'e option"
  tqe_prev :: "'e \<Rightarrow> ('h, 'e) slot option"

subsection \<open>Cells\<close>

fun load :: "('h, 'e) tailqs \<Rightarrow> ('h, 'e) slot \<Rightarrow> 'e option" where
  "load hp (FirstOf h) = tqh_first hp h"
| "load hp (NextOf e) = tqe_next hp e"

fun store :: "('h, 'e) slot \<Rightarrow> 'e option \<Rightarrow> ('h, 'e) tailqs \<Rightarrow> ('h, 'e) tailqs" where
  "store (FirstOf h) v hp = hp\<lparr>tqh_first := (tqh_first hp)(h := v)\<rparr>"
| "store (NextOf e) v hp = hp\<lparr>tqe_next := (tqe_next hp)(e := v)\<rparr>"

text \<open>A head and a link have the same layout, first the pointer to an element, then the pointer to
  a cell. \<open>TAILQ_LAST\<close> and \<open>TAILQ_PREV\<close> cast the cell they find to a head and read its second
  field.\<close>

fun second_field :: "('h, 'e) tailqs \<Rightarrow> ('h, 'e) slot \<Rightarrow> ('h, 'e) slot option" where
  "second_field hp (FirstOf h) = tqh_last hp h"
| "second_field hp (NextOf e) = tqe_prev hp e"

subsection \<open>The macros\<close>

definition TAILQ_EMPTY :: "'h \<Rightarrow> ('h, 'e) tailqs \<Rightarrow> bool" where
  "TAILQ_EMPTY h hp \<longleftrightarrow> tqh_first hp h = None"

definition TAILQ_FIRST :: "'h \<Rightarrow> ('h, 'e) tailqs \<Rightarrow> 'e option" where
  "TAILQ_FIRST h hp = tqh_first hp h"

definition TAILQ_NEXT :: "'e \<Rightarrow> ('h, 'e) tailqs \<Rightarrow> 'e option" where
  "TAILQ_NEXT e hp = tqe_next hp e"

definition TAILQ_INIT :: "'h \<Rightarrow> ('h, 'e) tailqs \<Rightarrow> ('h, 'e) tailqs" where
  "TAILQ_INIT h hp =
     hp\<lparr>tqh_first := (tqh_first hp)(h := None), tqh_last := (tqh_last hp)(h := Some (FirstOf h))\<rparr>"

definition TAILQ_INSERT_AFTER :: "'h \<Rightarrow> 'e \<Rightarrow> 'e \<Rightarrow> ('h, 'e) tailqs \<Rightarrow> ('h, 'e) tailqs" where
  "TAILQ_INSERT_AFTER h listelm elm hp =
     (let hp1 = hp\<lparr>tqe_next := (tqe_next hp)(elm := tqe_next hp listelm)\<rparr>;
          hp2 = (case tqe_next hp1 elm of
                   Some n \<Rightarrow> hp1\<lparr>tqe_prev := (tqe_prev hp1)(n := Some (NextOf elm))\<rparr>
                 | None \<Rightarrow> hp1\<lparr>tqh_last := (tqh_last hp1)(h := Some (NextOf elm))\<rparr>);
          hp3 = hp2\<lparr>tqe_next := (tqe_next hp2)(listelm := Some elm)\<rparr>
      in hp3\<lparr>tqe_prev := (tqe_prev hp3)(elm := Some (NextOf listelm))\<rparr>)"

definition TAILQ_INSERT_BEFORE :: "'e \<Rightarrow> 'e \<Rightarrow> ('h, 'e) tailqs \<Rightarrow> ('h, 'e) tailqs res" where
  "TAILQ_INSERT_BEFORE listelm elm hp =
     (let hp1 = hp\<lparr>tqe_prev := (tqe_prev hp)(elm := tqe_prev hp listelm)\<rparr>;
          hp2 = hp1\<lparr>tqe_next := (tqe_next hp1)(elm := Some listelm)\<rparr>
      in deref (tqe_prev hp2 listelm) (\<lambda>sl.
         let hp3 = store sl (Some elm) hp2
         in Inr (hp3\<lparr>tqe_prev := (tqe_prev hp3)(listelm := Some (NextOf elm))\<rparr>)))"

definition TAILQ_INSERT_HEAD :: "'h \<Rightarrow> 'e \<Rightarrow> ('h, 'e) tailqs \<Rightarrow> ('h, 'e) tailqs" where
  "TAILQ_INSERT_HEAD h elm hp =
     (let hp1 = hp\<lparr>tqe_next := (tqe_next hp)(elm := tqh_first hp h)\<rparr>;
          hp2 = (case tqe_next hp1 elm of
                   Some n \<Rightarrow> hp1\<lparr>tqe_prev := (tqe_prev hp1)(n := Some (NextOf elm))\<rparr>
                 | None \<Rightarrow> hp1\<lparr>tqh_last := (tqh_last hp1)(h := Some (NextOf elm))\<rparr>);
          hp3 = hp2\<lparr>tqh_first := (tqh_first hp2)(h := Some elm)\<rparr>
      in hp3\<lparr>tqe_prev := (tqe_prev hp3)(elm := Some (FirstOf h))\<rparr>)"

definition TAILQ_INSERT_TAIL :: "'h \<Rightarrow> 'e \<Rightarrow> ('h, 'e) tailqs \<Rightarrow> ('h, 'e) tailqs res" where
  "TAILQ_INSERT_TAIL h elm hp =
     (let hp1 = hp\<lparr>tqe_next := (tqe_next hp)(elm := None)\<rparr>;
          hp2 = hp1\<lparr>tqe_prev := (tqe_prev hp1)(elm := tqh_last hp1 h)\<rparr>
      in deref (tqh_last hp2 h) (\<lambda>sl.
         let hp3 = store sl (Some elm) hp2
         in Inr (hp3\<lparr>tqh_last := (tqh_last hp3)(h := Some (NextOf elm))\<rparr>)))"

definition TAILQ_LAST :: "'h \<Rightarrow> ('h, 'e) tailqs \<Rightarrow> 'e option res" where
  "TAILQ_LAST h hp =
     deref (tqh_last hp h) (\<lambda>sl. deref (second_field hp sl) (\<lambda>sl'. Inr (load hp sl')))"

definition TAILQ_PREV :: "'e \<Rightarrow> ('h, 'e) tailqs \<Rightarrow> 'e option res" where
  "TAILQ_PREV elm hp =
     deref (tqe_prev hp elm) (\<lambda>sl. deref (second_field hp sl) (\<lambda>sl'. Inr (load hp sl')))"

definition TAILQ_REMOVE :: "'h \<Rightarrow> 'e \<Rightarrow> ('h, 'e) tailqs \<Rightarrow> ('h, 'e) tailqs res" where
  "TAILQ_REMOVE h elm hp =
     (let hp1 = (case tqe_next hp elm of
                   Some n \<Rightarrow> hp\<lparr>tqe_prev := (tqe_prev hp)(n := tqe_prev hp elm)\<rparr>
                 | None \<Rightarrow> hp\<lparr>tqh_last := (tqh_last hp)(h := tqe_prev hp elm)\<rparr>)
      in deref (tqe_prev hp1 elm) (\<lambda>sl. Inr (store sl (tqe_next hp1 elm) hp1)))"

text \<open>The loops \<open>TAILQ_FOREACH\<close> and \<open>TAILQ_FOREACH_REVERSE\<close>, as the list of the elements they visit.
  A loop over a corrupt list may not end: they take the number of iterations allowed, and running
  out of it is \<open>None\<close>.\<close>

fun foreach_from :: "nat \<Rightarrow> 'e option \<Rightarrow> ('h, 'e) tailqs \<Rightarrow> 'e list option" where
  "foreach_from n None hp = Some []"
| "foreach_from 0 (Some e) hp = None"
| "foreach_from (Suc n) (Some e) hp = map_option ((#) e) (foreach_from n (TAILQ_NEXT e hp) hp)"

definition TAILQ_FOREACH :: "nat \<Rightarrow> 'h \<Rightarrow> ('h, 'e) tailqs \<Rightarrow> 'e list option" where
  "TAILQ_FOREACH n h hp = foreach_from n (TAILQ_FIRST h hp) hp"

fun foreach_rev_from :: "nat \<Rightarrow> 'e option \<Rightarrow> ('h, 'e) tailqs \<Rightarrow> 'e list option res" where
  "foreach_rev_from n None hp = Inr (Some [])"
| "foreach_rev_from 0 (Some e) hp = Inr None"
| "foreach_rev_from (Suc n) (Some e) hp =
     rbind (TAILQ_PREV e hp) (\<lambda>p.
     rbind (foreach_rev_from n p hp) (\<lambda>es. Inr (map_option ((#) e) es)))"

definition TAILQ_FOREACH_REVERSE :: "nat \<Rightarrow> 'h \<Rightarrow> ('h, 'e) tailqs \<Rightarrow> 'e list option res" where
  "TAILQ_FOREACH_REVERSE n h hp = rbind (TAILQ_LAST h hp) (\<lambda>p. foreach_rev_from n p hp)"

subsection \<open>What a tail queue represents\<close>

text \<open>\<open>seg hp s xs\<close>: following the links from the cell \<open>s\<close> one meets the elements \<open>xs\<close> in order, and
  each element's \<open>tqe_prev\<close> points back to the cell that points to it.\<close>

fun seg :: "('h, 'e) tailqs \<Rightarrow> ('h, 'e) slot \<Rightarrow> 'e list \<Rightarrow> bool" where
  "seg hp s [] \<longleftrightarrow> True"
| "seg hp s (x # xs) \<longleftrightarrow> load hp s = Some x \<and> tqe_prev hp x = Some s \<and> seg hp (NextOf x) xs"

fun end_slot :: "('h, 'e) slot \<Rightarrow> 'e list \<Rightarrow> ('h, 'e) slot" where
  "end_slot s [] = s"
| "end_slot s (x # xs) = end_slot (NextOf x) xs"

definition tq_rep :: "('h, 'e) tailqs \<Rightarrow> 'h \<Rightarrow> 'e list \<Rightarrow> bool" where
  "tq_rep hp h xs \<longleftrightarrow>
     distinct xs \<and> seg hp (FirstOf h) xs \<and> load hp (end_slot (FirstOf h) xs) = None \<and>
     tqh_last hp h = Some (end_slot (FirstOf h) xs)"

definition tq_world :: "'h set \<Rightarrow> ('h, 'e) tailqs \<Rightarrow> ('h \<Rightarrow> 'e list) \<Rightarrow> bool" where
  "tq_world H hp Q \<longleftrightarrow>
     (\<forall>h\<in>H. tq_rep hp h (Q h)) \<and>
     (\<forall>h\<in>H. \<forall>h'\<in>H. h \<noteq> h' \<longrightarrow> set (Q h) \<inter> set (Q h') = {})"

definition queued :: "'h set \<Rightarrow> ('h \<Rightarrow> 'e list) \<Rightarrow> 'e set" where
  "queued H Q = (\<Union>h\<in>H. set (Q h))"

subsection \<open>Segments\<close>

lemma seg_append: "seg hp s (xs @ ys) \<longleftrightarrow> seg hp s xs \<and> seg hp (end_slot s xs) ys"
  by (induction xs arbitrary: s) auto

lemma end_slot_append [simp]: "end_slot s (xs @ ys) = end_slot (end_slot s xs) ys"
  by (induction xs arbitrary: s) auto

lemma end_slot_cases: "end_slot s xs = (if xs = [] then s else NextOf (last xs))"
  by (induction xs arbitrary: s) auto

lemma end_slot_FirstOf: "end_slot (FirstOf h) xs = FirstOf h' \<longleftrightarrow> xs = [] \<and> h' = h"
  by (auto simp: end_slot_cases)

lemma load_store: "load (store sl v hp) sl' = (if sl' = sl then v else load hp sl')"
  by (cases sl; cases sl') auto

lemma tqe_prev_store [simp]: "tqe_prev (store sl v hp) = tqe_prev hp"
  by (cases sl) auto

lemma tqh_last_store [simp]: "tqh_last (store sl v hp) = tqh_last hp"
  by (cases sl) auto

lemma load_upd [simp]:
  "load (hp\<lparr>tqe_prev := p\<rparr>) sl = load hp sl"
  "load (hp\<lparr>tqh_last := l\<rparr>) sl = load hp sl"
  by (cases sl; simp)+

text \<open>A segment depends on the cells its links are read from and on the back pointers of its
  elements only.\<close>

lemma seg_frame:
  assumes "\<And>sl. sl \<in> set (butlast (s # map NextOf xs)) \<Longrightarrow> load hp' sl = load hp sl"
    and "\<And>x. x \<in> set xs \<Longrightarrow> tqe_prev hp' x = tqe_prev hp x"
  shows "seg hp' s xs = seg hp s xs"
  using assms
proof (induction xs arbitrary: s)
  case (Cons x xs)
  have "seg hp' (NextOf x) xs = seg hp (NextOf x) xs"
    using Cons.prems by (intro Cons.IH) auto
  with Cons.prems show ?case by auto
qed simp

lemma butlast_slots_subset: "sl \<in> set (butlast (s # map NextOf xs)) \<Longrightarrow> sl = s \<or> (\<exists>x\<in>set xs. sl = NextOf x)"
  by (drule in_set_butlastD) auto

lemma end_slot_not_in_butlast:
  assumes "distinct xs"
  shows "end_slot (FirstOf h) xs \<notin> set (butlast (FirstOf h # map NextOf xs))"
proof (cases xs rule: rev_cases)
  case (snoc ys y)
  with assms show ?thesis by (auto simp: butlast_append)
qed simp

text \<open>What an operation on the queue \<open>h\<close> may change: the head \<open>h\<close> and the links of the elements
  in \<open>X\<close>.\<close>

definition changes_only :: "'h \<Rightarrow> 'e set \<Rightarrow> ('h, 'e) tailqs \<Rightarrow> ('h, 'e) tailqs \<Rightarrow> bool" where
  "changes_only h X hp hp' \<longleftrightarrow>
     (\<forall>h'. h' \<noteq> h \<longrightarrow> tqh_first hp' h' = tqh_first hp h' \<and> tqh_last hp' h' = tqh_last hp h') \<and>
     (\<forall>x. x \<notin> X \<longrightarrow> tqe_next hp' x = tqe_next hp x \<and> tqe_prev hp' x = tqe_prev hp x)"

lemma seg_frame_all:
  assumes "\<And>sl. sl = s \<or> (\<exists>x\<in>set xs. sl = NextOf x) \<Longrightarrow> load hp' sl = load hp sl"
    and "\<And>x. x \<in> set xs \<Longrightarrow> tqe_prev hp' x = tqe_prev hp x"
  shows "seg hp' s xs = seg hp s xs"
  by (rule seg_frame) (blast intro: assms dest: butlast_slots_subset)+

lemma tq_rep_frame:
  assumes rep: "tq_rep hp h' xs" and ch: "changes_only h X hp hp'"
    and "h' \<noteq> h" and "set xs \<inter> X = {}"
  shows "tq_rep hp' h' xs"
proof -
  have same: "load hp' sl = load hp sl" if "sl = FirstOf h' \<or> (\<exists>x\<in>set xs. sl = NextOf x)" for sl
    using that assms by (auto simp: changes_only_def)
  have "seg hp' (FirstOf h') xs = seg hp (FirstOf h') xs"
    using assms by (intro seg_frame_all same) (auto simp: changes_only_def)
  moreover have "load hp' (end_slot (FirstOf h') xs) = load hp (end_slot (FirstOf h') xs)"
    by (rule same) (auto simp: end_slot_cases)
  moreover have "tqh_last hp' h' = tqh_last hp h'"
    using ch \<open>h' \<noteq> h\<close> by (simp add: changes_only_def)
  ultimately show ?thesis using rep by (simp add: tq_rep_def)
qed

lemma tq_world_upd:
  assumes w: "tq_world H hp Q" and h: "h \<in> H"
    and ch: "changes_only h X hp hp'" and rep: "tq_rep hp' h xs"
    and X: "\<And>h'. h' \<in> H \<Longrightarrow> h' \<noteq> h \<Longrightarrow> set (Q h') \<inter> X = {}"
    and xs: "set xs \<subseteq> X"
  shows "tq_world H hp' (Q(h := xs))"
proof -
  have "tq_rep hp' h' (Q h')" if "h' \<in> H" "h' \<noteq> h" for h'
  proof (rule tq_rep_frame [OF _ ch that(2) X [OF that]])
    show "tq_rep hp h' (Q h')" using w that by (simp add: tq_world_def)
  qed
  then have reps: "\<forall>h'\<in>H. tq_rep hp' h' ((Q(h := xs)) h')" using rep by simp
  have disj: "set ((Q(h := xs)) a) \<inter> set ((Q(h := xs)) b) = {}"
    if "a \<in> H" "b \<in> H" "a \<noteq> b" for a b
  proof (cases "a = h \<or> b = h")
    case True
    with that X [of a] X [of b] xs show ?thesis by auto
  next
    case False
    with that w show ?thesis by (simp add: tq_world_def)
  qed
  from reps disj show ?thesis by (simp only: tq_world_def) blast
qed

subsection \<open>Each macro on the sequence\<close>

lemma TAILQ_INIT_rep: "tq_rep (TAILQ_INIT h hp) h []"
  by (simp add: tq_rep_def TAILQ_INIT_def)

lemma TAILQ_INIT_changes: "changes_only h {} hp (TAILQ_INIT h hp)"
  by (simp add: changes_only_def TAILQ_INIT_def)

lemma TAILQ_FIRST_rep: "tq_rep hp h xs \<Longrightarrow> TAILQ_FIRST h hp = (if xs = [] then None else Some (hd xs))"
  by (cases xs) (auto simp: tq_rep_def TAILQ_FIRST_def)

lemma TAILQ_EMPTY_rep: "tq_rep hp h xs \<Longrightarrow> TAILQ_EMPTY h hp \<longleftrightarrow> xs = []"
  by (cases xs) (auto simp: tq_rep_def TAILQ_EMPTY_def)

lemma TAILQ_INSERT_TAIL_rep:
  assumes rep: "tq_rep hp h xs" and e: "e \<notin> set xs"
  obtains hp' where "TAILQ_INSERT_TAIL h e hp = Inr hp'" and "tq_rep hp' h (xs @ [e])"
    and "changes_only h (insert e (set xs)) hp hp'"
proof -
  let ?t = "end_slot (FirstOf h) xs"
  define hp1 where "hp1 = hp\<lparr>tqe_next := (tqe_next hp)(e := None), tqe_prev := (tqe_prev hp)(e := Some ?t)\<rparr>"
  define hp' where "hp' = (store ?t (Some e) hp1)\<lparr>tqh_last := (tqh_last hp)(h := Some (NextOf e))\<rparr>"
  have last: "tqh_last hp h = Some ?t" using rep by (simp add: tq_rep_def)
  have run: "TAILQ_INSERT_TAIL h e hp = Inr hp'"
    by (simp add: TAILQ_INSERT_TAIL_def Let_def last hp'_def hp1_def)
  have "load hp1 sl = (if sl = NextOf e then None else load hp sl)" for sl
    by (cases sl) (simp_all add: hp1_def)
  then have ld: "load hp' sl = (if sl = ?t then Some e else if sl = NextOf e then None else load hp sl)" for sl
    by (simp add: hp'_def load_store)
  have prev: "tqe_prev hp' = (tqe_prev hp)(e := Some ?t)" by (simp add: hp'_def hp1_def)
  have last': "tqh_last hp' = (tqh_last hp)(h := Some (NextOf e))" by (simp add: hp'_def)
  have t: "?t \<noteq> NextOf e" using e by (auto simp: end_slot_cases)
  have "seg hp' (FirstOf h) xs = seg hp (FirstOf h) xs"
  proof (rule seg_frame)
    fix sl assume sl: "sl \<in> set (butlast (FirstOf h # map NextOf xs))"
    then have "sl \<noteq> ?t" using end_slot_not_in_butlast [of xs h] rep by (auto simp: tq_rep_def)
    moreover have "sl \<noteq> NextOf e" using butlast_slots_subset [OF sl] e by auto
    ultimately show "load hp' sl = load hp sl" by (simp add: ld)
  next
    show "tqe_prev hp' x = tqe_prev hp x" if "x \<in> set xs" for x
      using that e by (auto simp: prev)
  qed
  then have rep': "tq_rep hp' h (xs @ [e])"
    using rep e t ld [of "NextOf e"] by (simp add: tq_rep_def seg_append ld prev last' t [symmetric])
  have "changes_only h (insert e (set xs)) hp hp'"
    unfolding changes_only_def
  proof (intro conjI allI impI)
    fix h' assume "h' \<noteq> h"
    then show "tqh_first hp' h' = tqh_first hp h'" "tqh_last hp' h' = tqh_last hp h'"
      using ld [of "FirstOf h'"] end_slot_FirstOf [of h xs h'] by (simp_all add: last' eq_commute)
  next
    fix x assume "x \<notin> insert e (set xs)"
    then show "tqe_next hp' x = tqe_next hp x" "tqe_prev hp' x = tqe_prev hp x"
      using ld [of "NextOf x"] by (auto simp: prev end_slot_cases)
  qed
  with that run rep' show thesis by blast
qed

text \<open>Insertion at the head and next to an element. They differ only in the cell that is made to point
  to the new element, so one lemma about splicing an element in after the cell \<open>end_slot _ as\<close>
  covers them.\<close>

lemma splice_rep:
  fixes hp hp' :: "('h, 'e) tailqs"
  assumes rep: "tq_rep hp h (as @ bs)" and e: "e \<notin> set (as @ bs)"
    and ld: "\<And>sl. load hp' sl = (if sl = end_slot (FirstOf h) as then Some e
      else if sl = NextOf e then load hp (end_slot (FirstOf h) as) else load hp sl)"
    and prev: "\<And>x. tqe_prev hp' x = (if x = e then Some (end_slot (FirstOf h) as)
      else if bs \<noteq> [] \<and> x = hd bs then Some (NextOf e) else tqe_prev hp x)"
    and last: "tqh_last hp' h = (if bs = [] then Some (NextOf e) else tqh_last hp h)"
  shows "tq_rep hp' h (as @ e # bs)"
proof -
  let ?t = "end_slot (FirstOf h) as"
  have d: "distinct (as @ bs)" and sa: "seg hp (FirstOf h) as" and sb: "seg hp ?t bs"
    and en: "load hp (end_slot ?t bs) = None" and la: "tqh_last hp h = Some (end_slot ?t bs)"
    using rep by (simp_all add: tq_rep_def seg_append)
  have ldn: "tqe_next hp' x = (if NextOf x = ?t then Some e else if x = e then load hp ?t else tqe_next hp x)" for x
    using ld [of "NextOf x"] by simp
  have ldf: "tqh_first hp' h = (if FirstOf h = ?t then Some e else tqh_first hp h)"
    using ld [of "FirstOf h"] by simp
  have da: "distinct as" and ab: "set as \<inter> set bs = {}" using d by auto
  have t: "?t \<noteq> NextOf e" using e by (auto simp: end_slot_cases)
  have "seg hp' (FirstOf h) as = seg hp (FirstOf h) as"
  proof (rule seg_frame)
    fix sl assume sl: "sl \<in> set (butlast (FirstOf h # map NextOf as))"
    then have "sl \<noteq> ?t" using end_slot_not_in_butlast [OF da, of h] by auto
    moreover have "sl \<noteq> NextOf e" using butlast_slots_subset [OF sl] e by auto
    ultimately show "load hp' sl = load hp sl" by (simp add: ld)
  next
    fix x assume "x \<in> set as"
    then show "tqe_prev hp' x = tqe_prev hp x" using e ab by (cases bs) (auto simp: prev)
  qed
  moreover have "seg hp' (NextOf e) bs \<and> load hp' (end_slot (NextOf e) bs) = None"
  proof (cases bs)
    case Nil
    then show ?thesis using en t ld [of "NextOf e"] by (auto simp: eq_commute)
  next
    case (Cons b cs)
    have nt: "NextOf x \<noteq> ?t \<and> x \<noteq> e" if "x \<in> set bs" for x
      using that ab e by (auto simp: end_slot_cases) (meson disjoint_iff last_in_set)
    have "seg hp' (NextOf b) cs = seg hp (NextOf b) cs"
    proof (rule seg_frame_all)
      fix sl :: "('h, 'e) slot" assume "sl = NextOf b \<or> (\<exists>x\<in>set cs. sl = NextOf x)"
      then obtain x where "sl = NextOf x" "x \<in> set bs" using Cons by auto
      with nt [of x] show "load hp' sl = load hp sl" by (simp add: ldn)
    next
      fix x assume "x \<in> set cs"
      then show "tqe_prev hp' x = tqe_prev hp x" using Cons d e by (auto simp: prev)
    qed
    moreover have "load hp' (end_slot (NextOf b) cs) = load hp (end_slot (NextOf b) cs)"
      using nt Cons by (auto simp: end_slot_cases ldn)
    ultimately show ?thesis using Cons sb en nt [of b] t e by (auto simp: ldn prev)
  qed
  ultimately show ?thesis using sa d e la t last
    by (cases bs) (auto simp: tq_rep_def seg_append ld ldn ldf prev)
qed

lemma TAILQ_INSERT_HEAD_rep:
  assumes "tq_rep hp h xs" and "e \<notin> set xs"
  shows "tq_rep (TAILQ_INSERT_HEAD h e hp) h (e # xs)"
proof -
  have first: "tqh_first hp h = (if xs = [] then None else Some (hd xs))"
    using assms(1) by (cases xs) (simp_all add: tq_rep_def)
  let ?hp = "TAILQ_INSERT_HEAD h e hp"
  have "load ?hp sl = (if sl = FirstOf h then Some e else if sl = NextOf e then tqh_first hp h else load hp sl)" for sl
    by (cases sl) (auto simp: TAILQ_INSERT_HEAD_def Let_def first)
  moreover have "tqe_prev ?hp x = (if x = e then Some (FirstOf h)
      else if xs \<noteq> [] \<and> x = hd xs then Some (NextOf e) else tqe_prev hp x)" for x
    using assms(2) by (auto simp: TAILQ_INSERT_HEAD_def Let_def first)
  moreover have "tqh_last ?hp h = (if xs = [] then Some (NextOf e) else tqh_last hp h)"
    by (auto simp: TAILQ_INSERT_HEAD_def Let_def first)
  ultimately show ?thesis using splice_rep [of hp h "[]" xs e ?hp] assms by simp
qed

lemma TAILQ_INSERT_AFTER_rep:
  assumes "tq_rep hp h (as @ a # bs)" and "e \<notin> set (as @ a # bs)"
  shows "tq_rep (TAILQ_INSERT_AFTER h a e hp) h (as @ a # e # bs)"
proof -
  have nxt: "tqe_next hp a = (if bs = [] then None else Some (hd bs))"
    using assms(1) by (cases bs) (simp_all add: tq_rep_def seg_append)
  have ea: "e \<noteq> a" using assms(2) by simp
  let ?hp = "TAILQ_INSERT_AFTER h a e hp"
  have "load ?hp sl = (if sl = NextOf a then Some e else if sl = NextOf e then tqe_next hp a else load hp sl)" for sl
    using ea by (cases sl) (auto simp: TAILQ_INSERT_AFTER_def Let_def nxt)
  moreover have "tqe_prev ?hp x = (if x = e then Some (NextOf a)
      else if bs \<noteq> [] \<and> x = hd bs then Some (NextOf e) else tqe_prev hp x)" for x
    using assms(2) ea by (auto simp: TAILQ_INSERT_AFTER_def Let_def nxt)
  moreover have "tqh_last ?hp h = (if bs = [] then Some (NextOf e) else tqh_last hp h)"
    using ea by (auto simp: TAILQ_INSERT_AFTER_def Let_def nxt)
  ultimately show ?thesis using splice_rep [of hp h "as @ [a]" bs e ?hp] assms by simp
qed

lemma TAILQ_INSERT_BEFORE_rep:
  assumes "tq_rep hp h (as @ b # bs)" and "e \<notin> set (as @ b # bs)"
  obtains hp' where "TAILQ_INSERT_BEFORE b e hp = Inr hp'" and "tq_rep hp' h (as @ e # b # bs)"
proof -
  let ?t = "end_slot (FirstOf h) as"
  have pb: "tqe_prev hp b = Some ?t" and lt: "load hp ?t = Some b"
    using assms(1) by (simp_all add: tq_rep_def seg_append)
  have eb: "e \<noteq> b" using assms(2) by simp
  have t: "?t \<noteq> NextOf e" using assms(2) by (auto simp: end_slot_cases)
  define hp1 where "hp1 = hp\<lparr>tqe_prev := (tqe_prev hp)(e := Some ?t), tqe_next := (tqe_next hp)(e := Some b)\<rparr>"
  define hp' where "hp' = (store ?t (Some e) hp1)\<lparr>tqe_prev := (tqe_prev hp1)(b := Some (NextOf e))\<rparr>"
  have run: "TAILQ_INSERT_BEFORE b e hp = Inr hp'"
    using eb by (simp add: TAILQ_INSERT_BEFORE_def Let_def pb hp'_def hp1_def)
  have "load hp1 sl = (if sl = NextOf e then Some b else load hp sl)" for sl
    by (cases sl) (simp_all add: hp1_def)
  then have "load hp' sl = (if sl = ?t then Some e else if sl = NextOf e then load hp ?t else load hp sl)" for sl
    using t by (simp add: hp'_def load_store lt)
  moreover have "tqe_prev hp' x = (if x = e then Some ?t
      else if b # bs \<noteq> [] \<and> x = hd (b # bs) then Some (NextOf e) else tqe_prev hp x)" for x
    using eb by (simp add: hp'_def hp1_def)
  moreover have "tqh_last hp' h = tqh_last hp h" by (simp add: hp'_def hp1_def)
  ultimately have "tq_rep hp' h (as @ e # b # bs)" using splice_rep [of hp h as "b # bs" e hp'] assms by simp
  with run that show thesis by blast
qed

lemma TAILQ_REMOVE_rep:
  assumes rep: "tq_rep hp h (as @ e # bs)"
  obtains hp' where "TAILQ_REMOVE h e hp = Inr hp'" and "tq_rep hp' h (as @ bs)"
    and "changes_only h (set (as @ e # bs)) hp hp'"
proof -
  let ?t = "end_slot (FirstOf h) as"
  define hp1 where "hp1 = (case tqe_next hp e of
       Some n \<Rightarrow> hp\<lparr>tqe_prev := (tqe_prev hp)(n := tqe_prev hp e)\<rparr>
     | None \<Rightarrow> hp\<lparr>tqh_last := (tqh_last hp)(h := tqe_prev hp e)\<rparr>)"
  define hp' where "hp' = store ?t (tqe_next hp e) hp1"
  from rep have d: "distinct (as @ e # bs)" and sa: "seg hp (FirstOf h) as"
    and prev_e: "tqe_prev hp e = Some ?t" and sb: "seg hp (NextOf e) bs"
    and fin: "load hp (end_slot (NextOf e) bs) = None"
    and last: "tqh_last hp h = Some (end_slot (NextOf e) bs)"
    by (simp_all add: tq_rep_def seg_append)
  have next_e: "tqe_next hp e = (if bs = [] then None else Some (hd bs))"
    using sb fin by (cases bs) auto
  have ld: "load hp' sl = (if sl = ?t then tqe_next hp e else load hp sl)" for sl
    by (cases "tqe_next hp e") (simp_all add: hp'_def hp1_def load_store)
  have prev: "tqe_prev hp' = (if bs = [] then tqe_prev hp else (tqe_prev hp)(hd bs := Some ?t))"
    by (simp add: hp'_def hp1_def next_e prev_e)
  have last': "tqh_last hp' = (if bs = [] then (tqh_last hp)(h := Some ?t) else tqh_last hp)"
    by (simp add: hp'_def hp1_def next_e prev_e)
  have "tqe_prev hp1 e = tqe_prev hp e" "tqe_next hp1 e = tqe_next hp e"
    using d by (auto simp: hp1_def next_e)
  then have run: "TAILQ_REMOVE h e hp = Inr hp'"
    by (simp add: TAILQ_REMOVE_def flip: hp1_def) (simp add: hp'_def prev_e)
  have t: "?t \<noteq> NextOf x" if "x \<in> set (e # bs)" for x
    using that d by (auto simp: end_slot_cases dest: last_in_set)
  have "seg hp' (FirstOf h) as = seg hp (FirstOf h) as"
  proof (rule seg_frame)
    fix sl assume "sl \<in> set (butlast (FirstOf h # map NextOf as))"
    then have "sl \<noteq> ?t" using end_slot_not_in_butlast [of as h] d by auto
    then show "load hp' sl = load hp sl" by (simp add: ld)
  next
    fix x assume "x \<in> set as"
    then show "tqe_prev hp' x = tqe_prev hp x" using d by (auto simp: prev)
  qed
  moreover have "seg hp' ?t bs"
  proof (cases bs)
    case (Cons b bs')
    have "seg hp' (NextOf b) bs' = seg hp (NextOf b) bs'"
      using d Cons t by (intro seg_frame_all) (auto simp: ld prev)
    with Cons sb show ?thesis by (simp add: ld prev next_e)
  qed simp
  moreover have "load hp' (end_slot ?t bs) = None"
  proof (cases bs rule: rev_cases)
    case (snoc ys y)
    with t [of y] have "load hp' (NextOf y) = load hp (NextOf y)" by (simp only: ld) auto
    with fin snoc show ?thesis by simp
  qed (simp add: ld next_e)
  ultimately have rep': "tq_rep hp' h (as @ bs)"
    using d sa last by (cases bs) (simp_all add: tq_rep_def seg_append last')
  have "changes_only h (set (as @ e # bs)) hp hp'"
    unfolding changes_only_def
  proof (intro conjI allI impI)
    fix h' assume "h' \<noteq> h"
    then show "tqh_first hp' h' = tqh_first hp h'" "tqh_last hp' h' = tqh_last hp h'"
      using ld [of "FirstOf h'"] end_slot_FirstOf [of h as h'] by (simp_all add: last' eq_commute)
  next
    fix x assume "x \<notin> set (as @ e # bs)"
    then show "tqe_next hp' x = tqe_next hp x" "tqe_prev hp' x = tqe_prev hp x"
      using ld [of "NextOf x"] by (auto simp: prev end_slot_cases)
  qed
  with that run rep' show thesis by blast
qed

lemma second_field_rep:
  assumes "tq_rep hp h (as @ bs)"
  shows "deref (second_field hp (end_slot (FirstOf h) as)) (\<lambda>sl. Inr (load hp sl)) =
    Inr (if as = [] then None else Some (last as))"
proof (cases as rule: rev_cases)
  case Nil
  with assms show ?thesis by (simp add: tq_rep_def)
next
  case (snoc as' a)
  with assms show ?thesis by (simp add: tq_rep_def seg_append)
qed

lemma TAILQ_LAST_rep: "tq_rep hp h xs \<Longrightarrow> TAILQ_LAST h hp = Inr (if xs = [] then None else Some (last xs))"
  using second_field_rep [of hp h xs "[]"] by (simp add: TAILQ_LAST_def tq_rep_def)

lemma TAILQ_PREV_rep:
  "tq_rep hp h (as @ e # bs) \<Longrightarrow> TAILQ_PREV e hp = Inr (if as = [] then None else Some (last as))"
  using second_field_rep [of hp h as "e # bs"] by (simp add: TAILQ_PREV_def tq_rep_def seg_append)

lemma foreach_from_rep:
  "seg hp s xs \<Longrightarrow> load hp (end_slot s xs) = None \<Longrightarrow> length xs \<le> n \<Longrightarrow>
     foreach_from n (load hp s) hp = Some xs"
proof (induction xs arbitrary: s n)
  case (Cons x xs)
  from Cons.prems(3) obtain m where m: "n = Suc m" by (cases n) auto
  have "foreach_from m (load hp (NextOf x)) hp = Some xs"
    using Cons.prems m by (intro Cons.IH) auto
  with Cons.prems(1) m show ?case by (simp add: TAILQ_NEXT_def)
qed simp

lemma TAILQ_FOREACH_rep: "tq_rep hp h xs \<Longrightarrow> length xs \<le> n \<Longrightarrow> TAILQ_FOREACH n h hp = Some xs"
  using foreach_from_rep [of hp "FirstOf h" xs n] by (simp add: TAILQ_FOREACH_def TAILQ_FIRST_def tq_rep_def)

lemma foreach_rev_from_rep:
  "tq_rep hp h (as @ bs) \<Longrightarrow> length as \<le> n \<Longrightarrow>
     foreach_rev_from n (if as = [] then None else Some (last as)) hp = Inr (Some (rev as))"
proof (induction as arbitrary: bs n rule: rev_induct)
  case (snoc a as)
  from snoc.prems(2) obtain m where m: "n = Suc m" by (cases n) auto
  have "TAILQ_PREV a hp = Inr (if as = [] then None else Some (last as))"
    using snoc.prems(1) by (intro TAILQ_PREV_rep [of hp h as a bs]) simp
  moreover have "foreach_rev_from m (if as = [] then None else Some (last as)) hp = Inr (Some (rev as))"
    using snoc.prems m by (intro snoc.IH [of "a # bs"]) auto
  ultimately show ?case using m by simp
qed simp

lemma TAILQ_FOREACH_REVERSE_rep:
  "tq_rep hp h xs \<Longrightarrow> length xs \<le> n \<Longrightarrow> TAILQ_FOREACH_REVERSE n h hp = Inr (Some (rev xs))"
  using foreach_rev_from_rep [of hp h xs "[]" n] by (simp add: TAILQ_FOREACH_REVERSE_def TAILQ_LAST_rep)

subsection \<open>The interface of a family of tail queues\<close>

text \<open>
  What the scheduler relies on: on a represented family of queues, inserting an element that is on
  no queue appends it, removing an element takes it out, and the other queues stay as they are.
\<close>

locale queue_family =
  fixes rep :: "'h set \<Rightarrow> 's \<Rightarrow> ('h \<Rightarrow> 'e list) \<Rightarrow> bool"
    and insert_tail :: "'h \<Rightarrow> 'e \<Rightarrow> 's \<Rightarrow> 's res"
    and remove :: "'h \<Rightarrow> 'e \<Rightarrow> 's \<Rightarrow> 's res"
    and first :: "'h \<Rightarrow> 's \<Rightarrow> 'e option"
    and is_empty :: "'h \<Rightarrow> 's \<Rightarrow> bool"
  assumes insert_tail_law: "rep H s Q \<Longrightarrow> h \<in> H \<Longrightarrow> e \<notin> queued H Q \<Longrightarrow>
      \<exists>s'. insert_tail h e s = Inr s' \<and> rep H s' (Q(h := Q h @ [e]))"
    and remove_law: "rep H s Q \<Longrightarrow> h \<in> H \<Longrightarrow> e \<in> set (Q h) \<Longrightarrow>
      \<exists>s'. remove h e s = Inr s' \<and> rep H s' (Q(h := remove1 e (Q h)))"
    and first_law: "rep H s Q \<Longrightarrow> h \<in> H \<Longrightarrow> first h s = (if Q h = [] then None else Some (hd (Q h)))"
    and is_empty_law: "rep H s Q \<Longrightarrow> h \<in> H \<Longrightarrow> is_empty h s \<longleftrightarrow> Q h = []"
    and rep_distinct: "rep H s Q \<Longrightarrow> h \<in> H \<Longrightarrow> distinct (Q h)"
    and rep_disjoint: "rep H s Q \<Longrightarrow> h \<in> H \<Longrightarrow> h' \<in> H \<Longrightarrow> h \<noteq> h' \<Longrightarrow> set (Q h) \<inter> set (Q h') = {}"
begin

lemma pop_law:
  assumes "rep H s Q" and "h \<in> H" and "Q h = e # es"
  shows "first h s = Some e \<and> (\<exists>s'. remove h e s = Inr s' \<and> rep H s' (Q(h := es)))"
  using assms remove_law [of H s Q h e] by (simp add: first_law)

lemma removed_not_queued:
  assumes "rep H s Q" and "h \<in> H" and "e \<in> set (Q h)"
  shows "e \<notin> queued H (Q(h := remove1 e (Q h)))"
proof -
  have "e \<notin> set (remove1 e (Q h))"
    using rep_distinct [OF assms(1,2)] by simp
  moreover have "e \<notin> set (Q h')" if "h' \<in> H" "h' \<noteq> h" for h'
    using rep_disjoint [OF assms(1,2) that(1)] that(2) assms(3) by auto
  ultimately show ?thesis by (auto simp: queued_def)
qed

lemma move_law:
  assumes "rep H s Q" and "h \<in> H" and "h' \<in> H" and "e \<in> set (Q h)"
  shows "\<exists>s' s''. remove h e s = Inr s' \<and> insert_tail h' e s' = Inr s'' \<and>
     rep H s'' ((Q(h := remove1 e (Q h)))(h' := (Q(h := remove1 e (Q h))) h' @ [e]))"
  using remove_law [OF assms(1,2,4)] removed_not_queued [OF assms(1,2,4)] insert_tail_law assms(3)
  by blast

end

lemma TAILQ_INSERT_TAIL_world:
  assumes w: "tq_world H hp Q" and h: "h \<in> H" and e: "e \<notin> queued H Q"
  shows "\<exists>hp'. TAILQ_INSERT_TAIL h e hp = Inr hp' \<and> tq_world H hp' (Q(h := Q h @ [e]))"
proof -
  from w h have "tq_rep hp h (Q h)" by (simp add: tq_world_def)
  moreover from h e have "e \<notin> set (Q h)" by (auto simp: queued_def)
  ultimately obtain hp' where hp': "TAILQ_INSERT_TAIL h e hp = Inr hp'" "tq_rep hp' h (Q h @ [e])"
    "changes_only h (insert e (set (Q h))) hp hp'" by (rule TAILQ_INSERT_TAIL_rep)
  have "set (Q h') \<inter> insert e (set (Q h)) = {}" if "h' \<in> H" "h' \<noteq> h" for h'
    using w h that e by (auto simp: tq_world_def queued_def)
  with tq_world_upd [OF w h hp'(3,2)] hp'(1) show ?thesis by auto
qed

lemma TAILQ_REMOVE_world:
  assumes w: "tq_world H hp Q" and h: "h \<in> H" and e: "e \<in> set (Q h)"
  shows "\<exists>hp'. TAILQ_REMOVE h e hp = Inr hp' \<and> tq_world H hp' (Q(h := remove1 e (Q h)))"
proof -
  from e obtain as bs where ab: "Q h = as @ e # bs" by (auto simp: in_set_conv_decomp)
  from w h have rep: "tq_rep hp h (as @ e # bs)" by (simp add: tq_world_def flip: ab)
  then have rm: "remove1 e (Q h) = as @ bs"
    by (simp add: tq_rep_def ab remove1_append)
  from rep obtain hp' where hp': "TAILQ_REMOVE h e hp = Inr hp'" "tq_rep hp' h (as @ bs)"
    "changes_only h (set (as @ e # bs)) hp hp'" by (rule TAILQ_REMOVE_rep)
  have "set (Q h') \<inter> set (as @ e # bs) = {}" if "h' \<in> H" "h' \<noteq> h" for h'
    using w h that by (simp only: tq_world_def flip: ab) blast
  with tq_world_upd [OF w h hp'(3,2)] hp'(1) show ?thesis by (auto simp: rm)
qed

interpretation tq: queue_family tq_world TAILQ_INSERT_TAIL TAILQ_REMOVE TAILQ_FIRST TAILQ_EMPTY
proof (unfold_locales, goal_cases)
  case 1 then show ?case by (rule TAILQ_INSERT_TAIL_world)
next
  case 2 then show ?case by (rule TAILQ_REMOVE_world)
next
  case (3 H s Q h) then show ?case by (simp add: tq_world_def TAILQ_FIRST_rep)
next
  case (4 H s Q h) then show ?case by (simp add: tq_world_def TAILQ_EMPTY_rep)
next
  case (5 H s Q h) then show ?case by (simp add: tq_world_def tq_rep_def)
next
  case (6 H s Q h h') then show ?case by (simp add: tq_world_def)
qed

end
