(* ===== verification/GT_State.thy ===== *)
theory GT_State
  imports GT_Bitops GT_Spinlock GT_Tailq
begin

unbundle bit_operations_syntax

text \<open>
  The data model of the gtthreads library: the structs of gt_uthread.h, gt_pq.h and gt_kthread.h,
  the global variables of gt_kthread.c, gt_uthread.c and gt_matrix.c, and the \<open>timeval\<close> arithmetic
  of \<open><sys/time.h>\<close> that the scheduler uses.

  Pointers to uthreads and to kthread contexts are numbers (\<open>uid\<close>, \<open>kid\<close>); the objects they point
  to live in stores (\<open>uths\<close>, \<open>kctxs\<close>). A struct embedded in another (the \<open>krunqueue\<close> of a context
  and its two \<open>runqueues\<close>) is kept in a store of its own, keyed by its owner: \<open>(k, i)\<close> is the address
  \<open>&k->krunqueue.runqueues[i]\<close>. Arrays indexed by a priority or a group are functions on \<open>nat\<close>, and
  every operation checks its index before it uses one. All list heads (one per runqueue, priority
  and group, and one zombie list per kthread) share the link \<open>uthread_runq\<close> of the uthreads, so they
  live in one family of tail queues, \<open>links\<close>.
\<close>

type_synonym uid = nat
type_synonym kid = nat
type_synonym rqid = "kid \<times> nat"

datatype rq_head = PrioGroup rqid nat nat | Zombies kid

subsection \<open>Time\<close>

record timeval =
  tv_sec :: int
  tv_usec :: int

definition timeradd :: "timeval \<Rightarrow> timeval \<Rightarrow> timeval" where
  "timeradd a b =
     (let sec = tv_sec a + tv_sec b; usec = tv_usec a + tv_usec b
      in if 1000000 \<le> usec then \<lparr>tv_sec = sec + 1, tv_usec = usec - 1000000\<rparr>
         else \<lparr>tv_sec = sec, tv_usec = usec\<rparr>)"

definition timersub :: "timeval \<Rightarrow> timeval \<Rightarrow> timeval" where
  "timersub a b =
     (let sec = tv_sec a - tv_sec b; usec = tv_usec a - tv_usec b
      in if usec < 0 then \<lparr>tv_sec = sec - 1, tv_usec = usec + 1000000\<rparr>
         else \<lparr>tv_sec = sec, tv_usec = usec\<rparr>)"

definition usecs :: "timeval \<Rightarrow> int" where
  "usecs t = tv_sec t * 1000000 + tv_usec t"

subsection \<open>Threads\<close>

definition UTHREAD_INIT :: u32 where [simp]: "UTHREAD_INIT = 0x01"
definition UTHREAD_RUNNABLE :: u32 where [simp]: "UTHREAD_RUNNABLE = 0x02"
definition UTHREAD_RUNNING :: u32 where [simp]: "UTHREAD_RUNNING = 0x04"
definition UTHREAD_CANCELLED :: u32 where [simp]: "UTHREAD_CANCELLED = 0x08"
definition UTHREAD_DONE :: u32 where [simp]: "UTHREAD_DONE = 0x10"

definition KTHREAD_DONE :: u32 where [simp]: "KTHREAD_DONE = 0x01"

definition MAX_UTHREAD_PRIORITY :: nat where [simp]: "MAX_UTHREAD_PRIORITY = 32"
definition MAX_UTHREAD_GROUPS :: nat where [simp]: "MAX_UTHREAD_GROUPS = 32"
definition DEFAULT_UTHREAD_PRIORITY :: u32 where [simp]: "DEFAULT_UTHREAD_PRIORITY = 16"
definition GT_MAX_CORES :: nat where [simp]: "GT_MAX_CORES = 16"
definition GT_MAX_KTHREADS :: nat where [simp]: "GT_MAX_KTHREADS = GT_MAX_CORES"

text \<open>\<open>uthread_env\<close> records whether the context was saved by \<open>sigsetjmp\<close>; \<open>ss_enabled\<close> is the flag of
  the alternate stack. The fields that are \<open>int\<close> in C but hold bit masks or unsigned indices are 32-bit
  words. \<open>uthread_func\<close> and \<open>uthread_arg\<close> are the application's, opaque here.\<close>

record uthread_struct =
  uthread_state :: u32
  uthread_priority :: u32
  cpu_id :: u32
  last_cpu_id :: u32
  uthread_tid :: u32
  uthread_gid :: u32
  uthread_func :: nat
  uthread_arg :: nat
  initial_credits :: int
  credits :: int
  run_time_total :: timeval
  run_time_step :: timeval
  start_running_time_step :: timeval
  end_running_time_step :: timeval
  total_running_time_start :: timeval
  total_running_time_end :: timeval
  is_yield_valid :: int
  uthread_env :: bool
  ss_enabled :: bool

record uthread_timer_t =
  running_time :: timeval
  cpu_time :: timeval

subsection \<open>Runqueues\<close>

text \<open>\<open>group_mask r p\<close> is the field \<open>prio_array[p].group_mask\<close>; the list heads
  \<open>prio_array[p].group[g]\<close> are the heads \<open>PrioGroup rq p g\<close> of the family \<open>links\<close>.\<close>

record runqueue_t =
  uthread_mask :: u32
  uthread_tot :: u32
  uthread_prio_tot :: "nat \<Rightarrow> u32"
  uthread_group_mask :: "nat \<Rightarrow> u32"
  uthread_group_tot :: "nat \<Rightarrow> u32"
  group_mask :: "nat \<Rightarrow> u32"

text \<open>\<open>active_runq\<close> and \<open>expires_runq\<close> point to one of the two embedded runqueues: they are its
  index.\<close>

record kthread_runqueue_t =
  active_runq :: nat
  expires_runq :: nat
  kthread_runqlock :: gt_spinlock_t
  cur_uthread :: "uid option"

subsection \<open>Kernel threads and shared scheduling state\<close>

datatype sched_handler = Ksched_priority | Ksched_cosched
datatype app_func = Gtthread_app_start

record kthread_context_t =
  cpuid :: u32
  cpu_apic_id :: u32
  k_pid :: u32
  k_tid :: u32
  kthread_flags :: u32
  kthread_app_func :: "app_func option"
  kthread_sched_timer :: "sched_handler option"
  kthread_sched_relay :: "sched_handler option"
  kthread_env :: bool

record ksched_shared_info_t =
  uthread_select_criterion :: u32
  uthread_group_penalty :: u32
  kthread_tot_uthreads :: u32
  kthread_cur_uthreads :: u32
  last_ugroup_kthread :: "nat \<Rightarrow> 16 word"
  ksched_lock :: gt_spinlock_t
  uthread_init_lock :: gt_spinlock_t
  malloc_lock :: gt_spinlock_t

record gt_state =
  uths :: "uid \<Rightarrow> uthread_struct"
  links :: "(rq_head, uid) tailqs"
  runqs :: "rqid \<Rightarrow> runqueue_t"
  krunqs :: "kid \<Rightarrow> kthread_runqueue_t"
  kctxs :: "kid \<Rightarrow> kthread_context_t"
  kthread_cpu_map :: "nat \<Rightarrow> kid option"
  ksched_shared_info :: ksched_shared_info_t
  uthread_time :: "nat \<Rightarrow> uthread_timer_t option"
  is_credit_scheduler :: int
  is_load_balancing :: int
  is_kernel_thread_ready :: int

text \<open>Updates of one object of a store.\<close>

definition upd_uth :: "uid \<Rightarrow> (uthread_struct \<Rightarrow> uthread_struct) \<Rightarrow> gt_state \<Rightarrow> gt_state" where
  "upd_uth u f s = s\<lparr>uths := (uths s)(u := f (uths s u))\<rparr>"

definition upd_krunq :: "kid \<Rightarrow> (kthread_runqueue_t \<Rightarrow> kthread_runqueue_t) \<Rightarrow> gt_state \<Rightarrow> gt_state" where
  "upd_krunq k f s = s\<lparr>krunqs := (krunqs s)(k := f (krunqs s k))\<rparr>"

definition upd_kctx :: "kid \<Rightarrow> (kthread_context_t \<Rightarrow> kthread_context_t) \<Rightarrow> gt_state \<Rightarrow> gt_state" where
  "upd_kctx k f s = s\<lparr>kctxs := (kctxs s)(k := f (kctxs s k))\<rparr>"

definition upd_ksched :: "(ksched_shared_info_t \<Rightarrow> ksched_shared_info_t) \<Rightarrow> gt_state \<Rightarrow> gt_state" where
  "upd_ksched f s = s\<lparr>ksched_shared_info := f (ksched_shared_info s)\<rparr>"

subsection \<open>Time arithmetic\<close>

lemma usecs_timeradd [simp]: "usecs (timeradd a b) = usecs a + usecs b"
  by (simp add: usecs_def timeradd_def Let_def algebra_simps)

lemma usecs_timersub [simp]: "usecs (timersub a b) = usecs a - usecs b"
  by (simp add: usecs_def timersub_def Let_def algebra_simps)

definition tv_normal :: "timeval \<Rightarrow> bool" where
  "tv_normal t \<longleftrightarrow> 0 \<le> tv_usec t \<and> tv_usec t < 1000000"

lemma tv_normal_timersub: "tv_normal a \<Longrightarrow> tv_normal b \<Longrightarrow> tv_normal (timersub a b)"
  by (auto simp: tv_normal_def timersub_def Let_def)

lemma tv_normal_timeradd: "tv_normal a \<Longrightarrow> tv_normal b \<Longrightarrow> tv_normal (timeradd a b)"
  by (auto simp: tv_normal_def timeradd_def Let_def)

subsection \<open>What the updates leave alone\<close>

lemma upd_uth_sel [simp]:
  "uths (upd_uth u f s) = (uths s)(u := f (uths s u))"
  "links (upd_uth u f s) = links s" "runqs (upd_uth u f s) = runqs s"
  "krunqs (upd_uth u f s) = krunqs s" "kctxs (upd_uth u f s) = kctxs s"
  "kthread_cpu_map (upd_uth u f s) = kthread_cpu_map s"
  "ksched_shared_info (upd_uth u f s) = ksched_shared_info s"
  "uthread_time (upd_uth u f s) = uthread_time s"
  "is_credit_scheduler (upd_uth u f s) = is_credit_scheduler s"
  "is_load_balancing (upd_uth u f s) = is_load_balancing s"
  "is_kernel_thread_ready (upd_uth u f s) = is_kernel_thread_ready s"
  by (simp_all add: upd_uth_def)

lemma upd_krunq_sel [simp]:
  "krunqs (upd_krunq k f s) = (krunqs s)(k := f (krunqs s k))"
  "uths (upd_krunq k f s) = uths s" "links (upd_krunq k f s) = links s"
  "runqs (upd_krunq k f s) = runqs s" "kctxs (upd_krunq k f s) = kctxs s"
  "kthread_cpu_map (upd_krunq k f s) = kthread_cpu_map s"
  "ksched_shared_info (upd_krunq k f s) = ksched_shared_info s"
  "uthread_time (upd_krunq k f s) = uthread_time s"
  "is_credit_scheduler (upd_krunq k f s) = is_credit_scheduler s"
  "is_load_balancing (upd_krunq k f s) = is_load_balancing s"
  "is_kernel_thread_ready (upd_krunq k f s) = is_kernel_thread_ready s"
  by (simp_all add: upd_krunq_def)

lemma upd_kctx_sel [simp]:
  "kctxs (upd_kctx k f s) = (kctxs s)(k := f (kctxs s k))"
  "uths (upd_kctx k f s) = uths s" "links (upd_kctx k f s) = links s"
  "runqs (upd_kctx k f s) = runqs s" "krunqs (upd_kctx k f s) = krunqs s"
  "kthread_cpu_map (upd_kctx k f s) = kthread_cpu_map s"
  "ksched_shared_info (upd_kctx k f s) = ksched_shared_info s"
  "uthread_time (upd_kctx k f s) = uthread_time s"
  "is_credit_scheduler (upd_kctx k f s) = is_credit_scheduler s"
  "is_load_balancing (upd_kctx k f s) = is_load_balancing s"
  "is_kernel_thread_ready (upd_kctx k f s) = is_kernel_thread_ready s"
  by (simp_all add: upd_kctx_def)

lemma upd_ksched_sel [simp]:
  "ksched_shared_info (upd_ksched g s) = g (ksched_shared_info s)"
  "uths (upd_ksched g s) = uths s" "links (upd_ksched g s) = links s"
  "runqs (upd_ksched g s) = runqs s" "krunqs (upd_ksched g s) = krunqs s"
  "kctxs (upd_ksched g s) = kctxs s" "kthread_cpu_map (upd_ksched g s) = kthread_cpu_map s"
  "uthread_time (upd_ksched g s) = uthread_time s"
  "is_credit_scheduler (upd_ksched g s) = is_credit_scheduler s"
  "is_load_balancing (upd_ksched g s) = is_load_balancing s"
  "is_kernel_thread_ready (upd_ksched g s) = is_kernel_thread_ready s"
  by (simp_all add: upd_ksched_def)

end
