(* ===== verification/GT_Runqueue.thy ===== *)
theory GT_Runqueue
  imports GT_State
begin

text \<open>
  The runqueue operations of gt_pq.c. A runqueue is 32 priorities of 32 groups of tail queues, with
  bit masks and counters that summarise which of them are occupied, so that the scheduler finds the
  best uthread by two bit scans. The definitions follow the code, guards and assertions included;
  the lemmas relate masks and counters to the queues (\<open>rq_counts\<close>) and show that every operation
  keeps them in step.

  \<open>raw_add_to_runqueue\<close> and \<open>raw_rem_from_runqueue\<close> are the functions \<open>__add_to_runqueue\<close> and
  \<open>__rem_from_runqueue\<close>, which are called with the lock held; a lock argument is the kthread whose
  \<open>kthread_runqlock\<close> it is.
\<close>

subsection \<open>The code\<close>

definition raw_add_to_runqueue :: "rqid \<Rightarrow> uid \<Rightarrow> gt_state \<Rightarrow> gt_state res" where
  "raw_add_to_runqueue rq u_elem s =
     (let uprio = unat (uthread_priority (uths s u_elem));
          ugroup = unat (uthread_gid (uths s u_elem));
          uhead = PrioGroup rq uprio ugroup
      in in_bounds uprio MAX_UTHREAD_PRIORITY (in_bounds ugroup MAX_UTHREAD_GROUPS (
         rbind (TAILQ_INSERT_TAIL uhead u_elem (links s)) (\<lambda>l.
         let r = runqs s rq;
             r1 = (if IS_BIT_SET (group_mask r uprio) ugroup = 0
                   then r\<lparr>group_mask := (group_mask r)(uprio := SET_BIT (group_mask r uprio) ugroup)\<rparr>
                   else r);
             r2 = r1\<lparr>uthread_tot := uthread_tot r1 + 1\<rparr>;
             r3 = r2\<lparr>uthread_prio_tot := (uthread_prio_tot r2)(uprio := uthread_prio_tot r2 uprio + 1)\<rparr>;
             r4 = (if IS_BIT_SET (uthread_mask r3) uprio = 0
                   then r3\<lparr>uthread_mask := SET_BIT (uthread_mask r3) uprio\<rparr> else r3);
             r5 = r4\<lparr>uthread_group_tot := (uthread_group_tot r4)(ugroup := uthread_group_tot r4 ugroup + 1)\<rparr>;
             r6 = (if IS_BIT_SET (uthread_group_mask r5 ugroup) uprio = 0
                   then r5\<lparr>uthread_group_mask := (uthread_group_mask r5)
                             (ugroup := SET_BIT (uthread_group_mask r5 ugroup) uprio)\<rparr>
                   else r5)
         in Inr (s\<lparr>links := l, runqs := (runqs s)(rq := r6)\<rparr>)))))"

definition raw_rem_from_runqueue :: "rqid \<Rightarrow> uid \<Rightarrow> gt_state \<Rightarrow> gt_state res" where
  "raw_rem_from_runqueue rq u_elem s =
     (let uprio = unat (uthread_priority (uths s u_elem));
          ugroup = unat (uthread_gid (uths s u_elem));
          uhead = PrioGroup rq uprio ugroup
      in in_bounds uprio MAX_UTHREAD_PRIORITY (in_bounds ugroup MAX_UTHREAD_GROUPS (
         rbind (TAILQ_REMOVE uhead u_elem (links s)) (\<lambda>l.
         let r = runqs s rq;
             r1 = (if TAILQ_EMPTY uhead l
                   then r\<lparr>group_mask := (group_mask r)(uprio := RESET_BIT (group_mask r uprio) ugroup)\<rparr>
                   else r);
             r2 = r1\<lparr>uthread_tot := uthread_tot r1 - 1\<rparr>;
             r3 = r2\<lparr>uthread_prio_tot := (uthread_prio_tot r2)(uprio := uthread_prio_tot r2 uprio - 1)\<rparr>;
             r4 = (if uthread_prio_tot r3 uprio = 0
                   then r3\<lparr>uthread_mask := RESET_BIT (uthread_mask r3) uprio\<rparr> else r3);
             r5 = r4\<lparr>uthread_group_tot := (uthread_group_tot r4)(ugroup := uthread_group_tot r4 ugroup - 1)\<rparr>
         in if uthread_group_tot r5 ugroup = 0
            then c_assert (TAILQ_EMPTY uhead l)
              (Inr (s\<lparr>links := l, runqs := (runqs s)(rq :=
                 r5\<lparr>uthread_group_mask := (uthread_group_mask r5)
                      (ugroup := RESET_BIT (uthread_group_mask r5 ugroup) uprio)\<rparr>)\<rparr>))
            else Inr (s\<lparr>links := l, runqs := (runqs s)(rq := r5)\<rparr>)))))"

definition init_runqueue :: "rqid \<Rightarrow> gt_state \<Rightarrow> gt_state" where
  "init_runqueue rq s =
     s\<lparr>links := fold (\<lambda>i. fold (\<lambda>j. TAILQ_INIT (PrioGroup rq i j)) [0..<MAX_UTHREAD_GROUPS])
                [0..<MAX_UTHREAD_PRIORITY] (links s)\<rparr>"

text \<open>\<open>gt_spin_lock(&(k->krunqueue.kthread_runqlock))\<close>, the assignment to its \<open>holder\<close>, and the
  unlock.\<close>

definition lock_runq :: "kid \<Rightarrow> gt_state \<Rightarrow> gt_state res" where
  "lock_runq k s =
     rbind (spin_lock_at (kthread_runqlock (krunqs s k))) (\<lambda>l.
     Inr (upd_krunq k (\<lambda>q. q\<lparr>kthread_runqlock := l\<rparr>) s))"

definition set_runq_holder :: "kid \<Rightarrow> u32 \<Rightarrow> gt_state \<Rightarrow> gt_state" where
  "set_runq_holder k h s = upd_krunq k (\<lambda>q. q\<lparr>kthread_runqlock := (kthread_runqlock q)\<lparr>holder := h\<rparr>\<rparr>) s"

definition unlock_runq :: "kid \<Rightarrow> gt_state \<Rightarrow> gt_state" where
  "unlock_runq k s = upd_krunq k (\<lambda>q. q\<lparr>kthread_runqlock := spin_unlock_at (kthread_runqlock q)\<rparr>) s"

definition add_to_runqueue :: "rqid \<Rightarrow> kid \<Rightarrow> uid \<Rightarrow> gt_state \<Rightarrow> gt_state res" where
  "add_to_runqueue rq runq_lock u_elem s =
     rbind (lock_runq runq_lock s) (\<lambda>s1.
     rbind (raw_add_to_runqueue rq u_elem (set_runq_holder runq_lock 0x02 s1)) (\<lambda>s2.
     Inr (unlock_runq runq_lock s2)))"

definition rem_from_runqueue :: "rqid \<Rightarrow> kid \<Rightarrow> uid \<Rightarrow> gt_state \<Rightarrow> gt_state res" where
  "rem_from_runqueue rq runq_lock u_elem s =
     rbind (lock_runq runq_lock s) (\<lambda>s1.
     rbind (raw_rem_from_runqueue rq u_elem (set_runq_holder runq_lock 0x03 s1)) (\<lambda>s2.
     Inr (unlock_runq runq_lock s2)))"

definition switch_runqueue :: "rqid \<Rightarrow> kid \<Rightarrow> rqid \<Rightarrow> kid \<Rightarrow> uid \<Rightarrow> gt_state \<Rightarrow> gt_state res" where
  "switch_runqueue from_runq from_runqlock to_runq to_runqlock u_elem s =
     rbind (rem_from_runqueue from_runq from_runqlock u_elem s) (\<lambda>s1.
     add_to_runqueue to_runq to_runqlock u_elem s1)"

definition kthread_init_runqueue :: "kid \<Rightarrow> gt_state \<Rightarrow> gt_state" where
  "kthread_init_runqueue k s =
     (let s1 = upd_krunq k (\<lambda>q. q\<lparr>active_runq := 0, expires_runq := 1\<rparr>) s;
          s2 = upd_krunq k (\<lambda>q. q\<lparr>kthread_runqlock := (kthread_runqlock q)\<lparr>locked := 0\<rparr>\<rparr>) s1;
          s3 = init_runqueue (k, active_runq (krunqs s2 k)) s2;
          s4 = init_runqueue (k, expires_runq (krunqs s3 k)) s3
      in s4\<lparr>links := TAILQ_INIT (Zombies k) (links s4)\<rparr>)"

text \<open>The search for the best uthread of a runqueue: the lowest priority bit, then the lowest group
  bit of that priority, then the first of that queue.\<close>

definition find_best :: "rqid \<Rightarrow> gt_state \<Rightarrow> uid option res" where
  "find_best rq s =
     rbind (LOWEST_BIT_SET (uthread_mask (runqs s rq))) (\<lambda>uprio.
     c_assert (group_mask (runqs s rq) uprio \<noteq> 0) (
     rbind (LOWEST_BIT_SET (group_mask (runqs s rq) uprio)) (\<lambda>ugroup.
     Inr (TAILQ_FIRST (PrioGroup rq uprio ugroup) (links s)))))"

subsection \<open>Masks and counters against occupancies\<close>

text \<open>\<open>rq_counts r f\<close>: the masks and counters of \<open>r\<close> describe a runqueue with \<open>f p g\<close> uthreads of
  priority \<open>p\<close> in group \<open>g\<close>. Only an implication is known of \<open>uthread_group_mask\<close>.\<close>

definition rowsum :: "(nat \<Rightarrow> nat \<Rightarrow> nat) \<Rightarrow> nat \<Rightarrow> nat" where
  "rowsum f p = (\<Sum>g<32. f p g)"

definition colsum :: "(nat \<Rightarrow> nat \<Rightarrow> nat) \<Rightarrow> nat \<Rightarrow> nat" where
  "colsum f g = (\<Sum>p<32. f p g)"

definition totsum :: "(nat \<Rightarrow> nat \<Rightarrow> nat) \<Rightarrow> nat" where
  "totsum f = (\<Sum>p<32. \<Sum>g<32. f p g)"

definition rq_counts :: "runqueue_t \<Rightarrow> (nat \<Rightarrow> nat \<Rightarrow> nat) \<Rightarrow> bool" where
  "rq_counts r f \<longleftrightarrow>
     (\<forall>p<32. \<forall>g<32. bit (group_mask r p) g \<longleftrightarrow> 0 < f p g) \<and>
     (\<forall>p<32. bit (uthread_mask r) p \<longleftrightarrow> (\<exists>g<32. 0 < f p g)) \<and>
     unat (uthread_tot r) = totsum f \<and>
     (\<forall>p<32. unat (uthread_prio_tot r p) = rowsum f p) \<and>
     (\<forall>g<32. unat (uthread_group_tot r g) = colsum f g) \<and>
     (\<forall>g<32. \<forall>p<32. 0 < f p g \<longrightarrow> bit (uthread_group_mask r g) p)"

definition rq_len :: "(rq_head \<Rightarrow> uid list) \<Rightarrow> rqid \<Rightarrow> nat \<Rightarrow> nat \<Rightarrow> nat" where
  "rq_len Q rq p g = length (Q (PrioGroup rq p g))"

definition rq_size :: "(rq_head \<Rightarrow> uid list) \<Rightarrow> rqid \<Rightarrow> nat" where
  "rq_size Q rq = totsum (rq_len Q rq)"

definition rq_heads :: "rqid \<Rightarrow> rq_head set" where
  "rq_heads rq = {PrioGroup rq p g |p g. p < 32 \<and> g < 32}"

text \<open>Every queued uthread is on the queue of its own priority and group.\<close>

definition rq_sorted :: "gt_state \<Rightarrow> (rq_head \<Rightarrow> uid list) \<Rightarrow> rqid \<Rightarrow> bool" where
  "rq_sorted s Q rq \<longleftrightarrow>
     (\<forall>p<32. \<forall>g<32. \<forall>u\<in>set (Q (PrioGroup rq p g)).
        unat (uthread_priority (uths s u)) = p \<and> unat (uthread_gid (uths s u)) = g)"

text \<open>\<open>pq_ok H R s Q\<close>: the tail queues of \<open>s\<close> represent the sequences \<open>Q\<close>, and each runqueue in \<open>R\<close>
  has masks, counters and a sorting that agree with them.\<close>

definition pq_ok :: "rq_head set \<Rightarrow> rqid set \<Rightarrow> gt_state \<Rightarrow> (rq_head \<Rightarrow> uid list) \<Rightarrow> bool" where
  "pq_ok H R s Q \<longleftrightarrow>
     tq_world H (links s) Q \<and>
     (\<forall>rq\<in>R. rq_heads rq \<subseteq> H \<and> rq_counts (runqs s rq) (rq_len Q rq) \<and> rq_sorted s Q rq)"

text \<open>One uthread more at one place.\<close>

definition inc2 :: "(nat \<Rightarrow> nat \<Rightarrow> nat) \<Rightarrow> nat \<Rightarrow> nat \<Rightarrow> nat \<Rightarrow> nat \<Rightarrow> nat" where
  "inc2 f p g q h = f q h + (if q = p \<and> h = g then 1 else 0)"

lemma rowsum_inc2 [simp]: "g < 32 \<Longrightarrow> rowsum (inc2 f p g) q = rowsum f q + (if q = p then 1 else 0)"
  by (cases "q = p") (simp_all add: rowsum_def inc2_def sum.distrib)

lemma colsum_inc2 [simp]: "p < 32 \<Longrightarrow> colsum (inc2 f p g) h = colsum f h + (if h = g then 1 else 0)"
  by (cases "h = g") (simp_all add: colsum_def inc2_def sum.distrib)

lemma totsum_rowsum: "totsum f = (\<Sum>p<32. rowsum f p)"
  by (simp add: totsum_def rowsum_def)

lemma totsum_inc2 [simp]: "p < 32 \<Longrightarrow> g < 32 \<Longrightarrow> totsum (inc2 f p g) = totsum f + 1"
  by (simp add: totsum_rowsum sum.distrib)

lemma inc2_pos: "0 < inc2 f p g q h \<longleftrightarrow> (q = p \<and> h = g) \<or> 0 < f q h"
  by (auto simp: inc2_def)

lemma rowsum_le_totsum: "p < 32 \<Longrightarrow> rowsum f p \<le> totsum f"
  unfolding totsum_rowsum by (rule member_le_sum) auto

lemma colsum_le_totsum: "g < 32 \<Longrightarrow> colsum f g \<le> totsum f"
  unfolding totsum_def colsum_def by (rule sum_mono, rule member_le_sum) auto

lemma rowsum_eq_0: "rowsum f p = 0 \<longleftrightarrow> (\<forall>g<32. f p g = 0)"
  by (auto simp: rowsum_def)

lemma colsum_eq_0: "colsum f g = 0 \<longleftrightarrow> (\<forall>p<32. f p g = 0)"
  by (auto simp: colsum_def)

lemma totsum_eq_0: "totsum f = 0 \<longleftrightarrow> (\<forall>p<32. \<forall>g<32. f p g = 0)"
  by (auto simp: totsum_def)

lemma rq_countsI:
  assumes "\<And>p g. p < 32 \<Longrightarrow> g < 32 \<Longrightarrow> bit (group_mask r p) g \<longleftrightarrow> 0 < f p g"
    and "\<And>p. p < 32 \<Longrightarrow> bit (uthread_mask r) p \<longleftrightarrow> (\<exists>g<32. 0 < f p g)"
    and "unat (uthread_tot r) = totsum f"
    and "\<And>p. p < 32 \<Longrightarrow> unat (uthread_prio_tot r p) = rowsum f p"
    and "\<And>g. g < 32 \<Longrightarrow> unat (uthread_group_tot r g) = colsum f g"
    and "\<And>p g. p < 32 \<Longrightarrow> g < 32 \<Longrightarrow> 0 < f p g \<Longrightarrow> bit (uthread_group_mask r g) p"
  shows "rq_counts r f"
  using assms by (simp add: rq_counts_def)

lemma rq_countsD:
  assumes "rq_counts r f"
  shows "p < 32 \<Longrightarrow> g < 32 \<Longrightarrow> bit (group_mask r p) g \<longleftrightarrow> 0 < f p g"
    and "p < 32 \<Longrightarrow> bit (uthread_mask r) p \<longleftrightarrow> (\<exists>g<32. 0 < f p g)"
    and "unat (uthread_tot r) = totsum f"
    and "p < 32 \<Longrightarrow> unat (uthread_prio_tot r p) = rowsum f p"
    and "g < 32 \<Longrightarrow> unat (uthread_group_tot r g) = colsum f g"
    and "p < 32 \<Longrightarrow> g < 32 \<Longrightarrow> 0 < f p g \<Longrightarrow> bit (uthread_group_mask r g) p"
  using assms by (simp_all add: rq_counts_def)

definition counts_add :: "nat \<Rightarrow> nat \<Rightarrow> runqueue_t \<Rightarrow> runqueue_t" where
  "counts_add p g r = r\<lparr>group_mask := (group_mask r)(p := SET_BIT (group_mask r p) g),
     uthread_tot := uthread_tot r + 1,
     uthread_prio_tot := (uthread_prio_tot r)(p := uthread_prio_tot r p + 1),
     uthread_mask := SET_BIT (uthread_mask r) p,
     uthread_group_tot := (uthread_group_tot r)(g := uthread_group_tot r g + 1),
     uthread_group_mask := (uthread_group_mask r)(g := SET_BIT (uthread_group_mask r g) p)\<rparr>"

lemma rq_counts_add:
  assumes c: "rq_counts r f" and p: "p < 32" and g: "g < 32" and room: "totsum f + 1 < 2 ^ 32"
  shows "rq_counts (counts_add p g r) (inc2 f p g)"
proof -
  note cd = rq_countsD [OF c]
  have tot: "unat (uthread_tot r + 1) = unat (uthread_tot r) + 1"
    by (rule unat_inc) (use room in \<open>simp add: cd\<close>)
  have prio: "unat (uthread_prio_tot r p + 1) = unat (uthread_prio_tot r p) + 1"
    by (rule unat_inc) (use room p rowsum_le_totsum [OF p, of f] in \<open>simp add: cd\<close>)
  have grp: "unat (uthread_group_tot r g + 1) = unat (uthread_group_tot r g) + 1"
    by (rule unat_inc) (use room g colsum_le_totsum [OF g, of f] in \<open>simp add: cd\<close>)
  show ?thesis
    by (rule rq_countsI) (use p g in \<open>auto simp: counts_add_def inc2_pos tot prio grp cd\<close>)
qed

definition counts_rem :: "bool \<Rightarrow> nat \<Rightarrow> nat \<Rightarrow> runqueue_t \<Rightarrow> runqueue_t" where
  "counts_rem emp p g r = r\<lparr>
     group_mask := (group_mask r)(p := if emp then RESET_BIT (group_mask r p) g else group_mask r p),
     uthread_tot := uthread_tot r - 1,
     uthread_prio_tot := (uthread_prio_tot r)(p := uthread_prio_tot r p - 1),
     uthread_mask := (if uthread_prio_tot r p = 1 then RESET_BIT (uthread_mask r) p else uthread_mask r),
     uthread_group_tot := (uthread_group_tot r)(g := uthread_group_tot r g - 1),
     uthread_group_mask := (uthread_group_mask r)(g := if uthread_group_tot r g = 1
       then RESET_BIT (uthread_group_mask r g) p else uthread_group_mask r g)\<rparr>"

lemma word_eq_1_iff: "(x :: u32) = 1 \<longleftrightarrow> unat x = 1"
  by (simp add: word_unat_eq_iff)

lemma rq_counts_rem:
  assumes c: "rq_counts r (inc2 f p g)" and p: "p < 32" and g: "g < 32"
  shows "rq_counts (counts_rem (f p g = 0) p g r) f"
proof -
  note cd = rq_countsD [OF c]
  have tot: "unat (uthread_tot r - 1) = unat (uthread_tot r) - 1"
    by (rule unat_dec) (use p g in \<open>simp add: cd\<close>)
  have prio: "unat (uthread_prio_tot r p - 1) = unat (uthread_prio_tot r p) - 1"
    by (rule unat_dec) (use p g in \<open>simp add: cd\<close>)
  have grp: "unat (uthread_group_tot r g - 1) = unat (uthread_group_tot r g) - 1"
    by (rule unat_dec) (use p g in \<open>simp add: cd\<close>)
  have p0: "uthread_prio_tot r p = 1 \<longleftrightarrow> (\<forall>h<32. f p h = 0)"
    using p g by (simp add: word_eq_1_iff cd rowsum_eq_0)
  have g0: "uthread_group_tot r g = 1 \<longleftrightarrow> (\<forall>q<32. f q g = 0)"
    using p g by (simp add: word_eq_1_iff cd colsum_eq_0)
  show ?thesis
  proof (rule rq_countsI)
    show "bit (uthread_mask (counts_rem (f p g = 0) p g r)) q \<longleftrightarrow> (\<exists>h<32. 0 < f q h)" if "q < 32" for q
      using p g that by (auto simp: counts_rem_def cd(2) inc2_pos p0)
    show "bit (uthread_group_mask (counts_rem (f p g = 0) p g r) h) q"
      if "q < 32" "h < 32" "0 < f q h" for q h
      using p g that cd(6) [of q h] by (auto simp: counts_rem_def inc2_pos g0)
  qed (use p g in \<open>auto simp: counts_rem_def inc2_pos tot prio grp cd\<close>)
qed

subsection \<open>The operations on the represented queues\<close>

lemma SET_BIT_same: "IS_BIT_SET m off \<noteq> 0 \<Longrightarrow> off < 32 \<Longrightarrow> SET_BIT m off = m"
  by (simp add: IS_BIT_SET_iff SET_BIT_idem)

lemma raw_add_to_runqueue_eq:
  assumes "unat (uthread_priority (uths s u)) = p" and "unat (uthread_gid (uths s u)) = g"
    and "p < 32" and "g < 32"
  shows "raw_add_to_runqueue rq u s =
    rbind (TAILQ_INSERT_TAIL (PrioGroup rq p g) u (links s)) (\<lambda>l.
    Inr (s\<lparr>links := l, runqs := (runqs s)(rq := counts_add p g (runqs s rq))\<rparr>))"
  using assms(3,4)
  by (simp add: raw_add_to_runqueue_def counts_add_def assms(1,2) Let_def)
     (auto simp: SET_BIT_same intro!: arg_cong [where f = "rbind _"])

lemma raw_rem_from_runqueue_eq:
  assumes "unat (uthread_priority (uths s u)) = p" and "unat (uthread_gid (uths s u)) = g"
    and "p < 32" and "g < 32"
  shows "raw_rem_from_runqueue rq u s =
    rbind (TAILQ_REMOVE (PrioGroup rq p g) u (links s)) (\<lambda>l.
    c_assert (uthread_group_tot (runqs s rq) g = 1 \<longrightarrow> TAILQ_EMPTY (PrioGroup rq p g) l)
    (Inr (s\<lparr>links := l, runqs := (runqs s)(rq :=
        counts_rem (TAILQ_EMPTY (PrioGroup rq p g) l) p g (runqs s rq))\<rparr>)))"
proof (cases "TAILQ_REMOVE (PrioGroup rq p g) u (links s)")
  case (Inr l)
  with assms(3,4) show ?thesis
    by (cases "TAILQ_EMPTY (PrioGroup rq p g) l"; cases "uthread_prio_tot (runqs s rq) p = 1";
        cases "uthread_group_tot (runqs s rq) g = 1")
       (simp_all add: raw_rem_from_runqueue_def counts_rem_def assms(1,2) Let_def)
qed (use assms(3,4) in \<open>simp add: raw_rem_from_runqueue_def assms(1,2) Let_def\<close>)

lemma rq_len_upd_tail:
  "rq_len (Q(PrioGroup rq p g := Q (PrioGroup rq p g) @ [u])) rq' =
     (if rq' = rq then inc2 (rq_len Q rq) p g else rq_len Q rq')"
  by (auto simp: fun_eq_iff rq_len_def inc2_def)

lemma rq_len_remove1:
  assumes "u \<in> set (Q (PrioGroup rq p g))"
  shows "rq_len Q rq = inc2 (rq_len (Q(PrioGroup rq p g := remove1 u (Q (PrioGroup rq p g)))) rq) p g"
    and "rq' \<noteq> rq \<Longrightarrow> rq_len (Q(PrioGroup rq p g := remove1 u (Q (PrioGroup rq p g)))) rq' = rq_len Q rq'"
  using assms by (auto simp: fun_eq_iff rq_len_def inc2_def length_remove1 dest: length_pos_if_in_set)

lemma pq_okD:
  assumes "pq_ok H R s Q"
  shows "tq_world H (links s) Q"
    and "rq \<in> R \<Longrightarrow> p < 32 \<Longrightarrow> g < 32 \<Longrightarrow> PrioGroup rq p g \<in> H"
    and "rq \<in> R \<Longrightarrow> rq_counts (runqs s rq) (rq_len Q rq)"
    and "rq \<in> R \<Longrightarrow> rq_sorted s Q rq"
  using assms by (auto simp: pq_ok_def rq_heads_def)

text \<open>Adding a uthread that is on no queue appends it to the queue of its priority and group.\<close>

lemma raw_add_to_runqueue_ok:
  assumes ok: "pq_ok H R s Q" and rq: "rq \<in> R" and u: "u \<notin> queued H Q"
    and p: "unat (uthread_priority (uths s u)) = p" "p < 32"
    and g: "unat (uthread_gid (uths s u)) = g" "g < 32"
    and room: "rq_size Q rq + 1 < 2 ^ 32"
  shows "\<exists>s'. raw_add_to_runqueue rq u s = Inr s' \<and>
    pq_ok H R s' (Q(PrioGroup rq p g := Q (PrioGroup rq p g) @ [u])) \<and>
    s' = s\<lparr>links := links s', runqs := (runqs s)(rq := runqs s' rq)\<rparr>"
proof -
  let ?h = "PrioGroup rq p g"
  let ?Q = "Q(?h := Q ?h @ [u])"
  obtain l where l: "TAILQ_INSERT_TAIL ?h u (links s) = Inr l" "tq_world H l ?Q"
    using tq.insert_tail_law [OF pq_okD(1) [OF ok] pq_okD(2) [OF ok rq p(2) g(2)] u] by blast
  let ?s = "s\<lparr>links := l, runqs := (runqs s)(rq := counts_add p g (runqs s rq))\<rparr>"
  have run: "raw_add_to_runqueue rq u s = Inr ?s"
    by (simp add: raw_add_to_runqueue_eq [OF p(1) g(1) p(2) g(2)] l)
  have "rq_counts (runqs ?s rq') (rq_len ?Q rq')" if "rq' \<in> R" for rq'
    using pq_okD(3) [OF ok that] rq_counts_add [OF pq_okD(3) [OF ok rq] p(2) g(2)] room
    by (simp add: rq_len_upd_tail rq_size_def)
  moreover have "rq_sorted ?s ?Q rq'" if "rq' \<in> R" for rq'
    using pq_okD(4) [OF ok that] p(1) g(1) by (auto simp: rq_sorted_def)
  ultimately have "pq_ok H R ?s ?Q"
    using ok l(2) by (simp add: pq_ok_def)
  with run show ?thesis by auto
qed

text \<open>Removing a queued uthread takes it out of its queue, and never fails the assertion.\<close>

lemma raw_rem_from_runqueue_ok:
  assumes ok: "pq_ok H R s Q" and rq: "rq \<in> R"
    and p: "p < 32" and g: "g < 32" and u: "u \<in> set (Q (PrioGroup rq p g))"
  shows "\<exists>s'. raw_rem_from_runqueue rq u s = Inr s' \<and>
    pq_ok H R s' (Q(PrioGroup rq p g := remove1 u (Q (PrioGroup rq p g)))) \<and>
    s' = s\<lparr>links := links s', runqs := (runqs s)(rq := runqs s' rq)\<rparr>"
proof -
  let ?h = "PrioGroup rq p g"
  let ?Q = "Q(?h := remove1 u (Q ?h))"
  have pu: "unat (uthread_priority (uths s u)) = p" and gu: "unat (uthread_gid (uths s u)) = g"
    using pq_okD(4) [OF ok rq] p g u by (auto simp: rq_sorted_def)
  have hH: "?h \<in> H" using pq_okD(2) [OF ok rq p g] .
  obtain l where l: "TAILQ_REMOVE ?h u (links s) = Inr l" "tq_world H l ?Q"
    using tq.remove_law [OF pq_okD(1) [OF ok] hH u] by blast
  have emp: "TAILQ_EMPTY ?h l \<longleftrightarrow> rq_len ?Q rq p g = 0"
    using tq.is_empty_law [OF l(2) hH] by (simp add: rq_len_def)
  have c: "rq_counts (runqs s rq) (inc2 (rq_len ?Q rq) p g)"
    using pq_okD(3) [OF ok rq] by (simp flip: rq_len_remove1(1) [of u Q rq p g, OF u])
  have "TAILQ_EMPTY ?h l" if "uthread_group_tot (runqs s rq) g = 1"
    using that rq_countsD(5) [OF c g] p by (simp add: emp word_eq_1_iff g colsum_eq_0)
  then have run: "raw_rem_from_runqueue rq u s = Inr (s\<lparr>links := l,
      runqs := (runqs s)(rq := counts_rem (rq_len ?Q rq p g = 0) p g (runqs s rq))\<rparr>)"
    by (simp add: raw_rem_from_runqueue_eq [OF pu gu p g] l(1) emp)
  let ?s = "s\<lparr>links := l, runqs := (runqs s)(rq := counts_rem (rq_len ?Q rq p g = 0) p g (runqs s rq))\<rparr>"
  have "rq_counts (runqs ?s rq') (rq_len ?Q rq')" if "rq' \<in> R" for rq'
    using pq_okD(3) [OF ok that] rq_counts_rem [OF c p g] by (simp add: rq_len_remove1(2) [of u Q rq p g, OF u])
  moreover have "rq_sorted ?s ?Q rq'" if "rq' \<in> R" for rq'
    using pq_okD(4) [OF ok that] by (auto simp: rq_sorted_def dest: notin_set_remove1)
  ultimately have "pq_ok H R ?s ?Q"
    using ok l(2) by (simp add: pq_ok_def)
  with run show ?thesis by auto
qed

subsection \<open>The best uthread\<close>

text \<open>The non-empty queue of lowest priority number and, in that priority, of lowest group.\<close>

definition best_slot :: "(rq_head \<Rightarrow> uid list) \<Rightarrow> rqid \<Rightarrow> nat \<Rightarrow> nat \<Rightarrow> bool" where
  "best_slot Q rq p g \<longleftrightarrow>
     p < 32 \<and> g < 32 \<and> Q (PrioGroup rq p g) \<noteq> [] \<and>
     (\<forall>p'<32. \<forall>g'<32. Q (PrioGroup rq p' g') \<noteq> [] \<longrightarrow> p < p' \<or> (p = p' \<and> g \<le> g'))"

lemma uthread_mask_zero:
  "pq_ok H R s Q \<Longrightarrow> rq \<in> R \<Longrightarrow> uthread_mask (runqs s rq) = 0 \<longleftrightarrow> rq_size Q rq = 0"
  by (drule (1) pq_okD(3)) (simp add: mask_zero_iff rq_counts_def rq_size_def totsum_eq_0)

lemma uthread_tot_zero:
  "pq_ok H R s Q \<Longrightarrow> rq \<in> R \<Longrightarrow> uthread_tot (runqs s rq) = 0 \<longleftrightarrow> rq_size Q rq = 0"
  by (drule (1) pq_okD(3)) (simp add: rq_counts_def rq_size_def unat_eq_zero flip: unat_eq_zero)

lemma find_best_ok:
  assumes ok: "pq_ok H R s Q" and rq: "rq \<in> R" and ne: "rq_size Q rq \<noteq> 0"
  shows "\<exists>p g. best_slot Q rq p g \<and> find_best rq s = Inr (Some (hd (Q (PrioGroup rq p g))))"
proof -
  note cd = rq_countsD [OF pq_okD(3) [OF ok rq]]
  from ne ok rq have "uthread_mask (runqs s rq) \<noteq> 0" by (simp add: uthread_mask_zero)
  then obtain p where p: "LOWEST_BIT_SET (uthread_mask (runqs s rq)) = Inr p"
    using LOWEST_BIT_SET_ex by blast
  then have p32: "p < 32" and pbit: "bit (uthread_mask (runqs s rq)) p"
    and pmin: "\<And>q. q < p \<Longrightarrow> \<not> bit (uthread_mask (runqs s rq)) q" by (auto simp: LOWEST_BIT_SET_Inr)
  from pbit obtain g' where "g' < 32" "0 < rq_len Q rq p g'" using cd(2) [OF p32] by blast
  then have gm: "group_mask (runqs s rq) p \<noteq> 0"
    using cd(1) [OF p32] by (auto simp: mask_zero_iff)
  then obtain g where g: "LOWEST_BIT_SET (group_mask (runqs s rq) p) = Inr g"
    using LOWEST_BIT_SET_ex by blast
  then have g32: "g < 32" and gbit: "bit (group_mask (runqs s rq) p) g"
    and gmin: "\<And>q. q < g \<Longrightarrow> \<not> bit (group_mask (runqs s rq) p) q" by (auto simp: LOWEST_BIT_SET_Inr)
  have nonempty: "Q (PrioGroup rq p g) \<noteq> []"
    using gbit cd(1) [OF p32 g32] by (simp add: rq_len_def)
  have "p < q \<or> p = q \<and> g \<le> h" if "q < 32" "h < 32" "Q (PrioGroup rq q h) \<noteq> []" for q h
  proof -
    have pos: "0 < rq_len Q rq q h" using that by (simp add: rq_len_def)
    then have "bit (uthread_mask (runqs s rq)) q" using cd(2) that by blast
    then have "p \<le> q" using pmin by (meson not_le_imp_less)
    moreover have "g \<le> h" if "p = q"
      using pos gmin cd(1) [OF p32 \<open>h < 32\<close>] that by (meson not_le_imp_less)
    ultimately show ?thesis by fastforce
  qed
  with p32 g32 nonempty have "best_slot Q rq p g" by (simp add: best_slot_def)
  moreover have "find_best rq s = Inr (Some (hd (Q (PrioGroup rq p g))))"
    using p g gm nonempty tq.first_law [OF pq_okD(1) [OF ok] pq_okD(2) [OF ok rq p32 g32]]
    by (simp add: find_best_def)
  ultimately show ?thesis by blast
qed

subsection \<open>The lock-protected operations\<close>

lemma raw_add_upd_krunq:
  "raw_add_to_runqueue rq u (upd_krunq k f s) =
     rbind (raw_add_to_runqueue rq u s) (\<lambda>s'. Inr (upd_krunq k f s'))"
proof (cases "unat (uthread_priority (uths s u)) < 32 \<and> unat (uthread_gid (uths s u)) < 32")
  case True
  then show ?thesis
    by (simp add: raw_add_to_runqueue_eq rbind_assoc)
       (auto simp: upd_krunq_def intro!: arg_cong [where f = "rbind _"])
qed (auto simp: raw_add_to_runqueue_def Let_def in_bounds_def)

lemma raw_rem_upd_krunq:
  "raw_rem_from_runqueue rq u (upd_krunq k f s) =
     rbind (raw_rem_from_runqueue rq u s) (\<lambda>s'. Inr (upd_krunq k f s'))"
proof (cases "unat (uthread_priority (uths s u)) < 32 \<and> unat (uthread_gid (uths s u)) < 32")
  case True
  then show ?thesis
    by (simp add: raw_rem_from_runqueue_eq rbind_assoc)
       (auto simp: upd_krunq_def c_assert_def intro!: arg_cong [where f = "rbind _"])
qed (auto simp: raw_rem_from_runqueue_def Let_def in_bounds_def)

text \<open>The lock word after a balanced lock, holder assignment and unlock.\<close>

definition released :: "kid \<Rightarrow> u32 \<Rightarrow> gt_state \<Rightarrow> gt_state" where
  "released k h s = upd_krunq k (\<lambda>q. q\<lparr>kthread_runqlock := \<lparr>locked = 0, holder = h\<rparr>\<rparr>) s"

lemma upd_krunq_upd_krunq [simp]: "upd_krunq k f (upd_krunq k g s) = upd_krunq k (\<lambda>q. f (g q)) s"
  by (simp add: upd_krunq_def)

lemma spin_unlock_at_eq: "spin_unlock_at l = l\<lparr>locked := 0\<rparr>"
  by (cases l) (simp add: spin_unlock_at_def gt_spin_unlock_def)

lemma spinlock_upd [simp]: "(l :: gt_spinlock_t)\<lparr>holder := h, locked := w\<rparr> = \<lparr>locked = w, holder = h\<rparr>"
  by (cases l) simp

lemma add_to_runqueue_eq:
  "add_to_runqueue rq k u s =
     (if locked (kthread_runqlock (krunqs s k)) = 0
      then rbind (raw_add_to_runqueue rq u s) (\<lambda>s'. Inr (released k 0x02 s'))
      else Inl SpinForever)"
  by (simp add: add_to_runqueue_def lock_runq_def spin_lock_at_eq set_runq_holder_def unlock_runq_def
      raw_add_upd_krunq rbind_assoc released_def spin_unlock_at_eq)

lemma rem_from_runqueue_eq:
  "rem_from_runqueue rq k u s =
     (if locked (kthread_runqlock (krunqs s k)) = 0
      then rbind (raw_rem_from_runqueue rq u s) (\<lambda>s'. Inr (released k 0x03 s'))
      else Inl SpinForever)"
  by (simp add: rem_from_runqueue_def lock_runq_def spin_lock_at_eq set_runq_holder_def unlock_runq_def
      raw_rem_upd_krunq rbind_assoc released_def spin_unlock_at_eq)

lemma pq_ok_cong:
  assumes "links s' = links s" and "\<And>rq. rq \<in> R \<Longrightarrow> runqs s' rq = runqs s rq"
    and "\<And>u. u \<in> queued H Q \<Longrightarrow> uthread_priority (uths s' u) = uthread_priority (uths s u)"
    and "\<And>u. u \<in> queued H Q \<Longrightarrow> uthread_gid (uths s' u) = uthread_gid (uths s u)"
  shows "pq_ok H R s Q \<Longrightarrow> pq_ok H R s' Q"
proof -
  assume ok: "pq_ok H R s Q"
  have "rq_sorted s' Q rq" if "rq \<in> R" for rq
    unfolding rq_sorted_def
  proof (intro allI impI ballI)
    fix p g u assume pg: "p < 32" "g < 32" and u: "u \<in> set (Q (PrioGroup rq p g))"
    have "u \<in> queued H Q" using pq_okD(2) [OF ok that pg] u by (auto simp: queued_def)
    with assms(3,4) pq_okD(4) [OF ok that] pg u
    show "unat (uthread_priority (uths s' u)) = p \<and> unat (uthread_gid (uths s' u)) = g"
      by (simp add: rq_sorted_def)
  qed
  with ok assms(1,2) show ?thesis by (simp add: pq_ok_def)
qed

lemma pq_ok_upd_krunq [simp]: "pq_ok H R (upd_krunq k f s) Q = pq_ok H R s Q"
  by (simp add: pq_ok_def rq_sorted_def)

lemma pq_ok_released [simp]: "pq_ok H R (released k h s) Q = pq_ok H R s Q"
  by (simp add: released_def)

lemma pq_ok_upd_kctx [simp]: "pq_ok H R (upd_kctx k f s) Q = pq_ok H R s Q"
  by (simp add: pq_ok_def rq_sorted_def)

lemma pq_ok_upd_ksched [simp]: "pq_ok H R (upd_ksched f s) Q = pq_ok H R s Q"
  by (simp add: pq_ok_def rq_sorted_def)

lemma rem_then_add_ok:
  assumes ok: "pq_ok H R s Q" and from_rq: "rq \<in> R" and to_rq: "rq' \<in> R"
    and p: "p < 32" and g: "g < 32" and u: "u \<in> set (Q (PrioGroup rq p g))"
    and room: "rq_size Q rq' + 1 < 2 ^ 32"
    and free: "locked (kthread_runqlock (krunqs s k)) = 0" "locked (kthread_runqlock (krunqs s k')) = 0"
  shows "\<exists>s'. switch_runqueue rq k rq' k' u s = Inr s' \<and>
    pq_ok H R s' ((Q(PrioGroup rq p g := remove1 u (Q (PrioGroup rq p g))))
      (PrioGroup rq' p g := (Q(PrioGroup rq p g := remove1 u (Q (PrioGroup rq p g)))) (PrioGroup rq' p g) @ [u]))"
proof -
  let ?Q1 = "Q(PrioGroup rq p g := remove1 u (Q (PrioGroup rq p g)))"
  obtain s1 where s1: "raw_rem_from_runqueue rq u s = Inr s1" "pq_ok H R s1 ?Q1"
    "s1 = s\<lparr>links := links s1, runqs := (runqs s)(rq := runqs s1 rq)\<rparr>"
    using raw_rem_from_runqueue_ok [OF ok from_rq p g u] by blast
  have same: "uths s1 = uths s" "krunqs s1 = krunqs s"
    by (subst s1(3), simp)+
  let ?s2 = "released k 0x03 s1"
  have pu: "unat (uthread_priority (uths ?s2 u)) = p" and gu: "unat (uthread_gid (uths ?s2 u)) = g"
    using pq_okD(4) [OF ok from_rq] p g u by (auto simp: rq_sorted_def released_def same)
  have nq: "u \<notin> queued H ?Q1"
    using tq.removed_not_queued [OF pq_okD(1) [OF ok] pq_okD(2) [OF ok from_rq p g] u] .
  have "rq_size ?Q1 rq' \<le> rq_size Q rq'"
    unfolding rq_size_def totsum_def by (intro sum_mono) (simp add: rq_len_def length_remove1)
  with room have "rq_size ?Q1 rq' + 1 < 2 ^ 32" by simp
  then obtain s3 where s3: "raw_add_to_runqueue rq' u ?s2 = Inr s3"
     "pq_ok H R s3 (?Q1(PrioGroup rq' p g := ?Q1 (PrioGroup rq' p g) @ [u]))"
    using raw_add_to_runqueue_ok [OF _ to_rq nq pu p gu g] s1(2) by (metis pq_ok_released)
  have "locked (kthread_runqlock (krunqs ?s2 k')) = 0"
    using free by (simp add: released_def same)
  with free(1) s1(1) s3 show ?thesis
    by (auto simp: switch_runqueue_def rem_from_runqueue_eq add_to_runqueue_eq)
qed

subsection \<open>Initialisation\<close>

definition runq_zero :: runqueue_t where
  "runq_zero = \<lparr>uthread_mask = 0, uthread_tot = 0, uthread_prio_tot = (\<lambda>_. 0),
     uthread_group_mask = (\<lambda>_. 0), uthread_group_tot = (\<lambda>_. 0), group_mask = (\<lambda>_. 0)\<rparr>"

lemma rq_counts_zero: "rq_counts runq_zero (\<lambda>_ _. 0)"
  by (rule rq_countsI) (simp_all add: runq_zero_def totsum_def rowsum_def colsum_def)

lemma tq_world_init: "tq_world H hp Q \<Longrightarrow> tq_world (insert h H) (TAILQ_INIT h hp) (Q(h := []))"
proof -
  assume w: "tq_world H hp Q"
  have "tq_rep (TAILQ_INIT h hp) h' (Q h')" if "h' \<in> H" "h' \<noteq> h" for h'
  proof (rule tq_rep_frame [OF _ TAILQ_INIT_changes that(2)])
    show "tq_rep hp h' (Q h')" using w that by (simp add: tq_world_def)
  qed simp
  with w show ?thesis by (auto simp: tq_world_def TAILQ_INIT_rep)
qed

lemma tq_world_fold_init:
  "tq_world H hp Q \<Longrightarrow>
     tq_world (set hs \<union> H) (fold TAILQ_INIT hs hp) (\<lambda>h. if h \<in> set hs then [] else Q h)"
proof (induction hs arbitrary: H hp Q)
  case (Cons h hs)
  have "tq_world (set hs \<union> insert h H) (fold TAILQ_INIT hs (TAILQ_INIT h hp))
     (\<lambda>x. if x \<in> set hs then [] else (Q(h := [])) x)"
    by (rule Cons.IH) (rule tq_world_init [OF Cons.prems])
  moreover have "(\<lambda>x. if x \<in> set hs then [] else (Q(h := [])) x) = (\<lambda>x. if x \<in> set (h # hs) then [] else Q x)"
    by auto
  ultimately show ?case by simp
qed simp

lemma fold_fold_concat:
  "fold (\<lambda>i. fold (\<lambda>j. f (h i j)) ys) xs s = fold f (concat (map (\<lambda>i. map (h i) ys) xs)) s"
  by (induction xs arbitrary: s) (simp_all add: fold_map comp_def)

definition head_list :: "rqid \<Rightarrow> rq_head list" where
  "head_list rq = concat (map (\<lambda>i. map (PrioGroup rq i) [0..<32]) [0..<32])"

lemma set_head_list [simp]: "set (head_list rq) = rq_heads rq"
  by (auto simp: head_list_def rq_heads_def)

lemma init_runqueue_eq: "init_runqueue rq s = s\<lparr>links := fold TAILQ_INIT (head_list rq) (links s)\<rparr>"
  by (simp add: init_runqueue_def head_list_def fold_fold_concat)

definition krunq_heads :: "kid \<Rightarrow> rq_head set" where
  "krunq_heads k = insert (Zombies k) (rq_heads (k, 0) \<union> rq_heads (k, 1))"

lemma kthread_init_runqueue_eq:
  "kthread_init_runqueue k s =
     (upd_krunq k (\<lambda>q. q\<lparr>active_runq := 0, expires_runq := 1,
         kthread_runqlock := (kthread_runqlock q)\<lparr>locked := 0\<rparr>\<rparr>) s)
     \<lparr>links := fold TAILQ_INIT (head_list (k, 0) @ head_list (k, 1) @ [Zombies k]) (links s)\<rparr>"
  by (simp add: kthread_init_runqueue_def init_runqueue_eq Let_def)

lemma kthread_init_runqueue_ok:
  assumes ok: "pq_ok H R s Q" and fresh: "krunq_heads k \<inter> H = {}" "(k, 0) \<notin> R" "(k, 1) \<notin> R"
    and zero: "runqs s (k, 0) = runq_zero" "runqs s (k, 1) = runq_zero"
  shows "pq_ok (krunq_heads k \<union> H) (insert (k, 0) (insert (k, 1) R)) (kthread_init_runqueue k s)
    (\<lambda>h. if h \<in> krunq_heads k then [] else Q h)" (is "pq_ok ?H ?R ?s ?Q")
proof -
  let ?hs = "head_list (k, 0) @ head_list (k, 1) @ [Zombies k]"
  have hs: "set ?hs = krunq_heads k" by (auto simp: krunq_heads_def)
  have w: "tq_world ?H (links ?s) ?Q"
    using tq_world_fold_init [OF pq_okD(1) [OF ok], of ?hs] unfolding hs
    by (simp add: kthread_init_runqueue_eq)
  have rqs: "runqs ?s = runqs s" "uths ?s = uths s" by (simp_all add: kthread_init_runqueue_eq)
  have old: "rq_len ?Q rq = rq_len Q rq \<and> rq_sorted ?s ?Q rq" if "rq \<in> R" for rq
  proof -
    have "PrioGroup rq p g \<notin> krunq_heads k" for p g
      using that fresh(2,3) by (auto simp: krunq_heads_def rq_heads_def)
    with pq_okD(4) [OF ok that] show ?thesis
      by (simp add: rq_len_def fun_eq_iff rq_sorted_def rqs)
  qed
  have new: "rq_counts (runqs ?s (k, i)) (rq_len ?Q (k, i)) \<and> rq_sorted ?s ?Q (k, i)" if "i = 0 \<or> i = 1" for i
  proof -
    have emp: "?Q (PrioGroup (k, i) p g) = []" if "p < 32" "g < 32" for p g
      using that \<open>i = 0 \<or> i = 1\<close> by (auto simp: krunq_heads_def rq_heads_def)
    have "rq_counts runq_zero (rq_len ?Q (k, i))"
      by (rule rq_countsI) (simp_all add: runq_zero_def totsum_def rowsum_def colsum_def rq_len_def emp)
    with emp zero that show ?thesis by (auto simp: rqs rq_sorted_def)
  qed
  have "rq_heads rq \<subseteq> ?H \<and> rq_counts (runqs ?s rq) (rq_len ?Q rq) \<and> rq_sorted ?s ?Q rq"
    if "rq \<in> ?R" for rq
  proof (cases "rq \<in> R")
    case True
    with old [OF True] ok rqs show ?thesis by (simp only: pq_ok_def) blast
  next
    case False
    with that obtain i where i: "rq = (k, i)" "i = 0 \<or> i = 1" by blast
    then have "rq_heads rq \<subseteq> krunq_heads k" by (auto simp: krunq_heads_def)
    with new [OF i(2)] i(1) show ?thesis by blast
  qed
  with w show ?thesis unfolding pq_ok_def by blast
qed

end
