(* ===== verification/GT_Sched.thy ===== *)
theory GT_Sched
  imports GT_Runqueue
begin

unbundle bit_operations_syntax

text \<open>
  The two selection functions of gt_pq.c: \<open>sched_find_best_uthread\<close>, which picks the best uthread
  of the active runqueue, steals one from another kthread when load balancing is on, or exchanges
  the two runqueues, and \<open>sched_find_best_uthread_group\<close>, its variant for co-scheduling. A call is
  modelled as it runs without interference from the other kthreads.

  \<open>apic\<close> is the value of \<open>kthread_apic_id()\<close>, the number of the processor the call runs on; the
  argument \<open>k\<close> is the kthread whose \<open>krunqueue\<close> is passed.
\<close>

subsection \<open>The code\<close>

text \<open>The label \<open>find_active_obj\<close>: the uthread found leaves the runqueue, the lock is released, the
  uthread is returned.\<close>

definition take_obj :: "kid \<Rightarrow> rqid \<Rightarrow> uid option \<Rightarrow> gt_state \<Rightarrow> (uid option \<times> gt_state) res" where
  "take_obj k runq u_obj s =
     deref u_obj (\<lambda>u. rbind (raw_rem_from_runqueue runq u s) (\<lambda>s'. Inr (Some u, unlock_runq k s')))"

text \<open>The load balancing loop. It ends with no uthread (\<open>None\<close>), or with the uthread it moved to the
  runqueue of the caller, whose lock is then held.\<close>

function lb_loop :: "nat \<Rightarrow> nat \<Rightarrow> kid \<Rightarrow> rqid \<Rightarrow> gt_state \<Rightarrow> (uid \<times> gt_state) option res" where
  "lb_loop i cpu k runq s =
     (if i < 16 \<and> i \<noteq> cpu then
        deref (kthread_cpu_map s i) (\<lambda>other.
        if kthread_flags (kctxs s other) AND KTHREAD_DONE \<noteq> 0 then lb_loop (Suc i) cpu k runq s
        else if uthread_mask (runqs s (other, active_runq (krunqs s other))) \<noteq> 0 then
          rbind (lock_runq other s) (\<lambda>s1.
          let other_runq = (other, active_runq (krunqs s1 other))
          in if uthread_mask (runqs s1 other_runq) = 0
             then lb_loop (Suc i) cpu k runq (unlock_runq other s1)
             else rbind (find_best other_runq s1) (\<lambda>u_obj.
                  deref u_obj (\<lambda>u.
                  rbind (raw_rem_from_runqueue other_runq u s1) (\<lambda>s2.
                  rbind (lock_runq k (unlock_runq other s2)) (\<lambda>s3.
                  rbind (raw_add_to_runqueue runq u s3) (\<lambda>s4. Inr (Some (u, s4))))))))
        else lb_loop (Suc i) cpu k runq s)
      else Inr None)"
  by pat_completeness auto
termination
  by (relation "measure (\<lambda>(i, cpu, k, runq, s). 16 - i)") auto

declare lb_loop.simps [simp del]

definition sched_find_best_uthread :: "nat \<Rightarrow> kid \<Rightarrow> gt_state \<Rightarrow> (uid option \<times> gt_state) res" where
  "sched_find_best_uthread apic k s =
     in_bounds apic GT_MAX_KTHREADS (
     let current_k_ctx = kthread_cpu_map s apic
     in rbind (lock_runq k s) (\<lambda>s1.
        let runq = (k, active_runq (krunqs s1 k));
            s2 = set_runq_holder k 0x04 s1
        in if uthread_mask (runqs s2 runq) = 0 then
             c_assert (uthread_tot (runqs s2 runq) = 0) (
             let s3 = unlock_runq k s2
             in rbind (if is_kernel_thread_ready s3 = 1 \<and> is_credit_scheduler s3 = 1 \<and> is_load_balancing s3 = 1
                       then deref current_k_ctx (\<lambda>c. lb_loop 0 (unat (cpuid (kctxs s3 c))) k runq s3)
                       else Inr None) (\<lambda>found.
                case found of
                  Some (u, s4) \<Rightarrow> take_obj k runq (Some u) s4
                | None \<Rightarrow>
                    let s5 = upd_krunq k (\<lambda>q. q\<lparr>active_runq := expires_runq q, expires_runq := snd runq\<rparr>) s3;
                        runq' = (k, expires_runq (krunqs s5 k))
                    in if uthread_mask (runqs s5 runq') = 0
                       then c_assert (uthread_tot (runqs s5 runq') = 0) (Inr (None, s5))
                       else rbind (find_best runq' s5) (\<lambda>u_obj. take_obj k runq' u_obj s5)))
           else rbind (find_best runq s2) (\<lambda>u_obj. take_obj k runq u_obj s2)))"

text \<open>\<open>cosched\<close> says whether the library is compiled with \<open>COSCHED\<close>; without it the function is
  \<open>sched_find_best_uthread\<close>.\<close>

definition sched_find_best_uthread_group :: "bool \<Rightarrow> nat \<Rightarrow> kid \<Rightarrow> gt_state \<Rightarrow> (uid option \<times> gt_state) res" where
  "sched_find_best_uthread_group cosched apic k s =
     (if \<not> cosched then sched_find_best_uthread apic k s
      else
        let u_gid = 0;
            runq0 = (k, active_runq (krunqs s k));
            rest = (\<lambda>runq s1.
              let m = uthread_group_mask (runqs s1 runq) u_gid
              in if m = 0
                 then c_assert (uthread_group_tot (runqs s1 runq) u_gid = 0) (sched_find_best_uthread apic k s1)
                 else rbind (LOWEST_BIT_SET m) (\<lambda>uprio.
                      deref (TAILQ_FIRST (PrioGroup runq uprio u_gid) (links s1)) (\<lambda>u.
                      rbind (rem_from_runqueue runq k u s1) (\<lambda>s2. Inr (Some u, s2)))))
        in if uthread_mask (runqs s runq0) = 0 then
             c_assert (uthread_tot (runqs s runq0) = 0) (
             let s1 = upd_krunq k (\<lambda>q. q\<lparr>active_runq := expires_runq q, expires_runq := snd runq0\<rparr>) s;
                 runq = (k, expires_runq (krunqs s1 k))
             in if uthread_mask (runqs s1 runq) = 0
                then c_assert (uthread_tot (runqs s1 runq) = 0) (Inr (None, s1))
                else rest runq s1)
           else rest runq0 s)"

subsection \<open>Well-formed kthreads\<close>

text \<open>\<open>kt_ok K s\<close>: \<open>K\<close> are the initialised kthreads. Their active and expires runqueues are the two
  embedded ones, their locks are free, and the map holds no others.\<close>

definition kt_ok :: "kid set \<Rightarrow> gt_state \<Rightarrow> bool" where
  "kt_ok K s \<longleftrightarrow>
     (\<forall>k\<in>K. active_runq (krunqs s k) < 2 \<and> expires_runq (krunqs s k) = 1 - active_runq (krunqs s k) \<and>
        locked (kthread_runqlock (krunqs s k)) = 0) \<and>
     (\<forall>i k. kthread_cpu_map s i = Some k \<longrightarrow> k \<in> K)"

abbreviation Rs :: "kid set \<Rightarrow> rqid set" where
  "Rs K \<equiv> K \<times> {0, 1}"

abbreviation Hs :: "kid set \<Rightarrow> rq_head set" where
  "Hs K \<equiv> \<Union>k\<in>K. krunq_heads k"

abbreviation active :: "gt_state \<Rightarrow> kid \<Rightarrow> rqid" where
  "active s k \<equiv> (k, active_runq (krunqs s k))"

abbreviation expires :: "gt_state \<Rightarrow> kid \<Rightarrow> rqid" where
  "expires s k \<equiv> (k, expires_runq (krunqs s k))"

text \<open>Everything but the queues, their pointers and their locks.\<close>

definition same_threads :: "gt_state \<Rightarrow> gt_state \<Rightarrow> bool" where
  "same_threads s s' \<longleftrightarrow>
     uths s' = uths s \<and> kctxs s' = kctxs s \<and> kthread_cpu_map s' = kthread_cpu_map s \<and>
     ksched_shared_info s' = ksched_shared_info s \<and> uthread_time s' = uthread_time s \<and>
     is_credit_scheduler s' = is_credit_scheduler s \<and> is_load_balancing s' = is_load_balancing s \<and>
     is_kernel_thread_ready s' = is_kernel_thread_ready s \<and>
     (\<forall>k. cur_uthread (krunqs s' k) = cur_uthread (krunqs s k))"

definition same_pointers :: "gt_state \<Rightarrow> gt_state \<Rightarrow> bool" where
  "same_pointers s s' \<longleftrightarrow>
     (\<forall>k. active_runq (krunqs s' k) = active_runq (krunqs s k) \<and>
          expires_runq (krunqs s' k) = expires_runq (krunqs s k))"

text \<open>The sequence of queues after the first uthread of a queue has left it.\<close>

definition pop :: "rqid \<Rightarrow> nat \<Rightarrow> nat \<Rightarrow> (rq_head \<Rightarrow> uid list) \<Rightarrow> rq_head \<Rightarrow> uid list" where
  "pop rq p g Q = Q(PrioGroup rq p g := tl (Q (PrioGroup rq p g)))"

lemma same_threads_refl [simp]: "same_threads s s"
  by (simp add: same_threads_def)

lemma same_threads_trans [trans]: "same_threads s t \<Longrightarrow> same_threads t u \<Longrightarrow> same_threads s u"
  by (simp add: same_threads_def)

lemma same_pointers_refl [simp]: "same_pointers s s"
  by (simp add: same_pointers_def)

lemma same_pointers_trans [trans]: "same_pointers s t \<Longrightarrow> same_pointers t u \<Longrightarrow> same_pointers s u"
  by (simp add: same_pointers_def)

lemma kt_ok_active_in_Rs: "kt_ok K s \<Longrightarrow> k \<in> K \<Longrightarrow> active s k \<in> Rs K"
  by (fastforce simp: kt_ok_def less_2_cases_iff)

lemma kt_ok_expires_in_Rs: "kt_ok K s \<Longrightarrow> k \<in> K \<Longrightarrow> expires s k \<in> Rs K"
  by (fastforce simp: kt_ok_def less_2_cases_iff)

subsection \<open>Taking the best uthread of a runqueue\<close>

lemma take_best_ok:
  assumes ok: "pq_ok H R s Q" and rq: "rq \<in> R" and ne: "rq_size Q rq \<noteq> 0"
  shows "\<exists>p g s'. best_slot Q rq p g \<and>
    find_best rq s = Inr (Some (hd (Q (PrioGroup rq p g)))) \<and>
    raw_rem_from_runqueue rq (hd (Q (PrioGroup rq p g))) s = Inr s' \<and>
    pq_ok H R s' (pop rq p g Q) \<and>
    s' = s\<lparr>links := links s', runqs := (runqs s)(rq := runqs s' rq)\<rparr>"
proof -
  obtain p g where b: "best_slot Q rq p g" "find_best rq s = Inr (Some (hd (Q (PrioGroup rq p g))))"
    using find_best_ok [OF ok rq ne] by blast
  let ?u = "hd (Q (PrioGroup rq p g))"
  from b(1) have pg: "p < 32" "g < 32" and u: "?u \<in> set (Q (PrioGroup rq p g))"
    by (auto simp: best_slot_def)
  then obtain s' where "raw_rem_from_runqueue rq ?u s = Inr s'"
    "pq_ok H R s' (Q(PrioGroup rq p g := remove1 ?u (Q (PrioGroup rq p g))))"
    "s' = s\<lparr>links := links s', runqs := (runqs s)(rq := runqs s' rq)\<rparr>"
    using raw_rem_from_runqueue_ok [OF ok rq pg u] by blast
  with b show ?thesis by (auto simp: best_slot_def pop_def remove1_hd)
qed

definition only_queues :: "gt_state \<Rightarrow> gt_state \<Rightarrow> bool" where
  "only_queues s s' \<longleftrightarrow> s' = s\<lparr>links := links s', runqs := runqs s'\<rparr>"

lemma only_queuesI: "s' = s\<lparr>links := l, runqs := r\<rparr> \<Longrightarrow> only_queues s s'"
  by (simp add: only_queues_def)

lemma only_queuesD:
  assumes "only_queues s s'"
  shows "uths s' = uths s" "krunqs s' = krunqs s" "kctxs s' = kctxs s"
    "kthread_cpu_map s' = kthread_cpu_map s" "ksched_shared_info s' = ksched_shared_info s"
    "uthread_time s' = uthread_time s" "is_credit_scheduler s' = is_credit_scheduler s"
    "is_load_balancing s' = is_load_balancing s" "is_kernel_thread_ready s' = is_kernel_thread_ready s"
  by (subst assms [unfolded only_queues_def], simp)+

lemma only_queues_trans [trans]: "only_queues s t \<Longrightarrow> only_queues t u \<Longrightarrow> only_queues s u"
  unfolding only_queues_def [of s u] by (rule gt_state.equality) (simp_all add: only_queuesD)

lemma lock_runq_free:
  "locked (kthread_runqlock (krunqs s k)) = 0 \<Longrightarrow>
     lock_runq k s = Inr (upd_krunq k (\<lambda>q. q\<lparr>kthread_runqlock := (kthread_runqlock q)\<lparr>locked := 1\<rparr>\<rparr>) s)"
  by (simp add: lock_runq_def spin_lock_at_eq upd_krunq_def)

text \<open>The state in which \<open>k\<close> holds its own lock.\<close>

definition holding :: "kid \<Rightarrow> u32 \<Rightarrow> gt_state \<Rightarrow> gt_state" where
  "holding k h s = upd_krunq k (\<lambda>q. q\<lparr>kthread_runqlock := \<lparr>locked = 1, holder = h\<rparr>\<rparr>) s"

lemma set_holder_lock:
  "set_runq_holder k h (upd_krunq k (\<lambda>q. q\<lparr>kthread_runqlock := (kthread_runqlock q)\<lparr>locked := 1\<rparr>\<rparr>) s) =
     holding k h s"
  by (cases "kthread_runqlock (krunqs s k)") (simp add: set_runq_holder_def holding_def upd_krunq_def)

lemma unlock_holding: "unlock_runq k (holding k h s) = released k h s"
  by (simp add: unlock_runq_def holding_def released_def spin_unlock_at_eq)

lemma pq_ok_holding [simp]: "pq_ok H R (holding k h s) Q = pq_ok H R s Q"
  by (simp add: holding_def)

lemma holding_sel [simp]:
  "uths (holding k h s) = uths s" "links (holding k h s) = links s" "runqs (holding k h s) = runqs s"
  "kctxs (holding k h s) = kctxs s" "kthread_cpu_map (holding k h s) = kthread_cpu_map s"
  "active_runq (krunqs (holding k h s) k') = active_runq (krunqs s k')"
  "expires_runq (krunqs (holding k h s) k') = expires_runq (krunqs s k')"
  "cur_uthread (krunqs (holding k h s) k') = cur_uthread (krunqs s k')"
  by (simp_all add: holding_def)

lemma released_sel [simp]:
  "uths (released k h s) = uths s" "links (released k h s) = links s" "runqs (released k h s) = runqs s"
  "kctxs (released k h s) = kctxs s" "kthread_cpu_map (released k h s) = kthread_cpu_map s"
  "ksched_shared_info (released k h s) = ksched_shared_info s"
  "uthread_time (released k h s) = uthread_time s"
  "is_credit_scheduler (released k h s) = is_credit_scheduler s"
  "is_load_balancing (released k h s) = is_load_balancing s"
  "is_kernel_thread_ready (released k h s) = is_kernel_thread_ready s"
  "active_runq (krunqs (released k h s) k') = active_runq (krunqs s k')"
  "expires_runq (krunqs (released k h s) k') = expires_runq (krunqs s k')"
  "cur_uthread (krunqs (released k h s) k') = cur_uthread (krunqs s k')"
  by (simp_all add: released_def)

lemma kt_ok_released [simp]: "kt_ok K s \<Longrightarrow> kt_ok K (released k h s)"
  by (auto simp: kt_ok_def released_def)

lemma kt_ok_only_queues: "only_queues s s' \<Longrightarrow> kt_ok K s' = kt_ok K s"
  by (simp add: kt_ok_def only_queuesD)

lemma same_only_queues: "only_queues s s' \<Longrightarrow> same_threads s s' \<and> same_pointers s s'"
  by (simp add: same_threads_def same_pointers_def only_queuesD)

lemma same_released [simp]: "same_threads s (released k h s)" "same_pointers s (released k h s)"
  by (simp_all add: same_threads_def same_pointers_def)

lemma raw_rem_holding:
  "raw_rem_from_runqueue rq u (holding k h s) = rbind (raw_rem_from_runqueue rq u s) (\<lambda>s'. Inr (holding k h s'))"
  unfolding holding_def by (rule raw_rem_upd_krunq)

lemma raw_add_holding:
  "raw_add_to_runqueue rq u (holding k h s) = rbind (raw_add_to_runqueue rq u s) (\<lambda>s'. Inr (holding k h s'))"
  unfolding holding_def by (rule raw_add_upd_krunq)

lemma find_best_cong: "links s' = links s \<Longrightarrow> runqs s' = runqs s \<Longrightarrow> find_best rq s' = find_best rq s"
  by (simp add: find_best_def)

lemma take_best_holding:
  assumes ok: "pq_ok H R s Q" and rq: "rq \<in> R" and ne: "rq_size Q rq \<noteq> 0"
  shows "\<exists>p g s'. best_slot Q rq p g \<and>
    rbind (find_best rq (holding k h s)) (\<lambda>u. take_obj k rq u (holding k h s)) =
      Inr (Some (hd (Q (PrioGroup rq p g))), released k h s') \<and>
    pq_ok H R s' (pop rq p g Q) \<and> only_queues s s'"
proof -
  obtain p g s' where b: "best_slot Q rq p g" "find_best rq s = Inr (Some (hd (Q (PrioGroup rq p g))))"
    "raw_rem_from_runqueue rq (hd (Q (PrioGroup rq p g))) s = Inr s'" "pq_ok H R s' (pop rq p g Q)"
    "s' = s\<lparr>links := links s', runqs := (runqs s)(rq := runqs s' rq)\<rparr>"
    using take_best_ok [OF ok rq ne] by blast
  moreover have "only_queues s s'" using b(5) by (rule only_queuesI)
  moreover have "find_best rq (holding k h s) = find_best rq s" by (rule find_best_cong) simp_all
  ultimately show ?thesis by (auto simp: take_obj_def raw_rem_holding unlock_holding)
qed

subsection \<open>\<open>sched_find_best_uthread\<close> without load balancing\<close>

lemma kt_okD:
  assumes "kt_ok K s" and "k \<in> K"
  shows "locked (kthread_runqlock (krunqs s k)) = 0" "active_runq (krunqs s k) < 2"
    "expires_runq (krunqs s k) = 1 - active_runq (krunqs s k)"
  using assms by (auto simp: kt_ok_def)

lemma sched_active_ok:
  assumes ok: "pq_ok (Hs K) (Rs K) s Q" and kt: "kt_ok K s" and k: "k \<in> K" and apic: "apic < 16"
    and ne: "rq_size Q (active s k) \<noteq> 0"
  shows "\<exists>p g s'. best_slot Q (active s k) p g \<and>
    sched_find_best_uthread apic k s = Inr (Some (hd (Q (PrioGroup (active s k) p g))), s') \<and>
    pq_ok (Hs K) (Rs K) s' (pop (active s k) p g Q) \<and> kt_ok K s' \<and>
    same_threads s s' \<and> same_pointers s s'"
proof -
  have rq: "active s k \<in> Rs K" using kt k by (rule kt_ok_active_in_Rs)
  obtain p g s' where b: "best_slot Q (active s k) p g"
    "rbind (find_best (active s k) (holding k 4 s)) (\<lambda>u. take_obj k (active s k) u (holding k 4 s)) =
      Inr (Some (hd (Q (PrioGroup (active s k) p g))), released k 4 s')"
    "pq_ok (Hs K) (Rs K) s' (pop (active s k) p g Q)" "only_queues s s'"
    using take_best_holding [OF ok rq ne] by blast
  have "uthread_mask (runqs s (active s k)) \<noteq> 0"
    using ne by (simp only: uthread_mask_zero [OF ok rq]) simp
  then have "sched_find_best_uthread apic k s =
      Inr (Some (hd (Q (PrioGroup (active s k) p g))), released k 4 s')"
    using b(2) apic kt_okD(1) [OF kt k]
    by (simp add: sched_find_best_uthread_def lock_runq_free set_holder_lock)
  moreover have "kt_ok K (released k 4 s')"
    using kt by (simp add: kt_ok_only_queues [OF b(4)])
  moreover have "same_threads s (released k 4 s')" "same_pointers s (released k 4 s')"
    using same_only_queues [OF b(4)] same_released same_threads_trans same_pointers_trans by blast+
  ultimately show ?thesis using b(1,3) by auto
qed

definition lb_on :: "gt_state \<Rightarrow> bool" where
  "lb_on s \<longleftrightarrow> is_kernel_thread_ready s = 1 \<and> is_credit_scheduler s = 1 \<and> is_load_balancing s = 1"

definition swapped :: "kid \<Rightarrow> gt_state \<Rightarrow> gt_state" where
  "swapped k s = upd_krunq k (\<lambda>q. q\<lparr>active_runq := expires_runq q, expires_runq := active_runq q\<rparr>) s"

lemma swapped_sel [simp]:
  "uths (swapped k s) = uths s" "links (swapped k s) = links s" "runqs (swapped k s) = runqs s"
  "active_runq (krunqs (swapped k s) k) = expires_runq (krunqs s k)"
  "expires_runq (krunqs (swapped k s) k) = active_runq (krunqs s k)"
  "is_credit_scheduler (swapped k s) = is_credit_scheduler s"
  by (simp_all add: swapped_def)

text \<open>With an empty active runqueue and nothing to steal, the two runqueues are exchanged and the
  call returns null, because the test after the exchange looks at the runqueue that is now the
  expired one.\<close>

lemma sched_swap_eq:
  assumes free: "locked (kthread_runqlock (krunqs s k)) = 0" and apic: "apic < 16"
    and emp: "uthread_mask (runqs s (active s k)) = 0" "uthread_tot (runqs s (active s k)) = 0"
    and lb: "lb_on s \<Longrightarrow> \<exists>c. kthread_cpu_map s apic = Some c \<and>
      lb_loop 0 (unat (cpuid (kctxs s c))) k (active s k) (released k 4 s) = Inr None"
  shows "sched_find_best_uthread apic k s = Inr (None, swapped k (released k 4 s))"
proof -
  have sw: "upd_krunq k (\<lambda>q. q\<lparr>active_runq := expires_runq q, expires_runq := active_runq (krunqs s k)\<rparr>)
      (released k 4 s) = swapped k (released k 4 s)"
    by (simp add: swapped_def upd_krunq_def)
  show ?thesis
  proof (cases "lb_on s")
    case True
    with lb obtain c where "kthread_cpu_map s apic = Some c"
      "lb_loop 0 (unat (cpuid (kctxs s c))) k (active s k) (released k 4 s) = Inr None" by blast
    with True free apic emp show ?thesis
      by (simp add: sched_find_best_uthread_def lock_runq_free set_holder_lock unlock_holding lb_on_def sw Let_def)
  next
    case False
    with free apic emp show ?thesis
      by (auto simp: sched_find_best_uthread_def lock_runq_free set_holder_lock unlock_holding lb_on_def sw Let_def)
  qed
qed

lemma kt_ok_swapped: "kt_ok K s \<Longrightarrow> k \<in> K \<Longrightarrow> kt_ok K (swapped k s)"
  by (auto simp: kt_ok_def swapped_def)

lemma pq_ok_swapped [simp]: "pq_ok H R (swapped k s) Q = pq_ok H R s Q"
  by (simp add: swapped_def)

lemma same_swapped [simp]: "same_threads s (swapped k s)"
  by (simp add: same_threads_def swapped_def)

subsection \<open>Load balancing\<close>

text \<open>The kthread of processor \<open>j\<close> has something to steal: it is not done and its active runqueue is
  not empty.\<close>

definition eligible :: "gt_state \<Rightarrow> (rq_head \<Rightarrow> uid list) \<Rightarrow> nat \<Rightarrow> bool" where
  "eligible s Q j \<longleftrightarrow>
     (\<exists>o'. kthread_cpu_map s j = Some o' \<and> kthread_flags (kctxs s o') AND KTHREAD_DONE = 0 \<and>
           rq_size Q (active s o') \<noteq> 0)"

definition held :: "kid \<Rightarrow> gt_state \<Rightarrow> gt_state" where
  "held k s = upd_krunq k (\<lambda>q. q\<lparr>kthread_runqlock := (kthread_runqlock q)\<lparr>locked := 1\<rparr>\<rparr>) s"

lemma lock_runq_held: "locked (kthread_runqlock (krunqs s k)) = 0 \<Longrightarrow> lock_runq k s = Inr (held k s)"
  by (simp add: lock_runq_free held_def)

lemma held_sel [simp]:
  "uths (held k s) = uths s" "links (held k s) = links s" "runqs (held k s) = runqs s"
  "active_runq (krunqs (held k s) k') = active_runq (krunqs s k')"
  by (simp_all add: held_def)

lemma spinlock_relock: "locked l = 0 \<Longrightarrow> (l :: gt_spinlock_t)\<lparr>locked := 0\<rparr> = l"
  by (cases l) simp

lemma krunq_relock:
  "locked (kthread_runqlock q) = 0 \<Longrightarrow> q\<lparr>kthread_runqlock := (kthread_runqlock q)\<lparr>locked := 0\<rparr>\<rparr> = q"
  by (simp add: spinlock_relock)

lemma unlock_held: "locked (kthread_runqlock (krunqs s k)) = 0 \<Longrightarrow> unlock_runq k (held k s) = s"
  by (simp add: unlock_runq_def held_def spin_unlock_at_eq upd_krunq_def krunq_relock)

lemma raw_rem_held:
  "raw_rem_from_runqueue rq u (held k s) = rbind (raw_rem_from_runqueue rq u s) (\<lambda>s'. Inr (held k s'))"
  unfolding held_def by (rule raw_rem_upd_krunq)

lemma raw_add_held:
  "raw_add_to_runqueue rq u (held k s) = rbind (raw_add_to_runqueue rq u s) (\<lambda>s'. Inr (held k s'))"
  unfolding held_def by (rule raw_add_upd_krunq)

lemma find_best_held [simp]: "find_best rq (held k s) = find_best rq s"
  by (rule find_best_cong) simp_all

lemma steal_ok:
  assumes ok: "pq_ok H R s Q" and orq: "orq \<in> R" and rq: "rq \<in> R"
    and ne: "rq_size Q orq \<noteq> 0" and emp: "rq_size Q rq = 0"
  shows "\<exists>p g s2 s4 s5. best_slot Q orq p g \<and>
    find_best orq s = Inr (Some (hd (Q (PrioGroup orq p g)))) \<and>
    raw_rem_from_runqueue orq (hd (Q (PrioGroup orq p g))) s = Inr s2 \<and> only_queues s s2 \<and>
    raw_add_to_runqueue rq (hd (Q (PrioGroup orq p g))) s2 = Inr s4 \<and> only_queues s s4 \<and>
    raw_rem_from_runqueue rq (hd (Q (PrioGroup orq p g))) s4 = Inr s5 \<and> only_queues s s5 \<and>
    pq_ok H R s5 (pop orq p g Q)"
proof -
  obtain p g s2 where b: "best_slot Q orq p g" "find_best orq s = Inr (Some (hd (Q (PrioGroup orq p g))))"
    "raw_rem_from_runqueue orq (hd (Q (PrioGroup orq p g))) s = Inr s2" "pq_ok H R s2 (pop orq p g Q)"
    "s2 = s\<lparr>links := links s2, runqs := (runqs s)(orq := runqs s2 orq)\<rparr>"
    using take_best_ok [OF ok orq ne] by blast
  let ?u = "hd (Q (PrioGroup orq p g))" and ?Q = "pop orq p g Q" and ?h = "PrioGroup rq p g"
  from b(1) have pg: "p < 32" "g < 32" and u: "?u \<in> set (Q (PrioGroup orq p g))"
    by (auto simp: best_slot_def)
  have q2: "only_queues s s2" using b(5) by (rule only_queuesI)
  have pu: "unat (uthread_priority (uths s2 ?u)) = p" and gu: "unat (uthread_gid (uths s2 ?u)) = g"
    using pq_okD(4) [OF ok orq] pg u by (auto simp: rq_sorted_def only_queuesD(1) [OF q2])
  have nq: "?u \<notin> queued H ?Q"
    using tq.removed_not_queued [OF pq_okD(1) [OF ok] pq_okD(2) [OF ok orq pg] u] b(1)
    by (simp add: pop_def best_slot_def remove1_hd)
  have rqne: "rq \<noteq> orq" using ne emp by auto
  then have emp': "rq_size ?Q rq = 0" using emp by (simp add: rq_size_def rq_len_def [abs_def] pop_def)
  then have empty: "?Q ?h = []" using pg by (simp add: rq_size_def totsum_eq_0 rq_len_def)
  obtain s4 where s4: "raw_add_to_runqueue rq ?u s2 = Inr s4" "pq_ok H R s4 (?Q(?h := ?Q ?h @ [?u]))"
    "s4 = s2\<lparr>links := links s4, runqs := (runqs s2)(rq := runqs s4 rq)\<rparr>"
    using raw_add_to_runqueue_ok [OF b(4) rq nq pu pg(1) gu pg(2)] emp' by auto
  have q4: "only_queues s s4" using q2 only_queuesI [OF s4(3)] by (rule only_queues_trans)
  obtain s5 where s5: "raw_rem_from_runqueue rq ?u s4 = Inr s5"
    "pq_ok H R s5 ((?Q(?h := ?Q ?h @ [?u]))(?h := remove1 ?u ((?Q(?h := ?Q ?h @ [?u])) ?h)))"
    "s5 = s4\<lparr>links := links s5, runqs := (runqs s4)(rq := runqs s5 rq)\<rparr>"
    using raw_rem_from_runqueue_ok [OF s4(2) rq pg, of ?u] by auto
  have q5: "only_queues s s5" using q4 only_queuesI [OF s5(3)] by (rule only_queues_trans)
  have "pq_ok H R s5 ?Q" using s5(2) empty by (simp add: fun_upd_idem)
  with b q2 s4(1) q4 s5(1) q5 show ?thesis by blast
qed

lemma lb_loop_skip:
  assumes "i < 16" and "i \<noteq> cpu" and "kthread_cpu_map s i = Some o'"
    and "kthread_flags (kctxs s o') AND KTHREAD_DONE \<noteq> 0 \<or> uthread_mask (runqs s (active s o')) = 0"
  shows "lb_loop i cpu k runq s = lb_loop (Suc i) cpu k runq s"
  using assms by (subst lb_loop.simps) auto

lemma lb_loop_hit:
  assumes "i < 16" and "i \<noteq> cpu" and "kthread_cpu_map s i = Some o'"
    and "kthread_flags (kctxs s o') AND KTHREAD_DONE = 0" and "uthread_mask (runqs s (active s o')) \<noteq> 0"
    and "locked (kthread_runqlock (krunqs s o')) = 0" and "locked (kthread_runqlock (krunqs s k)) = 0"
    and "find_best (active s o') s = Inr (Some u)"
    and "raw_rem_from_runqueue (active s o') u s = Inr s2" and "only_queues s s2"
    and "raw_add_to_runqueue runq u s2 = Inr s4"
  shows "lb_loop i cpu k runq s = Inr (Some (u, held k s4))"
  using assms
  by (subst lb_loop.simps) (simp add: lock_runq_held raw_rem_held unlock_held only_queuesD raw_add_held)

text \<open>The loop looks at the processors below the caller's own number in ascending order and steals
  the best uthread of the first one that has something to steal.\<close>

lemma lb_loop_ok:
  assumes ok: "pq_ok (Hs K) (Rs K) s Q" and kt: "kt_ok K s" and k: "k \<in> K"
    and rq: "runq \<in> Rs K" and emp: "rq_size Q runq = 0" and i: "i \<le> cpu"
    and mapped: "\<forall>j. i \<le> j \<and> j < cpu \<and> j < 16 \<longrightarrow> kthread_cpu_map s j \<noteq> None"
  shows "(lb_loop i cpu k runq s = Inr None \<and> (\<forall>j. i \<le> j \<and> j < cpu \<and> j < 16 \<longrightarrow> \<not> eligible s Q j)) \<or>
    (\<exists>j o' p g s4 s5. i \<le> j \<and> j < cpu \<and> j < 16 \<and> kthread_cpu_map s j = Some o' \<and> eligible s Q j \<and>
      (\<forall>j'. i \<le> j' \<and> j' < j \<longrightarrow> \<not> eligible s Q j') \<and> best_slot Q (active s o') p g \<and>
      lb_loop i cpu k runq s = Inr (Some (hd (Q (PrioGroup (active s o') p g)), held k s4)) \<and>
      only_queues s s4 \<and> raw_rem_from_runqueue runq (hd (Q (PrioGroup (active s o') p g))) s4 = Inr s5 \<and>
      only_queues s s5 \<and> pq_ok (Hs K) (Rs K) s5 (pop (active s o') p g Q))"
  using i mapped
proof (induction "16 - i" arbitrary: i)
  case 0
  then show ?case by (auto simp: lb_loop.simps [of i])
next
  case (Suc n)
  show ?case
  proof (cases "i = cpu")
    case True
    then show ?thesis by (auto simp: lb_loop.simps [of cpu])
  next
    case False
    with Suc.prems(1) have ic: "i < cpu" by simp
    from Suc.hyps(2) have i16: "i < 16" by simp
    with Suc.prems(2) ic obtain o' where o': "kthread_cpu_map s i = Some o'" by auto
    with kt have oK: "o' \<in> K" by (auto simp: kt_ok_def)
    have orq: "active s o' \<in> Rs K" using kt oK by (rule kt_ok_active_in_Rs)
    show ?thesis
    proof (cases "eligible s Q i")
      case True
      then have el: "kthread_flags (kctxs s o') AND KTHREAD_DONE = 0" "rq_size Q (active s o') \<noteq> 0"
        using o' by (auto simp: eligible_def)
      obtain p g s2 s4 s5 where st: "best_slot Q (active s o') p g"
        "find_best (active s o') s = Inr (Some (hd (Q (PrioGroup (active s o') p g))))"
        "raw_rem_from_runqueue (active s o') (hd (Q (PrioGroup (active s o') p g))) s = Inr s2" "only_queues s s2"
        "raw_add_to_runqueue runq (hd (Q (PrioGroup (active s o') p g))) s2 = Inr s4" "only_queues s s4"
        "raw_rem_from_runqueue runq (hd (Q (PrioGroup (active s o') p g))) s4 = Inr s5" "only_queues s s5"
        "pq_ok (Hs K) (Rs K) s5 (pop (active s o') p g Q)"
        using steal_ok [OF ok orq rq el(2) emp] by blast
      have "uthread_mask (runqs s (active s o')) \<noteq> 0"
        using el(2) by (simp only: uthread_mask_zero [OF ok orq]) simp
      then have "lb_loop i cpu k runq s = Inr (Some (hd (Q (PrioGroup (active s o') p g)), held k s4))"
        using lb_loop_hit [OF i16 False o' el(1) _ kt_okD(1) [OF kt oK] kt_okD(1) [OF kt k] st(2-5)] by blast
      moreover have "\<forall>j'. i \<le> j' \<and> j' < i \<longrightarrow> \<not> eligible s Q j'" by auto
      ultimately show ?thesis using True o' st(1,6-9) ic i16 by blast
    next
      case not_el: False
      then have "kthread_flags (kctxs s o') AND KTHREAD_DONE \<noteq> 0 \<or> uthread_mask (runqs s (active s o')) = 0"
        using o' uthread_mask_zero [OF ok orq] by (auto simp: eligible_def)
      then have skip: "lb_loop i cpu k runq s = lb_loop (Suc i) cpu k runq s"
        using lb_loop_skip [OF i16 False o'] by blast
      have le: "Suc i \<le> j" if "i \<le> j" "eligible s Q j" for j
        using that not_el by (cases "j = i") auto
      have n: "n = 16 - Suc i" and c: "Suc i \<le> cpu" using Suc.hyps(2) ic by simp_all
      have m: "\<forall>j. Suc i \<le> j \<and> j < cpu \<and> j < 16 \<longrightarrow> kthread_cpu_map s j \<noteq> None"
        using Suc.prems(2) by simp
      from Suc.hyps(1) [OF n c m] show ?thesis
      proof (elim disjE conjE exE, goal_cases)
        case 1
        with le have "\<forall>j. i \<le> j \<and> j < cpu \<and> j < 16 \<longrightarrow> \<not> eligible s Q j" by blast
        with 1 skip show ?case by simp
      next
        case (2 j o' p g s4 s5)
        then have "\<forall>j'. i \<le> j' \<and> j' < j \<longrightarrow> \<not> eligible s Q j'" and "i \<le> j" using le by auto
        with 2 show ?case unfolding skip by blast
      qed
    qed
  qed
qed

lemma take_held:
  assumes "locked (kthread_runqlock (krunqs s5 k)) = 0" and "raw_rem_from_runqueue runq u s4 = Inr s5"
  shows "take_obj k runq (Some u) (held k s4) = Inr (Some u, s5)"
  using assms by (simp add: take_obj_def raw_rem_held unlock_held)

text \<open>What a call can rely on when load balancing is on: the processor it runs on has its kthread in
  the map, and so have all processors below that kthread's \<open>cpuid\<close>.\<close>

definition lb_mapped :: "nat \<Rightarrow> gt_state \<Rightarrow> bool" where
  "lb_mapped apic s \<longleftrightarrow>
     (\<exists>c. kthread_cpu_map s apic = Some c \<and>
          (\<forall>j. j < unat (cpuid (kctxs s c)) \<and> j < 16 \<longrightarrow> kthread_cpu_map s j \<noteq> None))"

text \<open>\<open>first_victim apic s Q j\<close>: load balancing is on and \<open>j\<close> is the lowest processor number below the
  caller's \<open>cpuid\<close> that has something to steal.\<close>

definition first_victim :: "nat \<Rightarrow> gt_state \<Rightarrow> (rq_head \<Rightarrow> uid list) \<Rightarrow> nat \<Rightarrow> bool" where
  "first_victim apic s Q j \<longleftrightarrow>
     lb_on s \<and> j < 16 \<and> eligible s Q j \<and> (\<forall>j'<j. \<not> eligible s Q j') \<and>
     (\<exists>c. kthread_cpu_map s apic = Some c \<and> j < unat (cpuid (kctxs s c)))"

lemma eligible_released [simp]: "eligible (released k h s) Q j = eligible s Q j"
  by (simp add: eligible_def)

lemma sched_empty_cases:
  assumes ok: "pq_ok (Hs K) (Rs K) s Q" and kt: "kt_ok K s" and k: "k \<in> K" and apic: "apic < 16"
    and emp: "rq_size Q (active s k) = 0" and lb: "lb_on s \<longrightarrow> lb_mapped apic s"
  shows "(sched_find_best_uthread apic k s = Inr (None, swapped k (released k 4 s)) \<and>
      (\<nexists>j. first_victim apic s Q j)) \<or>
    (\<exists>j o' p g s'. first_victim apic s Q j \<and> kthread_cpu_map s j = Some o' \<and> best_slot Q (active s o') p g \<and>
      sched_find_best_uthread apic k s = Inr (Some (hd (Q (PrioGroup (active s o') p g))), s') \<and>
      pq_ok (Hs K) (Rs K) s' (pop (active s o') p g Q) \<and> kt_ok K s' \<and> same_threads s s' \<and> same_pointers s s')"
proof -
  have rq: "active s k \<in> Rs K" using kt k by (rule kt_ok_active_in_Rs)
  have zero: "uthread_mask (runqs s (active s k)) = 0" "uthread_tot (runqs s (active s k)) = 0"
    using emp by (simp_all only: uthread_mask_zero [OF ok rq] uthread_tot_zero [OF ok rq])
  note swap = sched_swap_eq [OF kt_okD(1) [OF kt k] apic zero]
  show ?thesis
  proof (cases "lb_on s")
    case False
    with swap show ?thesis by (simp add: first_victim_def)
  next
    case True
    with lb obtain c where c: "kthread_cpu_map s apic = Some c"
      and mapped: "\<And>j. j < unat (cpuid (kctxs s c)) \<Longrightarrow> j < 16 \<Longrightarrow> kthread_cpu_map s j \<noteq> None"
      by (auto simp: lb_mapped_def)
    let ?s = "released k 4 s" and ?cpu = "unat (cpuid (kctxs s c))"
    have ok': "pq_ok (Hs K) (Rs K) ?s Q" and kt': "kt_ok K ?s" using ok kt by simp_all
    consider (none) "lb_loop 0 ?cpu k (active s k) ?s = Inr None"
        "\<forall>j. j < ?cpu \<and> j < 16 \<longrightarrow> \<not> eligible s Q j"
      | (some) j o' p g s4 s5 where "j < ?cpu" "j < 16" "kthread_cpu_map s j = Some o'" "eligible s Q j"
        "\<forall>j'<j. \<not> eligible s Q j'" "best_slot Q (active s o') p g"
        "lb_loop 0 ?cpu k (active s k) ?s = Inr (Some (hd (Q (PrioGroup (active s o') p g)), held k s4))"
        "raw_rem_from_runqueue (active s k) (hd (Q (PrioGroup (active s o') p g))) s4 = Inr s5"
        "only_queues ?s s5" "pq_ok (Hs K) (Rs K) s5 (pop (active s o') p g Q)"
      using lb_loop_ok [OF ok' kt' k rq emp, of 0 ?cpu] mapped by auto
    then show ?thesis
    proof cases
      case none
      then have "sched_find_best_uthread apic k s = Inr (None, swapped k ?s)"
        using swap c by blast
      moreover have "\<nexists>j. first_victim apic s Q j"
        using none(2) c by (auto simp: first_victim_def)
      ultimately show ?thesis by blast
    next
      case some
      have "locked (kthread_runqlock (krunqs s5 k)) = 0"
        using kt_okD(1) [OF kt' k] by (simp add: only_queuesD [OF some(9)])
      then have "sched_find_best_uthread apic k s = Inr (Some (hd (Q (PrioGroup (active s o') p g))), s5)"
        using some(7) take_held [OF _ some(8)] True c zero apic kt_okD(1) [OF kt k]
        by (simp add: sched_find_best_uthread_def lock_runq_free set_holder_lock unlock_holding lb_on_def)
      moreover have "first_victim apic s Q j"
        using some(1-5) True c by (auto simp: first_victim_def)
      moreover have "kt_ok K s5" using kt' by (simp add: kt_ok_only_queues [OF some(9)])
      moreover have "same_threads s s5" "same_pointers s s5"
        using same_only_queues [OF some(9)] same_released same_threads_trans same_pointers_trans by blast+
      ultimately show ?thesis using some(3,6,10) by blast
    qed
  qed
qed

text \<open>Every call returns, with a null pointer and the queues as they were, or with the first uthread
  of the best slot of some runqueue, which is taken out of it.\<close>

lemma sched_total:
  assumes ok: "pq_ok (Hs K) (Rs K) s Q" and kt: "kt_ok K s" and k: "k \<in> K" and apic: "apic < 16"
    and lb: "lb_on s \<longrightarrow> lb_mapped apic s"
  shows "\<exists>r s' Q'. sched_find_best_uthread apic k s = Inr (r, s') \<and>
    pq_ok (Hs K) (Rs K) s' Q' \<and> kt_ok K s' \<and> same_threads s s' \<and>
    (case r of None \<Rightarrow> Q' = Q
     | Some u \<Rightarrow> \<exists>rq\<in>Rs K. \<exists>p g. best_slot Q rq p g \<and> u = hd (Q (PrioGroup rq p g)) \<and> Q' = pop rq p g Q)"
proof (cases "rq_size Q (active s k) = 0")
  case False
  with sched_active_ok [OF ok kt k apic] kt_ok_active_in_Rs [OF kt k] show ?thesis by fastforce
next
  case True
  from sched_empty_cases [OF ok kt k apic True lb] show ?thesis
  proof (elim disjE conjE exE)
    assume none: "sched_find_best_uthread apic k s = Inr (None, swapped k (released k 4 s))"
    have "kt_ok K (swapped k (released k 4 s))" using kt k by (simp add: kt_ok_swapped)
    moreover have "same_threads s (swapped k (released k 4 s))"
      using same_released(1) same_swapped by (rule same_threads_trans)
    ultimately show ?thesis using none ok by fastforce
  next
    fix j o' p g s' assume "kthread_cpu_map s j = Some o'" "best_slot Q (active s o') p g"
      "sched_find_best_uthread apic k s = Inr (Some (hd (Q (PrioGroup (active s o') p g))), s')"
      "pq_ok (Hs K) (Rs K) s' (pop (active s o') p g Q)" "kt_ok K s'" "same_threads s s'"
    moreover from calculation(1) have "active s o' \<in> Rs K"
      using kt by (intro kt_ok_active_in_Rs) (auto simp: kt_ok_def)
    ultimately show ?thesis by fastforce
  qed
qed

text \<open>The selection finds nothing just when the active runqueue is empty and there is nobody to steal
  from.\<close>

definition nothing_to_run :: "nat \<Rightarrow> kid \<Rightarrow> gt_state \<Rightarrow> (rq_head \<Rightarrow> uid list) \<Rightarrow> bool" where
  "nothing_to_run apic k s Q \<longleftrightarrow> rq_size Q (active s k) = 0 \<and> (\<nexists>j. first_victim apic s Q j)"

lemma sched_none_iff:
  assumes ok: "pq_ok (Hs K) (Rs K) s Q" and kt: "kt_ok K s" and k: "k \<in> K" and apic: "apic < 16"
    and lb: "lb_on s \<longrightarrow> lb_mapped apic s" and r: "sched_find_best_uthread apic k s = Inr (r, s')"
  shows "r = None \<longleftrightarrow> nothing_to_run apic k s Q"
proof (cases "rq_size Q (active s k) = 0")
  case False
  with sched_active_ok [OF ok kt k apic] r show ?thesis by (auto simp: nothing_to_run_def)
next
  case True
  from sched_empty_cases [OF ok kt k apic True lb] r True show ?thesis by (auto simp: nothing_to_run_def)
qed

subsection \<open>The bits of \<open>uthread_group_mask\<close>\<close>

text \<open>Removing the last uthread of a group at one priority leaves the group's bit for that priority set
  as long as the group has uthreads at another priority.\<close>

lemma rem_stale_group_bit:
  assumes ok: "pq_ok H R s Q" and rq: "rq \<in> R" and p: "p < 32" "p' < 32" "p' \<noteq> p" and g: "g < 32"
    and last: "Q (PrioGroup rq p g) = [u]" and other: "Q (PrioGroup rq p' g) \<noteq> []"
  shows "\<exists>s'. raw_rem_from_runqueue rq u s = Inr s' \<and> TAILQ_FIRST (PrioGroup rq p g) (links s') = None \<and>
    only_queues s s' \<and> pq_ok H R s' (Q(PrioGroup rq p g := [])) \<and>
    uthread_group_mask (runqs s' rq) g = uthread_group_mask (runqs s rq) g \<and>
    bit (uthread_group_mask (runqs s' rq) g) p"
proof -
  let ?h = "PrioGroup rq p g"
  have mem: "u \<in> set (Q ?h)" using last by simp
  obtain s' where s': "raw_rem_from_runqueue rq u s = Inr s'" "pq_ok H R s' (Q(?h := remove1 u (Q ?h)))"
    "s' = s\<lparr>links := links s', runqs := (runqs s)(rq := runqs s' rq)\<rparr>"
    using raw_rem_from_runqueue_ok [OF ok rq p(1) g mem] by blast
  have pu: "unat (uthread_priority (uths s u)) = p" and gu: "unat (uthread_gid (uths s u)) = g"
    using pq_okD(4) [OF ok rq] p(1) g mem by (auto simp: rq_sorted_def)
  note cd = rq_countsD [OF pq_okD(3) [OF ok rq]]
  have "0 < rq_len Q rq p g" "0 < rq_len Q rq p' g" using last other by (simp_all add: rq_len_def)
  then have "rq_len Q rq p g + rq_len Q rq p' g \<le> colsum (rq_len Q rq) g"
    using p sum_mono2 [of "{..<32}" "{p, p'}" "\<lambda>q. rq_len Q rq q g"] by (simp add: colsum_def)
  with \<open>0 < rq_len Q rq p g\<close> \<open>0 < rq_len Q rq p' g\<close> have "uthread_group_tot (runqs s rq) g \<noteq> 1"
    using cd(5) [OF g] by (simp add: word_eq_1_iff)
  then have "uthread_group_mask (runqs s' rq) g = uthread_group_mask (runqs s rq) g"
    using s'(1) raw_rem_from_runqueue_eq [OF pu gu p(1) g]
    by (auto simp: counts_rem_def rbind_eq_Inr c_assert_eq_Inr)
  moreover have "bit (uthread_group_mask (runqs s rq) g) p"
    using cd(6) [OF p(1) g] \<open>0 < rq_len Q rq p g\<close> by simp
  moreover have "TAILQ_FIRST ?h (links s') = None"
    using tq.first_law [OF pq_okD(1) [OF s'(2)] pq_okD(2) [OF s'(2) rq p(1) g]] last by simp
  ultimately show ?thesis using s'(1,2) only_queuesI [OF s'(3)] last by auto
qed

text \<open>With co-scheduling compiled in, the search for a uthread of group 0 then follows a null pointer.\<close>

lemma cosched_stale_null:
  assumes ne: "uthread_mask (runqs s (active s k)) \<noteq> 0"
    and low: "LOWEST_BIT_SET (uthread_group_mask (runqs s (active s k)) 0) = Inr p"
    and emp: "TAILQ_FIRST (PrioGroup (active s k) p 0) (links s) = None"
  shows "sched_find_best_uthread_group True apic k s = Inl NullDeref"
proof -
  have "uthread_group_mask (runqs s (active s k)) 0 \<noteq> 0"
    using low by (auto simp: LOWEST_BIT_SET_Inr)
  with assms show ?thesis by (simp add: sched_find_best_uthread_group_def Let_def)
qed

end
