(* ===== verification/C_Float.thy ===== *)
theory C_Float
  imports Complex_Main "HOL-Library.Log_Nat"
begin

text \<open>
  The single-precision arithmetic that \<open>uthread_schedule\<close> charges credits with: IEEE 754 binary32
  values as rational numbers, and the rounding of a rational to the nearest of them (ties to even)
  that conversions and divisions perform. The exponent is unbounded: the values that occur lie
  between \<open>1/1000\<close> and \<open>2^63\<close>, far from overflow and from the subnormal numbers.
\<close>

definition round_half_even :: "rat \<Rightarrow> int" where
  "round_half_even x =
     (let f = \<lfloor>x\<rfloor>; d = x - of_int f
      in if d < 1 / 2 then f else if 1 / 2 < d then f + 1 else if even f then f else f + 1)"

text \<open>The exponent \<open>k\<close> of a positive number: \<open>2^k \<le> x < 2^(k+1)\<close>.\<close>

definition exponent :: "rat \<Rightarrow> int" where
  "exponent x =
     (if 1 \<le> x then int (floorlog 2 (nat \<lfloor>x\<rfloor>)) - 1 else - int (floorlog 2 (nat (\<lceil>1 / x\<rceil> - 1))))"

definition pow2 :: "int \<Rightarrow> rat" where
  "pow2 k = (if 0 \<le> k then 2 ^ nat k else 1 / 2 ^ nat (- k))"

text \<open>Rounding to 24 significant bits.\<close>

definition fl32_pos :: "rat \<Rightarrow> rat" where
  "fl32_pos x = (let ulp = pow2 (exponent x - 23) in of_int (round_half_even (x / ulp)) * ulp)"

definition fl32 :: "rat \<Rightarrow> rat" where
  "fl32 x = (if x = 0 then 0 else if x < 0 then - fl32_pos (- x) else fl32_pos x)"

text \<open>The conversion of a floating-point value to \<open>int\<close>: towards zero.\<close>

definition c_trunc :: "rat \<Rightarrow> int" where
  "c_trunc x = (if 0 \<le> x then \<lfloor>x\<rfloor> else \<lceil>x\<rceil>)"

subsection \<open>Rounding\<close>

lemma round_half_even_of_int [simp]: "round_half_even (of_int n) = n"
  by (simp add: round_half_even_def)

lemma round_half_even_error: "\<bar>of_int (round_half_even x) - x\<bar> \<le> 1 / 2"
proof -
  have "0 \<le> x - of_int \<lfloor>x\<rfloor>" "x - of_int \<lfloor>x\<rfloor> < 1" by linarith+
  then show ?thesis unfolding round_half_even_def Let_def abs_le_iff
    by (auto split: if_splits) linarith+
qed

lemma round_half_even_nonneg: "0 \<le> x \<Longrightarrow> 0 \<le> round_half_even x"
  by (auto simp: round_half_even_def Let_def)

lemma pow2_pos [simp]: "0 < pow2 k"
  by (simp add: pow2_def)

lemma pow2_nonneg [simp]: "0 \<le> pow2 k" and pow2_nonzero [simp]: "pow2 k \<noteq> 0"
  using pow2_pos [of k] by linarith+

lemma pow2_mono: "a \<le> b \<Longrightarrow> pow2 a \<le> pow2 b"
proof -
  assume "a \<le> b"
  have "pow2 k = 2 powi k" for k
    by (simp add: pow2_def power_int_def inverse_eq_divide power_one_over)
  with \<open>a \<le> b\<close> show ?thesis by (simp add: power_int_increasing)
qed

lemma fl32_pos_error: "\<bar>fl32_pos x - x\<bar> \<le> pow2 (exponent x - 23) / 2"
proof -
  let ?u = "pow2 (exponent x - 23)"
  have u: "0 < ?u" by simp
  then have "fl32_pos x - x = (of_int (round_half_even (x / ?u)) - x / ?u) * ?u"
    by (simp add: fl32_pos_def Let_def left_diff_distrib)
  then have "\<bar>fl32_pos x - x\<bar> = \<bar>of_int (round_half_even (x / ?u)) - x / ?u\<bar> * ?u"
    using u by (simp add: abs_mult)
  also have "\<dots> \<le> (1 / 2) * ?u"
    using round_half_even_error u by (intro mult_right_mono) auto
  finally show ?thesis by simp
qed

lemma fl32_nonneg: "0 \<le> x \<Longrightarrow> 0 \<le> fl32 x"
  by (auto simp: fl32_def fl32_pos_def Let_def intro!: mult_nonneg_nonneg round_half_even_nonneg divide_nonneg_nonneg)

lemma exponent_le:
  assumes "0 < x" and "x < 2 ^ n" and "0 < n"
  shows "exponent x \<le> int n - 1"
proof (cases "1 \<le> x")
  case True
  then have "1 \<le> \<lfloor>x\<rfloor>" by simp
  moreover have "\<lfloor>x\<rfloor> < 2 ^ n" using assms(2) by (simp add: floor_less_iff)
  ultimately have "nat \<lfloor>x\<rfloor> < 2 ^ n" by (simp add: nat_less_iff)
  then have "floorlog 2 (nat \<lfloor>x\<rfloor>) \<le> n" by (intro floorlog_leI) auto
  with True show ?thesis by (simp add: exponent_def)
next
  case False
  with assms show ?thesis by (simp add: exponent_def)
qed

text \<open>Integers below \<open>2^24\<close> are represented exactly.\<close>

lemma fl32_of_int:
  assumes "0 \<le> n" and "n < 2 ^ 24"
  shows "fl32 (of_int n) = of_int n"
proof (cases "n = 0")
  case False
  let ?e = "exponent (of_int n :: rat)"
  have "exponent (of_int n :: rat) \<le> int 24 - 1"
  proof (rule exponent_le)
    have "of_int n < (of_int (2 ^ 24) :: rat)" using assms(2) by (simp only: of_int_less_iff)
    then show "of_int n < (2 ^ 24 :: rat)" by simp
  qed (use assms False in simp_all)
  then have "pow2 (?e - 23) = 1 / of_int (2 ^ nat (23 - ?e))"
    by (auto simp: pow2_def)
  then have "of_int n / pow2 (?e - 23) = (of_int (n * 2 ^ nat (23 - ?e)) :: rat)" by simp
  then have "round_half_even (of_int n / pow2 (?e - 23)) = n * 2 ^ nat (23 - ?e)"
    by (simp only: round_half_even_of_int)
  then show ?thesis
    using assms False \<open>pow2 (?e - 23) = _\<close> by (simp add: fl32_def fl32_pos_def Let_def)
qed (simp add: fl32_def)

lemma fl32_error:
  assumes "0 < x" and "x < 2 ^ 15"
  shows "\<bar>fl32 x - x\<bar> \<le> 1 / 1024"
proof -
  have "exponent x \<le> int 15 - 1" using assms by (intro exponent_le) auto
  then have "pow2 (exponent x - 23) \<le> pow2 (- 9)" by (intro pow2_mono) simp
  moreover have "pow2 (- 9) = 1 / 512" by (simp add: pow2_def)
  ultimately show ?thesis
    using fl32_pos_error [of x] assms(1) by (simp add: fl32_def)
qed

text \<open>The float quotient of a number of microseconds by 1000, for at most \<open>2^24\<close> of them, falls in the
  same place between the integers as the exact quotient.\<close>

lemma fl32_div_1000:
  assumes "0 \<le> us" and "us < 2 ^ 24"
  shows "c_trunc (fl32 (fl32 (of_int us) / 1000)) = us div 1000"
    and "of_int c < fl32 (fl32 (of_int us) / 1000) \<longleftrightarrow> 1000 * c < us"
proof -
  let ?y = "of_int us / 1000 :: rat" and ?n = "us div 1000" and ?r = "us mod 1000"
  have us: "fl32 (of_int us) = (of_int us :: rat)" using assms by (rule fl32_of_int)
  have eq: "(of_int us :: rat) = 1000 * of_int ?n + of_int ?r"
    by (metis mult_div_mod_eq of_int_add of_int_mult of_int_numeral)
  then have y: "?y = of_int ?n + of_int ?r / 1000" by (subst eq) simp
  have d: "us = 1000 * ?n + ?r" and r: "0 \<le> ?r" "?r < 1000" by simp_all
  have n: "0 \<le> ?n" "?n < 2 ^ 24" using assms by (simp_all add: pos_imp_zdiv_nonneg_iff)
  define x where "x = fl32 ?y"
  have bounds: "of_int ?n \<le> x \<and> x < of_int ?n + 1 \<and> (0 < ?r \<longrightarrow> of_int ?n < x)"
  proof (cases "?r = 0")
    case True
    then have "?y = of_int ?n" using y by simp
    then show ?thesis using fl32_of_int [OF n] True by (simp add: x_def)
  next
    case False
    with r have r1: "1 \<le> ?r" "?r \<le> 999" by linarith+
    then have r': "1 \<le> (of_int ?r :: rat)" "(of_int ?r :: rat) \<le> 999"
      by (metis of_int_1_le_iff, metis of_int_le_numeral_iff)
    have n0: "0 \<le> (of_int ?n :: rat)" using n(1) by simp
    have "0 < ?y" using y r' n0 by simp
    moreover have "?y < 2 ^ 15"
    proof -
      have "of_int us < (of_int (2 ^ 24) :: rat)" using assms(2) by (simp only: of_int_less_iff)
      then show ?thesis by simp
    qed
    ultimately have "\<bar>x - ?y\<bar> \<le> 1 / 1024" unfolding x_def by (rule fl32_error)
    then have "?y - 1 / 1024 \<le> x" "x \<le> ?y + 1 / 1024" by linarith+
    with r' have "of_int ?n < x" "x < of_int ?n + 1" unfolding y by linarith+
    then show ?thesis by simp
  qed
  then have fl: "\<lfloor>x\<rfloor> = ?n" by (simp add: floor_eq_iff)
  have x0: "0 \<le> x" using n(1) bounds by (meson of_int_0_le_iff order_trans)
  show "c_trunc (fl32 (fl32 (of_int us) / 1000)) = us div 1000"
    using fl x0 by (simp add: us c_trunc_def flip: x_def)
  have "of_int c < x \<longleftrightarrow> 1000 * c < us"
  proof
    assume "of_int c < x"
    then have "c \<le> ?n" using fl by (metis le_floor_iff less_imp_le)
    show "1000 * c < us"
    proof (rule ccontr)
      assume "\<not> 1000 * c < us"
      with \<open>c \<le> ?n\<close> r d have "c = ?n" "?r = 0" by linarith+
      with y have "?y = of_int c" by simp
      then have "x = of_int c" using fl32_of_int [OF n] \<open>c = ?n\<close> by (simp add: x_def)
      with \<open>of_int c < x\<close> show False by simp
    qed
  next
    assume "1000 * c < us"
    with r d have "c \<le> ?n" by linarith
    with \<open>1000 * c < us\<close> d consider "c < ?n" | "c = ?n" "0 < ?r" by linarith
    then show "of_int c < x"
    proof cases
      case 1
      then have "(of_int c :: rat) < of_int ?n" by simp
      with bounds show ?thesis by linarith
    qed (use bounds in simp)
  qed
  then show "of_int c < fl32 (fl32 (of_int us) / 1000) \<longleftrightarrow> 1000 * c < us"
    by (simp add: us flip: x_def)
qed

end
