(* ===== verification/GT_Uthread.thy ===== *)
theory GT_Uthread
  imports GT_Sched C_Float
begin

unbundle bit_operations_syntax

text \<open>
  gt_uthread.c, but for the creation of uthreads: the scheduling of a uthread on its kthread, the
  charging of credits, voluntary yielding, the preparation of a uthread's context by a signal on an
  alternate stack, and the end of a uthread.

  A call of \<open>uthread_schedule\<close> does not return to its caller: it leaves by \<open>siglongjmp\<close> into the
  context of the chosen uthread or back into the kthread's loop. The model returns which of the two
  (\<open>sched_outcome\<close>). What the code gets from the system is a parameter (\<open>sys_env\<close>): the clock
  readings and whether the signal calls succeed. A jump to a context that was never saved is
  undefined behaviour, and a fault. The signal calls (handlers, masks) are those of \<open>GT_Signal\<close>.
\<close>

subsection \<open>The code\<close>

record sys_env =
  now_end :: timeval
  now_start :: timeval
  sigaction_ok :: bool
  sigaltstack_ok :: bool
  sigaction_revert_ok :: bool
  sigaltstack_revert_ok :: bool

datatype sched_outcome = RunUthread uid | BackToKthread

type_synonym best_sched = "nat \<Rightarrow> kid \<Rightarrow> gt_state \<Rightarrow> (uid option \<times> gt_state) res"

text \<open>The deduction of credits for the time slice that ends \<open>now\<close>.\<close>

definition charge :: "timeval \<Rightarrow> uthread_struct \<Rightarrow> uthread_struct" where
  "charge now x =
     (let step = timersub now (start_running_time_step x);
          cpu0 = fl32 (fl32 (of_int (usecs step)) / 1000);
          cpu_cycle_used = (if fl32 (of_int (credits x)) < cpu0 then fl32 (of_int (credits x + 1)) else cpu0)
      in x\<lparr>end_running_time_step := now, run_time_step := step,
           run_time_total := timeradd (run_time_total x) step,
           credits := credits x - c_trunc cpu_cycle_used\<rparr>)"

text \<open>A uthread that is done or cancelled: its times are recorded, it goes to the zombie list and the
  count of live uthreads drops.\<close>

definition record_times :: "uid \<Rightarrow> gt_state \<Rightarrow> gt_state res" where
  "record_times u s =
     (if is_credit_scheduler s = 1 then
        let tid = unat (uthread_tid (uths s u)) in
        in_bounds tid 128 (
        deref (uthread_time s tid) (\<lambda>t.
        let cpu = run_time_total (uths s u);
            total = timersub (total_running_time_end (uths s u)) (total_running_time_start (uths s u))
        in Inr ((upd_uth u (\<lambda>x. x\<lparr>run_time_total := total\<rparr>) s)
             \<lparr>uthread_time := (uthread_time s)(tid := Some (t\<lparr>cpu_time := cpu, running_time := total\<rparr>))\<rparr>)))
      else Inr s)"

definition ksched_dec_uthreads :: "gt_state \<Rightarrow> gt_state res" where
  "ksched_dec_uthreads s =
     rbind (spin_lock_at (ksched_lock (ksched_shared_info s))) (\<lambda>l.
     Inr (upd_ksched (\<lambda>i. i\<lparr>kthread_cur_uthreads := kthread_cur_uthreads i - 1,
                             ksched_lock := spin_unlock_at l\<rparr>) s))"

definition retire :: "kid \<Rightarrow> uid \<Rightarrow> gt_state \<Rightarrow> gt_state res" where
  "retire k u s =
     rbind (record_times u s) (\<lambda>s1.
     rbind (lock_runq k s1) (\<lambda>s2.
     rbind (TAILQ_INSERT_TAIL (Zombies k) u (links (set_runq_holder k 0x01 s2))) (\<lambda>l.
     ksched_dec_uthreads (unlock_runq k ((set_runq_holder k 0x01 s2)\<lparr>links := l\<rparr>)))))"

text \<open>A uthread that goes on later: it is made runnable, put on the expired or on the active runqueue
  as its credits and its yielding ask, and its context is saved.\<close>

definition requeue :: "kid \<Rightarrow> uid \<Rightarrow> gt_state \<Rightarrow> gt_state res" where
  "requeue k u s0 =
     (let s = upd_uth u (\<lambda>x. x\<lparr>uthread_state := UTHREAD_RUNNABLE\<rparr>) s0;
          save = (\<lambda>s'. Inr (upd_uth u (\<lambda>x. x\<lparr>uthread_env := True\<rparr>) s'))
      in rbind
        (if is_credit_scheduler s = 0 then add_to_runqueue (k, expires_runq (krunqs s k)) k u s
         else if 0 < credits (uths s u) then
           if is_yield_valid (uths s u) = 1 then
             rbind (add_to_runqueue (k, expires_runq (krunqs s k)) k u s) (\<lambda>s'.
             Inr (upd_uth u (\<lambda>x. x\<lparr>is_yield_valid := 0\<rparr>) s'))
           else
             let s' = upd_uth u (\<lambda>x. x\<lparr>credits := credits x - 25\<rparr>) s
             in add_to_runqueue (k, active_runq (krunqs s' k)) k u s'
         else
           let s' = upd_uth u (\<lambda>x. x\<lparr>credits := initial_credits x, is_yield_valid := 0\<rparr>) s
           in add_to_runqueue (k, expires_runq (krunqs s' k)) k u s')
        save)"

text \<open>What happens to the uthread that was running, lines 139 to 216.\<close>

definition leave_cur :: "sys_env \<Rightarrow> kid \<Rightarrow> gt_state \<Rightarrow> gt_state res" where
  "leave_cur e k s =
     (case cur_uthread (krunqs s k) of
        None \<Rightarrow> Inr s
      | Some u \<Rightarrow>
          let s1 = (if is_credit_scheduler s = 1 \<and> 0 < credits (uths s u)
                    then upd_uth u (charge (now_end e)) s else s);
              s2 = upd_krunq k (\<lambda>q. q\<lparr>cur_uthread := None\<rparr>) s1
          in if uthread_state (uths s2 u) AND (UTHREAD_DONE OR UTHREAD_CANCELLED) \<noteq> 0
             then retire k u s2 else requeue k u s2)"

text \<open>The first pass of the SIGUSR2 handler \<open>uthread_context_func\<close>, on the stack of the new uthread: it
  saves the context and returns.\<close>

definition uthread_context_save :: "nat \<Rightarrow> gt_state \<Rightarrow> gt_state res" where
  "uthread_context_save apic s =
     in_bounds apic GT_MAX_KTHREADS (
     deref (kthread_cpu_map s apic) (\<lambda>k.
     deref (cur_uthread (krunqs s k)) (\<lambda>u.
     c_assert (uthread_state (uths s u) = UTHREAD_INIT) (
     Inr (upd_uth u (\<lambda>x. x\<lparr>uthread_env := True, uthread_state := UTHREAD_RUNNABLE\<rparr>) s)))))"

text \<open>\<open>uthread_init\<close>: its result and the state. The early error returns leave \<open>uthread_init_lock\<close>
  locked.\<close>

definition uthread_init :: "sys_env \<Rightarrow> nat \<Rightarrow> uid \<Rightarrow> gt_state \<Rightarrow> (int \<times> gt_state) res" where
  "uthread_init e apic u_new s =
     rbind (spin_lock_at (uthread_init_lock (ksched_shared_info s))) (\<lambda>l.
     let s1 = upd_ksched (\<lambda>i. i\<lparr>uthread_init_lock := l\<rparr>) s
     in if \<not> sigaction_ok e then Inr (-1, s1)
        else if \<not> sigaltstack_ok e then Inr (-1, s1)
        else rbind (uthread_context_save apic s1) (\<lambda>s2.
          if \<not> sigaction_revert_ok e then Inr (-1, s2)
          else
            let s3 = upd_uth u_new (\<lambda>x. x\<lparr>ss_enabled := False\<rparr>) s2
            in if \<not> sigaltstack_revert_ok e then Inr (-1, s3)
               else Inr (0, upd_ksched (\<lambda>i. i\<lparr>uthread_init_lock := spin_unlock_at (uthread_init_lock i)\<rparr>) s3)))"

text \<open>The selection of the next uthread and the jump, lines 218 to 254.\<close>

definition dispatch :: "sys_env \<Rightarrow> best_sched \<Rightarrow> nat \<Rightarrow> kid \<Rightarrow> gt_state \<Rightarrow> (sched_outcome \<times> gt_state) res" where
  "dispatch e best apic k s =
     rbind (best apic k s) (\<lambda>(r, s1).
     case r of
       None \<Rightarrow>
         let s2 = (if kthread_tot_uthreads (ksched_shared_info s1) \<noteq> 0 \<and>
                      kthread_cur_uthreads (ksched_shared_info s1) = 0
                   then upd_kctx k (\<lambda>c. c\<lparr>kthread_flags := kthread_flags c OR KTHREAD_DONE\<rparr>) s1 else s1)
         in if kthread_env (kctxs s2 k) then Inr (BackToKthread, s2) else Inl Undefined
     | Some u \<Rightarrow>
         let s2 = upd_krunq k (\<lambda>q. q\<lparr>cur_uthread := Some u\<rparr>) s1
         in rbind (if uthread_state (uths s2 u) = UTHREAD_INIT
                   then rbind (uthread_init e apic u s2) (\<lambda>(rc, s3).
                        if rc \<noteq> 0 then Inl (ProcessExit 0) else Inr s3)
                   else Inr s2) (\<lambda>s3.
            let s4 = upd_uth u (\<lambda>x. x\<lparr>uthread_state := UTHREAD_RUNNING,
                                      start_running_time_step := now_start e\<rparr>) s3
            in if uthread_env (uths s4 u) then Inr (RunUthread u, s4) else Inl Undefined))"

definition uthread_schedule :: "sys_env \<Rightarrow> best_sched \<Rightarrow> nat \<Rightarrow> gt_state \<Rightarrow> (sched_outcome \<times> gt_state) res" where
  "uthread_schedule e best apic s =
     in_bounds apic GT_MAX_KTHREADS (
     deref (kthread_cpu_map s apic) (\<lambda>k.
     rbind (leave_cur e k s) (\<lambda>s1.
     dispatch e best apic k s1)))"

definition gt_yield :: "sys_env \<Rightarrow> nat \<Rightarrow> gt_state \<Rightarrow> (sched_outcome \<times> gt_state) res" where
  "gt_yield e apic s =
     in_bounds apic GT_MAX_KTHREADS (
     deref (kthread_cpu_map s apic) (\<lambda>k.
     deref (cur_uthread (krunqs s k)) (\<lambda>u_obj.
     uthread_schedule e sched_find_best_uthread apic
       (upd_uth u_obj (\<lambda>x. x\<lparr>is_yield_valid := 1\<rparr>) s))))"

text \<open>The second pass of \<open>uthread_context_func\<close>. Between the two halves runs the application's
  function. \<open>uthread_context_enter\<close> is the check before the call; \<open>uthread_context_exit\<close> is what
  follows its return, for the uthread \<open>u\<close> that the local variable points to.\<close>

definition uthread_context_enter :: "nat \<Rightarrow> gt_state \<Rightarrow> uid res" where
  "uthread_context_enter apic s =
     in_bounds apic GT_MAX_KTHREADS (
     deref (kthread_cpu_map s apic) (\<lambda>k.
     deref (cur_uthread (krunqs s k)) (\<lambda>u.
     c_assert (uthread_state (uths s u) = UTHREAD_RUNNING) (Inr u))))"

definition uthread_context_exit :: "sys_env \<Rightarrow> timeval \<Rightarrow> nat \<Rightarrow> uid \<Rightarrow> gt_state \<Rightarrow> (sched_outcome \<times> gt_state) res" where
  "uthread_context_exit e now apic u s =
     uthread_schedule e sched_find_best_uthread apic
       (upd_uth u (\<lambda>x. x\<lparr>uthread_state := UTHREAD_DONE, total_running_time_end := now\<rparr>) s)"

subsection \<open>Credits\<close>

text \<open>For a time slice of less than \<open>2^24\<close> microseconds the float arithmetic charges exactly one
  credit for each full millisecond, and a uthread that used more than its credits is left with \<open>-1\<close>.\<close>

lemma charge_credits:
  assumes c: "0 < credits x" "credits x + 1 < 2 ^ 24"
    and us: "usecs (timersub now (start_running_time_step x)) = us" "0 \<le> us" "us < 2 ^ 24"
  shows "credits (charge now x) = (if 1000 * credits x < us then - 1 else credits x - us div 1000)"
proof -
  have "fl32 (of_int (credits x)) = (of_int (credits x) :: rat)"
    using c by (intro fl32_of_int) auto
  moreover have "fl32 (of_int (credits x + 1)) = (of_int (credits x + 1) :: rat)"
    using c by (intro fl32_of_int) auto
  moreover have "c_trunc (of_int (credits x + 1)) = credits x + 1"
    using c by (simp only: c_trunc_def floor_of_int ceiling_of_int if_cancel)
  ultimately show ?thesis
    by (simp add: charge_def Let_def us(1) fl32_div_1000 [OF us(2,3)] del: usecs_timersub of_int_add)
qed

lemma charge_sel [simp]:
  "uthread_state (charge now x) = uthread_state x" "uthread_priority (charge now x) = uthread_priority x"
  "uthread_gid (charge now x) = uthread_gid x" "uthread_tid (charge now x) = uthread_tid x"
  "initial_credits (charge now x) = initial_credits x" "is_yield_valid (charge now x) = is_yield_valid x"
  "uthread_env (charge now x) = uthread_env x"
  "usecs (run_time_total (charge now x)) =
     usecs (run_time_total x) + (usecs now - usecs (start_running_time_step x))"
  by (simp_all add: charge_def Let_def)

end
