(* ===== verification/GT_Uthread_Inv.thy ===== *)
theory GT_Uthread_Inv
  imports GT_Uthread
begin

unbundle bit_operations_syntax

text \<open>
  The invariant of the scheduler and its preservation by \<open>uthread_schedule\<close>, \<open>gt_yield\<close> and the end
  of a uthread. Every uthread is at exactly one place: on one queue of one runqueue, on one zombie
  list, or current on one kthread. The lemmas first give the effect of the part of
  \<open>uthread_schedule\<close> that puts the current uthread away as a closed form (\<open>leave_uth\<close>,
  \<open>leave_head\<close>), then that of the dispatch of the next one.
\<close>

subsection \<open>Sizes\<close>

lemma rq_size_le:
  assumes w: "tq_world H hp Q" and H: "rq_heads rq \<subseteq> H" and fin: "finite (queued H Q)"
  shows "rq_size Q rq \<le> card (queued H Q)"
proof -
  let ?I = "{..<32} \<times> {..<32::nat}" and ?S = "\<lambda>(p, g). set (Q (PrioGroup rq p g))"
  have inH: "PrioGroup rq p g \<in> H" if "(p, g) \<in> ?I" for p g
    using that H by (auto simp: rq_heads_def)
  have sub: "(\<Union>x\<in>?I. ?S x) \<subseteq> queued H Q"
    using inH by (fastforce simp: queued_def)
  have len: "length (Q (PrioGroup rq p g)) = card (?S (p, g))" if "(p, g) \<in> ?I" for p g
    using tq.rep_distinct [OF w inH [OF that]] by (simp add: distinct_card)
  have "rq_size Q rq = (\<Sum>x\<in>?I. card (?S x))"
    unfolding rq_size_def totsum_def rq_len_def sum.cartesian_product
    by (rule sum.cong) (use len in auto)
  also have "\<dots> = card (\<Union>x\<in>?I. ?S x)"
  proof (rule card_UN_disjoint [symmetric])
    show "\<forall>x\<in>?I. \<forall>y\<in>?I. x \<noteq> y \<longrightarrow> ?S x \<inter> ?S y = {}"
      using tq.rep_disjoint [OF w inH inH] by fastforce
  qed (simp_all add: split_beta)
  also have "\<dots> \<le> card (queued H Q)" using sub fin by (rule card_mono [rotated])
  finally show ?thesis .
qed

lemma add_to_runqueue_ok:
  assumes ok: "pq_ok (Hs K) (Rs K) s Q" and kt: "kt_ok K s" and k: "k \<in> K" and rq: "(k, i) \<in> Rs K"
    and nq: "u \<notin> queued (Hs K) Q" and room: "rq_size Q (k, i) + 1 < 2 ^ 32"
    and p: "unat (uthread_priority (uths s u)) = p" "p < 32" and g: "unat (uthread_gid (uths s u)) = g" "g < 32"
  shows "\<exists>s'. add_to_runqueue (k, i) k u s = Inr (released k 2 s') \<and> only_queues s s' \<and>
    pq_ok (Hs K) (Rs K) s' (Q(PrioGroup (k, i) p g := Q (PrioGroup (k, i) p g) @ [u]))"
proof -
  obtain s' where "raw_add_to_runqueue (k, i) u s = Inr s'"
    "pq_ok (Hs K) (Rs K) s' (Q(PrioGroup (k, i) p g := Q (PrioGroup (k, i) p g) @ [u]))"
    "s' = s\<lparr>links := links s', runqs := (runqs s)((k, i) := runqs s' (k, i))\<rparr>"
    using raw_add_to_runqueue_ok [OF ok rq nq p g room] by blast
  with kt_okD(1) [OF kt k] show ?thesis
    by (auto simp: add_to_runqueue_eq intro: only_queuesI)
qed

subsection \<open>Putting the current uthread away\<close>

text \<open>The uthread's struct and the queue it goes to, as functions of what it was. \<open>flag\<close> is
  \<open>is_credit_scheduler\<close>.\<close>

definition charged :: "int \<Rightarrow> timeval \<Rightarrow> uthread_struct \<Rightarrow> uthread_struct" where
  "charged flag now x = (if flag = 1 \<and> 0 < credits x then charge now x else x)"

definition finished :: "uthread_struct \<Rightarrow> bool" where
  "finished x \<longleftrightarrow> uthread_state x AND (UTHREAD_DONE OR UTHREAD_CANCELLED) \<noteq> 0"

definition stays_active :: "int \<Rightarrow> uthread_struct \<Rightarrow> bool" where
  "stays_active flag x \<longleftrightarrow> flag \<noteq> 0 \<and> 0 < credits x \<and> is_yield_valid x \<noteq> 1"

definition requeue_uth :: "int \<Rightarrow> uthread_struct \<Rightarrow> uthread_struct" where
  "requeue_uth flag x =
     (let y = x\<lparr>uthread_state := UTHREAD_RUNNABLE\<rparr>
      in (if flag = 0 then y
          else if credits x \<le> 0 then y\<lparr>credits := initial_credits x, is_yield_valid := 0\<rparr>
          else if is_yield_valid x = 1 then y\<lparr>is_yield_valid := 0\<rparr>
          else y\<lparr>credits := credits x - 25\<rparr>)\<lparr>uthread_env := True\<rparr>)"

definition retire_uth :: "int \<Rightarrow> uthread_struct \<Rightarrow> uthread_struct" where
  "retire_uth flag x =
     (if flag = 1 then x\<lparr>run_time_total := timersub (total_running_time_end x) (total_running_time_start x)\<rparr>
      else x)"

definition leave_uth :: "int \<Rightarrow> uthread_struct \<Rightarrow> uthread_struct" where
  "leave_uth flag x = (if finished x then retire_uth flag x else requeue_uth flag x)"

definition leave_head :: "gt_state \<Rightarrow> kid \<Rightarrow> uthread_struct \<Rightarrow> rq_head" where
  "leave_head s k x =
     (if finished x then Zombies k
      else PrioGroup (if stays_active (is_credit_scheduler s) x then active s k else expires s k)
             (unat (uthread_priority x)) (unat (uthread_gid x)))"

definition same_config :: "gt_state \<Rightarrow> gt_state \<Rightarrow> bool" where
  "same_config s s' \<longleftrightarrow>
     kthread_cpu_map s' = kthread_cpu_map s \<and> is_credit_scheduler s' = is_credit_scheduler s \<and>
     is_load_balancing s' = is_load_balancing s \<and> is_kernel_thread_ready s' = is_kernel_thread_ready s \<and>
     (\<forall>k. cpuid (kctxs s' k) = cpuid (kctxs s k) \<and> kthread_env (kctxs s' k) = kthread_env (kctxs s k) \<and>
        kthread_sched_timer (kctxs s' k) = kthread_sched_timer (kctxs s k) \<and>
        kthread_sched_relay (kctxs s' k) = kthread_sched_relay (kctxs s k))"

lemma same_config_refl [simp]: "same_config s s"
  by (simp add: same_config_def)

lemma same_config_trans [trans]: "same_config s t \<Longrightarrow> same_config t u \<Longrightarrow> same_config s u"
  by (simp add: same_config_def)

lemma same_threads_config: "same_threads s s' \<Longrightarrow> same_config s s'"
  by (simp add: same_config_def same_threads_def)

lemma same_config_lb:
  assumes "same_config s s'"
  shows "lb_on s' = lb_on s" and "lb_mapped apic s' = lb_mapped apic s"
  using assms by (simp_all add: lb_on_def lb_mapped_def same_config_def)

lemma charged_sel [simp]:
  "uthread_state (charged flag now x) = uthread_state x"
  "uthread_priority (charged flag now x) = uthread_priority x"
  "uthread_gid (charged flag now x) = uthread_gid x" "uthread_tid (charged flag now x) = uthread_tid x"
  "initial_credits (charged flag now x) = initial_credits x"
  "is_yield_valid (charged flag now x) = is_yield_valid x"
  "uthread_env (charged flag now x) = uthread_env x"
  by (simp_all add: charged_def)

lemma upd_uth_upd_uth [simp]: "upd_uth u g (upd_uth u f s) = upd_uth u (\<lambda>x. g (f x)) s"
  by (simp add: upd_uth_def)

lemma pq_ok_upd_uth_out: "u \<notin> queued H Q \<Longrightarrow> pq_ok H R s Q \<Longrightarrow> pq_ok H R (upd_uth u f s) Q"
  by (rule pq_ok_cong) auto

lemma pq_ok_upd_uth_keep:
  "uthread_priority (f (uths s u)) = uthread_priority (uths s u) \<Longrightarrow>
   uthread_gid (f (uths s u)) = uthread_gid (uths s u) \<Longrightarrow> pq_ok H R s Q \<Longrightarrow> pq_ok H R (upd_uth u f s) Q"
  by (rule pq_ok_cong) auto

lemma kt_ok_cong:
  "krunqs s' = krunqs s \<Longrightarrow> kthread_cpu_map s' = kthread_cpu_map s \<Longrightarrow> kt_ok K s' = kt_ok K s"
  by (simp add: kt_ok_def)

lemma add_upd_ok:
  assumes ok: "pq_ok (Hs K) (Rs K) s Q" and kt: "kt_ok K s" and k: "k \<in> K" and rq: "(k, i) \<in> Rs K"
    and nq: "u \<notin> queued (Hs K) Q" and room: "rq_size Q (k, i) + 1 < 2 ^ 32"
    and p: "unat (uthread_priority (uths s u)) = p" "p < 32" and g: "unat (uthread_gid (uths s u)) = g" "g < 32"
    and f: "uthread_priority (f (uths s u)) = uthread_priority (uths s u)"
      "uthread_gid (f (uths s u)) = uthread_gid (uths s u)"
    and f': "\<And>x. uthread_priority (f' x) = uthread_priority x" "\<And>x. uthread_gid (f' x) = uthread_gid x"
  shows "\<exists>s'. rbind (add_to_runqueue (k, i) k u (upd_uth u f s)) (\<lambda>s1. Inr (upd_uth u f' s1)) = Inr s' \<and>
    uths s' = (uths s)(u := f' (f (uths s u))) \<and>
    pq_ok (Hs K) (Rs K) s' (Q(PrioGroup (k, i) p g := Q (PrioGroup (k, i) p g) @ [u])) \<and>
    kt_ok K s' \<and> same_pointers s s' \<and> same_threads (s\<lparr>uths := uths s'\<rparr>) s'"
proof -
  let ?t = "upd_uth u f s" and ?Q = "Q(PrioGroup (k, i) p g := Q (PrioGroup (k, i) p g) @ [u])"
  have ok': "pq_ok (Hs K) (Rs K) ?t Q" using nq ok by (rule pq_ok_upd_uth_out)
  have kt': "kt_ok K ?t" using kt by (simp add: kt_ok_def)
  have pg: "unat (uthread_priority (uths ?t u)) = p" "unat (uthread_gid (uths ?t u)) = g"
    using p g f by simp_all
  obtain s1 where s1: "add_to_runqueue (k, i) k u ?t = Inr (released k 2 s1)" "only_queues ?t s1"
    "pq_ok (Hs K) (Rs K) s1 ?Q"
    using add_to_runqueue_ok [OF ok' kt' k rq nq room pg(1) p(2) pg(2) g(2)] by blast
  let ?s = "upd_uth u f' (released k 2 s1)"
  have "pq_ok (Hs K) (Rs K) ?s ?Q" using s1(3) by (intro pq_ok_upd_uth_keep) (simp_all add: f')
  moreover have "kt_ok K ?s"
    using kt_ok_released [of K s1 k 2] kt' kt_ok_only_queues [OF s1(2), of K]
    by (simp add: kt_ok_cong [of ?s "released k 2 s1"])
  moreover have "same_pointers s ?s" "same_threads (s\<lparr>uths := uths ?s\<rparr>) ?s"
    by (simp_all add: same_pointers_def same_threads_def only_queuesD [OF s1(2)])
  ultimately show ?thesis by (simp add: s1(1) only_queuesD [OF s1(2)])
qed

lemma requeue_ok:
  assumes ok: "pq_ok (Hs K) (Rs K) s Q" and kt: "kt_ok K s" and k: "k \<in> K"
    and nq: "u \<notin> queued (Hs K) Q" and room: "\<forall>rq\<in>Rs K. rq_size Q rq + 1 < 2 ^ 32"
    and p: "unat (uthread_priority (uths s u)) = p" "p < 32" and g: "unat (uthread_gid (uths s u)) = g" "g < 32"
    and h: "h = PrioGroup (if stays_active (is_credit_scheduler s) (uths s u) then active s k else expires s k) p g"
  shows "\<exists>s'. requeue k u s = Inr s' \<and>
    uths s' = (uths s)(u := requeue_uth (is_credit_scheduler s) (uths s u)) \<and>
    pq_ok (Hs K) (Rs K) s' (Q(h := Q h @ [u])) \<and>
    kt_ok K s' \<and> same_pointers s s' \<and> same_threads (s\<lparr>uths := uths s'\<rparr>) s'"
proof -
  let ?flag = "is_credit_scheduler s" and ?x = "uths s u"
  have rqs: "active s k \<in> Rs K" "expires s k \<in> Rs K"
    using kt k by (rule kt_ok_active_in_Rs, rule kt_ok_expires_in_Rs)
  with room have sz: "rq_size Q (active s k) + 1 < 2 ^ 32" "rq_size Q (expires s k) + 1 < 2 ^ 32" by blast+
  note act = add_upd_ok [OF ok kt k rqs(1) nq sz(1) p g]
  note exp = add_upd_ok [OF ok kt k rqs(2) nq sz(2) p g]
  consider (fifo) "?flag = 0" | (broke) "?flag \<noteq> 0" "credits ?x \<le> 0"
    | (yield) "?flag \<noteq> 0" "0 < credits ?x" "is_yield_valid ?x = 1"
    | (slice) "?flag \<noteq> 0" "0 < credits ?x" "is_yield_valid ?x \<noteq> 1" by linarith
  then show ?thesis
  proof cases
    case fifo
    have "h = PrioGroup (expires s k) p g" using fifo h by (simp add: stays_active_def)
    with exp [of "\<lambda>x. x\<lparr>uthread_state := UTHREAD_RUNNABLE\<rparr>" "\<lambda>x. x\<lparr>uthread_env := True\<rparr>"] fifo
    show ?thesis by (simp add: requeue_def requeue_uth_def Let_def)
  next
    case broke
    have "h = PrioGroup (expires s k) p g" using broke h by (simp add: stays_active_def)
    with exp [of "\<lambda>x. x\<lparr>uthread_state := UTHREAD_RUNNABLE, credits := initial_credits x, is_yield_valid := 0\<rparr>"
        "\<lambda>x. x\<lparr>uthread_env := True\<rparr>"] broke
    show ?thesis by (simp add: requeue_def requeue_uth_def Let_def)
  next
    case yield
    have "h = PrioGroup (expires s k) p g" using yield h by (simp add: stays_active_def)
    with exp [of "\<lambda>x. x\<lparr>uthread_state := UTHREAD_RUNNABLE\<rparr>" "\<lambda>x. x\<lparr>is_yield_valid := 0, uthread_env := True\<rparr>"] yield
    show ?thesis by (simp add: requeue_def requeue_uth_def Let_def rbind_assoc)
  next
    case slice
    have "h = PrioGroup (active s k) p g" using slice h by (simp add: stays_active_def)
    with act [of "\<lambda>x. x\<lparr>uthread_state := UTHREAD_RUNNABLE, credits := credits x - 25\<rparr>"
        "\<lambda>x. x\<lparr>uthread_env := True\<rparr>"] slice
    show ?thesis by (simp add: requeue_def requeue_uth_def Let_def)
  qed
qed

lemma pq_ok_zombies:
  assumes ok: "pq_ok H R s Q" and w: "tq_world H l (Q(Zombies k := xs))"
    and same: "links s' = l" "runqs s' = runqs s" "\<And>v. uthread_priority (uths s' v) = uthread_priority (uths s v)"
      "\<And>v. uthread_gid (uths s' v) = uthread_gid (uths s v)"
  shows "pq_ok H R s' (Q(Zombies k := xs))"
  using ok w by (simp add: pq_ok_def rq_sorted_def same rq_len_def [abs_def])

lemma record_times_ok:
  assumes "is_credit_scheduler s = 1 \<longrightarrow>
      unat (uthread_tid (uths s u)) < 128 \<and> uthread_time s (unat (uthread_tid (uths s u))) \<noteq> None"
  shows "\<exists>T. record_times u s =
      Inr ((upd_uth u (retire_uth (is_credit_scheduler s)) s)\<lparr>uthread_time := T\<rparr>) \<and>
    (\<forall>i. uthread_time s i \<noteq> None \<longrightarrow> T i \<noteq> None) \<and>
    (is_credit_scheduler s = 1 \<longrightarrow>
       (\<exists>t. T (unat (uthread_tid (uths s u))) = Some t \<and> cpu_time t = run_time_total (uths s u) \<and>
            running_time t = timersub (total_running_time_end (uths s u)) (total_running_time_start (uths s u))))"
proof (cases "is_credit_scheduler s = 1")
  case True
  with assms obtain t where "unat (uthread_tid (uths s u)) < 128"
    "uthread_time s (unat (uthread_tid (uths s u))) = Some t" by auto
  with True show ?thesis
    by (intro exI) (auto simp: record_times_def Let_def retire_uth_def upd_uth_def)
next
  case False
  then have "record_times u s = Inr ((upd_uth u (retire_uth (is_credit_scheduler s)) s)\<lparr>uthread_time := uthread_time s\<rparr>)"
    by (simp add: record_times_def retire_uth_def upd_uth_def)
  with False show ?thesis by blast
qed

lemma retire_uth_sel [simp]:
  "uthread_state (retire_uth flag x) = uthread_state x" "uthread_priority (retire_uth flag x) = uthread_priority x"
  "uthread_gid (retire_uth flag x) = uthread_gid x" "uthread_tid (retire_uth flag x) = uthread_tid x"
  "credits (retire_uth flag x) = credits x" "initial_credits (retire_uth flag x) = initial_credits x"
  "uthread_env (retire_uth flag x) = uthread_env x"
  by (simp_all add: retire_uth_def)

lemma ksched_dec_eq:
  "locked (ksched_lock (ksched_shared_info s)) = 0 \<Longrightarrow>
   ksched_dec_uthreads s = Inr (upd_ksched (\<lambda>i. i\<lparr>kthread_cur_uthreads := kthread_cur_uthreads i - 1\<rparr>) s)"
  by (cases "ksched_lock (ksched_shared_info s)")
     (simp add: ksched_dec_uthreads_def spin_unlock_at_eq upd_ksched_def)

text \<open>All that \<open>retire\<close> and \<open>requeue\<close> leave alone.\<close>

definition leaves_alone :: "gt_state \<Rightarrow> gt_state \<Rightarrow> bool" where
  "leaves_alone s s' \<longleftrightarrow>
     kctxs s' = kctxs s \<and> same_config s s' \<and> same_pointers s s' \<and>
     (\<forall>k. cur_uthread (krunqs s' k) = cur_uthread (krunqs s k)) \<and>
     (\<forall>i. uthread_time s i \<noteq> None \<longrightarrow> uthread_time s' i \<noteq> None)"

lemma retire_ok:
  assumes ok: "pq_ok (Hs K) (Rs K) s Q" and kt: "kt_ok K s" and k: "k \<in> K"
    and nq: "u \<notin> queued (Hs K) Q" and lock: "locked (ksched_lock (ksched_shared_info s)) = 0"
    and tid: "is_credit_scheduler s = 1 \<longrightarrow>
      unat (uthread_tid (uths s u)) < 128 \<and> uthread_time s (unat (uthread_tid (uths s u))) \<noteq> None"
  shows "\<exists>s'. retire k u s = Inr s' \<and>
    uths s' = (uths s)(u := retire_uth (is_credit_scheduler s) (uths s u)) \<and>
    pq_ok (Hs K) (Rs K) s' (Q(Zombies k := Q (Zombies k) @ [u])) \<and> kt_ok K s' \<and> leaves_alone s s' \<and>
    ksched_shared_info s' =
      (ksched_shared_info s)\<lparr>kthread_cur_uthreads := kthread_cur_uthreads (ksched_shared_info s) - 1\<rparr>"
proof -
  obtain T where T: "record_times u s = Inr ((upd_uth u (retire_uth (is_credit_scheduler s)) s)\<lparr>uthread_time := T\<rparr>)"
    "\<forall>i. uthread_time s i \<noteq> None \<longrightarrow> T i \<noteq> None"
    using record_times_ok [OF tid] by blast
  have z: "Zombies k \<in> Hs K" using k by (auto simp: krunq_heads_def)
  obtain l where l: "TAILQ_INSERT_TAIL (Zombies k) u (links s) = Inr l"
    "tq_world (Hs K) l (Q(Zombies k := Q (Zombies k) @ [u]))"
    using tq.insert_tail_law [OF pq_okD(1) [OF ok] z nq] by blast
  let ?s1 = "(upd_uth u (retire_uth (is_credit_scheduler s)) s)\<lparr>uthread_time := T\<rparr>"
  let ?s2 = "(released k 1 ?s1)\<lparr>links := l\<rparr>"
  let ?s3 = "upd_ksched (\<lambda>i. i\<lparr>kthread_cur_uthreads := kthread_cur_uthreads i - 1\<rparr>) ?s2"
  have free: "locked (kthread_runqlock (krunqs ?s1 k)) = 0" using kt_okD(1) [OF kt k] by simp
  have "unlock_runq k ((holding k 1 ?s1)\<lparr>links := l\<rparr>) = ?s2"
    by (simp add: unlock_runq_def holding_def released_def spin_unlock_at_eq upd_krunq_def)
  then have "retire k u s = ksched_dec_uthreads ?s2"
    unfolding retire_def T(1) rbind_Inr lock_runq_free [OF free] set_holder_lock by (simp add: l(1))
  also have "\<dots> = Inr ?s3" using lock by (intro ksched_dec_eq) simp
  finally have "retire k u s = Inr ?s3" .
  moreover have "pq_ok (Hs K) (Rs K) ?s3 (Q(Zombies k := Q (Zombies k) @ [u]))"
    by (rule pq_ok_zombies [OF ok l(2)]) simp_all
  moreover have "kt_ok K ?s3"
    using kt by (auto simp: kt_ok_def released_def)
  moreover have "leaves_alone s ?s3" using T(2) by (simp add: leaves_alone_def same_config_def same_pointers_def)
  ultimately show ?thesis by (intro exI [of _ ?s3]) simp
qed

subsection \<open>The invariant\<close>

definition currents :: "kid set \<Rightarrow> gt_state \<Rightarrow> uid set" where
  "currents K s = {u. \<exists>k\<in>K. cur_uthread (krunqs s k) = Some u}"

definition zombies :: "kid set \<Rightarrow> (rq_head \<Rightarrow> uid list) \<Rightarrow> uid set" where
  "zombies K Q = (\<Union>k\<in>K. set (Q (Zombies k)))"

definition ready :: "kid set \<Rightarrow> (rq_head \<Rightarrow> uid list) \<Rightarrow> uid set" where
  "ready K Q = queued (Hs K) Q - zombies K Q"

text \<open>\<open>sys_ok K U s Q\<close>: \<open>K\<close> are the kthreads, \<open>U\<close> the uthreads created so far, \<open>Q\<close> what is on the
  queues.\<close>

definition uths_ok :: "kid set \<Rightarrow> uid set \<Rightarrow> gt_state \<Rightarrow> (rq_head \<Rightarrow> uid list) \<Rightarrow> bool" where
  "uths_ok K U s Q \<longleftrightarrow>
     (\<forall>u\<in>U. unat (uthread_priority (uths s u)) < 32 \<and> unat (uthread_gid (uths s u)) < 32 \<and>
        (is_credit_scheduler s = 1 \<longrightarrow> unat (uthread_tid (uths s u)) < 128 \<and>
           uthread_time s (unat (uthread_tid (uths s u))) \<noteq> None)) \<and>
     (\<forall>u\<in>ready K Q. uthread_state (uths s u) = UTHREAD_INIT \<or>
        uthread_state (uths s u) = UTHREAD_RUNNABLE \<and> uthread_env (uths s u)) \<and>
     (\<forall>u\<in>currents K s. uthread_env (uths s u)) \<and>
     (\<forall>u\<in>zombies K Q. finished (uths s u))"

definition places_ok :: "kid set \<Rightarrow> uid set \<Rightarrow> gt_state \<Rightarrow> (rq_head \<Rightarrow> uid list) \<Rightarrow> bool" where
  "places_ok K U s Q \<longleftrightarrow>
     finite U \<and> card U + 1 < 2 ^ 32 \<and>
     queued (Hs K) Q \<union> currents K s = U \<and> queued (Hs K) Q \<inter> currents K s = {} \<and>
     (\<forall>k\<in>K. \<forall>k'\<in>K. \<forall>u. cur_uthread (krunqs s k) = Some u \<longrightarrow> cur_uthread (krunqs s k') = Some u \<longrightarrow> k = k')"

definition info_ok :: "kid set \<Rightarrow> uid set \<Rightarrow> gt_state \<Rightarrow> (rq_head \<Rightarrow> uid list) \<Rightarrow> bool" where
  "info_ok K U s Q \<longleftrightarrow>
     locked (ksched_lock (ksched_shared_info s)) = 0 \<and> locked (uthread_init_lock (ksched_shared_info s)) = 0 \<and>
     locked (malloc_lock (ksched_shared_info s)) = 0 \<and>
     unat (kthread_cur_uthreads (ksched_shared_info s)) = card (U - zombies K Q) \<and>
     unat (kthread_tot_uthreads (ksched_shared_info s)) = card U"

text \<open>Every uthread has a thread number of its own, below the number of uthreads created.\<close>

definition tids_ok :: "uid set \<Rightarrow> gt_state \<Rightarrow> bool" where
  "tids_ok U s \<longleftrightarrow>
     (\<forall>u\<in>U. unat (uthread_tid (uths s u)) < card U) \<and> inj_on (\<lambda>u. uthread_tid (uths s u)) U"

definition sys_ok :: "kid set \<Rightarrow> uid set \<Rightarrow> gt_state \<Rightarrow> (rq_head \<Rightarrow> uid list) \<Rightarrow> bool" where
  "sys_ok K U s Q \<longleftrightarrow>
     pq_ok (Hs K) (Rs K) s Q \<and> kt_ok K s \<and> places_ok K U s Q \<and> uths_ok K U s Q \<and> info_ok K U s Q \<and> tids_ok U s"

lemma queued_append: "h \<in> H \<Longrightarrow> queued H (Q(h := Q h @ [u])) = insert u (queued H Q)"
  by (auto simp: queued_def split: if_splits)

lemma queued_pop:
  assumes "tq_world H hp Q" and "h \<in> H" and "Q h \<noteq> []"
  shows "queued H (Q(h := tl (Q h))) = queued H Q - {hd (Q h)}"
proof -
  have "hd (Q h) \<notin> set (Q h')" if "h' \<in> H" "h' \<noteq> h" for h'
    using tq.rep_disjoint [OF assms(1,2) that(1)] that(2) assms(3) hd_in_set [of "Q h"] by blast
  moreover have "set (tl (Q h)) = set (Q h) - {hd (Q h)}"
    using tq.rep_distinct [OF assms(1,2)] assms(3) by (cases "Q h") auto
  ultimately show ?thesis using assms(2) by (auto simp: queued_def split: if_splits)
qed

lemma zombies_upd [simp]:
  "zombies K (Q(PrioGroup rq p g := xs)) = zombies K Q"
  "k \<in> K \<Longrightarrow> zombies K (Q(Zombies k := Q (Zombies k) @ [u])) = insert u (zombies K Q)"
  by (auto simp: zombies_def split: if_splits)

lemma zombies_queued: "zombies K Q \<subseteq> queued (Hs K) Q"
  by (auto simp: zombies_def queued_def krunq_heads_def)

lemma slot_in_Hs: "k \<in> K \<Longrightarrow> (k, i) \<in> Rs K \<Longrightarrow> p < 32 \<Longrightarrow> g < 32 \<Longrightarrow> PrioGroup (k, i) p g \<in> Hs K"
  by (auto simp: krunq_heads_def rq_heads_def)

lemma sys_okD:
  assumes "sys_ok K U s Q"
  shows "pq_ok (Hs K) (Rs K) s Q" "kt_ok K s" "places_ok K U s Q" "uths_ok K U s Q" "info_ok K U s Q" "tids_ok U s"
  using assms by (simp_all add: sys_ok_def)

lemma sys_okI:
  "pq_ok (Hs K) (Rs K) s Q \<Longrightarrow> kt_ok K s \<Longrightarrow> places_ok K U s Q \<Longrightarrow> uths_ok K U s Q \<Longrightarrow> info_ok K U s Q \<Longrightarrow>
   tids_ok U s \<Longrightarrow> sys_ok K U s Q"
  by (simp add: sys_ok_def)

lemma tids_ok_cong: "(\<And>v. uthread_tid (uths s' v) = uthread_tid (uths s v)) \<Longrightarrow> tids_ok U s' = tids_ok U s"
  by (simp add: tids_ok_def)

lemma sys_ok_room:
  assumes ok: "sys_ok K U s Q"
  shows "\<forall>rq\<in>Rs K. rq_size Q rq + 1 < 2 ^ 32"
proof
  fix rq assume rq: "rq \<in> Rs K"
  have U: "finite U" "card U + 1 < 2 ^ 32" "queued (Hs K) Q \<subseteq> U"
    using sys_okD(3) [OF ok] by (auto simp: places_ok_def)
  have "rq_size Q rq \<le> card (queued (Hs K) Q)"
  proof (rule rq_size_le)
    show "tq_world (Hs K) (links s) Q" using sys_okD(1) [OF ok] by (rule pq_okD(1))
    show "rq_heads rq \<subseteq> Hs K" using sys_okD(1) [OF ok] rq by (simp only: pq_ok_def)
    show "finite (queued (Hs K) Q)" using U(1,3) by (rule rev_finite_subset)
  qed
  also have "\<dots> \<le> card U" using U(1,3) by (rule card_mono)
  finally show "rq_size Q rq + 1 < 2 ^ 32" using U(2) by linarith
qed

text \<open>The closed form of lines 139 to 216.\<close>

lemma leave_cur_ok:
  assumes ok: "sys_ok K U s Q" and k: "k \<in> K" and u: "cur_uthread (krunqs s k) = Some u"
    and x: "x = charged (is_credit_scheduler s) (now_end e) (uths s u)" and h: "h = leave_head s k x"
  shows "\<exists>s'. leave_cur e k s = Inr s' \<and> uths s' = (uths s)(u := leave_uth (is_credit_scheduler s) x) \<and>
    pq_ok (Hs K) (Rs K) s' (Q(h := Q h @ [u])) \<and> kt_ok K s' \<and>
    kctxs s' = kctxs s \<and> same_config s s' \<and> same_pointers s s' \<and>
    (\<forall>i. cur_uthread (krunqs s' i) = (if i = k then None else cur_uthread (krunqs s i))) \<and>
    (\<forall>i. uthread_time s i \<noteq> None \<longrightarrow> uthread_time s' i \<noteq> None) \<and>
    ksched_shared_info s' = (if finished x then (ksched_shared_info s)
      \<lparr>kthread_cur_uthreads := kthread_cur_uthreads (ksched_shared_info s) - 1\<rparr> else ksched_shared_info s)"
proof -
  note inv = sys_okD [OF ok]
  let ?f = "is_credit_scheduler s"
  let ?s = "upd_krunq k (\<lambda>q. q\<lparr>cur_uthread := None\<rparr>) (upd_uth u (charged ?f (now_end e)) s)"
  have uU: "u \<in> U" and nq: "u \<notin> queued (Hs K) Q"
    using inv(3) u k by (auto simp: places_ok_def currents_def)
  have pq: "pq_ok (Hs K) (Rs K) ?s Q" using nq inv(1) by (simp add: pq_ok_upd_uth_out del: One_nat_def)
  have kt: "kt_ok K ?s" using inv(2) by (auto simp: kt_ok_def)
  have xs: "uths ?s u = x" by (simp add: x)
  have run: "leave_cur e k s = (if finished x then retire k u ?s else requeue k u ?s)"
    by (simp add: leave_cur_def u Let_def charged_def x finished_def upd_uth_def)
  show ?thesis
  proof (cases "finished x")
    case True
    have lock: "locked (ksched_lock (ksched_shared_info ?s)) = 0" using inv(5) by (simp add: info_ok_def)
    have tid: "is_credit_scheduler ?s = 1 \<longrightarrow>
      unat (uthread_tid (uths ?s u)) < 128 \<and> uthread_time ?s (unat (uthread_tid (uths ?s u))) \<noteq> None"
      using inv(4) uU by (simp add: uths_ok_def)
    obtain s' where "retire k u ?s = Inr s'" "uths s' = (uths ?s)(u := retire_uth ?f x)"
      "pq_ok (Hs K) (Rs K) s' (Q(Zombies k := Q (Zombies k) @ [u]))" "kt_ok K s'" "leaves_alone ?s s'"
      "ksched_shared_info s' =
        (ksched_shared_info s)\<lparr>kthread_cur_uthreads := kthread_cur_uthreads (ksched_shared_info s) - 1\<rparr>"
      using retire_ok [OF pq kt k nq lock tid] by (auto simp flip: x)
    then show ?thesis using True
      by (simp add: run h leave_head_def leave_uth_def leaves_alone_def same_config_def same_pointers_def)
  next
    case False
    have p: "unat (uthread_priority (uths ?s u)) < 32" "unat (uthread_gid (uths ?s u)) < 32"
      using inv(4) uU by (simp_all add: uths_ok_def)
    have "h = PrioGroup (if stays_active (is_credit_scheduler ?s) (uths ?s u) then active ?s k else expires ?s k)
        (unat (uthread_priority (uths ?s u))) (unat (uthread_gid (uths ?s u)))"
      using False by (simp add: h leave_head_def flip: x)
    then obtain s' where "requeue k u ?s = Inr s'" "uths s' = (uths ?s)(u := requeue_uth ?f x)"
      "pq_ok (Hs K) (Rs K) s' (Q(h := Q h @ [u]))" "kt_ok K s'" "same_pointers ?s s'"
      "same_threads (?s\<lparr>uths := uths s'\<rparr>) s'"
      using requeue_ok [OF pq kt k nq sys_ok_room [OF ok] refl p(1) refl p(2)] by (auto simp flip: x)
    then show ?thesis using False
      by (simp add: run leave_uth_def same_threads_def same_config_def same_pointers_def)
  qed
qed

lemma leave_uth_sel [simp]:
  "uthread_priority (leave_uth flag x) = uthread_priority x" "uthread_gid (leave_uth flag x) = uthread_gid x"
  "uthread_tid (leave_uth flag x) = uthread_tid x" "initial_credits (leave_uth flag x) = initial_credits x"
  by (simp_all add: leave_uth_def requeue_uth_def Let_def)

lemma finished_leave_uth: "finished x \<Longrightarrow> finished (leave_uth flag x)"
  by (simp add: leave_uth_def finished_def)

lemma leave_uth_requeued:
  "\<not> finished x \<Longrightarrow> uthread_state (leave_uth flag x) = UTHREAD_RUNNABLE \<and> uthread_env (leave_uth flag x)"
  by (simp add: leave_uth_def requeue_uth_def Let_def)

lemma ready_append:
  "h \<in> Hs K \<Longrightarrow> u \<notin> queued (Hs K) Q \<Longrightarrow> k \<in> K \<Longrightarrow>
   ready K (Q(h := Q h @ [u])) = (case h of Zombies _ \<Rightarrow> ready K Q | PrioGroup _ _ _ \<Rightarrow> insert u (ready K Q))"
  using zombies_queued [of K Q]
  by (cases h) (auto simp: ready_def queued_append krunq_heads_def rq_heads_def)

text \<open>Where the uthreads are after \<open>u\<close>, the current one of \<open>k\<close>, went to \<open>h\<close>.\<close>

lemma places_leave:
  assumes pl: "places_ok K U s Q" and k: "k \<in> K" and u: "cur_uthread (krunqs s k) = Some u" and h: "h \<in> Hs K"
    and cur: "\<forall>i. cur_uthread (krunqs s' i) = (if i = k then None else cur_uthread (krunqs s i))"
  shows "places_ok K U s' (Q(h := Q h @ [u]))" and "currents K s' = currents K s - {u}"
proof -
  have inj: "i = k" if "i \<in> K" "cur_uthread (krunqs s i) = Some u" for i
    using pl k u that by (simp add: places_ok_def)
  show c: "currents K s' = currents K s - {u}"
    using inj u by (auto simp: currents_def cur) (metis option.inject)
  have "u \<in> currents K s" using k u by (auto simp: currents_def)
  then show "places_ok K U s' (Q(h := Q h @ [u]))"
    using pl unfolding places_ok_def queued_append [OF h] c by (auto simp: cur)
qed

lemma leave_cur_inv:
  assumes ok: "sys_ok K U s Q" and k: "k \<in> K" and u: "cur_uthread (krunqs s k) = Some u"
    and x: "x = charged (is_credit_scheduler s) (now_end e) (uths s u)" and h: "h = leave_head s k x"
  shows "\<exists>s'. leave_cur e k s = Inr s' \<and> sys_ok K U s' (Q(h := Q h @ [u])) \<and>
    uths s' = (uths s)(u := leave_uth (is_credit_scheduler s) x) \<and>
    cur_uthread (krunqs s' k) = None \<and> same_config s s' \<and> same_pointers s s' \<and> kctxs s' = kctxs s"
proof -
  note inv = sys_okD [OF ok]
  let ?Q = "Q(h := Q h @ [u])" and ?f = "is_credit_scheduler s"
  obtain s' where s': "leave_cur e k s = Inr s'" "uths s' = (uths s)(u := leave_uth ?f x)"
    "pq_ok (Hs K) (Rs K) s' ?Q" "kt_ok K s'" "kctxs s' = kctxs s" "same_config s s'" "same_pointers s s'"
    "\<forall>i. cur_uthread (krunqs s' i) = (if i = k then None else cur_uthread (krunqs s i))"
    "\<forall>i. uthread_time s i \<noteq> None \<longrightarrow> uthread_time s' i \<noteq> None"
    "ksched_shared_info s' = (if finished x then (ksched_shared_info s)
      \<lparr>kthread_cur_uthreads := kthread_cur_uthreads (ksched_shared_info s) - 1\<rparr> else ksched_shared_info s)"
    using leave_cur_ok [OF ok k u x h] by blast
  have uU: "u \<in> U" "finite U" and nq: "u \<notin> queued (Hs K) Q"
    using inv(3) u k by (auto simp: places_ok_def currents_def)
  then have nz: "u \<notin> zombies K Q" using zombies_queued by blast
  have pg: "unat (uthread_priority x) < 32" "unat (uthread_gid x) < 32"
    using inv(4) uU by (simp_all add: uths_ok_def x)
  have hH: "h \<in> Hs K"
  proof (cases "finished x")
    case True
    then show ?thesis using k by (auto simp: h leave_head_def krunq_heads_def)
  next
    case False
    then show ?thesis
      using pg slot_in_Hs [OF k kt_ok_active_in_Rs [OF inv(2) k]] slot_in_Hs [OF k kt_ok_expires_in_Rs [OF inv(2) k]]
      by (simp add: h leave_head_def)
  qed
  note pl = places_leave [OF inv(3) k u hH s'(8)]
  have z: "zombies K ?Q = (if finished x then insert u (zombies K Q) else zombies K Q)"
    and r: "ready K ?Q = (if finished x then ready K Q else insert u (ready K Q))"
    using k ready_append [OF hH nq k] by (simp_all add: h leave_head_def)
  have flag: "is_credit_scheduler s' = ?f" using s'(6) by (simp add: same_config_def)
  have out: "u \<notin> ready K Q" using nq by (simp add: ready_def)
  have "uths_ok K U s' ?Q"
    unfolding uths_ok_def z r pl(2) flag
  proof (intro conjI ballI, goal_cases)
    case (1 v) then show ?case using inv(4) pg by (simp add: uths_ok_def s'(2))
  next
    case (2 v) then show ?case using inv(4) pg by (simp add: uths_ok_def s'(2))
  next
    case (3 v)
    show ?case
    proof
      assume f1: "?f = 1"
      have "uthread_tid (uths s' v) = uthread_tid (uths s v)" by (simp add: s'(2) x)
      with f1 3 inv(4) s'(9)
      show "unat (uthread_tid (uths s' v)) < 128 \<and> uthread_time s' (unat (uthread_tid (uths s' v))) \<noteq> None"
        by (simp only: uths_ok_def) blast
    qed
  next
    case (4 v)
    then show ?case using inv(4) out leave_uth_requeued [of x ?f]
      by (cases "v = u") (auto simp: uths_ok_def s'(2) split: if_splits)
  next
    case (5 v) then show ?case using inv(4) by (simp add: uths_ok_def s'(2))
  next
    case (6 v)
    then show ?case using inv(4) nz finished_leave_uth [of x ?f]
      by (cases "v = u") (auto simp: uths_ok_def s'(2) split: if_splits)
  qed
  moreover have "info_ok K U s' ?Q"
  proof (cases "finished x")
    case True
    have "card (U - insert u (zombies K Q)) = card (U - zombies K Q) - 1"
      using uU nz by (subst Diff_insert) (simp add: card_Diff_singleton)
    moreover have "0 < card (U - zombies K Q)" using uU nz by (auto simp: card_gt_0_iff)
    ultimately show ?thesis using inv(5) True
      by (simp add: info_ok_def z s'(5,10) unat_dec)
  next
    case False
    with inv(5) show ?thesis by (simp add: info_ok_def z s'(5,10))
  qed
  moreover have "tids_ok U s'" using inv(6) by (subst tids_ok_cong) (simp_all add: s'(2) x)
  ultimately have "sys_ok K U s' ?Q" using s'(3,4) pl(1) by (intro sys_okI)
  moreover have "cur_uthread (krunqs s' k) = None" using s'(8) by simp
  ultimately show ?thesis using s'(1,2,5-7) by (intro exI [of _ s'] conjI)
qed

subsection \<open>Dispatching the next uthread\<close>

definition sys_calls_ok :: "sys_env \<Rightarrow> bool" where
  "sys_calls_ok e \<longleftrightarrow> sigaction_ok e \<and> sigaltstack_ok e \<and> sigaction_revert_ok e \<and> sigaltstack_revert_ok e"

lemma uthread_init_ok:
  assumes "sys_calls_ok e" and "apic < 16" and "kthread_cpu_map s apic = Some k"
    and "cur_uthread (krunqs s k) = Some u" and "uthread_state (uths s u) = UTHREAD_INIT"
    and "locked (uthread_init_lock (ksched_shared_info s)) = 0"
  shows "uthread_init e apic u s =
    Inr (0, upd_uth u (\<lambda>x. x\<lparr>uthread_env := True, uthread_state := UTHREAD_RUNNABLE, ss_enabled := False\<rparr>) s)"
  using assms
  by (cases "uthread_init_lock (ksched_shared_info s)")
     (simp add: sys_calls_ok_def uthread_init_def uthread_context_save_def Let_def upd_uth_def upd_ksched_def
        spin_unlock_at_eq)

lemma sys_ok_same_threads:
  assumes ok: "sys_ok K U s Q" and same: "same_threads s s'" and pq: "pq_ok (Hs K) (Rs K) s' Q" and kt: "kt_ok K s'"
  shows "sys_ok K U s' Q"
  by (rule sys_okI [OF pq kt])
     (use sys_okD(3-6) [OF ok] same in
       \<open>simp_all add: places_ok_def uths_ok_def info_ok_def tids_ok_def currents_def same_threads_def\<close>)

lemma sys_ok_flags:
  assumes ok: "sys_ok K U s Q"
  shows "sys_ok K U (upd_kctx k (\<lambda>c. c\<lparr>kthread_flags := f c\<rparr>) s) Q" (is "sys_ok K U ?s Q")
proof (rule sys_okI)
  show "pq_ok (Hs K) (Rs K) ?s Q" using sys_okD(1) [OF ok] by simp
  show "kt_ok K ?s" using sys_okD(2) [OF ok] by (simp add: kt_ok_def)
qed (use sys_okD(3-6) [OF ok] in \<open>simp_all add: places_ok_def uths_ok_def info_ok_def tids_ok_def currents_def\<close>)

text \<open>Where the uthreads are after \<open>u\<close>, the first of a slot, became the current one of \<open>k\<close>.\<close>

lemma places_run:
  assumes ok: "sys_ok K U s Q" and k: "k \<in> K" and idle: "cur_uthread (krunqs s k) = None"
    and rq: "rq \<in> Rs K" and b: "best_slot Q rq p g" and u: "u = hd (Q (PrioGroup rq p g))"
    and cur: "\<forall>i. cur_uthread (krunqs s' i) = (if i = k then Some u else cur_uthread (krunqs s i))"
  shows "places_ok K U s' (pop rq p g Q)" and "currents K s' = insert u (currents K s)"
    and "ready K (pop rq p g Q) = ready K Q - {u}" and "zombies K (pop rq p g Q) = zombies K Q" and "u \<in> ready K Q"
    and "u \<in> U"
proof -
  note inv = sys_okD [OF ok]
  have H: "PrioGroup rq p g \<in> Hs K" and ne: "Q (PrioGroup rq p g) \<noteq> []"
    using pq_okD(2) [OF inv(1) rq] b by (auto simp: best_slot_def)
  have uq: "u \<in> set (Q (PrioGroup rq p g))" using ne u by simp
  show z: "zombies K (pop rq p g Q) = zombies K Q" by (simp add: pop_def)
  have q: "queued (Hs K) (pop rq p g Q) = queued (Hs K) Q - {u}"
    unfolding pop_def u by (rule queued_pop [OF pq_okD(1) [OF inv(1)] H ne])
  show c: "currents K s' = insert u (currents K s)"
    using k idle by (auto simp: currents_def cur) (metis option.distinct(1))
  show r: "ready K (pop rq p g Q) = ready K Q - {u}" unfolding ready_def z q by blast
  have mem: "u \<in> queued (Hs K) Q" using H uq by (auto simp: queued_def)
  have "u \<notin> set (Q (Zombies i))" if "i \<in> K" for i
  proof -
    have "Zombies i \<in> Hs K" using that by (auto simp: krunq_heads_def)
    then show ?thesis using tq.rep_disjoint [OF pq_okD(1) [OF inv(1)] H] uq by blast
  qed
  with mem show "u \<in> ready K Q" by (auto simp: ready_def zombies_def)
  have nc: "u \<notin> currents K s" and uU: "u \<in> U" using inv(3) mem by (auto simp: places_ok_def)
  show "u \<in> U" by (rule uU)
  have other: "cur_uthread (krunqs s i) \<noteq> Some u" if "i \<in> K" for i
    using nc that by (auto simp: currents_def)
  have "i = j" if "i \<in> K" "j \<in> K" "cur_uthread (krunqs s' i) = Some v" "cur_uthread (krunqs s' j) = Some v" for i j v
  proof -
    have "cur_uthread (krunqs s i) = Some v \<Longrightarrow> cur_uthread (krunqs s j) = Some v \<Longrightarrow> i = j"
      using inv(3) that(1,2) by (simp add: places_ok_def)
    then show ?thesis using that other [OF that(1)] other [OF that(2)]
      by (cases "i = k"; cases "j = k") (simp_all add: cur)
  qed
  then have "\<forall>i\<in>K. \<forall>j\<in>K. \<forall>v. cur_uthread (krunqs s' i) = Some v \<longrightarrow> cur_uthread (krunqs s' j) = Some v \<longrightarrow> i = j"
    by blast
  with inv(3) mem nc show "places_ok K U s' (pop rq p g Q)"
    unfolding places_ok_def q c by auto
qed

lemma run_inv:
  assumes ok: "sys_ok K U s Q" and k: "k \<in> K" and idle: "cur_uthread (krunqs s k) = None"
    and rq: "rq \<in> Rs K" and b: "best_slot Q rq p g" and u: "u = hd (Q (PrioGroup rq p g))"
    and cur: "\<forall>i. cur_uthread (krunqs s' i) = (if i = k then Some u else cur_uthread (krunqs s i))"
    and pq: "pq_ok (Hs K) (Rs K) s' (pop rq p g Q)" and kt: "kt_ok K s'"
    and uths: "uths s' = (uths s)(u := y)" "uthread_env y" "uthread_priority y = uthread_priority (uths s u)"
      "uthread_gid y = uthread_gid (uths s u)" "uthread_tid y = uthread_tid (uths s u)"
    and same: "ksched_shared_info s' = ksched_shared_info s" "kctxs s' = kctxs s" "uthread_time s' = uthread_time s"
      "is_credit_scheduler s' = is_credit_scheduler s"
  shows "sys_ok K U s' (pop rq p g Q)"
proof (rule sys_okI [OF pq kt])
  note pl = places_run [OF ok k idle rq b u cur]
  show "places_ok K U s' (pop rq p g Q)" by (rule pl(1))
  have nz: "u \<notin> zombies K Q" using pl(5) by (simp add: ready_def)
  show "uths_ok K U s' (pop rq p g Q)"
    using sys_okD(4) [OF ok] nz unfolding uths_ok_def pl(2-4) same uths(1) by (simp add: uths(2-5))
  show "info_ok K U s' (pop rq p g Q)"
    using sys_okD(5) [OF ok] unfolding info_ok_def pl(4) same .
  show "tids_ok U s'"
    using sys_okD(6) [OF ok] by (subst tids_ok_cong) (simp_all add: uths)
qed

text \<open>What a scheduling decision of \<open>k\<close> leads to, given the queues \<open>Q\<close> it was taken on: the kthread
  runs the first uthread of the best slot of some runqueue; or it goes back to its loop, marked as
  done just when every uthread created is finished.\<close>

definition dispatched ::
  "kid set \<Rightarrow> uid set \<Rightarrow> kid \<Rightarrow> gt_state \<Rightarrow> (rq_head \<Rightarrow> uid list) \<Rightarrow> sched_outcome \<Rightarrow> gt_state \<Rightarrow>
   (rq_head \<Rightarrow> uid list) \<Rightarrow> bool" where
  "dispatched K U k s Q out s' Q' \<longleftrightarrow>
     (case out of
        BackToKthread \<Rightarrow> cur_uthread (krunqs s' k) = None \<and> Q' = Q \<and>
          kthread_flags (kctxs s' k) = (if U \<noteq> {} \<and> U \<subseteq> zombies K Q
            then kthread_flags (kctxs s k) OR KTHREAD_DONE else kthread_flags (kctxs s k))
      | RunUthread u \<Rightarrow> cur_uthread (krunqs s' k) = Some u \<and>
          uthread_state (uths s' u) = UTHREAD_RUNNING \<and> uthread_env (uths s' u) \<and> u \<in> ready K Q \<and>
          (\<exists>rq\<in>Rs K. \<exists>p g. best_slot Q rq p g \<and> u = hd (Q (PrioGroup rq p g)) \<and> Q' = pop rq p g Q))"

text \<open>Dispatching does not touch the credits.\<close>

definition keeps_credits :: "(uid \<Rightarrow> uthread_struct) \<Rightarrow> (uid \<Rightarrow> uthread_struct) \<Rightarrow> bool" where
  "keeps_credits f f' \<longleftrightarrow> (\<forall>v. credits (f' v) = credits (f v) \<and> initial_credits (f' v) = initial_credits (f v))"

lemma dispatched_cong:
  "kthread_flags (kctxs t k) = kthread_flags (kctxs s k) \<Longrightarrow>
   dispatched K U k t Q out s' Q' = dispatched K U k s Q out s' Q'"
  by (simp only: dispatched_def)

text \<open>A kthread that has not saved its own context has nothing to return to when it finds nothing to
  run.\<close>

definition stuck :: "nat \<Rightarrow> kid \<Rightarrow> gt_state \<Rightarrow> (rq_head \<Rightarrow> uid list) \<Rightarrow> bool" where
  "stuck apic k s Q \<longleftrightarrow> \<not> kthread_env (kctxs s k) \<and> nothing_to_run apic k s Q"

lemma dispatch_any:
  assumes ok: "sys_ok K U s Q" and idle: "cur_uthread (krunqs s k) = None"
    and e: "sys_calls_ok e" and apic: "apic < 16" and map: "kthread_cpu_map s apic = Some k"
    and lb: "lb_on s \<longrightarrow> lb_mapped apic s"
  shows "if stuck apic k s Q then dispatch e sched_find_best_uthread apic k s = Inl Undefined
    else \<exists>out s' Q'. dispatch e sched_find_best_uthread apic k s = Inr (out, s') \<and>
    sys_ok K U s' Q' \<and> same_config s s' \<and> dispatched K U k s Q out s' Q' \<and> keeps_credits (uths s) (uths s')"
proof -
  note inv = sys_okD [OF ok]
  have k: "k \<in> K" using inv(2) map by (auto simp: kt_ok_def)
  obtain r s1 Q' where r: "sched_find_best_uthread apic k s = Inr (r, s1)"
    "pq_ok (Hs K) (Rs K) s1 Q'" "kt_ok K s1" "same_threads s s1"
    "case r of None \<Rightarrow> Q' = Q
     | Some u \<Rightarrow> \<exists>rq\<in>Rs K. \<exists>p g. best_slot Q rq p g \<and> u = hd (Q (PrioGroup rq p g)) \<and> Q' = pop rq p g Q"
    using sched_total [OF inv(1,2) k apic lb] by blast
  note st = r(4) [unfolded same_threads_def]
  have none: "r = None \<longleftrightarrow> nothing_to_run apic k s Q" using sched_none_iff [OF inv(1,2) k apic lb r(1)] .
  show ?thesis
  proof (cases r)
    case None
    show ?thesis
    proof (cases "kthread_env (kctxs s k)")
      case False
      have "stuck apic k s Q" using none [THEN iffD1, OF None] False by (simp add: stuck_def)
      moreover have "dispatch e sched_find_best_uthread apic k s = Inl Undefined"
        using False st by (simp add: dispatch_def r(1) None Let_def del: KTHREAD_DONE_def)
      ultimately show ?thesis by simp
    next
      case env: True
      let ?c = "kthread_tot_uthreads (ksched_shared_info s1) \<noteq> 0 \<and> kthread_cur_uthreads (ksched_shared_info s1) = 0"
      let ?s2 = "if ?c then upd_kctx k (\<lambda>c. c\<lparr>kthread_flags := kthread_flags c OR KTHREAD_DONE\<rparr>) s1 else s1"
      have "sys_ok K U s1 Q" using sys_ok_same_threads [OF ok r(4) _ r(3)] r(2,5) None by simp
      then have ok2: "sys_ok K U ?s2 Q" using sys_ok_flags by simp
      have "kthread_env (kctxs ?s2 k)" using env st by simp
      then have "dispatch e sched_find_best_uthread apic k s = Inr (BackToKthread, ?s2)"
        by (simp add: dispatch_def r(1) None Let_def del: KTHREAD_DONE_def)
      moreover have "same_config s ?s2" using same_threads_config [OF r(4)] by (simp add: same_config_def)
      moreover have "?c \<longleftrightarrow> U \<noteq> {} \<and> U \<subseteq> zombies K Q"
        using inv(3,5) by (simp add: st places_ok_def info_ok_def unat_eq_zero flip: unat_eq_zero)
      then have "dispatched K U k s Q BackToKthread ?s2 Q"
        unfolding dispatched_def using st idle by (simp del: KTHREAD_DONE_def)
      moreover have "keeps_credits (uths s) (uths ?s2)" using st by (simp add: keeps_credits_def)
      ultimately show ?thesis using ok2 env unfolding stuck_def by auto
    qed
  next
    case (Some u)
    then obtain rq p g where sl: "rq \<in> Rs K" "best_slot Q rq p g" "u = hd (Q (PrioGroup rq p g))" "Q' = pop rq p g Q"
      using r(5) by auto
    let ?s2 = "upd_krunq k (\<lambda>q. q\<lparr>cur_uthread := Some u\<rparr>) s1"
    let ?f = "if uthread_state (uths s u) = UTHREAD_INIT
      then (\<lambda>x. x\<lparr>uthread_env := True, uthread_state := UTHREAD_RUNNABLE, ss_enabled := False\<rparr>) else (\<lambda>x. x)"
    let ?y = "(?f (uths s u))\<lparr>uthread_state := UTHREAD_RUNNING, start_running_time_step := now_start e\<rparr>"
    let ?s4 = "upd_uth u (\<lambda>_. ?y) ?s2"
    have cur: "\<forall>i. cur_uthread (krunqs ?s4 i) = (if i = k then Some u else cur_uthread (krunqs s i))"
      using st by simp
    note pl = places_run [OF ok k idle sl(1-3) cur]
    have uenv: "uthread_env ?y"
      using inv(4) pl(5) by (auto simp: uths_ok_def)
    have ini: "uthread_init e apic u ?s2 =
        Inr (0, upd_uth u (\<lambda>x. x\<lparr>uthread_env := True, uthread_state := UTHREAD_RUNNABLE, ss_enabled := False\<rparr>) ?s2)"
      if "uthread_state (uths s u) = UTHREAD_INIT"
      using that inv(5) map by (intro uthread_init_ok [OF e apic, where k = k]) (simp_all add: st info_ok_def)
    have run: "dispatch e sched_find_best_uthread apic k s = Inr (RunUthread u, ?s4)"
      using uenv by (cases "uthread_state (uths s u) = UTHREAD_INIT")
        (simp_all add: dispatch_def r(1) Some Let_def st ini upd_uth_def)
    have pq: "pq_ok (Hs K) (Rs K) ?s4 (pop rq p g Q)"
      using r(2) sl(4) st by (intro pq_ok_upd_uth_keep) simp_all
    have kt: "kt_ok K ?s4" using r(3) by (auto simp: kt_ok_def)
    have "sys_ok K U ?s4 (pop rq p g Q)"
      by (rule run_inv [OF ok k idle sl(1-3) cur pq kt _ uenv]) (simp_all add: st)
    moreover have "same_config s ?s4" using same_threads_config [OF r(4)] by (simp add: same_config_def)
    moreover have "\<exists>rq'\<in>Rs K. \<exists>p' g'. best_slot Q rq' p' g' \<and> u = hd (Q (PrioGroup rq' p' g')) \<and>
        pop rq p g Q = pop rq' p' g' Q"
      using sl(1-3) by blast
    then have "dispatched K U k s Q (RunUthread u) ?s4 (pop rq p g Q)"
      unfolding dispatched_def sched_outcome.case using uenv pl(5) by (intro conjI; (assumption | simp))
    moreover have "keeps_credits (uths s) (uths ?s4)" using st by (simp add: keeps_credits_def)
    moreover have "\<not> stuck apic k s Q" using none [unfolded Some] by (simp add: stuck_def)
    ultimately show ?thesis using run by auto
  qed
qed

lemma dispatch_ok:
  assumes ok: "sys_ok K U s Q" and idle: "cur_uthread (krunqs s k) = None"
    and e: "sys_calls_ok e" and apic: "apic < 16" and map: "kthread_cpu_map s apic = Some k"
    and lb: "lb_on s \<longrightarrow> lb_mapped apic s" and env: "kthread_env (kctxs s k)"
  shows "\<exists>out s' Q'. dispatch e sched_find_best_uthread apic k s = Inr (out, s') \<and>
    sys_ok K U s' Q' \<and> same_config s s' \<and> dispatched K U k s Q out s' Q' \<and> keeps_credits (uths s) (uths s')"
  using dispatch_any [OF assms(1-6)] env by (simp add: stuck_def)

text \<open>With something on its own active runqueue, a kthread runs the best uthread of that one.\<close>

lemma dispatch_active:
  assumes ok: "sys_ok K U s Q" and idle: "cur_uthread (krunqs s k) = None"
    and e: "sys_calls_ok e" and apic: "apic < 16" and map: "kthread_cpu_map s apic = Some k"
    and lb: "lb_on s \<longrightarrow> lb_mapped apic s" and env: "kthread_env (kctxs s k)"
    and ne: "rq_size Q (active s k) \<noteq> 0"
  shows "\<exists>p g s' Q'. best_slot Q (active s k) p g \<and>
    dispatch e sched_find_best_uthread apic k s = Inr (RunUthread (hd (Q (PrioGroup (active s k) p g))), s') \<and>
    sys_ok K U s' Q' \<and> same_config s s' \<and>
    dispatched K U k s Q (RunUthread (hd (Q (PrioGroup (active s k) p g)))) s' Q' \<and> keeps_credits (uths s) (uths s')"
proof -
  note inv = sys_okD [OF ok]
  have k: "k \<in> K" using inv(2) map by (auto simp: kt_ok_def)
  obtain p g s1 where s1: "best_slot Q (active s k) p g"
    "sched_find_best_uthread apic k s = Inr (Some (hd (Q (PrioGroup (active s k) p g))), s1)"
    using sched_active_ok [OF inv(1,2) k apic ne] by blast
  obtain out s' Q' where d: "dispatch e sched_find_best_uthread apic k s = Inr (out, s')" "sys_ok K U s' Q'"
    "same_config s s'" "dispatched K U k s Q out s' Q'" "keeps_credits (uths s) (uths s')"
    using dispatch_ok [OF ok idle e apic map lb env] by blast
  have "out = RunUthread (hd (Q (PrioGroup (active s k) p g)))"
    using d(1) by (auto simp: dispatch_def s1(2) Let_def rbind_eq_Inr split: if_splits)
  with s1(1) d show ?thesis by blast
qed

subsection \<open>A whole scheduling decision\<close>

text \<open>The queues after the current uthread of \<open>k\<close>, if there is one, has been put away.\<close>

definition put_away :: "sys_env \<Rightarrow> kid \<Rightarrow> gt_state \<Rightarrow> (rq_head \<Rightarrow> uid list) \<Rightarrow> rq_head \<Rightarrow> uid list" where
  "put_away e k s Q =
     (case cur_uthread (krunqs s k) of
        None \<Rightarrow> Q
      | Some u \<Rightarrow>
          let h = leave_head s k (charged (is_credit_scheduler s) (now_end e) (uths s u))
          in Q(h := Q h @ [u]))"

definition uths_away :: "sys_env \<Rightarrow> kid \<Rightarrow> gt_state \<Rightarrow> uid \<Rightarrow> uthread_struct" where
  "uths_away e k s =
     (case cur_uthread (krunqs s k) of
        None \<Rightarrow> uths s
      | Some u \<Rightarrow>
          let flag = is_credit_scheduler s in (uths s)(u := leave_uth flag (charged flag (now_end e) (uths s u))))"

lemma leave_cur_put_away:
  assumes ok: "sys_ok K U s Q" and k: "k \<in> K"
  shows "\<exists>s'. leave_cur e k s = Inr s' \<and> sys_ok K U s' (put_away e k s Q) \<and>
    cur_uthread (krunqs s' k) = None \<and> same_config s s' \<and> same_pointers s s' \<and> kctxs s' = kctxs s \<and>
    uths s' = uths_away e k s"
proof (cases "cur_uthread (krunqs s k)")
  case None
  with ok show ?thesis by (simp add: leave_cur_def put_away_def uths_away_def)
next
  case (Some u)
  from leave_cur_inv [OF ok k Some refl refl, of e] show ?thesis
    by (simp add: put_away_def uths_away_def Some Let_def) blast
qed

lemma stuck_cong:
  assumes "same_config s t" and "same_pointers s t" and "kctxs t = kctxs s"
  shows "stuck apic k t Q = stuck apic k s Q"
  using assms
  by (simp add: stuck_def nothing_to_run_def first_victim_def eligible_def lb_on_def same_pointers_def same_config_def)

lemma uthread_schedule_any:
  assumes ok: "sys_ok K U s Q" and e: "sys_calls_ok e" and apic: "apic < 16"
    and map: "kthread_cpu_map s apic = Some k" and lb: "lb_on s \<longrightarrow> lb_mapped apic s"
  shows "if stuck apic k s (put_away e k s Q) then uthread_schedule e sched_find_best_uthread apic s = Inl Undefined
    else \<exists>out s' Q'. uthread_schedule e sched_find_best_uthread apic s = Inr (out, s') \<and>
      sys_ok K U s' Q' \<and> same_config s s' \<and> dispatched K U k s (put_away e k s Q) out s' Q' \<and>
      keeps_credits (uths_away e k s) (uths s')"
proof -
  have k: "k \<in> K" using sys_okD(2) [OF ok] map by (auto simp: kt_ok_def)
  obtain s1 where s1: "leave_cur e k s = Inr s1" "sys_ok K U s1 (put_away e k s Q)"
    "cur_uthread (krunqs s1 k) = None" "same_config s s1" and same: "same_pointers s s1" and flags: "kctxs s1 = kctxs s"
    and uths1: "uths s1 = uths_away e k s"
    using leave_cur_put_away [OF ok k] by blast
  have map1: "kthread_cpu_map s1 apic = Some k" using s1(4) map by (simp add: same_config_def)
  have lb1: "lb_on s1 \<longrightarrow> lb_mapped apic s1" using lb by (simp add: same_config_lb [OF s1(4)])
  have sched: "uthread_schedule e sched_find_best_uthread apic s = dispatch e sched_find_best_uthread apic k s1"
    using apic map by (simp add: uthread_schedule_def s1(1))
  have "dispatched K U k s1 Q1 out s' Q' = dispatched K U k s Q1 out s' Q'" for Q1 out s' Q'
    by (rule dispatched_cong) (simp add: flags)
  with dispatch_any [OF s1(2,3) e apic map1 lb1] show ?thesis
    unfolding sched stuck_cong [OF s1(4) same flags] uths1
    by (auto intro: same_config_trans [OF s1(4)] split: if_splits)
qed

lemma uthread_schedule_ok:
  assumes ok: "sys_ok K U s Q" and e: "sys_calls_ok e" and apic: "apic < 16"
    and map: "kthread_cpu_map s apic = Some k" and lb: "lb_on s \<longrightarrow> lb_mapped apic s"
    and env: "kthread_env (kctxs s k)"
  shows "\<exists>out s' Q'. uthread_schedule e sched_find_best_uthread apic s = Inr (out, s') \<and>
    sys_ok K U s' Q' \<and> same_config s s' \<and> dispatched K U k s (put_away e k s Q) out s' Q' \<and>
    keeps_credits (uths_away e k s) (uths s')"
  using uthread_schedule_any [OF assms(1-5)] env by (simp add: stuck_def)

lemma sys_ok_upd_cur:
  assumes ok: "sys_ok K U s Q" and u: "u \<in> currents K s"
    and f: "uthread_priority (f (uths s u)) = uthread_priority (uths s u)"
      "uthread_gid (f (uths s u)) = uthread_gid (uths s u)" "uthread_tid (f (uths s u)) = uthread_tid (uths s u)"
      "uthread_env (f (uths s u)) = uthread_env (uths s u)"
  shows "sys_ok K U (upd_uth u f s) Q" (is "sys_ok K U ?s Q")
proof (rule sys_okI)
  note inv = sys_okD [OF ok]
  show "pq_ok (Hs K) (Rs K) ?s Q" using inv(1) by (intro pq_ok_upd_uth_keep f)
  show "kt_ok K ?s" using inv(2) by (simp add: kt_ok_def)
  have cur: "currents K ?s = currents K s" by (simp add: currents_def)
  show "places_ok K U ?s Q" using inv(3) by (simp add: places_ok_def cur)
  have "u \<notin> queued (Hs K) Q" using inv(3) u by (auto simp: places_ok_def)
  then have "u \<notin> ready K Q" "u \<notin> zombies K Q" using zombies_queued by (auto simp: ready_def)
  with inv(4) show "uths_ok K U ?s Q" unfolding uths_ok_def cur by (simp add: f)
  show "info_ok K U ?s Q" using inv(5) by (simp add: info_ok_def)
  show "tids_ok U ?s" using inv(6) by (subst tids_ok_cong) (simp_all add: f)
qed

lemma cur_mem_currents: "sys_ok K U s Q \<Longrightarrow> kthread_cpu_map s apic = Some k \<Longrightarrow> cur_uthread (krunqs s k) = Some u \<Longrightarrow> u \<in> currents K s"
  by (auto simp: currents_def sys_ok_def kt_ok_def)

lemma stuck_upd_uth [simp]: "stuck apic k (upd_uth u f s) Q = stuck apic k s Q"
  by (simp add: stuck_def nothing_to_run_def first_victim_def eligible_def lb_on_def)

lemma dispatched_upd_uth: "dispatched K U k (upd_uth u f s) Q out s' Q' = dispatched K U k s Q out s' Q'"
  by (rule dispatched_cong) simp

lemma same_config_upd_uth: "same_config (upd_uth u f s) s' = same_config s s'"
  by (simp add: same_config_def)

text \<open>The state in which a yield, or the return of the uthread's function, makes the scheduling decision.\<close>

abbreviation yielding :: "uid \<Rightarrow> gt_state \<Rightarrow> gt_state" where
  "yielding u s \<equiv> upd_uth u (\<lambda>x. x\<lparr>is_yield_valid := 1\<rparr>) s"

abbreviation returning :: "timeval \<Rightarrow> uid \<Rightarrow> gt_state \<Rightarrow> gt_state" where
  "returning now u s \<equiv> upd_uth u (\<lambda>x. x\<lparr>uthread_state := UTHREAD_DONE, total_running_time_end := now\<rparr>) s"

lemma gt_yield_any:
  assumes ok: "sys_ok K U s Q" and e: "sys_calls_ok e" and apic: "apic < 16"
    and map: "kthread_cpu_map s apic = Some k" and lb: "lb_on s \<longrightarrow> lb_mapped apic s"
    and u: "cur_uthread (krunqs s k) = Some u"
  shows "if stuck apic k s (put_away e k (yielding u s) Q) then gt_yield e apic s = Inl Undefined
    else \<exists>out s' Q'. gt_yield e apic s = Inr (out, s') \<and> sys_ok K U s' Q' \<and> same_config s s' \<and>
      dispatched K U k s (put_away e k (yielding u s) Q) out s' Q' \<and>
      keeps_credits (uths_away e k (yielding u s)) (uths s')"
proof -
  let ?s = "yielding u s"
  have ok': "sys_ok K U ?s Q" using cur_mem_currents [OF ok map u] by (intro sys_ok_upd_cur [OF ok]) simp_all
  have map': "kthread_cpu_map ?s apic = Some k" using map by simp
  have lb': "lb_on ?s \<longrightarrow> lb_mapped apic ?s" using lb by (simp add: lb_on_def lb_mapped_def)
  have "gt_yield e apic s = uthread_schedule e sched_find_best_uthread apic ?s"
    using apic map u by (simp add: gt_yield_def)
  with uthread_schedule_any [OF ok' e apic map' lb'] show ?thesis
    by (simp only: dispatched_upd_uth same_config_upd_uth stuck_upd_uth)
qed

lemma gt_yield_ok:
  assumes ok: "sys_ok K U s Q" and e: "sys_calls_ok e" and apic: "apic < 16"
    and map: "kthread_cpu_map s apic = Some k" and lb: "lb_on s \<longrightarrow> lb_mapped apic s"
    and env: "kthread_env (kctxs s k)"
    and u: "cur_uthread (krunqs s k) = Some u"
  shows "\<exists>out s' Q'. gt_yield e apic s = Inr (out, s') \<and> sys_ok K U s' Q' \<and> same_config s s' \<and>
    dispatched K U k s (put_away e k (yielding u s) Q) out s' Q' \<and> keeps_credits (uths_away e k (yielding u s)) (uths s')"
  using gt_yield_any [OF assms(1-5,7)] env by (simp add: stuck_def)

lemma uthread_context_exit_any:
  assumes ok: "sys_ok K U s Q" and e: "sys_calls_ok e" and apic: "apic < 16"
    and map: "kthread_cpu_map s apic = Some k" and lb: "lb_on s \<longrightarrow> lb_mapped apic s"
    and u: "cur_uthread (krunqs s k) = Some u"
  shows "if stuck apic k s (put_away e k (returning now u s) Q) then uthread_context_exit e now apic u s = Inl Undefined
    else \<exists>out s' Q'. uthread_context_exit e now apic u s = Inr (out, s') \<and> sys_ok K U s' Q' \<and> same_config s s' \<and>
      dispatched K U k s (put_away e k (returning now u s) Q) out s' Q' \<and>
      keeps_credits (uths_away e k (returning now u s)) (uths s')"
proof -
  let ?s = "returning now u s"
  have ok': "sys_ok K U ?s Q" using cur_mem_currents [OF ok map u] by (intro sys_ok_upd_cur [OF ok]) simp_all
  have map': "kthread_cpu_map ?s apic = Some k" using map by simp
  have lb': "lb_on ?s \<longrightarrow> lb_mapped apic ?s" using lb by (simp add: lb_on_def lb_mapped_def)
  show ?thesis using uthread_schedule_any [OF ok' e apic map' lb']
    by (simp only: uthread_context_exit_def dispatched_upd_uth same_config_upd_uth stuck_upd_uth)
qed

lemma uthread_context_exit_ok:
  assumes ok: "sys_ok K U s Q" and e: "sys_calls_ok e" and apic: "apic < 16"
    and map: "kthread_cpu_map s apic = Some k" and lb: "lb_on s \<longrightarrow> lb_mapped apic s"
    and env: "kthread_env (kctxs s k)"
    and u: "cur_uthread (krunqs s k) = Some u"
  shows "\<exists>out s' Q'. uthread_context_exit e now apic u s = Inr (out, s') \<and> sys_ok K U s' Q' \<and> same_config s s' \<and>
    dispatched K U k s (Q(Zombies k := Q (Zombies k) @ [u])) out s' Q' \<and>
    keeps_credits (uths_away e k (returning now u s)) (uths s')"
proof -
  have "put_away e k (returning now u s) Q = Q(Zombies k := Q (Zombies k) @ [u])"
    using u by (simp add: put_away_def leave_head_def finished_def Let_def)
  then show ?thesis using uthread_context_exit_any [OF assms(1-5,7), of now] env by (simp add: stuck_def)
qed

subsection \<open>Credits\<close>

text \<open>The range of a uthread's credits, given that its time slices are shorter than \<open>2^24\<close>
  microseconds.\<close>

definition credit_ok :: "uthread_struct \<Rightarrow> bool" where
  "credit_ok x \<longleftrightarrow> - 24 \<le> credits x \<and> credits x \<le> initial_credits x \<and>
     0 \<le> initial_credits x \<and> initial_credits x < 2 ^ 23"

definition slice_ok :: "timeval \<Rightarrow> uthread_struct \<Rightarrow> bool" where
  "slice_ok now x \<longleftrightarrow> 0 \<le> usecs (timersub now (start_running_time_step x)) \<and>
     usecs (timersub now (start_running_time_step x)) < 2 ^ 24"

lemma charge_range:
  assumes "0 < credits x" and "credits x < 2 ^ 23" and "slice_ok now x"
  shows "- 1 \<le> credits (charge now x) \<and> credits (charge now x) \<le> credits x"
proof -
  let ?us = "usecs (timersub now (start_running_time_step x))"
  have us: "0 \<le> ?us" "?us < 2 ^ 24" using assms(3) by (simp_all only: slice_ok_def)
  have "credits (charge now x) = (if 1000 * credits x < ?us then - 1 else credits x - ?us div 1000)"
    using assms(1,2) us by (intro charge_credits) simp_all
  moreover have "0 \<le> ?us div 1000" using us(1) by (simp only: pos_imp_zdiv_nonneg_iff)
  moreover have "?us div 1000 \<le> credits x" if "\<not> 1000 * credits x < ?us"
    using that by linarith
  ultimately show ?thesis using assms(1)
    by (cases "1000 * credits x < ?us") (simp_all del: usecs_timersub)
qed

lemma leave_credit_ok:
  assumes "credit_ok x" and "slice_ok now x"
  shows "credit_ok (leave_uth flag (charged flag now x))"
proof -
  define y where "y = charged flag now x"
  have "- 24 \<le> credits y \<and> credits y \<le> credits x"
    using assms charge_range [of x now] by (auto simp: charged_def credit_ok_def y_def)
  moreover have "initial_credits y = initial_credits x" by (simp add: y_def)
  ultimately have "credit_ok (leave_uth flag y)" using assms(1)
    by (simp add: credit_ok_def leave_uth_def requeue_uth_def Let_def)
  then show ?thesis by (simp only: y_def)
qed

end
