(* ===== verification/GT_Kthread.thy ===== *)
theory GT_Kthread
  imports GT_Uthread_Inv
begin

unbundle bit_operations_syntax

text \<open>
  gt_kthread.h, gt_kthread.c and \<open>uthread_create\<close> of gt_uthread.c: the locked allocator, the set-up
  of the kthreads, the choice of a kthread for a new uthread, the creation of uthreads, the signal
  handlers that start a scheduling decision, and the loops in which a kthread waits for work.

  What comes from outside is an argument: the result of \<open>malloc\<close>, of \<open>clone\<close>, of \<open>sysconf\<close>, the
  process and thread numbers, and the value that the \<open>cpuid\<close> instruction leaves in EBX.
\<close>

subsection \<open>Allocation\<close>

definition MALLOC_SAFE :: "'a option \<Rightarrow> gt_state \<Rightarrow> ('a option \<times> gt_state) res" where
  "MALLOC_SAFE ptr s =
     rbind (spin_lock_at (malloc_lock (ksched_shared_info s))) (\<lambda>l.
     let s1 = upd_ksched (\<lambda>i. i\<lparr>malloc_lock := l\<rparr>) s
     in Inr (ptr, upd_ksched (\<lambda>i. i\<lparr>malloc_lock := spin_unlock_at (malloc_lock i)\<rparr>) s1))"

text \<open>The same with \<open>calloc\<close>; the caller stores a zeroed object at the result.\<close>

definition MALLOCZ_SAFE :: "'a option \<Rightarrow> gt_state \<Rightarrow> ('a option \<times> gt_state) res" where
  "MALLOCZ_SAFE ptr s =
     rbind (spin_lock_at (malloc_lock (ksched_shared_info s))) (\<lambda>l.
     let s1 = upd_ksched (\<lambda>i. i\<lparr>malloc_lock := l\<rparr>) s
     in Inr (ptr, upd_ksched (\<lambda>i. i\<lparr>malloc_lock := spin_unlock_at (malloc_lock i)\<rparr>) s1))"

definition tv_zero :: timeval where
  "tv_zero = \<lparr>tv_sec = 0, tv_usec = 0\<rparr>"

definition uthread_zero :: uthread_struct where
  "uthread_zero = \<lparr>uthread_state = 0, uthread_priority = 0, cpu_id = 0, last_cpu_id = 0, uthread_tid = 0,
     uthread_gid = 0, uthread_func = 0, uthread_arg = 0, initial_credits = 0, credits = 0,
     run_time_total = tv_zero, run_time_step = tv_zero, start_running_time_step = tv_zero,
     end_running_time_step = tv_zero, total_running_time_start = tv_zero, total_running_time_end = tv_zero,
     is_yield_valid = 0, uthread_env = False, ss_enabled = True\<rparr>"

definition timer_zero :: uthread_timer_t where
  "timer_zero = \<lparr>running_time = tv_zero, cpu_time = tv_zero\<rparr>"

definition kctx_zero :: kthread_context_t where
  "kctx_zero = \<lparr>cpuid = 0, cpu_apic_id = 0, k_pid = 0, k_tid = 0, kthread_flags = 0, kthread_app_func = None,
     kthread_sched_timer = None, kthread_sched_relay = None, kthread_env = False\<rparr>"

definition krunq_zero :: kthread_runqueue_t where
  "krunq_zero = \<lparr>active_runq = 0, expires_runq = 0, kthread_runqlock = \<lparr>locked = 0, holder = 0\<rparr>,
     cur_uthread = None\<rparr>"

text \<open>A zeroed \<open>kthread_context_t\<close>, with the runqueues embedded in it.\<close>

definition store_zero_kctx :: "kid \<Rightarrow> gt_state \<Rightarrow> gt_state" where
  "store_zero_kctx k s =
     s\<lparr>kctxs := (kctxs s)(k := kctx_zero), krunqs := (krunqs s)(k := krunq_zero),
       runqs := (runqs s)((k, 0) := runq_zero, (k, 1) := runq_zero)\<rparr>"

subsection \<open>Set-up of the kthreads\<close>

definition kthread_apic_id :: "u32 \<Rightarrow> nat" where
  "kthread_apic_id Regebx = unat (ucast (drop_bit 24 (Regebx AND 0xFF000000)) :: 8 word)"

definition ksched_info_init :: "gt_state \<Rightarrow> gt_state" where
  "ksched_info_init s =
     (let ini = (\<lambda>l. case gt_spinlock_init (Some l) of (_, Some l') \<Rightarrow> l' | (_, None) \<Rightarrow> l)
      in upd_ksched (\<lambda>i. i\<lparr>ksched_lock := ini (ksched_lock i), uthread_init_lock := ini (uthread_init_lock i),
                           malloc_lock := ini (malloc_lock i)\<rparr>) s)"

definition kthread_init :: "u32 \<Rightarrow> u32 \<Rightarrow> nat \<Rightarrow> kid \<Rightarrow> gt_state \<Rightarrow> gt_state res" where
  "kthread_init pid tid apic k s =
     (let s1 = upd_kctx k (\<lambda>c. c\<lparr>k_pid := pid, k_tid := tid, kthread_sched_timer := Some Ksched_priority,
                                  kthread_sched_relay := Some Ksched_cosched\<rparr>) s;
          s2 = kthread_init_runqueue k s1;
          s3 = upd_kctx k (\<lambda>c. c\<lparr>cpu_apic_id := of_nat apic\<rparr>) s2
      in in_bounds apic GT_MAX_KTHREADS (Inr (s3\<lparr>kthread_cpu_map := (kthread_cpu_map s3)(apic := Some k)\<rparr>)))"

text \<open>\<open>kthread_create\<close>: the result and, when the clone succeeded, the thread number written to
  \<open>*tid\<close>.\<close>

definition kthread_create :: "nat option \<Rightarrow> int \<Rightarrow> gt_state \<Rightarrow> (int \<times> int option \<times> gt_state) res" where
  "kthread_create stack clone s =
     rbind (MALLOC_SAFE stack s) (\<lambda>(p, s1).
     case p of
       None \<Rightarrow> Inr (-1, None, s1)
     | Some _ \<Rightarrow> if 0 < clone then Inr (clone, Some clone, s1) else Inr (-1, None, s1))"

text \<open>\<open>kthread_handler\<close> up to the call of the application function, which it names.\<close>

definition kthread_handler :: "u32 \<Rightarrow> u32 \<Rightarrow> nat \<Rightarrow> kid \<Rightarrow> gt_state \<Rightarrow> (app_func \<times> gt_state) res" where
  "kthread_handler pid tid apic k s =
     rbind (kthread_init pid tid apic k s) (\<lambda>s1.
     deref (kthread_app_func (kctxs s1 k)) (\<lambda>f. Inr (f, s1)))"

text \<open>\<open>gtthread_app_init\<close> in three parts. The first sets up the main kthread, the second creates the
  others (\<open>sys inx\<close> are the results of its \<open>calloc\<close>, \<open>malloc\<close> and \<open>clone\<close> for the number \<open>inx\<close>), the third is one round of the
  loop at \<open>yield_again\<close>: \<open>None\<close> means another round.\<close>

definition app_init_main :: "kid option \<Rightarrow> u32 \<Rightarrow> u32 \<Rightarrow> nat \<Rightarrow> gt_state \<Rightarrow> gt_state res" where
  "app_init_main ctx pid tid apic s =
     rbind (MALLOCZ_SAFE ctx (ksched_info_init s)) (\<lambda>(p, s1).
     deref p (\<lambda>k.
     kthread_init pid tid apic k
       (upd_kctx k (\<lambda>c. c\<lparr>cpuid := 0, kthread_app_func := Some Gtthread_app_start\<rparr>) (store_zero_kctx k s1))))"

definition num_cpus_of :: "int \<Rightarrow> u32" where
  "num_cpus_of sysconf = (let n = word_of_int sysconf in if of_nat GT_MAX_CORES < n then of_nat GT_MAX_CORES else n)"

function app_init_others ::
  "(nat \<Rightarrow> kid option \<times> nat option \<times> int) \<Rightarrow> nat \<Rightarrow> nat \<Rightarrow> gt_state \<Rightarrow> gt_state res" where
  "app_init_others sys num_cpus inx s =
     (if inx < num_cpus then
        case sys inx of (ctx, stack, clone) \<Rightarrow>
        rbind (MALLOCZ_SAFE ctx s) (\<lambda>(p, s1).
        deref p (\<lambda>k.
        rbind (kthread_create stack clone
          (upd_kctx k (\<lambda>c. c\<lparr>cpuid := of_nat inx, kthread_app_func := Some Gtthread_app_start\<rparr>)
            (store_zero_kctx k s1))) (\<lambda>(r, _, s2).
        if r < 0 then Inl (ProcessExit 0) else app_init_others sys num_cpus (Suc inx) s2)))
      else Inr s)"
  by pat_completeness auto
termination
  by (relation "measure (\<lambda>(sys, n, inx, s). n - inx)") auto

declare app_init_others.simps [simp del]

definition init_done :: "gt_state \<Rightarrow> nat" where
  "init_done s = length (filter (\<lambda>inx. kthread_cpu_map s inx \<noteq> None) [0..<GT_MAX_KTHREADS])"

definition app_init_round :: "u32 \<Rightarrow> gt_state \<Rightarrow> gt_state option res" where
  "app_init_round num_cpus s =
     c_assert (init_done s \<le> unat num_cpus)
       (if init_done s < unat num_cpus then Inr None else Inr (Some (s\<lparr>is_kernel_thread_ready := 1\<rparr>)))"

subsection \<open>Creation of uthreads\<close>

text \<open>The do-while loop of \<open>ksched_find_target\<close>.\<close>

partial_function (option) find_target_cpu :: "(nat \<Rightarrow> kid option) \<Rightarrow> nat \<Rightarrow> nat option" where
  "find_target_cpu cpu_map target_cpu =
     (let t = (target_cpu + 1) mod GT_MAX_CORES
      in if cpu_map t = None then find_target_cpu cpu_map t else Some t)"

definition ksched_find_target :: "uid \<Rightarrow> gt_state \<Rightarrow> (kid \<times> gt_state) res" where
  "ksched_find_target u_obj s =
     (let u_gid = unat (uthread_gid (uths s u_obj))
      in in_bounds u_gid MAX_UTHREAD_GROUPS (
         case find_target_cpu (kthread_cpu_map s) (unat (last_ugroup_kthread (ksched_shared_info s) u_gid)) of
           None \<Rightarrow> Inl SpinForever
         | Some target_cpu \<Rightarrow>
             rbind (spin_lock_at (ksched_lock (ksched_shared_info s))) (\<lambda>l.
             let s1 = upd_ksched (\<lambda>i. i\<lparr>last_ugroup_kthread := (last_ugroup_kthread i)(u_gid := of_nat target_cpu),
                                         ksched_lock := spin_unlock_at l\<rparr>) s
             in deref (kthread_cpu_map s1 target_cpu) (\<lambda>k.
                Inr (k, upd_uth u_obj (\<lambda>x. x\<lparr>cpu_id := cpuid (kctxs s1 k), last_cpu_id := cpuid (kctxs s1 k)\<rparr>) s1)))))"

text \<open>\<open>uthread_create\<close>: the return value, the number written to \<open>*u_tid\<close>, and the state. \<open>u\<close>, \<open>stack\<close>
  and \<open>timer\<close> are the results of the three allocations.\<close>

definition uthread_create ::
  "uid option \<Rightarrow> nat option \<Rightarrow> uthread_timer_t option \<Rightarrow> timeval \<Rightarrow> nat \<Rightarrow> nat \<Rightarrow> u32 \<Rightarrow> int \<Rightarrow> gt_state \<Rightarrow>
   (int \<times> u32 option \<times> gt_state) res" where
  "uthread_create u stack timer now u_func u_arg u_gid creds s =
     rbind (MALLOCZ_SAFE u s) (\<lambda>(p, s1).
     case p of
       None \<Rightarrow> Inl (ProcessExit 0)
     | Some u_new \<Rightarrow>
         let s2 = upd_uth u_new (\<lambda>_. uthread_zero\<lparr>total_running_time_start := now, uthread_state := UTHREAD_INIT,
                    uthread_priority := DEFAULT_UTHREAD_PRIORITY, uthread_gid := u_gid, uthread_func := u_func,
                    uthread_arg := u_arg, initial_credits := creds, credits := creds, is_yield_valid := 0,
                    ss_enabled := True\<rparr>) s1
         in rbind (MALLOC_SAFE stack s2) (\<lambda>(sp, s3).
            if sp = None then Inr (-1, None, s3)
            else
              rbind (spin_lock_at (ksched_lock (ksched_shared_info s3))) (\<lambda>l.
              let tid = kthread_tot_uthreads (ksched_shared_info s3);
                  s4 = upd_uth u_new (\<lambda>x. x\<lparr>uthread_tid := tid\<rparr>) s3;
                  s5 = upd_ksched (\<lambda>i. i\<lparr>kthread_tot_uthreads := kthread_tot_uthreads i + 1,
                         kthread_cur_uthreads := kthread_cur_uthreads i + 1, ksched_lock := spin_unlock_at l\<rparr>) s4
              in rbind (ksched_find_target u_new s5) (\<lambda>(k, s6).
                 rbind (MALLOCZ_SAFE timer s6) (\<lambda>(t, s7).
                 in_bounds (unat tid) 128 (
                 let s8 = s7\<lparr>uthread_time := (uthread_time s7)(unat tid := t)\<rparr>
                 in rbind (add_to_runqueue (k, active_runq (krunqs s8 k)) k u_new s8) (\<lambda>s9.
                    Inr (0, Some tid, s9))))))))"

subsection \<open>Signal handlers and loops\<close>

text \<open>The handler of the relayed signal; \<open>co_sched\<close> says whether \<open>CO_SCHED\<close> is defined, which this
  file tests, and \<open>cosched\<close> whether \<open>COSCHED\<close> is, which gt_pq.c tests.\<close>

definition ksched_cosched :: "bool \<Rightarrow> bool \<Rightarrow> sys_env \<Rightarrow> nat \<Rightarrow> gt_state \<Rightarrow> (sched_outcome \<times> gt_state) res" where
  "ksched_cosched co_sched cosched e apic s =
     in_bounds apic GT_MAX_KTHREADS (
     if co_sched then uthread_schedule e (sched_find_best_uthread_group cosched) apic s
     else uthread_schedule e sched_find_best_uthread apic s)"

text \<open>The thread numbers that the timer handler sends SIGUSR1 to, in the order of the loop.\<close>

definition relay_targets :: "nat \<Rightarrow> gt_state \<Rightarrow> u32 list" where
  "relay_targets apic s =
     concat (map (\<lambda>inx.
       case kthread_cpu_map s inx of
         None \<Rightarrow> []
       | Some c \<Rightarrow> if Some c = kthread_cpu_map s apic then []
                   else if kthread_flags (kctxs s c) AND KTHREAD_DONE \<noteq> 0 then [] else [k_tid (kctxs s c)])
       [0..<GT_MAX_KTHREADS])"

definition ksched_priority :: "sys_env \<Rightarrow> nat \<Rightarrow> gt_state \<Rightarrow> (u32 list \<times> sched_outcome \<times> gt_state) res" where
  "ksched_priority e apic s =
     in_bounds apic GT_MAX_KTHREADS (
     rbind (uthread_schedule e sched_find_best_uthread apic s) (\<lambda>(out, s').
     Inr (relay_targets apic s, out, s')))"

text \<open>\<open>gtthread_app_start\<close> and \<open>gtthread_app_exit\<close>: what precedes their loop, and one iteration of the
  loop, which both share. \<open>None\<close> means that the loop has ended.\<close>

definition app_start_enter :: "nat \<Rightarrow> gt_state \<Rightarrow> kid res" where
  "app_start_enter apic s =
     in_bounds apic GT_MAX_KTHREADS (
     deref (kthread_cpu_map s apic) (\<lambda>k. c_assert (unat (cpu_apic_id (kctxs s k)) = apic) (Inr k)))"

definition app_exit_enter :: "nat \<Rightarrow> gt_state \<Rightarrow> (kid \<times> gt_state) res" where
  "app_exit_enter apic s =
     in_bounds apic GT_MAX_KTHREADS (
     deref (kthread_cpu_map s apic) (\<lambda>k.
     Inr (k, upd_kctx k (\<lambda>c. c\<lparr>kthread_flags := kthread_flags c AND NOT KTHREAD_DONE\<rparr>) s)))"

definition app_loop_iter :: "sys_env \<Rightarrow> nat \<Rightarrow> kid \<Rightarrow> gt_state \<Rightarrow> (sched_outcome \<times> gt_state) option res" where
  "app_loop_iter e apic k s =
     (if kthread_flags (kctxs s k) AND KTHREAD_DONE \<noteq> 0 then Inr None
      else rbind (uthread_schedule e sched_find_best_uthread apic (upd_kctx k (\<lambda>c. c\<lparr>kthread_env := True\<rparr>) s))
             (\<lambda>r. Inr (Some r)))"

text \<open>The last loop of \<open>gtthread_app_exit\<close> ends in the states that satisfy this.\<close>

definition app_exit_wait_done :: "gt_state \<Rightarrow> bool" where
  "app_exit_wait_done s \<longleftrightarrow> kthread_cur_uthreads (ksched_shared_info s) = 0"

subsection \<open>The choice of a processor\<close>

text \<open>The loop stops at the first occupied processor after the given one, in cyclic order.\<close>

lemma find_target_cpu_next:
  assumes "m ((t + Suc d) mod 16) = Some k" and "\<forall>j<d. m ((t + Suc j) mod 16) = None"
  shows "find_target_cpu m t = Some ((t + Suc d) mod 16)"
  using assms
proof (induction d arbitrary: t)
  case 0
  then show ?case by (subst find_target_cpu.simps) (simp add: Let_def)
next
  case (Suc d)
  let ?t = "(t + 1) mod 16"
  have mod: "(?t + Suc j) mod 16 = (t + Suc (Suc j)) mod 16" for j
    by (simp only: mod_add_left_eq) simp
  have "m ?t = None" using Suc.prems(2) [rule_format, of 0] by simp
  then have "find_target_cpu m t = find_target_cpu m ?t"
    by (subst find_target_cpu.simps) (simp add: Let_def)
  also have "\<dots> = Some ((?t + Suc d) mod 16)"
  proof (rule Suc.IH)
    show "m ((?t + Suc d) mod 16) = Some k" using Suc.prems(1) by (simp only: mod)
    show "\<forall>j<d. m ((?t + Suc j) mod 16) = None" using Suc.prems(2) by (simp only: mod) auto
  qed
  finally show ?case by (simp only: mod)
qed

lemma find_target_cpu_ex:
  assumes "m i \<noteq> None" and "i < 16"
  shows "\<exists>d k. d < 16 \<and> m ((t + Suc d) mod 16) = Some k \<and> (\<forall>j<d. m ((t + Suc j) mod 16) = None) \<and>
    find_target_cpu m t = Some ((t + Suc d) mod 16)"
proof -
  define P where "P = (\<lambda>d. m ((t + Suc d) mod 16) \<noteq> None)"
  have "P ((i + 15 - t mod 16) mod 16)"
  proof -
    have le: "t mod 16 \<le> i + 15" by (rule le_trans [of _ 15]) simp_all
    have "(t + Suc ((i + 15 - t mod 16) mod 16)) mod 16 = (t mod 16 + 1 + (i + 15 - t mod 16)) mod 16"
      using mod_add_left_eq [of "i + 15 - t mod 16" 16 "t + 1"] mod_add_left_eq [of t 16 "1 + (i + 15 - t mod 16)"]
      by (simp only: ac_simps Suc_eq_plus1)
    also have "t mod 16 + 1 + (i + 15 - t mod 16) = i + 16" using le by simp
    finally show ?thesis using assms by (simp add: P_def)
  qed
  then have L: "P (LEAST d. P d)" and le: "(LEAST d. P d) \<le> (i + 15 - t mod 16) mod 16"
    by (rule LeastI, rule Least_le)
  have lt: "(LEAST d. P d) < 16" using le by (rule le_less_trans) simp
  obtain k where k: "m ((t + Suc (LEAST d. P d)) mod 16) = Some k" using L by (auto simp: P_def)
  have none: "\<forall>j<(LEAST d. P d). m ((t + Suc j) mod 16) = None"
    by (intro allI impI) (drule not_less_Least, simp add: P_def)
  show ?thesis using lt k none find_target_cpu_next [OF k none] by blast
qed

text \<open>Without any kthread the loop does not end.\<close>

lemma find_target_cpu_none:
  assumes "\<forall>i<16. m i = None"
  shows "find_target_cpu m t = None"
proof (rule ccontr)
  assume "find_target_cpu m t \<noteq> None"
  then obtain r where ret: "find_target_cpu m t = Some r" by blast
  have "m \<noteq> m \<or> (\<exists>i<16. m i \<noteq> None)"
  proof (rule find_target_cpu.raw_induct [where P = "\<lambda>c t r. c \<noteq> m \<or> (\<exists>i<16. c i \<noteq> None)", OF _ ret])
    fix loop c u r
    assume "\<And>c t r. loop c t = Some r \<Longrightarrow> c \<noteq> m \<or> (\<exists>i<16. c i \<noteq> None)"
      and "(let t = (u + 1) mod GT_MAX_CORES in if c t = None then loop c t else Some t) = Some r"
    then show "c \<noteq> m \<or> (\<exists>i<16. c i \<noteq> None)"
      by (auto simp: Let_def split: if_splits intro: exI [of _ "Suc u mod 16"])
  qed
  with assms show False by auto
qed

lemma MALLOC_eq:
  assumes "locked (malloc_lock (ksched_shared_info s)) = 0"
  shows "MALLOC_SAFE p s = Inr (p, s)" and "MALLOCZ_SAFE p s = Inr (p, s)"
  using assms
  by (cases "malloc_lock (ksched_shared_info s)";
      simp add: MALLOC_SAFE_def MALLOCZ_SAFE_def Let_def spin_unlock_at_eq upd_ksched_def)+

subsection \<open>Creation keeps the invariant\<close>

text \<open>The processor a new uthread of group \<open>g\<close> is sent to: the next one after that of the group's last
  uthread.\<close>

definition next_cpu :: "gt_state \<Rightarrow> nat \<Rightarrow> nat \<Rightarrow> bool" where
  "next_cpu s g t \<longleftrightarrow>
     (let last = unat (last_ugroup_kthread (ksched_shared_info s) g)
      in \<exists>d<16. t = (last + Suc d) mod 16 \<and> kthread_cpu_map s t \<noteq> None \<and>
           (\<forall>j<d. kthread_cpu_map s ((last + Suc j) mod 16) = None))"

lemma ksched_find_target_ok:
  assumes g: "unat (uthread_gid (uths s u)) = g" "g < 32" and m: "kthread_cpu_map s i \<noteq> None" "i < 16"
    and lock: "locked (ksched_lock (ksched_shared_info s)) = 0"
  shows "\<exists>t k. next_cpu s g t \<and> kthread_cpu_map s t = Some k \<and>
    ksched_find_target u s = Inr (k, upd_uth u (\<lambda>x. x\<lparr>cpu_id := cpuid (kctxs s k), last_cpu_id := cpuid (kctxs s k)\<rparr>)
      (upd_ksched (\<lambda>i. i\<lparr>last_ugroup_kthread := (last_ugroup_kthread i)(g := of_nat t)\<rparr>) s))"
proof -
  let ?last = "unat (last_ugroup_kthread (ksched_shared_info s) g)"
  obtain d k where d: "d < 16" "kthread_cpu_map s ((?last + Suc d) mod 16) = Some k"
    "\<forall>j<d. kthread_cpu_map s ((?last + Suc j) mod 16) = None"
    "find_target_cpu (kthread_cpu_map s) ?last = Some ((?last + Suc d) mod 16)"
    using find_target_cpu_ex [of "kthread_cpu_map s" i ?last, OF m] by blast
  have n: "next_cpu s g ((?last + Suc d) mod 16)"
    unfolding next_cpu_def Let_def using d(1-3) by (intro exI [of _ d]) simp
  obtain w h where l: "ksched_lock (ksched_shared_info s) = \<lparr>locked = w, holder = h\<rparr>" by (rule gt_spinlock_t.cases)
  have "ksched_find_target u s = Inr (k, upd_uth u (\<lambda>x. x\<lparr>cpu_id := cpuid (kctxs s k), last_cpu_id := cpuid (kctxs s k)\<rparr>)
      (upd_ksched (\<lambda>i. i\<lparr>last_ugroup_kthread := (last_ugroup_kthread i)(g := of_nat ((?last + Suc d) mod 16))\<rparr>) s))"
    unfolding ksched_find_target_def Let_def g(1) d(4)
    using g(2) lock d(2) by (simp add: spin_unlock_at_eq upd_ksched_def l del: add_Suc_right)
  with n d(2) show ?thesis by blast
qed

text \<open>The struct of a new uthread.\<close>

definition new_uthread :: "timeval \<Rightarrow> nat \<Rightarrow> nat \<Rightarrow> u32 \<Rightarrow> int \<Rightarrow> u32 \<Rightarrow> u32 \<Rightarrow> uthread_struct" where
  "new_uthread now f a gid creds tid cpu = uthread_zero\<lparr>total_running_time_start := now,
     uthread_state := UTHREAD_INIT, uthread_priority := DEFAULT_UTHREAD_PRIORITY, uthread_gid := gid,
     uthread_func := f, uthread_arg := a, initial_credits := creds, credits := creds, is_yield_valid := 0,
     ss_enabled := True, uthread_tid := tid, cpu_id := cpu, last_cpu_id := cpu\<rparr>"

lemma new_uthread_sel [simp]:
  "uthread_state (new_uthread now f a gid c tid cpu) = UTHREAD_INIT"
  "uthread_priority (new_uthread now f a gid c tid cpu) = DEFAULT_UTHREAD_PRIORITY"
  "uthread_gid (new_uthread now f a gid c tid cpu) = gid"
  "uthread_tid (new_uthread now f a gid c tid cpu) = tid"
  "credits (new_uthread now f a gid c tid cpu) = c" "initial_credits (new_uthread now f a gid c tid cpu) = c"
  by (simp_all add: new_uthread_def)

text \<open>The state before the new uthread goes to its runqueue.\<close>

definition registered :: "uid \<Rightarrow> uthread_struct \<Rightarrow> nat \<Rightarrow> uthread_timer_t option \<Rightarrow> gt_state \<Rightarrow> gt_state" where
  "registered u x t timer s = s\<lparr>uths := (uths s)(u := x),
     ksched_shared_info := (ksched_shared_info s)\<lparr>
       kthread_tot_uthreads := kthread_tot_uthreads (ksched_shared_info s) + 1,
       kthread_cur_uthreads := kthread_cur_uthreads (ksched_shared_info s) + 1,
       last_ugroup_kthread := (last_ugroup_kthread (ksched_shared_info s))(unat (uthread_gid x) := of_nat t)\<rparr>,
     uthread_time := (uthread_time s)(unat (uthread_tid x) := timer)\<rparr>"

lemma registered_sel [simp]:
  "uths (registered u x t timer s) = (uths s)(u := x)" "links (registered u x t timer s) = links s"
  "runqs (registered u x t timer s) = runqs s" "krunqs (registered u x t timer s) = krunqs s"
  "kctxs (registered u x t timer s) = kctxs s" "kthread_cpu_map (registered u x t timer s) = kthread_cpu_map s"
  "is_credit_scheduler (registered u x t timer s) = is_credit_scheduler s"
  "is_load_balancing (registered u x t timer s) = is_load_balancing s"
  "is_kernel_thread_ready (registered u x t timer s) = is_kernel_thread_ready s"
  by (simp_all add: registered_def)

lemma uthread_create_eq:
  assumes locks: "locked (ksched_lock (ksched_shared_info s)) = 0" "locked (malloc_lock (ksched_shared_info s)) = 0"
    and g: "unat gid = g" "g < 32" and m: "kthread_cpu_map s i \<noteq> None" "i < 16"
    and tid: "tid = kthread_tot_uthreads (ksched_shared_info s)" "unat tid < 128"
  shows "\<exists>t k. next_cpu s g t \<and> kthread_cpu_map s t = Some k \<and>
    uthread_create (Some u) (Some sp) timer now f a gid creds s =
      rbind (add_to_runqueue (active s k) k u
        (registered u (new_uthread now f a gid creds tid (cpuid (kctxs s k))) t timer s)) (\<lambda>s'. Inr (0, Some tid, s'))"
proof -
  let ?x = "uthread_zero\<lparr>total_running_time_start := now,
     uthread_state := UTHREAD_INIT, uthread_priority := DEFAULT_UTHREAD_PRIORITY, uthread_gid := gid,
     uthread_func := f, uthread_arg := a, initial_credits := creds, credits := creds, is_yield_valid := 0,
     ss_enabled := True, uthread_tid := tid\<rparr>"
  let ?s5 = "upd_ksched (\<lambda>i. i\<lparr>kthread_tot_uthreads := kthread_tot_uthreads i + 1,
                         kthread_cur_uthreads := kthread_cur_uthreads i + 1\<rparr>) (upd_uth u (\<lambda>_. ?x) s)"
  obtain w h where l: "ksched_lock (ksched_shared_info s) = \<lparr>locked = w, holder = h\<rparr>" by (rule gt_spinlock_t.cases)
  have "unat (uthread_gid (uths ?s5 u)) = g" "locked (ksched_lock (ksched_shared_info ?s5)) = 0"
    "kthread_cpu_map ?s5 i \<noteq> None" using g locks m by simp_all
  then obtain t k where t: "next_cpu ?s5 g t" "kthread_cpu_map ?s5 t = Some k"
    "ksched_find_target u ?s5 = Inr (k, upd_uth u (\<lambda>x. x\<lparr>cpu_id := cpuid (kctxs ?s5 k), last_cpu_id := cpuid (kctxs ?s5 k)\<rparr>)
      (upd_ksched (\<lambda>i. i\<lparr>last_ugroup_kthread := (last_ugroup_kthread i)(g := of_nat t)\<rparr>) ?s5))"
    using ksched_find_target_ok [of ?s5 u g i] g(2) m(2) by blast
  have n: "next_cpu s g t" using t(1) by (simp add: next_cpu_def)
  have s5: "upd_ksched (\<lambda>i. i\<lparr>kthread_tot_uthreads := kthread_tot_uthreads i + 1,
         kthread_cur_uthreads := kthread_cur_uthreads i + 1,
         ksched_lock := spin_unlock_at ((ksched_lock (ksched_shared_info s))\<lparr>locked := 1\<rparr>)\<rparr>) (upd_uth u (\<lambda>_. ?x) s) = ?s5"
    using locks(1) by (simp add: upd_ksched_def l spin_unlock_at_eq)
  let ?r = "registered u (new_uthread now f a gid creds tid (cpuid (kctxs s k))) t timer s"
  have r: "(upd_uth u (\<lambda>x. x\<lparr>cpu_id := cpuid (kctxs s k), last_cpu_id := cpuid (kctxs s k)\<rparr>)
      (upd_ksched (\<lambda>i. i\<lparr>last_ugroup_kthread := (last_ugroup_kthread i)(g := of_nat t)\<rparr>) ?s5))
      \<lparr>uthread_time := (uthread_time s)(unat tid := timer)\<rparr> = ?r"
    by (simp add: registered_def new_uthread_def upd_uth_def upd_ksched_def g(1))
  have "uthread_create (Some u) (Some sp) timer now f a gid creds s =
      rbind (add_to_runqueue (active s k) k u ?r) (\<lambda>s'. Inr (0, Some tid, s'))"
    unfolding uthread_create_def
    using locks tid(2)
    apply (simp add: MALLOC_eq Let_def tid(1) [symmetric] del: DEFAULT_UTHREAD_PRIORITY_def UTHREAD_INIT_def)
    apply (subst s5)
    apply (subst t(3))
    apply (simp add: MALLOC_eq r del: DEFAULT_UTHREAD_PRIORITY_def UTHREAD_INIT_def)
    done
  with n t(2) show ?thesis by auto
qed

lemma uthread_create_out_of_bounds:
  assumes locks: "locked (ksched_lock (ksched_shared_info s)) = 0" "locked (malloc_lock (ksched_shared_info s)) = 0"
    and g: "unat gid < 32" and m: "kthread_cpu_map s i \<noteq> None" "i < 16"
    and tid: "128 \<le> unat (kthread_tot_uthreads (ksched_shared_info s))"
  shows "uthread_create (Some u) (Some sp) timer now f a gid creds s = Inl OutOfBounds"
proof -
  let ?s = "\<lambda>x. upd_ksched (\<lambda>i. i\<lparr>kthread_tot_uthreads := kthread_tot_uthreads i + 1,
      kthread_cur_uthreads := kthread_cur_uthreads i + 1,
      ksched_lock := spin_unlock_at ((ksched_lock (ksched_shared_info s))\<lparr>locked := 1\<rparr>)\<rparr>) (upd_uth u (\<lambda>_. x) s)"
  have "\<exists>t k. ksched_find_target u (?s x) = Inr (k, upd_uth u (\<lambda>x. x\<lparr>cpu_id := cpuid (kctxs (?s x) k),
      last_cpu_id := cpuid (kctxs (?s x) k)\<rparr>) (upd_ksched (\<lambda>i. i\<lparr>last_ugroup_kthread :=
      (last_ugroup_kthread i)(unat gid := of_nat t)\<rparr>) (?s x)))" if "uthread_gid x = gid" for x
    using ksched_find_target_ok [of "?s x" u "unat gid" i] g m that by auto
  then have ex: "\<exists>k t. ksched_find_target u (?s x) = Inr (k, t) \<and> locked (malloc_lock (ksched_shared_info t)) = 0"
    if "uthread_gid x = gid" for x
    using that locks(2) by fastforce
  let ?x = "uthread_zero\<lparr>total_running_time_start := now, uthread_state := UTHREAD_INIT,
      uthread_priority := DEFAULT_UTHREAD_PRIORITY, uthread_gid := gid, uthread_func := f, uthread_arg := a,
      initial_credits := creds, credits := creds, is_yield_valid := 0, ss_enabled := True,
      uthread_tid := kthread_tot_uthreads (ksched_shared_info s)\<rparr>"
  obtain k t where "ksched_find_target u (?s ?x) = Inr (k, t)" "locked (malloc_lock (ksched_shared_info t)) = 0"
    using ex [of ?x] by auto
  with locks tid show ?thesis
    unfolding uthread_create_def
    by (simp add: MALLOC_eq Let_def del: UTHREAD_INIT_def DEFAULT_UTHREAD_PRIORITY_def)
qed

lemma kthread_apic_id_eq: "kthread_apic_id r = unat r div 2 ^ 24"
proof -
  have "drop_bit 24 (r AND 0xFF000000) = drop_bit 24 r"
  proof (rule bit_word_eqI)
    fix n assume "n < LENGTH(32)"
    have "bit (0xFF000000 :: u32) (24 + n) \<longleftrightarrow> n < 8"
    proof -
      have "(0xFF000000 :: u32) = push_bit 24 (mask 8)" by (simp add: mask_eq_exp_minus_1 push_bit_eq_mult)
      then show ?thesis by (simp only: bit_push_bit_iff bit_mask_iff) (auto simp: \<open>n < LENGTH(32)\<close>)
    qed
    moreover have "bit r (24 + n) \<Longrightarrow> n < 8" using bit_imp_le_length [of r "24 + n"] by simp
    ultimately show "bit (drop_bit 24 (r AND 0xFF000000)) n \<longleftrightarrow> bit (drop_bit 24 r) n"
      unfolding bit_drop_bit_eq comp_def bit_and_iff by blast
  qed
  moreover have d: "unat (drop_bit 24 r) = unat r div 2 ^ 24"
    by (subst unat_drop_bit_eq, subst drop_bit_eq_div, rule refl)
  have "unat r < 2 ^ 8 * 2 ^ 24" using unsigned_less [of r] by simp
  then have "unat r div 2 ^ 24 < 2 ^ 8" by (rule less_mult_imp_div_less)
  then have "unat (ucast (drop_bit 24 r) :: 8 word) = unat r div 2 ^ 24"
    unfolding unsigned_ucast_eq unsigned_take_bit_eq d by (simp add: take_bit_nat_eq_self)
  ultimately show ?thesis unfolding kthread_apic_id_def by simp
qed

lemma kthread_init_range: "\<not> apic < 16 \<Longrightarrow> kthread_init pid tid apic k s = Inl OutOfBounds"
  by (simp add: kthread_init_def Let_def)

lemma registered_inv:
  assumes ok: "sys_ok K U s Q" and fresh: "u \<notin> U" and k: "k \<in> K" and g: "unat (uthread_gid x) = g" "g < 32"
    and room: "card U < 128" and timer: "timer \<noteq> None"
    and x: "uthread_state x = UTHREAD_INIT" "uthread_priority x = DEFAULT_UTHREAD_PRIORITY"
      "uthread_tid x = kthread_tot_uthreads (ksched_shared_info s)"
    and r: "r = registered u x t timer s" and h: "h = PrioGroup (active s k) 16 g"
    and pq: "pq_ok (Hs K) (Rs K) s' (Q(h := Q h @ [u]))" and kt: "kt_ok K s'" and same: "same_threads r s'"
  shows "sys_ok K (insert u U) s' (Q(h := Q h @ [u]))"
proof (rule sys_okI [OF pq kt])
  note inv = sys_okD [OF ok]
  note st = same [unfolded same_threads_def r registered_sel]
  have fin: "finite U" and sub: "queued (Hs K) Q \<union> currents K s = U" using inv(3) by (simp_all add: places_ok_def)
  have H: "h \<in> Hs K" unfolding h using slot_in_Hs [OF k kt_ok_active_in_Rs [OF inv(2) k]] g(2) by simp
  have nq: "u \<notin> queued (Hs K) Q" and nc: "u \<notin> currents K s" using sub fresh by auto
  have cur: "currents K s' = currents K s" using st by (simp add: currents_def)
  have z: "zombies K (Q(h := Q h @ [u])) = zombies K Q" by (simp add: h)
  have rd: "ready K (Q(h := Q h @ [u])) = insert u (ready K Q)" using ready_append [OF H nq k] by (simp add: h)
  have nz: "u \<notin> zombies K Q" using nq zombies_queued by blast
  have tot: "unat (kthread_tot_uthreads (ksched_shared_info s)) = card U"
    and live: "unat (kthread_cur_uthreads (ksched_shared_info s)) = card (U - zombies K Q)"
    using inv(5) by (simp_all add: info_ok_def)
  show "places_ok K (insert u U) s' (Q(h := Q h @ [u]))"
    unfolding places_ok_def queued_append [OF H] cur
    using inv(3) nq nc fresh room st by (auto simp: places_ok_def)
  have time: "uthread_time s' i \<noteq> None" if "uthread_time s i \<noteq> None \<or> i = card U" for i
    using that timer st x(3) tot by (auto simp: registered_def)
  show "uths_ok K (insert u U) s' (Q(h := Q h @ [u]))"
    unfolding uths_ok_def cur z rd
  proof (intro conjI ballI, goal_cases)
    case (1 v) then show ?case using inv(4) x by (auto simp: st uths_ok_def)
  next
    case (2 v) then show ?case using inv(4) g by (auto simp: st uths_ok_def)
  next
    case (3 v)
    show ?case
    proof (cases "v = u")
      case True
      then show ?thesis using x(3) tot room time [of "card U"] by (simp add: st)
    next
      case False
      with 3 have "v \<in> U" by simp
      then have "is_credit_scheduler s = 1 \<longrightarrow>
          unat (uthread_tid (uths s v)) < 128 \<and> uthread_time s (unat (uthread_tid (uths s v))) \<noteq> None"
        using inv(4) by (simp add: uths_ok_def)
      with time [of "unat (uthread_tid (uths s v))"] False show ?thesis by (simp add: st)
    qed
  next
    case (4 v) then show ?case using inv(4) x by (auto simp: st uths_ok_def)
  next
    case (5 v) then show ?case using inv(4) nc by (auto simp: st uths_ok_def)
  next
    case (6 v) then show ?case using inv(4) nz by (auto simp: st uths_ok_def)
  qed
  have "card (insert u U - zombies K Q) = card (U - zombies K Q) + 1"
    using fresh nz fin by (simp add: insert_Diff_if)
  moreover have "card (U - zombies K Q) \<le> card U" using fin by (intro card_mono) auto
  ultimately show "info_ok K (insert u U) s' (Q(h := Q h @ [u]))"
    unfolding info_ok_def z using inv(5) tot live room fresh fin st
    by (simp add: info_ok_def registered_def unat_inc)
  show "tids_ok (insert u U) s'"
    unfolding tids_ok_def
  proof
    have old: "unat (uthread_tid (uths s v)) < card U" if "v \<in> U" for v using inv(6) that by (simp add: tids_ok_def)
    then show "\<forall>v\<in>insert u U. unat (uthread_tid (uths s' v)) < card (insert u U)"
      using fresh fin tot x(3) less_Suc_eq by (auto simp: st)
    have "uthread_tid (uths s v) \<noteq> uthread_tid x" if "v \<in> U" for v using old [OF that] x(3) tot by auto
    moreover have "inj_on (\<lambda>v. uthread_tid (uths s' v)) U"
      using inv(6) fresh unfolding tids_ok_def inj_on_def by (simp add: st)
    ultimately show "inj_on (\<lambda>v. uthread_tid (uths s' v)) (insert u U)"
      using fresh by (simp add: inj_on_insert st image_iff) metis
  qed
qed

lemma uthread_create_ok:
  assumes ok: "sys_ok K U s Q" and fresh: "u \<notin> U" and g: "unat gid = g" "g < 32"
    and m: "kthread_cpu_map s i \<noteq> None" "i < 16" and room: "card U < 128"
  shows "\<exists>t k s'. next_cpu s g t \<and> kthread_cpu_map s t = Some k \<and>
    uthread_create (Some u) (Some sp) (Some timer) now f a gid creds s = Inr (0, Some (of_nat (card U)), s') \<and>
    uths s' = (uths s)(u := new_uthread now f a gid creds (of_nat (card U)) (cpuid (kctxs s k))) \<and>
    last_ugroup_kthread (ksched_shared_info s') = (last_ugroup_kthread (ksched_shared_info s))(g := of_nat t) \<and>
    same_config s s' \<and> same_pointers s s' \<and> kctxs s' = kctxs s \<and>
    sys_ok K (insert u U) s' (Q(PrioGroup (active s k) 16 g := Q (PrioGroup (active s k) 16 g) @ [u]))"
proof -
  note inv = sys_okD [OF ok]
  let ?tid = "kthread_tot_uthreads (ksched_shared_info s)"
  have tot: "unat ?tid = card U" using inv(5) by (simp add: info_ok_def)
  then have tid: "?tid = of_nat (card U)" "unat ?tid < 128" using room by (simp_all flip: tot)
  obtain t k where t: "next_cpu s g t" "kthread_cpu_map s t = Some k"
    "uthread_create (Some u) (Some sp) (Some timer) now f a gid creds s =
      rbind (add_to_runqueue (active s k) k u
        (registered u (new_uthread now f a gid creds ?tid (cpuid (kctxs s k))) t (Some timer) s))
        (\<lambda>s'. Inr (0, Some ?tid, s'))"
    using uthread_create_eq [OF _ _ g m refl tid(2)] inv(5) unfolding info_ok_def by blast
  let ?x = "new_uthread now f a gid creds ?tid (cpuid (kctxs s k))"
  let ?r = "registered u ?x t (Some timer) s" and ?h = "PrioGroup (active s k) 16 g"
  have k: "k \<in> K" using inv(2) t(2) by (auto simp: kt_ok_def)
  have nq: "u \<notin> queued (Hs K) Q" using inv(3) fresh by (auto simp: places_ok_def)
  have pq: "pq_ok (Hs K) (Rs K) ?r Q" by (rule pq_ok_cong [OF _ _ _ _ inv(1)]) (use nq in auto)
  have kt: "kt_ok K ?r" using inv(2) by (simp add: kt_ok_def)
  have rq: "active s k \<in> Rs K" using inv(2) k by (rule kt_ok_active_in_Rs)
  then have sz: "rq_size Q (active s k) + 1 < 2 ^ 32" using sys_ok_room [OF ok] by blast
  obtain s1 where s1: "add_to_runqueue (active s k) k u ?r = Inr (released k 2 s1)" "only_queues ?r s1"
    "pq_ok (Hs K) (Rs K) s1 (Q(?h := Q ?h @ [u]))"
    using add_to_runqueue_ok [OF pq kt k rq nq sz, of 16 g] g by auto
  let ?s = "released k 2 s1"
  have same: "same_threads ?r ?s"
    using same_only_queues [OF s1(2)] same_released(1) same_threads_trans by blast
  have pq': "pq_ok (Hs K) (Rs K) ?s (Q(?h := Q ?h @ [u]))" using s1(3) by simp
  have kt': "kt_ok K ?s" using kt by (simp add: kt_ok_only_queues [OF s1(2)])
  have "sys_ok K (insert u U) ?s (Q(?h := Q ?h @ [u]))"
    by (rule registered_inv [OF ok fresh k _ g(2) room _ _ _ _ refl refl pq' kt' same]) (simp_all add: g(1))
  moreover have "uthread_create (Some u) (Some sp) (Some timer) now f a gid creds s = Inr (0, Some (of_nat (card U)), ?s)"
    using t(3) s1(1) tid(1) by simp
  moreover have "uths ?s = (uths s)(u := new_uthread now f a gid creds (of_nat (card U)) (cpuid (kctxs s k)))"
    "same_config s ?s" "kctxs ?s = kctxs s"
    "last_ugroup_kthread (ksched_shared_info ?s) = (last_ugroup_kthread (ksched_shared_info s))(g := of_nat t)"
    using same unfolding same_threads_def tid(1) by (simp_all add: same_config_def registered_def g(1))
  moreover have "same_pointers s ?s" by (simp add: same_pointers_def only_queuesD [OF s1(2)])
  ultimately show ?thesis using t(1,2) by blast
qed

subsection \<open>Start-up\<close>

text \<open>A context whose memory has been zeroed and that waits for its kthread.\<close>

definition prepared :: "kid \<Rightarrow> gt_state \<Rightarrow> bool" where
  "prepared k s \<longleftrightarrow> runqs s (k, 0) = runq_zero \<and> runqs s (k, 1) = runq_zero \<and> krunqs s k = krunq_zero \<and>
     kthread_app_func (kctxs s k) = Some Gtthread_app_start \<and> kthread_flags (kctxs s k) = 0"

lemma prepared_store:
  "prepared k (upd_kctx k (\<lambda>c. c\<lparr>cpuid := n, kthread_app_func := Some Gtthread_app_start\<rparr>) (store_zero_kctx k s))"
  "k' \<noteq> k \<Longrightarrow> prepared k' s \<Longrightarrow>
   prepared k' (upd_kctx k (\<lambda>c. c\<lparr>cpuid := n, kthread_app_func := Some Gtthread_app_start\<rparr>) (store_zero_kctx k s))"
  by (simp_all add: prepared_def store_zero_kctx_def kctx_zero_def)

definition add_empty :: "kid \<Rightarrow> (rq_head \<Rightarrow> uid list) \<Rightarrow> rq_head \<Rightarrow> uid list" where
  "add_empty k Q h = (if h \<in> krunq_heads k then [] else Q h)"

lemma heads_new: "k \<notin> K \<Longrightarrow> krunq_heads k \<inter> Hs K = {}"
  by (auto simp: krunq_heads_def rq_heads_def)

lemma Hs_insert: "Hs (insert k K) = krunq_heads k \<union> Hs K"
  by simp

lemma Rs_insert: "Rs (insert k K) = insert (k, 0) (insert (k, 1) (Rs K))"
  by auto

lemma queued_add_empty: "k \<notin> K \<Longrightarrow> queued (Hs (insert k K)) (add_empty k Q) = queued (Hs K) Q"
proof -
  assume "k \<notin> K"
  then have "add_empty k Q h = Q h" if "h \<in> Hs K" for h using heads_new that by (auto simp: add_empty_def)
  then have "(\<Union>h\<in>Hs K. set (add_empty k Q h)) = (\<Union>h\<in>Hs K. set (Q h))" by (intro SUP_cong) simp_all
  moreover have "(\<Union>h\<in>krunq_heads k. set (add_empty k Q h)) = {}" by (simp add: add_empty_def)
  ultimately show ?thesis unfolding Hs_insert queued_def UN_Un by simp
qed

lemma zombies_add_empty: "k \<notin> K \<Longrightarrow> zombies (insert k K) (add_empty k Q) = zombies K Q"
  by (auto simp: zombies_def add_empty_def krunq_heads_def rq_heads_def split: if_splits)

lemma kthread_init_eq:
  "apic < 16 \<Longrightarrow> kthread_init pid tid apic k s = Inr ((kthread_init_runqueue k
     (upd_kctx k (\<lambda>c. c\<lparr>k_pid := pid, k_tid := tid, kthread_sched_timer := Some Ksched_priority,
        kthread_sched_relay := Some Ksched_cosched, cpu_apic_id := of_nat apic\<rparr>) s))
     \<lparr>kthread_cpu_map := (kthread_cpu_map s)(apic := Some k)\<rparr>)"
  by (simp add: kthread_init_def kthread_init_runqueue_eq Let_def upd_kctx_def upd_krunq_def)

lemma kthread_init_ok:
  assumes ok: "sys_ok K U s Q" and k: "k \<notin> K" and pr: "prepared k s" and apic: "apic < 16"
  shows "\<exists>s'. kthread_init pid tid apic k s = Inr s' \<and> sys_ok (insert k K) U s' (add_empty k Q) \<and>
    kthread_cpu_map s' = (kthread_cpu_map s)(apic := Some k) \<and>
    ksched_shared_info s' = ksched_shared_info s \<and> cpu_apic_id (kctxs s' k) = of_nat apic \<and>
    kthread_app_func (kctxs s' k) = Some Gtthread_app_start \<and>
    (\<forall>k'. k' \<noteq> k \<longrightarrow> prepared k' s' = prepared k' s)"
proof -
  note inv = sys_okD [OF ok]
  let ?c = "\<lambda>c. c\<lparr>k_pid := pid, k_tid := tid, kthread_sched_timer := Some Ksched_priority,
        kthread_sched_relay := Some Ksched_cosched, cpu_apic_id := of_nat apic\<rparr>"
  let ?s1 = "upd_kctx k ?c s" and ?Q = "add_empty k Q"
  let ?s2 = "kthread_init_runqueue k ?s1"
  let ?s = "?s2\<lparr>kthread_cpu_map := (kthread_cpu_map s)(apic := Some k)\<rparr>"
  note eq = kthread_init_runqueue_eq [of k ?s1]
  have fresh: "(k, 0) \<notin> Rs K" "(k, 1) \<notin> Rs K" using k by auto
  have zero: "runqs ?s1 (k, 0) = runq_zero" "runqs ?s1 (k, 1) = runq_zero" using pr by (simp_all add: prepared_def)
  have "pq_ok (Hs (insert k K)) (Rs (insert k K)) ?s2 ?Q"
    unfolding Hs_insert Rs_insert add_empty_def
    using inv(1) by (intro kthread_init_runqueue_ok heads_new k fresh zero) simp
  then have pq: "pq_ok (Hs (insert k K)) (Rs (insert k K)) ?s ?Q"
    by (rule pq_ok_cong [rotated 4]) simp_all
  have kr: "krunqs ?s = (krunqs s)(k := krunq_zero\<lparr>active_runq := 0, expires_runq := 1\<rparr>)"
    using pr by (simp add: eq prepared_def krunq_zero_def)
  have kt: "kt_ok (insert k K) ?s"
    using inv(2) k unfolding kt_ok_def kr by (auto simp: krunq_zero_def)
  have cur: "currents (insert k K) ?s = currents K s"
    using k unfolding currents_def kr by (auto simp: krunq_zero_def)
  have rd: "ready (insert k K) ?Q = ready K Q"
    unfolding ready_def queued_add_empty [OF k] zombies_add_empty [OF k] ..
  have [simp]: "uths ?s = uths s" "ksched_shared_info ?s = ksched_shared_info s" "uthread_time ?s = uthread_time s"
    "is_credit_scheduler ?s = is_credit_scheduler s" by (simp_all add: eq)
  have "places_ok (insert k K) U ?s ?Q"
    using inv(3) unfolding places_ok_def queued_add_empty [OF k] cur kr by (auto simp: krunq_zero_def)
  moreover have "uths_ok (insert k K) U ?s ?Q"
    using inv(4) unfolding uths_ok_def cur rd zombies_add_empty [OF k] by simp
  moreover have "info_ok (insert k K) U ?s ?Q"
    using inv(5) unfolding info_ok_def zombies_add_empty [OF k] by simp
  moreover have "tids_ok U ?s" using inv(6) by (simp add: tids_ok_def)
  ultimately have "sys_ok (insert k K) U ?s ?Q" using pq kt by (intro sys_okI)
  moreover have "cpu_apic_id (kctxs ?s k) = of_nat apic"
    "kthread_app_func (kctxs ?s k) = Some Gtthread_app_start"
    "\<forall>k'. k' \<noteq> k \<longrightarrow> prepared k' ?s = prepared k' s" using pr by (simp_all add: eq prepared_def)
  ultimately show ?thesis
    by (intro exI [of _ ?s] conjI) (simp_all add: kthread_init_eq [OF apic])
qed

text \<open>The kthreads created by \<open>gtthread_app_init\<close> initialise themselves, in some order.\<close>

fun run_handlers :: "(kid \<times> u32 \<times> u32 \<times> nat) list \<Rightarrow> gt_state \<Rightarrow> gt_state res" where
  "run_handlers [] s = Inr s"
| "run_handlers ((k, pid, tid, apic) # rest) s =
     rbind (kthread_handler pid tid apic k s) (\<lambda>(_, s'). run_handlers rest s')"

lemma run_handlers_ok:
  assumes "sys_ok K {} s Q" and "distinct (map fst hs)" and "\<forall>(k, pid, tid, apic)\<in>set hs. k \<notin> K \<and> prepared k s \<and> apic < 16"
  shows "\<exists>s' Q'. run_handlers hs s = Inr s' \<and> sys_ok (fst ` set hs \<union> K) {} s' Q' \<and>
    kthread_cpu_map s' = (kthread_cpu_map s) ++ map_of (rev (map (\<lambda>(k, pid, tid, apic). (apic, k)) hs))"
  using assms
proof (induction hs arbitrary: K s Q)
  case (Cons x hs)
  obtain k pid tid apic where x: "x = (k, pid, tid, apic)" by (cases x)
  with Cons.prems(3) have k: "k \<notin> K" "prepared k s" "apic < 16" by auto
  obtain s1 where s1: "kthread_init pid tid apic k s = Inr s1" "sys_ok (insert k K) {} s1 (add_empty k Q)"
    "kthread_cpu_map s1 = (kthread_cpu_map s)(apic := Some k)"
    "kthread_app_func (kctxs s1 k) = Some Gtthread_app_start" "\<forall>k'. k' \<noteq> k \<longrightarrow> prepared k' s1 = prepared k' s"
    using kthread_init_ok [OF Cons.prems(1) k] by blast
  have d: "distinct (map fst hs)" using Cons.prems(2) by simp
  have "k' \<notin> insert k K \<and> prepared k' s1 \<and> apic' < 16" if "(k', pid', tid', apic') \<in> set hs" for k' pid' tid' apic'
  proof -
    have "k' \<noteq> k" using that Cons.prems(2) x by force
    with that Cons.prems(3) s1(5) show ?thesis by auto
  qed
  then have p: "\<forall>(k', pid, tid, apic)\<in>set hs. k' \<notin> insert k K \<and> prepared k' s1 \<and> apic < 16" by blast
  from Cons.IH [OF s1(2) d p] obtain s' Q' where "run_handlers hs s1 = Inr s'"
    "sys_ok (fst ` set hs \<union> insert k K) {} s' Q'"
    "kthread_cpu_map s' = kthread_cpu_map s1 ++ map_of (rev (map (\<lambda>(k, pid, tid, apic). (apic, k)) hs))" by blast
  then show ?case using s1(1,3,4) x
    by (simp add: kthread_handler_def map_add_upd_left) (auto simp: map_add_def fun_eq_iff split: option.splits)
qed auto

text \<open>The globals as the program starts, after the command line has set the two scheduler flags.\<close>

definition gt_blank :: "int \<Rightarrow> int \<Rightarrow> gt_state" where
  "gt_blank credit lb = \<lparr>uths = (\<lambda>_. uthread_zero),
     links = \<lparr>tqh_first = (\<lambda>_. None), tqh_last = (\<lambda>_. None), tqe_next = (\<lambda>_. None), tqe_prev = (\<lambda>_. None)\<rparr>,
     runqs = (\<lambda>_. runq_zero), krunqs = (\<lambda>_. krunq_zero), kctxs = (\<lambda>_. kctx_zero), kthread_cpu_map = (\<lambda>_. None),
     ksched_shared_info = \<lparr>uthread_select_criterion = 0, uthread_group_penalty = 0, kthread_tot_uthreads = 0,
       kthread_cur_uthreads = 0, last_ugroup_kthread = (\<lambda>_. 0), ksched_lock = \<lparr>locked = 0, holder = 0\<rparr>,
       uthread_init_lock = \<lparr>locked = 0, holder = 0\<rparr>, malloc_lock = \<lparr>locked = 0, holder = 0\<rparr>\<rparr>,
     uthread_time = (\<lambda>_. None), is_credit_scheduler = credit, is_load_balancing = lb, is_kernel_thread_ready = 0\<rparr>"

lemma sys_ok_blank: "sys_ok {} {} (gt_blank credit lb) (\<lambda>_. [])"
  by (rule sys_okI)
     (simp_all add: pq_ok_def tq_world_def kt_ok_def places_ok_def uths_ok_def info_ok_def tids_ok_def gt_blank_def
        queued_def currents_def ready_def zombies_def)

lemma store_zero_kctx_sel [simp]:
  "uths (store_zero_kctx k s) = uths s" "links (store_zero_kctx k s) = links s"
  "kthread_cpu_map (store_zero_kctx k s) = kthread_cpu_map s"
  "ksched_shared_info (store_zero_kctx k s) = ksched_shared_info s"
  "uthread_time (store_zero_kctx k s) = uthread_time s"
  "is_credit_scheduler (store_zero_kctx k s) = is_credit_scheduler s"
  by (simp_all add: store_zero_kctx_def)

lemma sys_ok_store:
  assumes ok: "sys_ok K U s Q" and k: "k \<notin> K"
  shows "sys_ok K U (upd_kctx k f (store_zero_kctx k s)) Q" (is "sys_ok K U ?s Q")
proof (rule sys_okI)
  note inv = sys_okD [OF ok]
  have kr: "krunqs (store_zero_kctx k s) i = krunqs s i" if "i \<in> K" for i using that k by (auto simp: store_zero_kctx_def)
  show "pq_ok (Hs K) (Rs K) ?s Q"
    by (rule pq_ok_cong [OF _ _ _ _ inv(1)]) (use k in \<open>auto simp: store_zero_kctx_def\<close>)
  show "kt_ok K ?s" using inv(2) unfolding kt_ok_def by (simp add: kr)
  have cur: "currents K ?s = currents K s" using kr unfolding currents_def by auto
  show "places_ok K U ?s Q" using inv(3) unfolding places_ok_def cur by (simp add: kr)
  show "uths_ok K U ?s Q" using inv(4) unfolding uths_ok_def cur by simp
  show "info_ok K U ?s Q" using inv(5) by (simp add: info_ok_def)
  show "tids_ok U ?s" using inv(6) by (simp add: tids_ok_def)
qed

lemma sys_ok_malloc: "sys_ok K U s Q \<Longrightarrow> locked (malloc_lock (ksched_shared_info s)) = 0"
  by (simp add: sys_ok_def info_ok_def)

lemma app_init_others_ok:
  assumes ok: "sys_ok K {} s Q"
    and sys: "\<forall>j. inx \<le> j \<and> j < n \<longrightarrow> (\<exists>st c. sys j = (Some (ks j), Some st, c) \<and> 0 < c) \<and> ks j \<notin> K"
    and inj: "inj_on ks {inx..<n}"
  shows "\<exists>s'. app_init_others sys n inx s = Inr s' \<and> sys_ok K {} s' Q \<and> kthread_cpu_map s' = kthread_cpu_map s \<and>
    (\<forall>j. inx \<le> j \<and> j < n \<longrightarrow> prepared (ks j) s') \<and>
    (\<forall>k. k \<notin> ks ` {inx..<n} \<longrightarrow> prepared k s \<longrightarrow> prepared k s')"
  using assms
proof (induction "n - inx" arbitrary: inx s)
  case 0
  then show ?case by (auto simp: app_init_others.simps [of sys n inx s])
next
  case (Suc m)
  then have lt: "inx < n" by simp
  with Suc.prems(2) obtain st c where c: "sys inx = (Some (ks inx), Some st, c)" "0 < c" and kK: "ks inx \<notin> K" by auto
  let ?f = "\<lambda>c. c\<lparr>cpuid := of_nat inx, kthread_app_func := Some Gtthread_app_start\<rparr>"
  let ?s = "upd_kctx (ks inx) ?f (store_zero_kctx (ks inx) s)"
  have ok1: "sys_ok K {} ?s Q" using Suc.prems(1) kK by (rule sys_ok_store)
  have eq: "app_init_others sys n inx s = app_init_others sys n (Suc inx) ?s"
    using lt c by (subst app_init_others.simps)
      (simp add: kthread_create_def MALLOC_eq [OF sys_ok_malloc [OF Suc.prems(1)]] MALLOC_eq [OF sys_ok_malloc [OF ok1]])
  have m: "m = n - Suc inx" using Suc.hyps(2) by simp
  have sys1: "\<forall>j. Suc inx \<le> j \<and> j < n \<longrightarrow> (\<exists>st c. sys j = (Some (ks j), Some st, c) \<and> 0 < c) \<and> ks j \<notin> K"
    using Suc.prems(2) by simp
  have inj1: "inj_on ks {Suc inx..<n}" using Suc.prems(3) by (rule inj_on_subset) auto
  from Suc.hyps(1) [OF m ok1 sys1 inj1] obtain s' where s': "app_init_others sys n (Suc inx) ?s = Inr s'"
    "sys_ok K {} s' Q" "kthread_cpu_map s' = kthread_cpu_map ?s"
    "\<forall>j. Suc inx \<le> j \<and> j < n \<longrightarrow> prepared (ks j) s'"
    "\<forall>k. k \<notin> ks ` {Suc inx..<n} \<longrightarrow> prepared k ?s \<longrightarrow> prepared k s'" by blast
  have "ks inx \<notin> ks ` {Suc inx..<n}" using inj_onD [OF Suc.prems(3), of inx] lt by fastforce
  then have here: "prepared (ks inx) s'" using s'(5) prepared_store(1) by blast
  then have "\<forall>j. inx \<le> j \<and> j < n \<longrightarrow> prepared (ks j) s'" using s'(4) by (metis le_antisym not_less_eq_eq)
  moreover have "prepared k s'" if "k \<notin> ks ` {inx..<n}" "prepared k s" for k
  proof -
    have "k \<noteq> ks inx" "k \<notin> ks ` {Suc inx..<n}" using that(1) lt by auto
    with that(2) s'(5) prepared_store(2) show ?thesis by blast
  qed
  moreover have "kthread_cpu_map s' = kthread_cpu_map s" using s'(3) by (simp add: store_zero_kctx_def)
  ultimately show ?case using eq s'(1,2) by simp
qed

lemma sys_ok_ready: "sys_ok K U s Q \<Longrightarrow> sys_ok K U (s\<lparr>is_kernel_thread_ready := r\<rparr>) Q"
  by (simp add: sys_ok_def pq_ok_def rq_sorted_def kt_ok_def places_ok_def uths_ok_def info_ok_def tids_ok_def currents_def)

lemma init_done_card: "init_done s = card {i. i < 16 \<and> kthread_cpu_map s i \<noteq> None}"
proof -
  have "init_done s = card (set (filter (\<lambda>i. kthread_cpu_map s i \<noteq> None) [0..<16]))"
    unfolding init_done_def by (subst distinct_card) simp_all
  also have "set (filter (\<lambda>i. kthread_cpu_map s i \<noteq> None) [0..<16]) = {i. i < 16 \<and> kthread_cpu_map s i \<noteq> None}"
    by auto
  finally show ?thesis .
qed

lemma app_init_main_ok:
  assumes "apic < 16"
  shows "\<exists>s Q. app_init_main (Some k) pid tid apic (gt_blank credit lb) = Inr s \<and> sys_ok {k} {} s Q \<and>
    kthread_cpu_map s = [apic \<mapsto> k]"
proof -
  let ?b = "ksched_info_init (gt_blank credit lb)"
  let ?s = "upd_kctx k (\<lambda>c. c\<lparr>cpuid := 0, kthread_app_func := Some Gtthread_app_start\<rparr>) (store_zero_kctx k ?b)"
  have b: "?b = gt_blank credit lb"
    by (simp add: ksched_info_init_def gt_blank_def upd_ksched_def gt_spinlock_init_def)
  have ok: "sys_ok {} {} ?s (\<lambda>_. [])" unfolding b by (rule sys_ok_store [OF sys_ok_blank]) simp
  obtain s where s: "kthread_init pid tid apic k ?s = Inr s" "sys_ok {k} {} s (add_empty k (\<lambda>_. []))"
    "kthread_cpu_map s = (kthread_cpu_map ?s)(apic := Some k)"
    using kthread_init_ok [OF ok _ prepared_store(1) assms, of pid tid] by blast
  have "app_init_main (Some k) pid tid apic (gt_blank credit lb) = Inr s"
    using s(1) unfolding app_init_main_def b by (simp add: MALLOC_eq [OF sys_ok_malloc [OF sys_ok_blank]])
  moreover have "kthread_cpu_map ?s = Map.empty" unfolding b by (simp add: gt_blank_def)
  ultimately show ?thesis using s(2,3) by auto
qed

text \<open>The whole start-up, when the allocations and the clones succeed and every kthread ends up on a
  processor of its own with a number below 16.\<close>

lemma startup_ok:
  assumes n: "n = unat (num_cpus_of sysconf)" "0 < n"
    and sys: "\<forall>j. 1 \<le> j \<and> j < n \<longrightarrow> (\<exists>st c. sys j = (Some (ks j), Some st, c) \<and> 0 < c) \<and> ks j \<noteq> k0"
    and ks: "inj_on ks {1..<n}" and hs: "set (map fst hs) = ks ` {1..<n}" "distinct (map fst hs)"
    and apics: "distinct (a0 # map (snd \<circ> snd \<circ> snd) hs)" "\<forall>a\<in>set (a0 # map (snd \<circ> snd \<circ> snd) hs). a < 16"
  shows "\<exists>s1 s2 s3 Q. app_init_main (Some k0) pid tid a0 (gt_blank credit lb) = Inr s1 \<and>
    app_init_others sys n 1 s1 = Inr s2 \<and> run_handlers hs s2 = Inr s3 \<and>
    app_init_round (num_cpus_of sysconf) s3 = Inr (Some (s3\<lparr>is_kernel_thread_ready := 1\<rparr>)) \<and>
    sys_ok (insert k0 (ks ` {1..<n})) {} (s3\<lparr>is_kernel_thread_ready := 1\<rparr>) Q"
proof -
  obtain s1 Q1 where s1: "app_init_main (Some k0) pid tid a0 (gt_blank credit lb) = Inr s1" "sys_ok {k0} {} s1 Q1"
    "kthread_cpu_map s1 = [a0 \<mapsto> k0]" using app_init_main_ok [of a0 k0 pid tid credit lb] apics(2) by auto
  have sys': "\<forall>j. 1 \<le> j \<and> j < n \<longrightarrow> (\<exists>st c. sys j = (Some (ks j), Some st, c) \<and> 0 < c) \<and> ks j \<notin> {k0}"
    using sys by blast
  obtain s2 where s2: "app_init_others sys n 1 s1 = Inr s2" "sys_ok {k0} {} s2 Q1"
    "kthread_cpu_map s2 = kthread_cpu_map s1" "\<forall>j. 1 \<le> j \<and> j < n \<longrightarrow> prepared (ks j) s2"
    using app_init_others_ok [OF s1(2) sys' ks] by blast
  have "k \<notin> {k0} \<and> prepared k s2 \<and> apic < 16" if "(k, pid, tid, apic) \<in> set hs" for k pid tid apic
  proof -
    have "k \<in> ks ` {1..<n}" using that hs(1) by force
    moreover have "apic < 16" using that apics(2) by force
    ultimately show ?thesis using s2(4) sys' by auto
  qed
  then have h: "\<forall>(k, pid, tid, apic)\<in>set hs. k \<notin> {k0} \<and> prepared k s2 \<and> apic < 16" by blast
  let ?m = "map (\<lambda>(k, pid, tid, apic). (apic, k)) hs"
  obtain s3 Q where s3: "run_handlers hs s2 = Inr s3" "sys_ok (fst ` set hs \<union> {k0}) {} s3 Q"
    "kthread_cpu_map s3 = kthread_cpu_map s2 ++ map_of (rev ?m)" using run_handlers_ok [OF s2(2) hs(2) h] by blast
  have fm: "map fst ?m = map (snd \<circ> snd \<circ> snd) hs" by auto
  have "{i. i < 16 \<and> kthread_cpu_map s3 i \<noteq> None} = set (a0 # map (snd \<circ> snd \<circ> snd) hs)"
  proof -
    have "dom (kthread_cpu_map s3) = insert a0 (set (map fst ?m))"
      unfolding s3(3) s2(3) s1(3) by (simp add: dom_map_of_conv_image_fst image_image)
    then have "{i. kthread_cpu_map s3 i \<noteq> None} = set (a0 # map (snd \<circ> snd \<circ> snd) hs)"
      unfolding fm by (simp add: dom_def)
    with apics(2) show ?thesis by blast
  qed
  then have "init_done s3 = Suc (length hs)"
    unfolding init_done_card by (simp only: distinct_card [OF apics(1)]) simp
  moreover have "length hs = card (ks ` {1..<n})" using distinct_card [OF hs(2)] hs(1) by simp
  then have "length hs = n - 1" using card_image [OF ks] by simp
  ultimately have "app_init_round (num_cpus_of sysconf) s3 = Inr (Some (s3\<lparr>is_kernel_thread_ready := 1\<rparr>))"
    using n by (simp add: app_init_round_def)
  moreover have "fst ` set hs \<union> {k0} = insert k0 (ks ` {1..<n})" using hs(1) by simp
  then have "sys_ok (insert k0 (ks ` {1..<n})) {} s3 Q" using s3(2) by simp
  then have "sys_ok (insert k0 (ks ` {1..<n})) {} (s3\<lparr>is_kernel_thread_ready := 1\<rparr>) Q"
    by (rule sys_ok_ready)
  ultimately show ?thesis using s1(1) s2(1) s3(1) by blast
qed

subsection \<open>Handlers and loops keep the invariant\<close>

lemma ksched_priority_any:
  assumes ok: "sys_ok K U s Q" and e: "sys_calls_ok e" and apic: "apic < 16"
    and map: "kthread_cpu_map s apic = Some k" and lb: "lb_on s \<longrightarrow> lb_mapped apic s"
  shows "if stuck apic k s (put_away e k s Q) then ksched_priority e apic s = Inl Undefined
    else \<exists>out s' Q'. ksched_priority e apic s = Inr (relay_targets apic s, out, s') \<and>
      sys_ok K U s' Q' \<and> same_config s s' \<and> dispatched K U k s (put_away e k s Q) out s' Q' \<and>
      keeps_credits (uths_away e k s) (uths s')"
  using uthread_schedule_any [OF assms] apic by (auto simp: ksched_priority_def split: if_splits)

lemma ksched_priority_ok:
  assumes ok: "sys_ok K U s Q" and e: "sys_calls_ok e" and apic: "apic < 16"
    and map: "kthread_cpu_map s apic = Some k" and lb: "lb_on s \<longrightarrow> lb_mapped apic s"
    and env: "kthread_env (kctxs s k)"
  shows "\<exists>out s' Q'. ksched_priority e apic s = Inr (relay_targets apic s, out, s') \<and>
    sys_ok K U s' Q' \<and> same_config s s' \<and> dispatched K U k s (put_away e k s Q) out s' Q' \<and>
    keeps_credits (uths_away e k s) (uths s')"
  using ksched_priority_any [OF assms(1-5)] env by (simp add: stuck_def)

text \<open>A group number beyond the array ends the creation.\<close>

lemma uthread_create_group_range:
  assumes "locked (ksched_lock (ksched_shared_info s)) = 0" "locked (malloc_lock (ksched_shared_info s)) = 0"
    and "32 \<le> unat gid"
  shows "uthread_create (Some u) (Some sp) timer now f a gid creds s = Inl OutOfBounds"
  using assms
  by (simp add: uthread_create_def MALLOC_eq ksched_find_target_def Let_def del: UTHREAD_INIT_def DEFAULT_UTHREAD_PRIORITY_def)

lemma sys_ok_upd_kctx: "sys_ok K U s Q \<Longrightarrow> sys_ok K U (upd_kctx k f s) Q"
  by (rule sys_okI) (auto simp: sys_ok_def kt_ok_def places_ok_def uths_ok_def info_ok_def tids_ok_def currents_def)

lemma app_loop_iter_ok:
  assumes ok: "sys_ok K U s Q" and e: "sys_calls_ok e" and apic: "apic < 16"
    and map: "kthread_cpu_map s apic = Some k" and lb: "lb_on s \<longrightarrow> lb_mapped apic s"
    and go: "kthread_flags (kctxs s k) AND KTHREAD_DONE = 0"
  shows "\<exists>out s' Q'. app_loop_iter e apic k s = Inr (Some (out, s')) \<and>
    sys_ok K U s' Q' \<and> dispatched K U k s (put_away e k s Q) out s' Q' \<and>
    same_config (upd_kctx k (\<lambda>c. c\<lparr>kthread_env := True\<rparr>) s) s' \<and> keeps_credits (uths_away e k s) (uths s')"
proof -
  let ?s = "upd_kctx k (\<lambda>c. c\<lparr>kthread_env := True\<rparr>) s"
  have ok1: "sys_ok K U ?s Q" using ok by (rule sys_ok_upd_kctx)
  have lb1: "lb_on ?s \<longrightarrow> lb_mapped apic ?s" using lb by (auto simp: lb_on_def lb_mapped_def)
  obtain out s' Q' where s': "uthread_schedule e sched_find_best_uthread apic ?s = Inr (out, s')"
    "sys_ok K U s' Q'" "same_config ?s s'" "dispatched K U k ?s (put_away e k ?s Q) out s' Q'"
    "keeps_credits (uths_away e k ?s) (uths s')"
    using uthread_schedule_ok [OF ok1 e apic _ lb1, of k] map by auto
  moreover have "put_away e k ?s Q = put_away e k s Q"
    by (cases "cur_uthread (krunqs s k)") (simp_all add: put_away_def leave_head_def Let_def)
  moreover have "uths_away e k ?s = uths_away e k s"
    by (cases "cur_uthread (krunqs s k)") (simp_all add: uths_away_def Let_def)
  moreover have "dispatched K U k ?s Q1 out s' Q' = dispatched K U k s Q1 out s' Q'" for Q1
    by (rule dispatched_cong) simp
  ultimately show ?thesis using go by (auto simp: app_loop_iter_def)
qed

text \<open>A kthread that finds nothing on its active runqueue but has uthreads on the other one gets one of
  them with its second iteration.\<close>

lemma app_loop_two_iterations:
  assumes ok: "sys_ok K U s Q" and e: "sys_calls_ok e" and apic: "apic < 16"
    and map: "kthread_cpu_map s apic = Some k" and idle: "cur_uthread (krunqs s k) = None"
    and go: "kthread_flags (kctxs s k) AND KTHREAD_DONE = 0" and lb: "\<not> lb_on s"
    and emp: "rq_size Q (active s k) = 0" and ne: "rq_size Q (expires s k) \<noteq> 0"
  shows "\<exists>s1 s2 p g. app_loop_iter e apic k s = Inr (Some (BackToKthread, s1)) \<and>
    best_slot Q (expires s k) p g \<and>
    app_loop_iter e apic k s1 = Inr (Some (RunUthread (hd (Q (PrioGroup (expires s k) p g))), s2))"
proof -
  let ?s = "upd_kctx k (\<lambda>c. c\<lparr>kthread_env := True\<rparr>) s"
  note inv = sys_okD [OF ok]
  have k: "k \<in> K" using inv(2) map by (auto simp: kt_ok_def)
  have ok1: "sys_ok K U ?s Q" using ok by (rule sys_ok_upd_kctx)
  note inv1 = sys_okD [OF ok1]
  have lb1: "\<not> lb_on ?s" using lb by (simp add: lb_on_def)
  have find: "sched_find_best_uthread apic k ?s = Inr (None, swapped k (released k 4 ?s))" (is "_ = Inr (None, ?t)")
    using sched_empty_cases [OF inv1(1,2) k apic] emp lb1 by (auto simp: first_victim_def)
  have H: "expires s k \<in> Rs K" using inv(2) k by (rule kt_ok_expires_in_Rs)
  have some: "ready K Q \<noteq> {}"
  proof -
    obtain p g where b: "best_slot Q (expires s k) p g" using find_best_ok [OF inv(1) H ne] by blast
    let ?u = "hd (Q (PrioGroup (expires s k) p g))"
    have "\<forall>i. cur_uthread (krunqs (upd_krunq k (\<lambda>q. q\<lparr>cur_uthread := Some ?u\<rparr>) s) i) =
        (if i = k then Some ?u else cur_uthread (krunqs s i))" by simp
    from places_run(5) [OF ok k idle H b refl this] show ?thesis by blast
  qed
  then have live: "\<not> U \<subseteq> zombies K Q" using inv(3) by (auto simp: places_ok_def ready_def)
  have cur0: "kthread_cur_uthreads (ksched_shared_info s) \<noteq> 0"
  proof
    assume "kthread_cur_uthreads (ksched_shared_info s) = 0"
    then have "card (U - zombies K Q) = 0" using inv(5) by (simp add: info_ok_def)
    then show False using live inv(3) by (simp add: places_ok_def)
  qed
  have run1: "app_loop_iter e apic k s = Inr (Some (BackToKthread, ?t))"
    using go apic map idle find cur0
    by (simp add: app_loop_iter_def uthread_schedule_def leave_cur_def dispatch_def swapped_def released_def)
  have env: "upd_kctx k (\<lambda>c. c\<lparr>kthread_env := True\<rparr>) ?t = ?t"
    by (simp add: swapped_def released_def upd_kctx_def upd_krunq_def)
  have ok2: "sys_ok K U ?t Q"
  proof (rule sys_ok_same_threads [OF ok1])
    show "same_threads ?s ?t" using same_released(1) same_swapped by (rule same_threads_trans)
    show "pq_ok (Hs K) (Rs K) ?t Q" using inv1(1) by (simp add: swapped_def)
    show "kt_ok K ?t" using inv1(2) k by (simp add: kt_ok_swapped)
  qed
  note inv2 = sys_okD [OF ok2]
  have idle2: "cur_uthread (krunqs ?t k) = None" and go2: "kthread_flags (kctxs ?t k) AND KTHREAD_DONE = 0"
    and map2: "kthread_cpu_map ?t apic = Some k" and env2: "kthread_env (kctxs ?t k)"
    using idle go map by (simp_all add: swapped_def)
  have act2: "active ?t k = expires s k" by simp
  then have ne2: "rq_size Q (active ?t k) \<noteq> 0" using ne by simp
  have lb2: "lb_on ?t \<longrightarrow> lb_mapped apic ?t" using lb1 by (auto simp: lb_on_def swapped_def)
  obtain p g s2 where d: "best_slot Q (active ?t k) p g"
    "dispatch e sched_find_best_uthread apic k ?t = Inr (RunUthread (hd (Q (PrioGroup (active ?t k) p g))), s2)"
    using dispatch_active [OF ok2 idle2 e apic map2 lb2 env2 ne2] by blast
  then have "app_loop_iter e apic k ?t = Inr (Some (RunUthread (hd (Q (PrioGroup (expires s k) p g))), s2))"
    using go2 apic map2 idle2 d(2) act2 env by (simp add: app_loop_iter_def uthread_schedule_def leave_cur_def)
  with run1 d(1) act2 show ?thesis by auto
qed

end
