(* ===== verification/GT_System.thy ===== *)
theory GT_System
  imports GT_Kthread
begin

unbundle bit_operations_syntax

text \<open>
  The library as a whole, as a state machine. A step is one of the ways control enters it: the timer
  signal, the relayed signal, a uthread that yields or returns from its function, an iteration of the
  loop of an idle kthread, and the creation of a uthread. Each of them is taken as one atomic step;
  what is shown is which of them fault, and that every reachable state satisfies the invariant. When a
  signal can be taken at all, and what one in the middle of a step does, is in \<open>GT_Signal\<close>.

  The state is paired with the set of the uthreads created so far.
\<close>

datatype gt_event =
    Timer_signal
  | Relay_signal
  | Yield_call
  | Func_return timeval
  | Loop_iteration
  | Create uid nat uthread_timer_t timeval nat nat u32 int

type_synonym gt_sys = "gt_state \<times> uid set"

text \<open>The event happens on the processor \<open>apic\<close>.\<close>

fun run_event :: "sys_env \<Rightarrow> nat \<Rightarrow> gt_event \<Rightarrow> gt_state \<Rightarrow> gt_state res" where
  "run_event e apic Timer_signal s = rbind (ksched_priority e apic s) (\<lambda>(_, _, s'). Inr s')"
| "run_event e apic Relay_signal s = rbind (ksched_cosched False False e apic s) (\<lambda>(_, s'). Inr s')"
| "run_event e apic Yield_call s = rbind (gt_yield e apic s) (\<lambda>(_, s'). Inr s')"
| "run_event e apic (Func_return now) s =
     deref (kthread_cpu_map s apic) (\<lambda>k.
     deref (cur_uthread (krunqs s k)) (\<lambda>u.
     rbind (uthread_context_exit e now apic u s) (\<lambda>(_, s'). Inr s')))"
| "run_event e apic Loop_iteration s =
     deref (kthread_cpu_map s apic) (\<lambda>k.
     rbind (app_loop_iter e apic k s) (\<lambda>r. case r of None \<Rightarrow> Inr s | Some (_, s') \<Rightarrow> Inr s'))"
| "run_event e apic (Create u sp timer now f a gid creds) s =
     rbind (uthread_create (Some u) (Some sp) (Some timer) now f a gid creds s) (\<lambda>(_, _, s'). Inr s')"

fun created_by :: "gt_event \<Rightarrow> uid set" where
  "created_by (Create u sp timer now f a gid creds) = {u}"
| "created_by _ = {}"

text \<open>When an event can happen at all: the loop of a kthread goes on when no uthread runs on it, a uthread's
  function returns on the kthread that runs it, and the memory of a new uthread is fresh. A signal can
  arrive at any time, and \<open>gt_yield\<close> and \<open>uthread_create\<close> can be called from anywhere with any group
  and any number of uthreads; the credits are taken to be at least 0 and less than \<open>2^23\<close> (\<open>main\<close>
  passes 0, 25, 50, 75 or 100).\<close>

fun possible :: "kid \<Rightarrow> gt_event \<Rightarrow> gt_sys \<Rightarrow> bool" where
  "possible k Loop_iteration (s, U) \<longleftrightarrow> cur_uthread (krunqs s k) = None"
| "possible k (Func_return now) (s, U) \<longleftrightarrow> cur_uthread (krunqs s k) \<noteq> None"
| "possible k (Create u sp timer now f a gid creds) (s, U) \<longleftrightarrow> u \<notin> U \<and> 0 \<le> creds \<and> creds < 2 ^ 23"
| "possible k _ (s, U) \<longleftrightarrow> True"

text \<open>When a possible event ends in undefined behaviour, and in which: a decision that finds nothing to run
  on a kthread that never saved its own context, a yield outside a uthread, a group beyond 31, and more
  than 128 uthreads. \<open>Q\<close> are the contents of the queues.\<close>

definition stuck_fault :: "nat \<Rightarrow> kid \<Rightarrow> gt_state \<Rightarrow> (rq_head \<Rightarrow> uid list) \<Rightarrow> fault option" where
  "stuck_fault apic k s Q = (if stuck apic k s Q then Some Undefined else None)"

fun event_fault :: "sys_env \<Rightarrow> nat \<Rightarrow> kid \<Rightarrow> (rq_head \<Rightarrow> uid list) \<Rightarrow> gt_event \<Rightarrow> gt_sys \<Rightarrow> fault option" where
  "event_fault e apic k Q Loop_iteration (s, U) = None"
| "event_fault e apic k Q Yield_call (s, U) =
     (case cur_uthread (krunqs s k) of None \<Rightarrow> Some NullDeref
      | Some u \<Rightarrow> stuck_fault apic k s (put_away e k (yielding u s) Q))"
| "event_fault e apic k Q (Func_return now) (s, U) =
     (case cur_uthread (krunqs s k) of None \<Rightarrow> Some NullDeref
      | Some u \<Rightarrow> stuck_fault apic k s (put_away e k (returning now u s) Q))"
| "event_fault e apic k Q (Create u sp timer now f a gid creds) (s, U) =
     (if 32 \<le> unat gid \<or> 128 \<le> card U then Some OutOfBounds else None)"
| "event_fault e apic k Q _ (s, U) = stuck_fault apic k s (put_away e k s Q)"

text \<open>The events of an application that keeps within these limits. A signal is handled by a kthread that
  has entered its loop, which has saved its context; groups are below 32 and at most 128 uthreads are
  created.\<close>

fun enabled :: "nat \<Rightarrow> kid \<Rightarrow> gt_event \<Rightarrow> gt_sys \<Rightarrow> bool" where
  "enabled apic k Loop_iteration (s, U) \<longleftrightarrow>
     cur_uthread (krunqs s k) = None \<and> kthread_flags (kctxs s k) AND KTHREAD_DONE = 0"
| "enabled apic k Yield_call (s, U) \<longleftrightarrow> kthread_env (kctxs s k) \<and> cur_uthread (krunqs s k) \<noteq> None"
| "enabled apic k (Func_return now) (s, U) \<longleftrightarrow> kthread_env (kctxs s k) \<and> cur_uthread (krunqs s k) \<noteq> None"
| "enabled apic k (Create u sp timer now f a gid creds) (s, U) \<longleftrightarrow>
     u \<notin> U \<and> unat gid < 32 \<and> card U < 128 \<and> 0 \<le> creds \<and> creds < 2 ^ 23"
| "enabled apic k _ (s, U) \<longleftrightarrow> kthread_env (kctxs s k)"

text \<open>What is taken for granted of the system: the signal calls succeed, and the clock gives the
  uthread that is put away a time slice of at most \<open>2^24\<close> microseconds.\<close>

definition sys_fair :: "sys_env \<Rightarrow> kid \<Rightarrow> gt_state \<Rightarrow> bool" where
  "sys_fair e k s \<longleftrightarrow> sys_calls_ok e \<and>
     (case cur_uthread (krunqs s k) of None \<Rightarrow> True | Some u \<Rightarrow> slice_ok (now_end e) (uths s u))"

inductive gt_step :: "gt_sys \<Rightarrow> gt_sys \<Rightarrow> bool" where
  event: "apic < 16 \<Longrightarrow> kthread_cpu_map s apic = Some k \<Longrightarrow> enabled apic k ev (s, U) \<Longrightarrow> sys_fair e k s \<Longrightarrow>
    run_event e apic ev s = Inr s' \<Longrightarrow> gt_step (s, U) (s', U \<union> created_by ev)"

inductive_cases gt_stepE: "gt_step x y"

text \<open>The steps of any application: every possible event that does not fault.\<close>

inductive gt_any_step :: "gt_sys \<Rightarrow> gt_sys \<Rightarrow> bool" where
  event: "apic < 16 \<Longrightarrow> kthread_cpu_map s apic = Some k \<Longrightarrow> possible k ev (s, U) \<Longrightarrow> sys_fair e k s \<Longrightarrow>
    run_event e apic ev s = Inr s' \<Longrightarrow> gt_any_step (s, U) (s', U \<union> created_by ev)"

inductive_cases gt_any_stepE: "gt_any_step x y"

definition lb_all :: "gt_state \<Rightarrow> bool" where
  "lb_all s \<longleftrightarrow> (lb_on s \<longrightarrow> (\<forall>apic. kthread_cpu_map s apic \<noteq> None \<longrightarrow> lb_mapped apic s))"

definition gt_inv :: "kid set \<Rightarrow> gt_sys \<Rightarrow> bool" where
  "gt_inv K x \<longleftrightarrow> (\<exists>Q. sys_ok K (snd x) (fst x) Q) \<and> lb_all (fst x) \<and> (\<forall>u\<in>snd x. credit_ok (uths (fst x) u))"

definition gt_init :: "kid set \<Rightarrow> gt_sys \<Rightarrow> bool" where
  "gt_init K x \<longleftrightarrow> snd x = {} \<and> (\<exists>Q. sys_ok K {} (fst x) Q) \<and> lb_all (fst x)"

lemma lb_all_config: "same_config s s' \<Longrightarrow> lb_all s \<Longrightarrow> lb_all s'"
  unfolding lb_all_def by (simp add: same_config_lb) (simp add: same_config_def)

lemma credit_ok_cong:
  "credits y = credits x \<Longrightarrow> initial_credits y = initial_credits x \<Longrightarrow> credit_ok y = credit_ok x"
  by (simp add: credit_ok_def)

lemma credits_away:
  assumes cr: "\<forall>u\<in>U. credit_ok (uths s u)" and fair: "sys_fair e k s" and keep: "keeps_credits (uths_away e k t) f"
    and t: "krunqs t = krunqs s" "is_credit_scheduler t = is_credit_scheduler s"
      "\<And>u. credits (uths t u) = credits (uths s u)" "\<And>u. initial_credits (uths t u) = initial_credits (uths s u)"
      "\<And>u. start_running_time_step (uths t u) = start_running_time_step (uths s u)"
  shows "\<forall>u\<in>U. credit_ok (f u)"
proof
  fix v assume v: "v \<in> U"
  have crt: "credit_ok (uths t v)" using cr v t(3,4) by (simp add: credit_ok_def)
  have "credit_ok (uths_away e k t v)"
  proof (cases "cur_uthread (krunqs s k)")
    case None
    with crt t(1) show ?thesis by (simp add: uths_away_def)
  next
    case (Some u)
    have "slice_ok (now_end e) (uths t u)" using fair Some t(5) by (simp add: sys_fair_def slice_ok_def)
    then show ?thesis using crt leave_credit_ok Some t(1) by (auto simp: uths_away_def Let_def)
  qed
  then show "credit_ok (f v)" using keep by (simp add: keeps_credits_def credit_ok_def)
qed

text \<open>A possible event faults just as \<open>event_fault\<close> says; else it runs to completion and keeps the
  invariant.\<close>

lemma run_event_any:
  assumes ok: "sys_ok K U s Q" and lba: "lb_all s" and cr: "\<forall>u\<in>U. credit_ok (uths s u)" and apic: "apic < 16"
    and map: "kthread_cpu_map s apic = Some k" and po: "possible k ev (s, U)" and fair: "sys_fair e k s"
  shows "case event_fault e apic k Q ev (s, U) of Some f \<Rightarrow> run_event e apic ev s = Inl f
    | None \<Rightarrow> \<exists>s'. run_event e apic ev s = Inr s' \<and> gt_inv K (s', U \<union> created_by ev)"
proof -
  have e: "sys_calls_ok e" using fair by (simp add: sys_fair_def)
  have lb: "lb_on s \<longrightarrow> lb_mapped apic s" using lba map by (simp add: lb_all_def)
  have kept: "gt_inv K (s', U)" if "sys_ok K U s' Q'" "same_config s s'" "keeps_credits (uths_away e k t) (uths s')"
    "krunqs t = krunqs s" "is_credit_scheduler t = is_credit_scheduler s"
    "\<And>u. credits (uths t u) = credits (uths s u)" "\<And>u. initial_credits (uths t u) = initial_credits (uths s u)"
    "\<And>u. start_running_time_step (uths t u) = start_running_time_step (uths s u)" for s' Q' t
    using that(1) lb_all_config [OF that(2) lba] credits_away [OF cr fair that(3-8)] by (auto simp: gt_inv_def)
  show ?thesis
  proof (cases ev)
    case Timer_signal
    then show ?thesis using ksched_priority_any [OF ok e apic map lb] kept [of _ _ s]
      by (auto simp: stuck_fault_def split: if_splits)
  next
    case Relay_signal
    then show ?thesis using uthread_schedule_any [OF ok e apic map lb] kept [of _ _ s] apic
      by (auto simp: stuck_fault_def ksched_cosched_def split: if_splits)
  next
    case Yield_call
    show ?thesis
    proof (cases "cur_uthread (krunqs s k)")
      case None
      then show ?thesis using Yield_call apic map by (simp add: gt_yield_def)
    next
      case (Some u)
      then show ?thesis using gt_yield_any [OF ok e apic map lb Some] kept [of _ _ "yielding u s"] Yield_call
        by (auto simp: stuck_fault_def split: if_splits)
    qed
  next
    case (Func_return now)
    then obtain u where u: "cur_uthread (krunqs s k) = Some u" using po by auto
    then show ?thesis using uthread_context_exit_any [OF ok e apic map lb u, of now] kept [of _ _ "returning now u s"] Func_return map
      by (auto simp: stuck_fault_def split: if_splits)
  next
    case Loop_iteration
    show ?thesis
    proof (cases "kthread_flags (kctxs s k) AND KTHREAD_DONE = 0")
      case False
      moreover have "gt_inv K (s, U)" using ok lba cr by (auto simp: gt_inv_def)
      ultimately show ?thesis using Loop_iteration map by (simp add: app_loop_iter_def)
    next
      case True
      let ?t = "upd_kctx k (\<lambda>c. c\<lparr>kthread_env := True\<rparr>) s"
      obtain out s' Q' where s': "app_loop_iter e apic k s = Inr (Some (out, s'))" "sys_ok K U s' Q'"
        "same_config ?t s'" "keeps_credits (uths_away e k s) (uths s')"
        using app_loop_iter_ok [OF ok e apic map lb True] by auto
      have "lb_all ?t" using lba by (auto simp: lb_all_def lb_on_def lb_mapped_def)
      then have "gt_inv K (s', U)"
        using s'(2) lb_all_config [OF s'(3)] credits_away [OF cr fair s'(4)] by (auto simp: gt_inv_def)
      then show ?thesis using s'(1) Loop_iteration map by simp
    qed
  next
    case (Create u sp timer now f a gid creds)
    then have en': "u \<notin> U" "0 \<le> creds" "creds < 2 ^ 23" using po by auto
    have m: "kthread_cpu_map s apic \<noteq> None" using map by simp
    have info: "locked (ksched_lock (ksched_shared_info s)) = 0" "locked (malloc_lock (ksched_shared_info s)) = 0"
      "unat (kthread_tot_uthreads (ksched_shared_info s)) = card U" using sys_okD(5) [OF ok] by (simp_all add: info_ok_def)
    consider "32 \<le> unat gid" | "unat gid < 32" "128 \<le> card U" | "unat gid < 32" "card U < 128" by linarith
    then show ?thesis
    proof cases
      case 1 then show ?thesis using uthread_create_group_range [OF info(1,2)] Create by simp
    next
      case 2 then show ?thesis using uthread_create_out_of_bounds [OF info(1,2) _ m apic] info(3) Create by simp
    next
      case 3
      obtain t k' s' where s': "uthread_create (Some u) (Some sp) (Some timer) now f a gid creds s =
          Inr (0, Some (of_nat (card U)), s')"
        "uths s' = (uths s)(u := new_uthread now f a gid creds (of_nat (card U)) (cpuid (kctxs s k')))" "same_config s s'"
        and ok': "\<exists>Q'. sys_ok K (insert u U) s' Q'"
        using uthread_create_ok [OF ok en'(1) refl 3(1) m apic 3(2)] by metis
      have "\<forall>v\<in>insert u U. credit_ok (uths s' v)" using cr en'(2,3) by (simp add: s'(2) credit_ok_def)
      then show ?thesis using ok' s'(1) lb_all_config [OF s'(3) lba] Create 3 by (simp add: gt_inv_def)
    qed
  qed
qed

lemma enabled_possible: "enabled apic k ev (s, U) \<Longrightarrow> possible k ev (s, U)"
  by (cases ev) auto

lemma enabled_no_fault: "enabled apic k ev (s, U) \<Longrightarrow> event_fault e apic k Q ev (s, U) = None"
  by (cases ev) (auto simp: stuck_fault_def stuck_def)

text \<open>An event within the limits does not fault and keeps the invariant.\<close>

lemma run_event_ok:
  assumes inv: "gt_inv K (s, U)" and apic: "apic < 16" and map: "kthread_cpu_map s apic = Some k"
    and en: "enabled apic k ev (s, U)" and fair: "sys_fair e k s"
  shows "\<exists>s'. run_event e apic ev s = Inr s' \<and> gt_inv K (s', U \<union> created_by ev)"
proof -
  obtain Q where ok: "sys_ok K U s Q" "lb_all s" "\<forall>u\<in>U. credit_ok (uths s u)" using inv by (auto simp: gt_inv_def)
  show ?thesis
    using run_event_any [OF ok apic map enabled_possible [OF en] fair] enabled_no_fault [OF en] by simp
qed

lemma any_step_inv:
  assumes inv: "gt_inv K x" and step: "gt_any_step x y"
  shows "gt_inv K y"
proof -
  obtain apic s k ev U e s' where x: "x = (s, U)" "y = (s', U \<union> created_by ev)" and ev: "apic < 16"
    "kthread_cpu_map s apic = Some k" "possible k ev (s, U)" "sys_fair e k s" "run_event e apic ev s = Inr s'"
    using step by (cases rule: gt_any_stepE)
  obtain Q where ok: "sys_ok K U s Q" "lb_all s" "\<forall>u\<in>U. credit_ok (uths s u)" using inv x(1) by (auto simp: gt_inv_def)
  show ?thesis using run_event_any [OF ok ev(1-4)] ev(5) x(2) by (cases "event_fault e apic k Q ev (s, U)") auto
qed

lemma gt_any_stepI: "gt_step x y \<Longrightarrow> gt_any_step x y"
  by (cases rule: gt_stepE) (auto intro: gt_any_step.event dest: enabled_possible)

lemma gt_any_stepsI: "gt_step\<^sup>*\<^sup>* x y \<Longrightarrow> gt_any_step\<^sup>*\<^sup>* x y"
  using rtranclp_mono [of gt_step gt_any_step] gt_any_stepI by blast

interpretation gt: invariant_system "gt_init K" gt_any_step "gt_inv K" for K
proof
  show "gt_inv K x" if "gt_init K x" for x
    using that by (cases x) (auto simp: gt_init_def gt_inv_def)
  show "gt_inv K y" if "gt_inv K x" "gt_any_step x y" for x y
    using any_step_inv [OF that] .
qed

lemma reachable_faults:
  assumes "gt_init K x" and "gt_any_step\<^sup>*\<^sup>* x (s, U)" and "apic < 16" and "kthread_cpu_map s apic = Some k"
    and "possible k ev (s, U)" and "sys_fair e k s"
  shows "\<exists>Q. sys_ok K U s Q \<and>
    (case event_fault e apic k Q ev (s, U) of Some f \<Rightarrow> run_event e apic ev s = Inl f
     | None \<Rightarrow> \<exists>s'. run_event e apic ev s = Inr s' \<and> gt_inv K (s', U \<union> created_by ev))"
proof -
  obtain Q where ok: "sys_ok K U s Q" "lb_all s" "\<forall>u\<in>U. credit_ok (uths s u)"
    using gt.reachable_inv [OF assms(1,2)] by (auto simp: gt_inv_def)
  then show ?thesis using run_event_any [OF ok assms(3-6)] by blast
qed

end
