(* ===== verification/GT_Signal.thy ===== *)
theory GT_Signal
  imports GT_System
begin

unbundle bit_operations_syntax

text \<open>
  gt_signal.c, and the signals of the library: which handler is installed, which signals each kthread
  blocks, and what a signal that arrives does to the scheduler.

  The kthreads are cloned with \<open>CLONE_SIGHAND\<close> and without \<open>CLONE_THREAD\<close>: they share one table of
  handlers (\<open>sig_action\<close>), and each has a signal mask, a set of pending signals and an interval timer
  of its own. A handler runs with its signal and its \<open>sa_mask\<close> blocked; a context is saved without the
  mask (\<open>sigsetjmp\<close> with 0), so a jump out of a handler leaves the mask as it is. The field \<open>sa_mask\<close> is
  never set by the code: \<open>junk\<close> is what the stack holds there. A null handler is \<open>SIG_DFL\<close>, which for
  these signals ends the process.
\<close>

subsection \<open>The operating system's part\<close>

datatype signo = SIGVTALRM | SIGUSR1 | SIGUSR2

datatype sig_handler = Sched_handler sched_handler | Uthread_context_func

datatype sig_how = SIG_BLOCK | SIG_UNBLOCK

record sigaction_t =
  sa_handler :: "sig_handler option"
  sa_mask :: "signo set"

record itimerval =
  it_interval :: timeval
  it_value :: timeval

record sig_state =
  sig_action :: "signo \<Rightarrow> sigaction_t"
  sig_blocked :: "kid \<Rightarrow> signo set"
  sig_pending :: "kid \<Rightarrow> signo set"
  itimer_virtual :: "kid \<Rightarrow> itimerval option"

definition sigaction :: "signo \<Rightarrow> sigaction_t \<Rightarrow> sig_state \<Rightarrow> sig_state" where
  "sigaction sg act x = x\<lparr>sig_action := (sig_action x)(sg := act)\<rparr>"

definition sigprocmask :: "kid \<Rightarrow> sig_how \<Rightarrow> signo set \<Rightarrow> sig_state \<Rightarrow> sig_state" where
  "sigprocmask k how S x =
     x\<lparr>sig_blocked := (sig_blocked x)(k := case how of SIG_BLOCK \<Rightarrow> sig_blocked x k \<union> S | SIG_UNBLOCK \<Rightarrow> sig_blocked x k - S)\<rparr>"

definition setitimer_virtual :: "kid \<Rightarrow> itimerval \<Rightarrow> sig_state \<Rightarrow> sig_state" where
  "setitimer_virtual k t x = x\<lparr>itimer_virtual := (itimer_virtual x)(k := Some t)\<rparr>"

definition raise_signal :: "signo \<Rightarrow> kid \<Rightarrow> sig_state \<Rightarrow> sig_state" where
  "raise_signal sg k x = x\<lparr>sig_pending := (sig_pending x)(k := insert sg (sig_pending x k))\<rparr>"

definition deliverable :: "kid \<Rightarrow> signo \<Rightarrow> sig_state \<Rightarrow> bool" where
  "deliverable k sg x \<longleftrightarrow> sg \<in> sig_pending x k \<and> sg \<notin> sig_blocked x k"

text \<open>The state in which the handler of a signal starts.\<close>

definition enter_handler :: "kid \<Rightarrow> signo \<Rightarrow> sig_state \<Rightarrow> sig_state" where
  "enter_handler k sg x =
     x\<lparr>sig_pending := (sig_pending x)(k := sig_pending x k - {sg}),
       sig_blocked := (sig_blocked x)(k := sig_blocked x k \<union> insert sg (sa_mask (sig_action x sg)))\<rparr>"

subsection \<open>gt_signal.c\<close>

definition KTHREAD_VTALRM_SEC :: int where [simp]: "KTHREAD_VTALRM_SEC = 0"
definition KTHREAD_VTALRM_USEC :: int where [simp]: "KTHREAD_VTALRM_USEC = 100000"

definition kthread_install_sighandler ::
  "signo set \<Rightarrow> kid \<Rightarrow> signo \<Rightarrow> sig_handler option \<Rightarrow> sig_state \<Rightarrow> sig_state" where
  "kthread_install_sighandler junk k sg h x =
     sigprocmask k SIG_UNBLOCK {sg} (sigaction sg \<lparr>sa_handler = h, sa_mask = junk\<rparr> x)"

definition kthread_block_signal :: "kid \<Rightarrow> signo \<Rightarrow> sig_state \<Rightarrow> sig_state" where
  "kthread_block_signal k sg x = sigprocmask k SIG_BLOCK {sg} x"

definition kthread_unblock_signal :: "kid \<Rightarrow> signo \<Rightarrow> sig_state \<Rightarrow> sig_state" where
  "kthread_unblock_signal k sg x = sigprocmask k SIG_UNBLOCK {sg} x"

definition kthread_init_vtalrm_timeslice :: "kid \<Rightarrow> sig_state \<Rightarrow> sig_state" where
  "kthread_init_vtalrm_timeslice k x =
     setitimer_virtual k
       \<lparr>it_interval = \<lparr>tv_sec = KTHREAD_VTALRM_SEC, tv_usec = KTHREAD_VTALRM_USEC\<rparr>,
        it_value = \<lparr>tv_sec = KTHREAD_VTALRM_SEC, tv_usec = KTHREAD_VTALRM_USEC\<rparr>\<rparr> x"

subsection \<open>The signal calls of the library\<close>

text \<open>The signal calls of \<open>uthread_init\<close>. The SIGUSR2 that the kthread sends to itself is handled before
  \<open>tkill\<close> returns, and the handler returns, so it leaves nothing behind here; what the handler does to
  the uthread is \<open>uthread_context_save\<close>.\<close>

definition uthread_init_signals :: "signo set \<Rightarrow> kid \<Rightarrow> sig_state \<Rightarrow> sig_state" where
  "uthread_init_signals junk k x =
     (let oldact = sig_action x SIGUSR2;
          x1 = sigaction SIGUSR2 \<lparr>sa_handler = Some Uthread_context_func, sa_mask = junk\<rparr> x;
          x2 = sigprocmask k SIG_UNBLOCK {SIGUSR2} x1;
          x3 = sigprocmask k SIG_BLOCK {SIGUSR2} x2
      in sigaction SIGUSR2 oldact x3)"

text \<open>The signal calls on the way to a chosen uthread, which is \<open>fresh\<close> when it has not run yet.\<close>

definition dispatch_signals ::
  "(signo \<Rightarrow> signo set) \<Rightarrow> kid \<Rightarrow> bool \<Rightarrow> kthread_context_t \<Rightarrow> sig_state \<Rightarrow> sig_state" where
  "dispatch_signals junk k fresh c x =
     (let x1 = (if fresh then uthread_init_signals (junk SIGUSR2) k x else x);
          x2 = kthread_install_sighandler (junk SIGVTALRM) k SIGVTALRM (map_option Sched_handler (kthread_sched_timer c)) x1
      in kthread_install_sighandler (junk SIGUSR1) k SIGUSR1 (map_option Sched_handler (kthread_sched_relay c)) x2)"

text \<open>\<open>uthread_schedule\<close> with its effect on the signals.\<close>

definition uthread_schedule_sig ::
  "(signo \<Rightarrow> signo set) \<Rightarrow> sys_env \<Rightarrow> best_sched \<Rightarrow> nat \<Rightarrow> gt_state \<times> sig_state \<Rightarrow>
   (sched_outcome \<times> gt_state \<times> sig_state) res" where
  "uthread_schedule_sig junk e best apic y =
     (case y of (s, x) \<Rightarrow>
      in_bounds apic GT_MAX_KTHREADS (
      deref (kthread_cpu_map s apic) (\<lambda>k.
      rbind (leave_cur e k s) (\<lambda>s1.
      rbind (best apic k s1) (\<lambda>(r, s2).
      rbind (dispatch e best apic k s1) (\<lambda>(out, s').
      Inr (out, s', case r of None \<Rightarrow> x
                    | Some u \<Rightarrow> dispatch_signals junk k (uthread_state (uths s2 u) = UTHREAD_INIT) (kctxs s' k) x)))))))"

text \<open>SIGUSR1 for the kthread with the number \<open>tid\<close>.\<close>

definition tkill_usr1 :: "gt_state \<Rightarrow> u32 \<Rightarrow> sig_state \<Rightarrow> sig_state" where
  "tkill_usr1 s tid x =
     x\<lparr>sig_pending := (\<lambda>k. if Some k \<in> set (map (kthread_cpu_map s) [0..<GT_MAX_KTHREADS]) \<and> k_tid (kctxs s k) = tid
                           then insert SIGUSR1 (sig_pending x k) else sig_pending x k)\<rparr>"

definition run_handler ::
  "(signo \<Rightarrow> signo set) \<Rightarrow> sys_env \<Rightarrow> nat \<Rightarrow> sched_handler \<Rightarrow> gt_state \<times> sig_state \<Rightarrow>
   (sched_outcome \<times> gt_state \<times> sig_state) res" where
  "run_handler junk e apic h y =
     (case y of (s, x) \<Rightarrow>
      case h of
        Ksched_priority \<Rightarrow>
          in_bounds apic GT_MAX_KTHREADS (
          uthread_schedule_sig junk e sched_find_best_uthread apic (s, fold (tkill_usr1 s) (relay_targets apic s) x))
      | Ksched_cosched \<Rightarrow>
          in_bounds apic GT_MAX_KTHREADS (uthread_schedule_sig junk e sched_find_best_uthread apic (s, x)))"

text \<open>A pending signal is taken by the kthread that runs on the processor \<open>apic\<close>. The handlers of the
  two scheduling signals do not return; that of SIGUSR2 does, and its mask is restored.\<close>

definition take_signal ::
  "(signo \<Rightarrow> signo set) \<Rightarrow> sys_env \<Rightarrow> nat \<Rightarrow> signo \<Rightarrow> gt_state \<times> sig_state \<Rightarrow>
   (sched_outcome option \<times> gt_state \<times> sig_state) res" where
  "take_signal junk e apic sg y =
     (case y of (s, x) \<Rightarrow>
      deref (kthread_cpu_map s apic) (\<lambda>k.
      case sa_handler (sig_action x sg) of
        None \<Rightarrow> Inl KilledBySignal
      | Some (Sched_handler h) \<Rightarrow>
          rbind (run_handler junk e apic h (s, enter_handler k sg x)) (\<lambda>(out, y'). Inr (Some out, y'))
      | Some Uthread_context_func \<Rightarrow>
          rbind (uthread_context_save apic s) (\<lambda>s'.
          Inr (None, s', x\<lparr>sig_pending := (sig_pending x)(k := sig_pending x k - {sg})\<rparr>))))"

text \<open>The other ways into \<open>uthread_schedule\<close>, with their effect on the signals.\<close>

definition gt_yield_sig ::
  "(signo \<Rightarrow> signo set) \<Rightarrow> sys_env \<Rightarrow> nat \<Rightarrow> gt_state \<times> sig_state \<Rightarrow> (sched_outcome \<times> gt_state \<times> sig_state) res" where
  "gt_yield_sig junk e apic y =
     (case y of (s, x) \<Rightarrow>
      in_bounds apic GT_MAX_KTHREADS (
      deref (kthread_cpu_map s apic) (\<lambda>k.
      deref (cur_uthread (krunqs s k)) (\<lambda>u_obj.
      uthread_schedule_sig junk e sched_find_best_uthread apic
        (upd_uth u_obj (\<lambda>x. x\<lparr>is_yield_valid := 1\<rparr>) s, x)))))"

definition uthread_context_exit_sig ::
  "(signo \<Rightarrow> signo set) \<Rightarrow> sys_env \<Rightarrow> timeval \<Rightarrow> nat \<Rightarrow> uid \<Rightarrow> gt_state \<times> sig_state \<Rightarrow>
   (sched_outcome \<times> gt_state \<times> sig_state) res" where
  "uthread_context_exit_sig junk e now apic u y =
     (case y of (s, x) \<Rightarrow>
      uthread_schedule_sig junk e sched_find_best_uthread apic
        (upd_uth u (\<lambda>x. x\<lparr>uthread_state := UTHREAD_DONE, total_running_time_end := now\<rparr>) s, x))"

definition app_loop_iter_sig ::
  "(signo \<Rightarrow> signo set) \<Rightarrow> sys_env \<Rightarrow> nat \<Rightarrow> kid \<Rightarrow> gt_state \<times> sig_state \<Rightarrow>
   (sched_outcome \<times> gt_state \<times> sig_state) option res" where
  "app_loop_iter_sig junk e apic k y =
     (case y of (s, x) \<Rightarrow>
      if kthread_flags (kctxs s k) AND KTHREAD_DONE \<noteq> 0 then Inr None
      else rbind (uthread_schedule_sig junk e sched_find_best_uthread apic
                    (upd_kctx k (\<lambda>c. c\<lparr>kthread_env := True\<rparr>) s, x)) (\<lambda>r. Inr (Some r)))"

text \<open>What \<open>gtthread_app_init\<close> does to the signals of the main kthread, after its \<open>kthread_init\<close>, and
  what \<open>gtthread_app_exit\<close> does after its loop.\<close>

definition app_init_signals :: "(signo \<Rightarrow> signo set) \<Rightarrow> kid \<Rightarrow> kthread_context_t \<Rightarrow> sig_state \<Rightarrow> sig_state" where
  "app_init_signals junk k c x =
     (let x1 = kthread_init_vtalrm_timeslice k x;
          x2 = kthread_install_sighandler (junk SIGVTALRM) k SIGVTALRM (map_option Sched_handler (kthread_sched_timer c)) x1
      in kthread_install_sighandler (junk SIGUSR1) k SIGUSR1 (map_option Sched_handler (kthread_sched_relay c)) x2)"

definition app_exit_signals :: "kid \<Rightarrow> sig_state \<Rightarrow> sig_state" where
  "app_exit_signals k x = kthread_block_signal k SIGUSR1 (kthread_block_signal k SIGVTALRM x)"

text \<open>A cloned kthread starts with the mask of its creator, no pending signals and no timer.\<close>

definition clone_signals :: "kid \<Rightarrow> kid \<Rightarrow> sig_state \<Rightarrow> sig_state" where
  "clone_signals parent child x =
     x\<lparr>sig_blocked := (sig_blocked x)(child := sig_blocked x parent), sig_pending := (sig_pending x)(child := {}),
       itimer_virtual := (itimer_virtual x)(child := None)\<rparr>"

subsection \<open>The library with its signals, as a state machine\<close>

fun run_event_sig ::
  "(signo \<Rightarrow> signo set) \<Rightarrow> sys_env \<Rightarrow> nat \<Rightarrow> gt_event \<Rightarrow> gt_state \<times> sig_state \<Rightarrow> (gt_state \<times> sig_state) res" where
  "run_event_sig junk e apic Timer_signal y = rbind (take_signal junk e apic SIGVTALRM y) (\<lambda>(_, y'). Inr y')"
| "run_event_sig junk e apic Relay_signal y = rbind (take_signal junk e apic SIGUSR1 y) (\<lambda>(_, y'). Inr y')"
| "run_event_sig junk e apic Yield_call y = rbind (gt_yield_sig junk e apic y) (\<lambda>(_, y'). Inr y')"
| "run_event_sig junk e apic (Func_return now) y =
     deref (kthread_cpu_map (fst y) apic) (\<lambda>k.
     deref (cur_uthread (krunqs (fst y) k)) (\<lambda>u.
     rbind (uthread_context_exit_sig junk e now apic u y) (\<lambda>(_, y'). Inr y')))"
| "run_event_sig junk e apic Loop_iteration y =
     deref (kthread_cpu_map (fst y) apic) (\<lambda>k.
     rbind (app_loop_iter_sig junk e apic k y) (\<lambda>r. case r of None \<Rightarrow> Inr y | Some (_, y') \<Rightarrow> Inr y'))"
| "run_event_sig junk e apic (Create u sp timer now f a gid creds) y =
     rbind (run_event e apic (Create u sp timer now f a gid creds) (fst y)) (\<lambda>s'. Inr (s', snd y))"

text \<open>A signal event happens when the signal is pending and not blocked.\<close>

fun sig_enabled :: "kid \<Rightarrow> gt_event \<Rightarrow> sig_state \<Rightarrow> bool" where
  "sig_enabled k Timer_signal x = deliverable k SIGVTALRM x"
| "sig_enabled k Relay_signal x = deliverable k SIGUSR1 x"
| "sig_enabled k _ x = True"

type_synonym sig_sys = "gt_sys \<times> sig_state"

inductive sig_step :: "sig_sys \<Rightarrow> sig_sys \<Rightarrow> bool" where
  event: "apic < 16 \<Longrightarrow> kthread_cpu_map s apic = Some k \<Longrightarrow> enabled apic k ev (s, U) \<Longrightarrow> sig_enabled k ev x \<Longrightarrow>
    sys_fair e k s \<Longrightarrow> run_event_sig junk e apic ev (s, x) = Inr (s', x') \<Longrightarrow>
    sig_step ((s, U), x) ((s', U \<union> created_by ev), x')"
| timer: "itimer_virtual x k = Some t \<Longrightarrow> sig_step (y, x) (y, raise_signal SIGVTALRM k x)"
| exit_loop: "kthread_cpu_map s apic = Some k \<Longrightarrow> kthread_flags (kctxs s k) AND KTHREAD_DONE \<noteq> 0 \<Longrightarrow>
    cur_uthread (krunqs s k) = None \<Longrightarrow> sig_step ((s, U), x) ((s, U), app_exit_signals k x)"

subsection \<open>What the signal calls change\<close>

lemmas signal_defs = kthread_install_sighandler_def kthread_block_signal_def kthread_unblock_signal_def
  kthread_init_vtalrm_timeslice_def setitimer_virtual_def sigaction_def sigprocmask_def uthread_init_signals_def
  raise_signal_def enter_handler_def tkill_usr1_def app_exit_signals_def

lemma dispatch_signals_sel:
  assumes "y = dispatch_signals junk k fresh c x"
  shows "SIGVTALRM \<notin> sig_blocked y k" "SIGUSR1 \<notin> sig_blocked y k"
    "i \<noteq> k \<Longrightarrow> sig_blocked y i = sig_blocked x i" "sig_pending y = sig_pending x"
    "sa_handler (sig_action y SIGVTALRM) = map_option Sched_handler (kthread_sched_timer c)"
    "sa_handler (sig_action y SIGUSR1) = map_option Sched_handler (kthread_sched_relay c)"
    "itimer_virtual y = itimer_virtual x"
  by (auto simp: assms dispatch_signals_def signal_defs Let_def)

lemma fold_tkill_sel [simp]:
  "sig_blocked (fold (tkill_usr1 s) ts x) = sig_blocked x" "sig_action (fold (tkill_usr1 s) ts x) = sig_action x"
  "itimer_virtual (fold (tkill_usr1 s) ts x) = itimer_virtual x"
  by (induction ts arbitrary: x) (simp_all add: tkill_usr1_def)

lemma enter_handler_sel [simp]:
  "sig_action (enter_handler k sg x) = sig_action x" "i \<noteq> k \<Longrightarrow> sig_blocked (enter_handler k sg x) i = sig_blocked x i"
  "itimer_virtual (enter_handler k sg x) = itimer_virtual x" "sg \<in> sig_blocked (enter_handler k sg x) k"
  by (simp_all add: enter_handler_def)

subsection \<open>Forgetting the signals\<close>

text \<open>A scheduling decision with its signals is the one without, and its effect on the signals depends
  only on the outcome.\<close>

lemma schedule_sig_eq:
  assumes "uthread_schedule e best apic s = Inr (out, s')" and "kthread_cpu_map s apic = Some k"
  shows "\<exists>fresh. uthread_schedule_sig junk e best apic (s, x) =
    Inr (out, s', case out of BackToKthread \<Rightarrow> x | RunUthread _ \<Rightarrow> dispatch_signals junk k fresh (kctxs s' k) x)"
proof -
  obtain s1 where apic: "apic < 16" and s1: "leave_cur e k s = Inr s1" "dispatch e best apic k s1 = Inr (out, s')"
    using assms by (auto simp: uthread_schedule_def result_simps)
  then obtain r s2 where r: "best apic k s1 = Inr (r, s2)" by (auto simp: dispatch_def result_simps)
  show ?thesis
  proof (cases r)
    case None
    then have "out = BackToKthread" using s1(2) r by (auto simp: dispatch_def Let_def split: if_splits)
    then show ?thesis using None apic assms(2) s1 r by (simp add: uthread_schedule_sig_def)
  next
    case (Some u)
    then have "out = RunUthread u" using s1(2) r by (auto simp: dispatch_def Let_def result_simps split: if_splits)
    then show ?thesis using Some apic assms(2) s1 r by (auto simp: uthread_schedule_sig_def)
  qed
qed

lemma schedule_sig_fault:
  "uthread_schedule e best apic s = Inl f \<Longrightarrow> uthread_schedule_sig junk e best apic (s, x) = Inl f"
  by (auto simp: uthread_schedule_def uthread_schedule_sig_def in_bounds_def deref_def rbind_def dispatch_def
      split: if_splits option.splits sum.splits prod.splits)

lemma schedule_sig_Inr:
  assumes "uthread_schedule_sig junk e best apic (s, x) = Inr (out, s', x')" and "kthread_cpu_map s apic = Some k"
  shows "uthread_schedule e best apic s = Inr (out, s') \<and>
    (\<exists>fresh. x' = (case out of BackToKthread \<Rightarrow> x | RunUthread _ \<Rightarrow> dispatch_signals junk k fresh (kctxs s' k) x))"
proof (cases "uthread_schedule e best apic s")
  case (Inl f)
  then show ?thesis using schedule_sig_fault assms(1) by fastforce
next
  case (Inr r)
  then obtain o2 s2 where r: "uthread_schedule e best apic s = Inr (o2, s2)" by (cases r) auto
  then show ?thesis using schedule_sig_eq [OF r assms(2), of junk x] assms(1) by auto
qed

subsection \<open>What a scheduling decision leaves alone\<close>

lemma uthread_init_krunqs: "uthread_init e apic u s = Inr (rc, s') \<Longrightarrow> krunqs s' = krunqs s"
  by (auto simp: uthread_init_def uthread_context_save_def result_simps Let_def split: if_splits)

lemma raw_add_krunqs: "raw_add_to_runqueue rq u s = Inr s' \<Longrightarrow> krunqs s' = krunqs s"
  using raw_add_to_runqueue_eq [of s u _ _ rq] by (cases "unat (uthread_priority (uths s u)) < 32 \<and> unat (uthread_gid (uths s u)) < 32")
    (auto simp: raw_add_to_runqueue_def in_bounds_def Let_def result_simps split: if_splits)

lemma add_to_runqueue_cur:
  "add_to_runqueue rq k u s = Inr s' \<Longrightarrow> cur_uthread (krunqs s' i) = cur_uthread (krunqs s i)"
  by (auto simp: add_to_runqueue_eq released_def result_simps dest!: raw_add_krunqs split: if_splits)

lemma uthread_create_cur:
  assumes "uthread_create u sp timer now f a gid creds s = Inr (r, tid, s')"
  shows "cur_uthread (krunqs s' i) = cur_uthread (krunqs s i)"
  using assms
  by (auto simp: uthread_create_def MALLOC_SAFE_def MALLOCZ_SAFE_def ksched_find_target_def result_simps Let_def
      dest!: add_to_runqueue_cur [where i = i] split: option.splits if_splits)

lemma schedule_others:
  assumes ok: "sys_ok K U s Q" and apic: "apic < 16" and map: "kthread_cpu_map s apic = Some k"
    and lb: "lb_on s \<longrightarrow> lb_mapped apic s" and i: "i \<noteq> k"
    and run: "uthread_schedule e sched_find_best_uthread apic s = Inr (out, s')"
  shows "cur_uthread (krunqs s' i) = cur_uthread (krunqs s i)"
proof -
  have k: "k \<in> K" using sys_okD(2) [OF ok] map by (auto simp: kt_ok_def)
  obtain s1 where s1: "leave_cur e k s = Inr s1" "sys_ok K U s1 (put_away e k s Q)" "same_config s s1"
    using leave_cur_put_away [OF ok k] by blast
  have c1: "cur_uthread (krunqs s1 i) = cur_uthread (krunqs s i)"
  proof (cases "cur_uthread (krunqs s k)")
    case None
    then show ?thesis using s1(1) by (simp add: leave_cur_def)
  next
    case (Some u)
    then show ?thesis using leave_cur_ok [OF ok k Some refl refl, of e] s1(1) i by auto
  qed
  have lb1: "lb_on s1 \<longrightarrow> lb_mapped apic s1" using lb by (simp add: same_config_lb [OF s1(3)])
  obtain r s2 where r: "sched_find_best_uthread apic k s1 = Inr (r, s2)" "same_threads s1 s2"
    using sched_total [OF sys_okD(1,2) [OF s1(2)] k apic lb1] by blast
  have c2: "cur_uthread (krunqs s2 i) = cur_uthread (krunqs s1 i)" using r(2) by (simp add: same_threads_def)
  have d: "dispatch e sched_find_best_uthread apic k s1 = Inr (out, s')"
    using run apic map s1(1) by (simp add: uthread_schedule_def)
  have "cur_uthread (krunqs s' i) = cur_uthread (krunqs s2 i)"
    using d i by (cases r) (auto simp: dispatch_def r(1) Let_def result_simps split: if_splits dest!: uthread_init_krunqs)
  with c1 c2 show ?thesis by simp
qed

subsection \<open>Running uthreads can be preempted\<close>

text \<open>The two handlers are installed and every kthread knows them; a kthread that runs a uthread has
  saved its own context and blocks neither of the two scheduling signals.\<close>

definition handlers_ok :: "kid set \<Rightarrow> gt_state \<Rightarrow> sig_state \<Rightarrow> bool" where
  "handlers_ok K s x \<longleftrightarrow>
     sa_handler (sig_action x SIGVTALRM) = Some (Sched_handler Ksched_priority) \<and>
     sa_handler (sig_action x SIGUSR1) = Some (Sched_handler Ksched_cosched) \<and>
     (\<forall>k\<in>K. kthread_sched_timer (kctxs s k) = Some Ksched_priority \<and> kthread_sched_relay (kctxs s k) = Some Ksched_cosched)"

definition preemptible :: "kid \<Rightarrow> gt_state \<Rightarrow> sig_state \<Rightarrow> bool" where
  "preemptible k s x \<longleftrightarrow>
     (cur_uthread (krunqs s k) \<noteq> None \<longrightarrow>
        kthread_env (kctxs s k) \<and> SIGVTALRM \<notin> sig_blocked x k \<and> SIGUSR1 \<notin> sig_blocked x k)"

definition sig_ok :: "kid set \<Rightarrow> gt_state \<Rightarrow> sig_state \<Rightarrow> bool" where
  "sig_ok K s x \<longleftrightarrow> handlers_ok K s x \<and> (\<forall>k\<in>K. preemptible k s x)"

lemma handlers_ok_cong:
  "sig_action x' = sig_action x \<Longrightarrow> same_config s s' \<Longrightarrow> handlers_ok K s x \<Longrightarrow> handlers_ok K s' x'"
  by (simp add: handlers_ok_def same_config_def)

lemma preemptible_cong:
  "cur_uthread (krunqs s' k) = cur_uthread (krunqs s k) \<Longrightarrow> kthread_env (kctxs s' k) = kthread_env (kctxs s k) \<Longrightarrow>
   sig_blocked x' k = sig_blocked x k \<Longrightarrow> preemptible k s' x' = preemptible k s x"
  by (simp add: preemptible_def)

text \<open>A scheduling decision of \<open>k\<close> establishes this for \<open>k\<close> and keeps it for the others.\<close>

lemma schedule_sig_ok:
  assumes ok: "sys_ok K U s Q" and e: "sys_calls_ok e" and apic: "apic < 16"
    and map: "kthread_cpu_map s apic = Some k" and lb: "lb_on s \<longrightarrow> lb_mapped apic s"
    and env: "kthread_env (kctxs s k)" and h: "handlers_ok K s x" and others: "\<forall>i\<in>K. i \<noteq> k \<longrightarrow> preemptible i s x"
  shows "\<exists>out s' x'. uthread_schedule_sig junk e sched_find_best_uthread apic (s, x) = Inr (out, s', x') \<and>
    uthread_schedule e sched_find_best_uthread apic s = Inr (out, s') \<and> sig_ok K s' x' \<and>
    (out = BackToKthread \<longrightarrow> x' = x)"
proof -
  have k: "k \<in> K" using sys_okD(2) [OF ok] map by (auto simp: kt_ok_def)
  obtain out s' Q' where s': "uthread_schedule e sched_find_best_uthread apic s = Inr (out, s')"
    "same_config s s'" "dispatched K U k s (put_away e k s Q) out s' Q'"
    using uthread_schedule_ok [OF ok e apic map lb env] by blast
  obtain fresh where sg: "uthread_schedule_sig junk e sched_find_best_uthread apic (s, x) =
      Inr (out, s', case out of BackToKthread \<Rightarrow> x | RunUthread _ \<Rightarrow> dispatch_signals junk k fresh (kctxs s' k) x)"
    (is "_ = Inr (_, _, ?x)") using schedule_sig_eq [OF s'(1) map] by blast
  note sel = dispatch_signals_sel [OF refl, where junk = junk and k = k and fresh = fresh and c = "kctxs s' k" and x = x]
  have kc: "kthread_sched_timer (kctxs s' k) = Some Ksched_priority" "kthread_sched_relay (kctxs s' k) = Some Ksched_cosched"
    using h s'(2) k by (simp_all add: handlers_ok_def same_config_def)
  have "handlers_ok K s' ?x"
    using h s'(2) kc by (cases out) (simp_all add: handlers_ok_def same_config_def sel(5,6))
  moreover have "preemptible i s' ?x" if "i \<in> K" for i
  proof (cases "i = k")
    case True
    then show ?thesis using s'(2,3) env
      by (cases out) (simp_all add: preemptible_def dispatched_def same_config_def sel(1,2))
  next
    case False
    have "sig_blocked ?x i = sig_blocked x i" using False sel(3) by (cases out) simp_all
    moreover have "kthread_env (kctxs s' i) = kthread_env (kctxs s i)" using s'(2) by (simp add: same_config_def)
    ultimately show ?thesis using others that False schedule_others [OF ok apic map lb False s'(1)]
      by (metis preemptible_cong)
  qed
  ultimately show ?thesis using s'(1) sg by (auto simp: sig_ok_def)
qed

lemma take_sched_signal:
  assumes "kthread_cpu_map s apic = Some k" and "apic < 16" and "handlers_ok K s x" and "sg = SIGVTALRM \<or> sg = SIGUSR1"
  shows "\<exists>x1. take_signal junk e apic sg (s, x) =
      rbind (uthread_schedule_sig junk e sched_find_best_uthread apic (s, x1)) (\<lambda>(out, y'). Inr (Some out, y')) \<and>
    sig_action x1 = sig_action x \<and> sig_blocked x1 = sig_blocked (enter_handler k sg x)"
  using assms by (auto simp: take_signal_def run_handler_def handlers_ok_def)

text \<open>Every event keeps the invariant, and is the event without the signals.\<close>

lemma run_event_sig_ok:
  assumes inv: "gt_inv K (s, U)" and sg: "sig_ok K s x" and apic: "apic < 16" and map: "kthread_cpu_map s apic = Some k"
    and en: "enabled apic k ev (s, U)" and fair: "sys_fair e k s"
  shows "\<exists>s' x'. run_event_sig junk e apic ev (s, x) = Inr (s', x') \<and> run_event e apic ev s = Inr s' \<and> sig_ok K s' x'"
proof -
  obtain Q where ok: "sys_ok K U s Q" and lba: "lb_all s" using inv by (auto simp: gt_inv_def)
  have e: "sys_calls_ok e" using fair by (simp add: sys_fair_def)
  have lb: "lb_on s \<longrightarrow> lb_mapped apic s" using lba map by (simp add: lb_all_def)
  have h: "handlers_ok K s x" and pre: "\<forall>i\<in>K. preemptible i s x" using sg by (simp_all add: sig_ok_def)
  have signal: ?thesis if which: "ev = Timer_signal \<and> sg = SIGVTALRM \<or> ev = Relay_signal \<and> sg = SIGUSR1" for sg
  proof -
    obtain x1 where x1: "take_signal junk e apic sg (s, x) =
        rbind (uthread_schedule_sig junk e sched_find_best_uthread apic (s, x1)) (\<lambda>(out, y'). Inr (Some out, y'))"
      "sig_action x1 = sig_action x" "sig_blocked x1 = sig_blocked (enter_handler k sg x)"
      using take_sched_signal [OF map apic h] which by blast
    have h1: "handlers_ok K s x1" using h by (simp add: handlers_ok_def x1(2))
    have "\<forall>i\<in>K. i \<noteq> k \<longrightarrow> preemptible i s x1" using pre by (simp add: preemptible_def x1(3))
    then obtain out s' x' where "uthread_schedule_sig junk e sched_find_best_uthread apic (s, x1) = Inr (out, s', x')"
      "uthread_schedule e sched_find_best_uthread apic s = Inr (out, s')" "sig_ok K s' x'"
      using schedule_sig_ok [OF ok e apic map lb _ h1] en which by fastforce
    then show ?thesis using which x1(1) apic by (auto simp: ksched_priority_def ksched_cosched_def)
  qed
  show ?thesis
  proof (cases ev)
    case Timer_signal
    then show ?thesis using signal by blast
  next
    case Relay_signal
    then show ?thesis using signal by blast
  next
    case Yield_call
    then obtain u where env: "kthread_env (kctxs s k)" and u: "cur_uthread (krunqs s k) = Some u" using en by auto
    let ?t = "upd_uth u (\<lambda>x. x\<lparr>is_yield_valid := 1\<rparr>) s"
    have "sys_ok K U ?t Q" using cur_mem_currents [OF ok map u] by (intro sys_ok_upd_cur [OF ok]) simp_all
    moreover have "lb_on ?t \<longrightarrow> lb_mapped apic ?t" using lb by (simp add: lb_on_def lb_mapped_def)
    moreover have "handlers_ok K ?t x" "\<forall>i\<in>K. i \<noteq> k \<longrightarrow> preemptible i ?t x"
      using h pre by (simp_all add: handlers_ok_def preemptible_def)
    ultimately obtain out s' x' where "uthread_schedule_sig junk e sched_find_best_uthread apic (?t, x) = Inr (out, s', x')"
      "uthread_schedule e sched_find_best_uthread apic ?t = Inr (out, s')" "sig_ok K s' x'"
      using schedule_sig_ok [of K U ?t Q e apic k x junk] e apic map env by auto
    then show ?thesis using Yield_call apic map u by (simp add: gt_yield_sig_def gt_yield_def)
  next
    case (Func_return now)
    then obtain u where env: "kthread_env (kctxs s k)" and u: "cur_uthread (krunqs s k) = Some u" using en by auto
    let ?t = "upd_uth u (\<lambda>x. x\<lparr>uthread_state := UTHREAD_DONE, total_running_time_end := now\<rparr>) s"
    have "sys_ok K U ?t Q" using cur_mem_currents [OF ok map u] by (intro sys_ok_upd_cur [OF ok]) simp_all
    moreover have "lb_on ?t \<longrightarrow> lb_mapped apic ?t" using lb by (simp add: lb_on_def lb_mapped_def)
    moreover have "handlers_ok K ?t x" "\<forall>i\<in>K. i \<noteq> k \<longrightarrow> preemptible i ?t x"
      using h pre by (simp_all add: handlers_ok_def preemptible_def)
    ultimately obtain out s' x' where "uthread_schedule_sig junk e sched_find_best_uthread apic (?t, x) = Inr (out, s', x')"
      "uthread_schedule e sched_find_best_uthread apic ?t = Inr (out, s')" "sig_ok K s' x'"
      using schedule_sig_ok [of K U ?t Q e apic k x junk] e apic map env by auto
    then show ?thesis using Func_return map u by (simp add: uthread_context_exit_sig_def uthread_context_exit_def)
  next
    case Loop_iteration
    let ?t = "upd_kctx k (\<lambda>c. c\<lparr>kthread_env := True\<rparr>) s"
    have "sys_ok K U ?t Q" using ok by (rule sys_ok_upd_kctx)
    moreover have "lb_on ?t \<longrightarrow> lb_mapped apic ?t" using lb by (auto simp: lb_on_def lb_mapped_def)
    moreover have "handlers_ok K ?t x" "\<forall>i\<in>K. i \<noteq> k \<longrightarrow> preemptible i ?t x"
      using h pre by (simp_all add: handlers_ok_def preemptible_def)
    ultimately obtain out s' x' where "uthread_schedule_sig junk e sched_find_best_uthread apic (?t, x) = Inr (out, s', x')"
      "uthread_schedule e sched_find_best_uthread apic ?t = Inr (out, s')" "sig_ok K s' x'"
      using schedule_sig_ok [of K U ?t Q e apic k x junk] e apic map by auto
    then show ?thesis using Loop_iteration en map by (simp add: app_loop_iter_sig_def app_loop_iter_def)
  next
    case (Create u sp timer now f a gid creds)
    obtain s' where s': "run_event e apic ev s = Inr s'" using run_event_ok [OF inv apic map en fair] by blast
    then obtain r tid where run: "uthread_create (Some u) (Some sp) (Some timer) now f a gid creds s = Inr (r, tid, s')"
      using Create by (auto simp: result_simps)
    have "kthread_cpu_map s apic \<noteq> None" "u \<notin> U" "unat gid < 32" "card U < 128" using map en Create by auto
    then have "same_config s s'"
      using uthread_create_ok [OF ok _ refl _ _ apic, of u gid sp timer now f a creds] run by auto
    then have "sig_ok K s' x"
      using h pre uthread_create_cur [OF run] by (simp add: sig_ok_def handlers_ok_def preemptible_def same_config_def)
    then show ?thesis using s' Create by simp
  qed
qed

definition sig_inv :: "kid set \<Rightarrow> sig_sys \<Rightarrow> bool" where
  "sig_inv K y \<longleftrightarrow> gt_inv K (fst y) \<and> sig_ok K (fst (fst y)) (snd y)"

definition sig_init :: "kid set \<Rightarrow> sig_sys \<Rightarrow> bool" where
  "sig_init K y \<longleftrightarrow> gt_init K (fst y) \<and> handlers_ok K (fst (fst y)) (snd y)"

lemma sig_step_inv:
  assumes "sig_step y z" and "sig_inv K y"
  shows "sig_inv K z"
  using assms(1)
proof cases
  case (event apic s k ev U x e junk s' x')
  then have inv: "gt_inv K (s, U)" "sig_ok K s x" using assms(2) by (simp_all add: sig_inv_def)
  obtain s2 where s2: "run_event e apic ev s = Inr s2" "gt_inv K (s2, U \<union> created_by ev)"
    using run_event_ok [OF inv(1) event(3-5,7)] by blast
  have "run_event e apic ev s = Inr s'" "sig_ok K s' x'"
    using run_event_sig_ok [OF inv event(3-5,7), of junk] event(8) by auto
  with s2 show ?thesis by (simp add: sig_inv_def event(2))
next
  case (timer x k t y')
  then show ?thesis using assms(2) by (simp add: sig_inv_def sig_ok_def handlers_ok_def preemptible_def raise_signal_def)
next
  case (exit_loop s apic k U x)
  then show ?thesis using assms(2) by (auto simp: sig_inv_def sig_ok_def handlers_ok_def preemptible_def signal_defs)
qed

interpretation sgn: invariant_system "sig_init K" sig_step "sig_inv K" for K
proof
  show "sig_inv K y" if "sig_init K y" for y
  proof -
    obtain s U x where y: "y = ((s, U), x)" by (metis surj_pair)
    have g: "gt_init K (s, U)" and h: "handlers_ok K s x" using that by (simp_all add: sig_init_def y)
    then obtain Q where "sys_ok K {} s Q" by (auto simp: gt_init_def)
    then have "places_ok K {} s Q" by (rule sys_okD)
    then have "currents K s = {}" by (auto simp: places_ok_def)
    then have "\<forall>k\<in>K. preemptible k s x" by (auto simp: preemptible_def currents_def)
    moreover have "gt_inv K (s, U)" using g by (rule gt.inv_init)
    ultimately show ?thesis using h by (simp add: sig_inv_def sig_ok_def y)
  qed
  show "sig_inv K z" if "sig_inv K y" "sig_step y z" for y z
    using that(2,1) by (rule sig_step_inv)
qed

text \<open>The machine with the signals refines the one without.\<close>

lemma sig_step_refines:
  assumes "sig_step y z" and "sig_inv K y"
  shows "gt_step\<^sup>*\<^sup>* (fst y) (fst z)"
  using assms(1)
proof cases
  case (event apic s k ev U x e junk s' x')
  then have inv: "gt_inv K (s, U)" "sig_ok K s x" using assms(2) by (simp_all add: sig_inv_def)
  have "run_event e apic ev s = Inr s'" using run_event_sig_ok [OF inv event(3-5,7), of junk] event(8) by auto
  then have "gt_step (s, U) (s', U \<union> created_by ev)" using event(3-5,7) by (intro gt_step.event)
  then show ?thesis by (simp add: event(1,2))
qed auto

lemma reachable_preempted:
  assumes init: "sig_init K y0" and reach: "sig_step\<^sup>*\<^sup>* y0 ((s, U), x)" and apic: "apic < 16"
    and map: "kthread_cpu_map s apic = Some k" and u: "cur_uthread (krunqs s k) = Some u"
    and sg: "sg = SIGVTALRM \<or> sg = SIGUSR1" and pend: "sg \<in> sig_pending x k" and fair: "sys_fair e k s"
  shows "deliverable k sg x \<and>
    (\<exists>Q out s' x' Q'. take_signal junk e apic sg (s, x) = Inr (Some out, s', x') \<and> sys_ok K U s Q \<and>
       sys_ok K U s' Q' \<and> dispatched K U k s (put_away e k s Q) out s' Q' \<and> sig_ok K s' x' \<and>
       (out = BackToKthread \<longrightarrow> sg \<in> sig_blocked x' k))"
proof -
  have inv: "gt_inv K (s, U)" "sig_ok K s x" using sgn.reachable_inv [OF init reach] by (simp_all add: sig_inv_def)
  then obtain Q where ok: "sys_ok K U s Q" and lba: "lb_all s" by (auto simp: gt_inv_def)
  have k: "k \<in> K" using sys_okD(2) [OF ok] map by (auto simp: kt_ok_def)
  have h: "handlers_ok K s x" and pre: "\<forall>i\<in>K. preemptible i s x" using inv(2) by (simp_all add: sig_ok_def)
  have env: "kthread_env (kctxs s k)" and del: "deliverable k sg x"
    using pre k u sg pend by (auto simp: preemptible_def deliverable_def)
  have e: "sys_calls_ok e" using fair by (simp add: sys_fair_def)
  have lb: "lb_on s \<longrightarrow> lb_mapped apic s" using lba map by (simp add: lb_all_def)
  obtain x1 where x1: "take_signal junk e apic sg (s, x) =
      rbind (uthread_schedule_sig junk e sched_find_best_uthread apic (s, x1)) (\<lambda>(out, y'). Inr (Some out, y'))"
    "sig_action x1 = sig_action x" "sig_blocked x1 = sig_blocked (enter_handler k sg x)"
    using take_sched_signal [OF map apic h sg] by blast
  have h1: "handlers_ok K s x1" using h by (simp add: handlers_ok_def x1(2))
  have "\<forall>i\<in>K. i \<noteq> k \<longrightarrow> preemptible i s x1" using pre by (simp add: preemptible_def x1(3))
  then obtain out s' x' where r: "uthread_schedule_sig junk e sched_find_best_uthread apic (s, x1) = Inr (out, s', x')"
    "uthread_schedule e sched_find_best_uthread apic s = Inr (out, s')" "sig_ok K s' x'" "out = BackToKthread \<longrightarrow> x' = x1"
    using schedule_sig_ok [OF ok e apic map lb env h1] by blast
  obtain Q' where "sys_ok K U s' Q'" "dispatched K U k s (put_away e k s Q) out s' Q'"
    using uthread_schedule_ok [OF ok e apic map lb env] r(2) by auto
  moreover have "out = BackToKthread \<longrightarrow> sg \<in> sig_blocked x' k" using r(4) x1(3) by simp
  ultimately show ?thesis using del ok r(1,3) x1(1) by auto
qed

subsection \<open>Signals that arrive too early\<close>

text \<open>From \<open>gtthread_app_init\<close> on, the main kthread takes the timer signal; but it saves a context to come
  back to only in \<open>gtthread_app_exit\<close>. A signal that arrives in between, while nothing can be run, jumps
  to a context that was never saved.\<close>

lemma early_signal:
  assumes init: "sig_init K ((s, U), x)" and apic: "apic < 16" and map: "kthread_cpu_map s apic = Some k"
    and env: "\<not> kthread_env (kctxs s k)" and sg: "sg = SIGVTALRM \<or> sg = SIGUSR1"
  shows "take_signal junk e apic sg (s, x) = Inl Undefined"
proof -
  obtain Q where ok: "sys_ok K {} s Q" and lba: "lb_all s" and h: "handlers_ok K s x"
    using init by (auto simp: sig_init_def gt_init_def)
  note inv = sys_okD [OF ok]
  have k: "k \<in> K" using inv(2) map by (auto simp: kt_ok_def)
  have lb: "lb_on s \<longrightarrow> lb_mapped apic s" using lba map by (simp add: lb_all_def)
  have empty: "queued (Hs K) Q = {}" "currents K s = {}" using inv(3) by (auto simp: places_ok_def)
  have idle: "cur_uthread (krunqs s k) = None" using empty(2) k by (cases "cur_uthread (krunqs s k)") (auto simp: currents_def)
  obtain r s1 Q' where r: "sched_find_best_uthread apic k s = Inr (r, s1)" "same_threads s s1"
    "case r of None \<Rightarrow> Q' = Q
     | Some u \<Rightarrow> \<exists>rq\<in>Rs K. \<exists>p g. best_slot Q rq p g \<and> u = hd (Q (PrioGroup rq p g)) \<and> Q' = pop rq p g Q"
    using sched_total [OF inv(1,2) k apic lb] by blast
  have "\<not> best_slot Q rq p g" if "rq \<in> Rs K" for rq p g
  proof
    assume b: "best_slot Q rq p g"
    then have "PrioGroup rq p g \<in> Hs K" "Q (PrioGroup rq p g) \<noteq> []"
      using pq_okD(2) [OF inv(1) that] by (auto simp: best_slot_def)
    then show False using empty(1) by (auto simp: queued_def)
  qed
  with r(3) have "r = None" by (cases r) auto
  moreover have "\<not> kthread_env (kctxs s1 k)" using env r(2) by (simp add: same_threads_def)
  ultimately have "uthread_schedule e sched_find_best_uthread apic s = Inl Undefined"
    using apic map idle r(1) by (simp add: uthread_schedule_def leave_cur_def dispatch_def Let_def)
  then show ?thesis using take_sched_signal [OF map apic h sg, of junk e] schedule_sig_fault by auto
qed

subsection \<open>Signals inside a scheduling decision\<close>

text \<open>The calls that would block the scheduling signals while \<open>uthread_schedule\<close> runs are commented out.
  A signal that arrives while the kthread holds the lock of its runqueue starts a handler that waits for
  that lock.\<close>

lemma sched_find_best_locked:
  "apic < 16 \<Longrightarrow> locked (kthread_runqlock (krunqs s k)) \<noteq> 0 \<Longrightarrow> sched_find_best_uthread apic k s = Inl SpinForever"
  by (simp add: sched_find_best_uthread_def lock_runq_def spin_lock_at_eq)

lemma signal_while_locked:
  assumes lock: "locked (kthread_runqlock (krunqs s k)) \<noteq> 0" and idle: "cur_uthread (krunqs s k) = None"
    and apic: "apic < 16" and map: "kthread_cpu_map s apic = Some k" and h: "handlers_ok K s x"
    and sg: "sg = SIGVTALRM \<or> sg = SIGUSR1"
  shows "take_signal junk e apic sg (s, x) = Inl SpinForever"
proof -
  have "uthread_schedule e sched_find_best_uthread apic s = Inl SpinForever"
    using sched_find_best_locked [OF apic lock] apic map idle by (simp add: uthread_schedule_def leave_cur_def dispatch_def)
  then show ?thesis using take_sched_signal [OF map apic h sg, of junk e] schedule_sig_fault by auto
qed

lemma signal_after_lock:
  assumes lock: "lock_runq k s0 = Inr s" and "cur_uthread (krunqs s0 k) = None" and "apic < 16"
    and "kthread_cpu_map s0 apic = Some k" and "handlers_ok K s0 x" and "sg = SIGVTALRM \<or> sg = SIGUSR1"
  shows "take_signal junk e apic sg (s, x) = Inl SpinForever"
proof -
  obtain l where s: "s = upd_krunq k (\<lambda>q. q\<lparr>kthread_runqlock := l\<rparr>) s0" and "locked l \<noteq> 0"
    using lock by (auto simp: lock_runq_def result_simps spin_lock_at_eq split: if_splits)
  then show ?thesis using assms(2-6) by (intro signal_while_locked [where K = K]) (simp_all add: handlers_ok_def)
qed

text \<open>The state of \<open>uthread_schedule\<close> after line 162: the current uthread has been charged and is no
  longer the current one, and it is not yet on a queue.\<close>

definition leave_cur_window :: "sys_env \<Rightarrow> kid \<Rightarrow> uid \<Rightarrow> gt_state \<Rightarrow> gt_state" where
  "leave_cur_window e k u s =
     upd_krunq k (\<lambda>q. q\<lparr>cur_uthread := None\<rparr>)
       (if is_credit_scheduler s = 1 \<and> 0 < credits (uths s u) then upd_uth u (charge (now_end e)) s else s)"

lemma leave_cur_by_window:
  assumes "cur_uthread (krunqs s k) = Some u"
  shows "leave_cur e k s =
    (let w = leave_cur_window e k u s in if finished (uths w u) then retire k u w else requeue k u w)"
  using assms by (simp add: leave_cur_def leave_cur_window_def finished_def Let_def)

lemma leave_cur_window_sel [simp]:
  "kthread_cpu_map (leave_cur_window e k u s) = kthread_cpu_map s" "kctxs (leave_cur_window e k u s) = kctxs s"
  "ksched_shared_info (leave_cur_window e k u s) = ksched_shared_info s"
  "cur_uthread (krunqs (leave_cur_window e k u s) i) = (if i = k then None else cur_uthread (krunqs s i))"
  "kthread_runqlock (krunqs (leave_cur_window e k u s) i) = kthread_runqlock (krunqs s i)"
  "lb_on (leave_cur_window e k u s) = lb_on s" "lb_mapped apic (leave_cur_window e k u s) = lb_mapped apic s"
  by (simp_all add: leave_cur_window_def lb_on_def lb_mapped_def)

text \<open>A signal in that window gives the kthread away to another uthread, or back to its loop, and nothing
  refers to the interrupted uthread any more, although it still counts as live.\<close>

lemma window_pq_ok:
  assumes ok: "sys_ok K U s Q" and k: "k \<in> K" and u: "cur_uthread (krunqs s k) = Some u"
  shows "pq_ok (Hs K) (Rs K) (leave_cur_window e k u s) Q" and "kt_ok K (leave_cur_window e k u s)"
    and "u \<notin> currents K (leave_cur_window e k u s)" and "u \<notin> queued (Hs K) Q"
    and "v \<noteq> u \<Longrightarrow> uths (leave_cur_window e k u s) v = uths s v"
proof -
  note inv = sys_okD [OF ok]
  show nq: "u \<notin> queued (Hs K) Q" using inv(3) u k by (auto simp: places_ok_def currents_def)
  show "pq_ok (Hs K) (Rs K) (leave_cur_window e k u s) Q"
    using nq inv(1) by (simp add: leave_cur_window_def pq_ok_upd_uth_out del: One_nat_def)
  show "kt_ok K (leave_cur_window e k u s)" using inv(2) by (auto simp: kt_ok_def leave_cur_window_def)
  show "u \<notin> currents K (leave_cur_window e k u s)" using inv(3) u k by (auto simp: currents_def places_ok_def)
  show "v \<noteq> u \<Longrightarrow> uths (leave_cur_window e k u s) v = uths s v" by (simp add: leave_cur_window_def)
qed

lemma schedule_in_window:
  assumes ok: "sys_ok K U s Q" and e: "sys_calls_ok e" and apic: "apic < 16"
    and map: "kthread_cpu_map s apic = Some k" and lb: "lb_on s \<longrightarrow> lb_mapped apic s"
    and env: "kthread_env (kctxs s k)" and u: "cur_uthread (krunqs s k) = Some u"
  shows "\<exists>out s' Q'. uthread_schedule e sched_find_best_uthread apic (leave_cur_window e k u s) = Inr (out, s') \<and>
    pq_ok (Hs K) (Rs K) s' Q' \<and> u \<notin> queued (Hs K) Q' \<and> u \<notin> currents K s' \<and>
    kthread_cur_uthreads (ksched_shared_info s') = kthread_cur_uthreads (ksched_shared_info s)"
proof -
  note inv = sys_okD [OF ok]
  let ?w = "leave_cur_window e k u s"
  have k: "k \<in> K" using inv(2) map by (auto simp: kt_ok_def)
  note w = window_pq_ok(1-3) [OF ok k u, where e = e] window_pq_ok(4) [OF ok k u] window_pq_ok(5) [OF ok k u, where e = e]
  have lb1: "lb_on ?w \<longrightarrow> lb_mapped apic ?w" using lb by simp
  obtain r s1 Q' where r: "sched_find_best_uthread apic k ?w = Inr (r, s1)"
    "pq_ok (Hs K) (Rs K) s1 Q'" "kt_ok K s1" "same_threads ?w s1"
    "case r of None \<Rightarrow> Q' = Q
     | Some u \<Rightarrow> \<exists>rq\<in>Rs K. \<exists>p g. best_slot Q rq p g \<and> u = hd (Q (PrioGroup rq p g)) \<and> Q' = pop rq p g Q"
    using sched_total [OF w(1,2) k apic lb1] by blast
  note st = r(4) [unfolded same_threads_def]
  have sched: "uthread_schedule e sched_find_best_uthread apic ?w = dispatch e sched_find_best_uthread apic k ?w"
    using apic map by (simp add: uthread_schedule_def leave_cur_def)
  show ?thesis
  proof (cases r)
    case None
    let ?c = "kthread_tot_uthreads (ksched_shared_info s1) \<noteq> 0 \<and> kthread_cur_uthreads (ksched_shared_info s1) = 0"
    let ?s2 = "if ?c then upd_kctx k (\<lambda>c. c\<lparr>kthread_flags := kthread_flags c OR KTHREAD_DONE\<rparr>) s1 else s1"
    have "dispatch e sched_find_best_uthread apic k ?w = Inr (BackToKthread, ?s2)"
      using env st by (simp add: dispatch_def r(1) None Let_def del: KTHREAD_DONE_def)
    moreover have "pq_ok (Hs K) (Rs K) ?s2 Q" using r(2,5) None by simp
    moreover have "u \<notin> currents K ?s2" using w(3) st by (simp add: currents_def)
    moreover have "ksched_shared_info ?s2 = ksched_shared_info s" using st by simp
    ultimately show ?thesis using w(4) unfolding sched by (intro exI [of _ BackToKthread] exI [of _ ?s2] exI [of _ Q]) simp
  next
    case (Some v)
    then obtain rq p g where sl: "rq \<in> Rs K" "best_slot Q rq p g" "v = hd (Q (PrioGroup rq p g))" "Q' = pop rq p g Q"
      using r(5) by auto
    have H: "PrioGroup rq p g \<in> Hs K" and ne: "Q (PrioGroup rq p g) \<noteq> []"
      using pq_okD(2) [OF inv(1) sl(1)] sl(2) by (auto simp: best_slot_def)
    have q: "queued (Hs K) Q' = queued (Hs K) Q - {v}"
      unfolding sl(3,4) pop_def by (rule queued_pop [OF pq_okD(1) [OF inv(1)] H ne])
    have vq: "v \<in> queued (Hs K) Q" using H hd_in_set [OF ne] sl(3) unfolding queued_def by blast
    then have vu: "v \<noteq> u" using w(4) by blast
    have "v \<notin> set (Q (Zombies i))" if "i \<in> K" for i
    proof -
      have "Zombies i \<in> Hs K" using that by (auto simp: krunq_heads_def)
      then show ?thesis using tq.rep_disjoint [OF pq_okD(1) [OF inv(1)] H] sl(3) hd_in_set [OF ne] by blast
    qed
    with vq have vr: "v \<in> ready K Q" by (auto simp: ready_def zombies_def)
    let ?s2 = "upd_krunq k (\<lambda>q. q\<lparr>cur_uthread := Some v\<rparr>) s1"
    have uv: "uths s1 v = uths s v" using st w(5) [OF vu] by simp
    have ini: "uthread_init e apic v ?s2 =
        Inr (0, upd_uth v (\<lambda>x. x\<lparr>uthread_env := True, uthread_state := UTHREAD_RUNNABLE, ss_enabled := False\<rparr>) ?s2)"
      if "uthread_state (uths s v) = UTHREAD_INIT"
      using that inv(5) map by (intro uthread_init_ok [OF e apic, where k = k]) (simp_all add: st w(5) [OF vu] info_ok_def)
    have "uthread_state (uths s v) = UTHREAD_INIT \<or> uthread_env (uths s v)" using inv(4) vr by (auto simp: uths_ok_def)
    then obtain y where y: "dispatch e sched_find_best_uthread apic k ?w = Inr (RunUthread v, upd_uth v (\<lambda>_. y) ?s2)"
      "uthread_priority y = uthread_priority (uths s v)" "uthread_gid y = uthread_gid (uths s v)"
      by (cases "uthread_state (uths s v) = UTHREAD_INIT")
        (auto simp: dispatch_def r(1) Some Let_def uv ini upd_uth_def)
    have "pq_ok (Hs K) (Rs K) (upd_uth v (\<lambda>_. y) ?s2) Q'"
      using r(2) y(2,3) uv by (intro pq_ok_upd_uth_keep) simp_all
    moreover have "u \<notin> currents K (upd_uth v (\<lambda>_. y) ?s2)" using w(3) st vu by (auto simp: currents_def)
    ultimately show ?thesis using w(4) q st y(1) unfolding sched by fastforce
  qed
qed

lemma signal_in_window:
  assumes init: "sig_init K y0" and reach: "sig_step\<^sup>*\<^sup>* y0 ((s, U), x)" and apic: "apic < 16"
    and map: "kthread_cpu_map s apic = Some k" and u: "cur_uthread (krunqs s k) = Some u"
    and sg: "sg = SIGVTALRM \<or> sg = SIGUSR1" and pend: "sg \<in> sig_pending x k" and e: "sys_calls_ok e"
  shows "deliverable k sg x \<and>
    (\<exists>out s' x' Q'. take_signal junk e apic sg (leave_cur_window e k u s, x) = Inr (Some out, s', x') \<and>
       pq_ok (Hs K) (Rs K) s' Q' \<and> u \<notin> queued (Hs K) Q' \<and> u \<notin> currents K s' \<and>
       kthread_cur_uthreads (ksched_shared_info s') = kthread_cur_uthreads (ksched_shared_info s))"
proof -
  let ?w = "leave_cur_window e k u s"
  have inv: "gt_inv K (s, U)" "sig_ok K s x" using sgn.reachable_inv [OF init reach] by (simp_all add: sig_inv_def)
  then obtain Q where ok: "sys_ok K U s Q" and lba: "lb_all s" by (auto simp: gt_inv_def)
  have k: "k \<in> K" using sys_okD(2) [OF ok] map by (auto simp: kt_ok_def)
  have h: "handlers_ok K s x" and pre: "preemptible k s x" using inv(2) k by (simp_all add: sig_ok_def)
  have env: "kthread_env (kctxs s k)" and del: "deliverable k sg x"
    using pre u sg pend by (auto simp: preemptible_def deliverable_def)
  have lb: "lb_on s \<longrightarrow> lb_mapped apic s" using lba map by (simp add: lb_all_def)
  have mapw: "kthread_cpu_map ?w apic = Some k" and hw: "handlers_ok K ?w x" using map h by (simp_all add: handlers_ok_def)
  obtain x1 where x1: "take_signal junk e apic sg (?w, x) =
      rbind (uthread_schedule_sig junk e sched_find_best_uthread apic (?w, x1)) (\<lambda>(out, y'). Inr (Some out, y'))"
    using take_sched_signal [OF mapw apic hw sg] by blast
  obtain out s' Q' where r: "uthread_schedule e sched_find_best_uthread apic ?w = Inr (out, s')"
    "pq_ok (Hs K) (Rs K) s' Q'" "u \<notin> queued (Hs K) Q'" "u \<notin> currents K s'"
    "kthread_cur_uthreads (ksched_shared_info s') = kthread_cur_uthreads (ksched_shared_info s)"
    using schedule_in_window [OF ok e apic map lb env u] by blast
  obtain x' where "uthread_schedule_sig junk e sched_find_best_uthread apic (?w, x1) = Inr (out, s', x')"
    using schedule_sig_eq [OF r(1) mapw] by blast
  then show ?thesis using del x1 r(2-5) by auto
qed

end
