(* ===== verification/GT_Liveness.thy ===== *)
theory GT_Liveness
  imports GT_Signal
begin

unbundle bit_operations_syntax

text \<open>
  Whether an application can end. From every reachable state in which no kthread has quit early the
  remaining uthreads can be run to their ends. A kthread quits, however, as soon as the uthreads created
  so far are finished, and \<open>uthread_create\<close> still sends uthreads to it: these are never run, unless load
  balancing moves them, and \<open>gtthread_app_exit\<close> waits for ever.
\<close>

subsection \<open>What a scheduling decision does to its kthread and to the others\<close>

lemma uthread_init_kctxs: "uthread_init e apic u s = Inr (rc, s') \<Longrightarrow> kctxs s' = kctxs s"
  by (auto simp: uthread_init_def uthread_context_save_def result_simps Let_def split: if_splits)

text \<open>A decision that goes back to the loop found the active runqueue empty and exchanged the two; one that
  runs a uthread took it from the own active runqueue, or stole it.\<close>

lemma dispatch_none:
  assumes "sched_find_best_uthread apic k s = Inr (None, s1)" and "dispatch e sched_find_best_uthread apic k s = Inr (out, s')"
  shows "out = BackToKthread" "krunqs s' = krunqs s1" "i \<noteq> k \<Longrightarrow> kctxs s' i = kctxs s1 i"
  using assms by (auto simp: dispatch_def Let_def split: if_splits)

lemma dispatch_some:
  assumes "sched_find_best_uthread apic k s = Inr (Some u, s1)" and "dispatch e sched_find_best_uthread apic k s = Inr (out, s')"
  shows "out = RunUthread u" "kctxs s' = kctxs s1"
  using assms by (auto simp: dispatch_def Let_def result_simps split: if_splits dest!: uthread_init_kctxs)

lemma dispatch_details:
  assumes ok: "sys_ok K U s Q" and apic: "apic < 16" and map: "kthread_cpu_map s apic = Some k"
    and lb: "lb_on s \<longrightarrow> lb_mapped apic s" and run: "dispatch e sched_find_best_uthread apic k s = Inr (out, s')"
  shows "(\<forall>i. i \<noteq> k \<longrightarrow> kctxs s' i = kctxs s i) \<and>
    (case out of
       BackToKthread \<Rightarrow> rq_size Q (active s k) = 0 \<and> active s' k = expires s k
     | RunUthread u \<Rightarrow> kctxs s' = kctxs s \<and>
         (\<not> lb_on s \<longrightarrow> (\<exists>p g. best_slot Q (active s k) p g \<and> u = hd (Q (PrioGroup (active s k) p g)))))"
proof -
  note inv = sys_okD [OF ok]
  have k: "k \<in> K" using inv(2) map by (auto simp: kt_ok_def)
  show ?thesis
  proof (cases "rq_size Q (active s k) = 0")
    case False
    obtain p g s1 where s1: "best_slot Q (active s k) p g"
      "sched_find_best_uthread apic k s = Inr (Some (hd (Q (PrioGroup (active s k) p g))), s1)" "same_threads s s1"
      using sched_active_ok [OF inv(1,2) k apic False] by blast
    then show ?thesis using dispatch_some [OF s1(2) run] by (auto simp: same_threads_def)
  next
    case True
    from sched_empty_cases [OF inv(1,2) k apic True lb] show ?thesis
    proof (elim disjE conjE exE)
      assume none: "sched_find_best_uthread apic k s = Inr (None, swapped k (released k 4 s))"
      show ?thesis using dispatch_none [OF none run] True by (auto simp: swapped_def released_def)
    next
      fix j o' p g s1 assume v: "first_victim apic s Q j" and "same_threads s s1"
        and some: "sched_find_best_uthread apic k s = Inr (Some (hd (Q (PrioGroup (active s o') p g))), s1)"
      then show ?thesis using dispatch_some [OF some run] by (auto simp: same_threads_def first_victim_def)
    qed
  qed
qed

lemma schedule_details:
  assumes ok: "sys_ok K U s Q" and apic: "apic < 16" and map: "kthread_cpu_map s apic = Some k"
    and lb: "lb_on s \<longrightarrow> lb_mapped apic s" and run: "uthread_schedule e sched_find_best_uthread apic s = Inr (out, s')"
  shows "(\<forall>i. i \<noteq> k \<longrightarrow> kctxs s' i = kctxs s i) \<and>
    (case out of
       BackToKthread \<Rightarrow> rq_size (put_away e k s Q) (active s k) = 0 \<and> active s' k = expires s k
     | RunUthread u \<Rightarrow> kctxs s' = kctxs s \<and>
         (\<not> lb_on s \<longrightarrow> (\<exists>p g. best_slot (put_away e k s Q) (active s k) p g \<and> u = hd (put_away e k s Q (PrioGroup (active s k) p g)))))"
proof -
  have k: "k \<in> K" using sys_okD(2) [OF ok] map by (auto simp: kt_ok_def)
  obtain s1 where s1: "leave_cur e k s = Inr s1" "sys_ok K U s1 (put_away e k s Q)" "same_config s s1" "same_pointers s s1"
    "kctxs s1 = kctxs s"
    using leave_cur_put_away [OF ok k] by blast
  have lb1: "lb_on s1 = lb_on s" "lb_mapped apic s1 = lb_mapped apic s" using same_config_lb [OF s1(3)] by simp_all
  have map1: "kthread_cpu_map s1 apic = Some k" using s1(3) map by (simp add: same_config_def)
  have p: "active s1 k = active s k" "expires s1 k = expires s k" using s1(4) by (simp_all add: same_pointers_def)
  have d: "dispatch e sched_find_best_uthread apic k s1 = Inr (out, s')"
    using run apic map s1(1) by (simp add: uthread_schedule_def)
  show ?thesis using dispatch_details [OF s1(2) apic map1 _ d] lb by (cases out) (simp_all add: lb1 p s1(5))
qed

text \<open>Scheduling does not touch the round-robin positions of \<open>uthread_create\<close>.\<close>

lemma uthread_init_last: "uthread_init e apic u s = Inr (rc, s') \<Longrightarrow>
    last_ugroup_kthread (ksched_shared_info s') = last_ugroup_kthread (ksched_shared_info s)"
  by (auto simp: uthread_init_def uthread_context_save_def result_simps Let_def split: if_splits)

lemma schedule_last:
  assumes ok: "sys_ok K U s Q" and apic: "apic < 16" and map: "kthread_cpu_map s apic = Some k"
    and lb: "lb_on s \<longrightarrow> lb_mapped apic s" and run: "uthread_schedule e sched_find_best_uthread apic s = Inr (out, s')"
  shows "last_ugroup_kthread (ksched_shared_info s') = last_ugroup_kthread (ksched_shared_info s)"
proof -
  have k: "k \<in> K" using sys_okD(2) [OF ok] map by (auto simp: kt_ok_def)
  obtain s1 where s1: "leave_cur e k s = Inr s1" "sys_ok K U s1 (put_away e k s Q)" "same_config s s1"
    using leave_cur_put_away [OF ok k] by blast
  have l1: "last_ugroup_kthread (ksched_shared_info s1) = last_ugroup_kthread (ksched_shared_info s)"
  proof (cases "cur_uthread (krunqs s k)")
    case None
    then show ?thesis using s1(1) by (simp add: leave_cur_def)
  next
    case (Some u)
    then show ?thesis using leave_cur_ok [OF ok k Some refl refl, of e] s1(1) by (auto split: if_splits)
  qed
  have lb1: "lb_on s1 \<longrightarrow> lb_mapped apic s1" using lb by (simp add: same_config_lb [OF s1(3)])
  obtain r s2 where r: "sched_find_best_uthread apic k s1 = Inr (r, s2)" "same_threads s1 s2"
    using sched_total [OF sys_okD(1,2) [OF s1(2)] k apic lb1] by blast
  have d: "dispatch e sched_find_best_uthread apic k s1 = Inr (out, s')"
    using run apic map s1(1) by (simp add: uthread_schedule_def)
  have "last_ugroup_kthread (ksched_shared_info s') = last_ugroup_kthread (ksched_shared_info s2)"
    using d by (cases r) (auto simp: dispatch_def r(1) Let_def result_simps split: if_splits dest!: uthread_init_last)
  then show ?thesis using l1 r(2) by (simp add: same_threads_def)
qed

text \<open>Every event but a creation is a scheduling decision on a state that differs from the given one in the
  current uthread's flags and the saved context of the kthread only.\<close>

fun is_create :: "gt_event \<Rightarrow> bool" where
  "is_create (Create u sp timer now f a gid creds) = True"
| "is_create _ = False"

definition ready_for :: "kid \<Rightarrow> gt_state \<Rightarrow> gt_state \<Rightarrow> bool" where
  "ready_for k s t \<longleftrightarrow> kthread_cpu_map t = kthread_cpu_map s \<and> krunqs t = krunqs s \<and> lb_on t = lb_on s \<and>
     (\<forall>a. lb_mapped a t = lb_mapped a s) \<and> kthread_env (kctxs t k) \<and>
     (\<forall>i. kthread_flags (kctxs t i) = kthread_flags (kctxs s i)) \<and> (\<forall>i. i \<noteq> k \<longrightarrow> kctxs t i = kctxs s i) \<and>
     ksched_shared_info t = ksched_shared_info s"

lemma event_schedule:
  assumes ok: "sys_ok K U s Q" and map: "kthread_cpu_map s apic = Some k" and apic: "apic < 16"
    and en: "enabled apic k ev (s, U)" and nc: "\<not> is_create ev"
  shows "\<exists>t. sys_ok K U t Q \<and> ready_for k s t \<and>
    run_event e apic ev s = rbind (uthread_schedule e sched_find_best_uthread apic t) (\<lambda>(_, s'). Inr s') \<and>
    (\<forall>now u. ev = Func_return now \<longrightarrow> cur_uthread (krunqs s k) = Some u \<longrightarrow> put_away e k t Q = Q(Zombies k := Q (Zombies k) @ [u]))"
proof -
  have cur: "sys_ok K U (upd_uth u f s) Q" if "cur_uthread (krunqs s k) = Some u"
      "\<And>x. uthread_priority (f x) = uthread_priority x \<and> uthread_gid (f x) = uthread_gid x \<and> uthread_tid (f x) = uthread_tid x \<and>
        uthread_env (f x) = uthread_env x" for u f
    using cur_mem_currents [OF ok map that(1)] that(2) by (intro sys_ok_upd_cur [OF ok]) simp_all
  have r: "ready_for k s (upd_uth u f s)" if "kthread_env (kctxs s k)" for u f
    using that by (simp add: ready_for_def lb_on_def lb_mapped_def)
  show ?thesis
  proof (cases ev)
    case Timer_signal
    then show ?thesis using ok en apic
      by (intro exI [of _ s]) (auto simp: ready_for_def ksched_priority_def rbind_def split: sum.splits)
  next
    case Relay_signal
    then show ?thesis using ok en apic
      by (intro exI [of _ s]) (auto simp: ready_for_def ksched_cosched_def rbind_def split: sum.splits)
  next
    case Yield_call
    then obtain u where u: "cur_uthread (krunqs s k) = Some u" "kthread_env (kctxs s k)" using en by auto
    let ?t = "upd_uth u (\<lambda>x. x\<lparr>is_yield_valid := 1\<rparr>) s"
    show ?thesis using Yield_call u map apic cur [OF u(1), of "\<lambda>x. x\<lparr>is_yield_valid := 1\<rparr>"] r [OF u(2)]
      by (intro exI [of _ ?t]) (simp add: gt_yield_def)
  next
    case (Func_return now)
    then obtain u where u: "cur_uthread (krunqs s k) = Some u" "kthread_env (kctxs s k)" using en by auto
    let ?f = "\<lambda>x. x\<lparr>uthread_state := UTHREAD_DONE, total_running_time_end := now\<rparr>"
    have "put_away e k (upd_uth u ?f s) Q = Q(Zombies k := Q (Zombies k) @ [u])"
      using u(1) by (simp add: put_away_def leave_head_def finished_def Let_def)
    then show ?thesis using Func_return u map apic cur [OF u(1), of ?f] r [OF u(2)]
      by (intro exI [of _ "upd_uth u ?f s"]) (simp add: uthread_context_exit_def)
  next
    case Loop_iteration
    let ?t = "upd_kctx k (\<lambda>c. c\<lparr>kthread_env := True\<rparr>) s"
    have "sys_ok K U ?t Q" using ok by (rule sys_ok_upd_kctx)
    moreover have "ready_for k s ?t" by (auto simp: ready_for_def lb_on_def lb_mapped_def)
    ultimately show ?thesis using Loop_iteration en map
      by (intro exI [of _ ?t]) (auto simp: app_loop_iter_def rbind_def split: sum.splits)
  qed (use nc in simp)
qed

subsection \<open>Uthreads on the queues of a kthread that has quit\<close>

definition held_by :: "kid \<Rightarrow> (rq_head \<Rightarrow> uid list) \<Rightarrow> uid set" where
  "held_by k Q = {u. \<exists>h\<in>rq_heads (k, 0) \<union> rq_heads (k, 1). u \<in> set (Q h)}"

lemma held_by_append: "held_by k Q \<subseteq> held_by k (Q(h := Q h @ [u]))"
  by (auto simp: held_by_def)

lemma held_by_put_away: "held_by k Q \<subseteq> held_by k (put_away e i s Q)"
  using held_by_append by (auto simp: put_away_def Let_def split: option.split)

lemma held_by_pop: "j \<noteq> k \<Longrightarrow> held_by k (pop (j, i) p g Q) = held_by k Q"
proof -
  assume "j \<noteq> k"
  then have "pop (j, i) p g Q h = Q h" if "h \<in> rq_heads (k, 0) \<union> rq_heads (k, 1)" for h
    using that by (auto simp: pop_def rq_heads_def)
  then show ?thesis unfolding held_by_def by (metis (no_types, lifting))
qed

lemma held_by_unfinished:
  assumes "sys_ok K U s Q" and "k \<in> K" and "u \<in> held_by k Q"
  shows "u \<in> U - zombies K Q"
proof -
  note inv = sys_okD [OF assms(1)]
  obtain h where h: "h \<in> rq_heads (k, 0) \<union> rq_heads (k, 1)" "u \<in> set (Q h)" using assms(3) by (auto simp: held_by_def)
  have H: "h \<in> Hs K" using h(1) assms(2) by (auto simp: krunq_heads_def)
  then have "u \<in> queued (Hs K) Q" using h(2) by (auto simp: queued_def)
  moreover have "u \<notin> set (Q (Zombies i))" if "i \<in> K" for i
  proof -
    have z: "Zombies i \<in> Hs K" "Zombies i \<noteq> h" using that h(1) by (auto simp: krunq_heads_def rq_heads_def)
    show ?thesis using tq.rep_disjoint [OF pq_okD(1) [OF inv(1)] H z(1)] z(2) h(2) by blast
  qed
  ultimately show ?thesis using inv(3) by (auto simp: places_ok_def zombies_def)
qed

text \<open>Without load balancing a kthread takes uthreads from its own queues only.\<close>

lemma schedule_keeps_held:
  assumes ok: "sys_ok K U s Q" and e: "sys_calls_ok e" and apic: "apic < 16" and map: "kthread_cpu_map s apic = Some j"
    and lb: "\<not> lb_on s" and env: "kthread_env (kctxs s j)" and k: "j \<noteq> k"
    and run: "uthread_schedule e sched_find_best_uthread apic s = Inr (out, s')"
  shows "\<exists>Q'. sys_ok K U s' Q' \<and> same_config s s' \<and> held_by k Q \<subseteq> held_by k Q'"
proof -
  let ?Q = "put_away e j s Q"
  have j: "j \<in> K" using sys_okD(2) [OF ok] map by (auto simp: kt_ok_def)
  obtain Q' where Q': "sys_ok K U s' Q'" "same_config s s'" "dispatched K U j s ?Q out s' Q'"
    using uthread_schedule_ok [OF ok e apic map _ env] lb run by auto
  obtain s1 where s1: "sys_ok K U s1 ?Q" using leave_cur_put_away [OF ok j] by blast
  note world = pq_okD(1) [OF sys_okD(1) [OF s1]]
  have "held_by k ?Q \<subseteq> held_by k Q'"
  proof (cases out)
    case BackToKthread
    then show ?thesis using Q'(3) by (simp add: dispatched_def)
  next
    case (RunUthread u)
    then obtain rq p g where rq: "rq \<in> Rs K" "best_slot ?Q rq p g" "u = hd (?Q (PrioGroup rq p g))" "Q' = pop rq p g ?Q"
      using Q'(3) by (auto simp: dispatched_def)
    obtain p' g' where own: "best_slot ?Q (active s j) p' g'" "u = hd (?Q (PrioGroup (active s j) p' g'))"
      using schedule_details [OF ok apic map _ run] lb RunUthread by auto
    have act: "active s j \<in> Rs K" using sys_okD(2) [OF ok] j by (rule kt_ok_active_in_Rs)
    have H: "PrioGroup rq p g \<in> Hs K" "PrioGroup (active s j) p' g' \<in> Hs K"
      using pq_okD(2) [OF sys_okD(1) [OF s1] rq(1)] pq_okD(2) [OF sys_okD(1) [OF s1] act] rq(2) own(1) by (auto simp: best_slot_def)
    have "u \<in> set (?Q (PrioGroup rq p g))" "u \<in> set (?Q (PrioGroup (active s j) p' g'))"
      using rq(2) own(1) unfolding best_slot_def by (metis rq(3) own(2) hd_in_set)+
    then have "PrioGroup rq p g = PrioGroup (active s j) p' g'" using tq.rep_disjoint [OF world H] by blast
    then have "fst rq = j" by auto
    then show ?thesis using held_by_pop [OF k, of "snd rq" p g ?Q] by (cases rq) (simp add: rq(4))
  qed
  then show ?thesis using Q'(1,2) held_by_put_away by blast
qed

text \<open>What happens on the other kthreads once \<open>k\<close> has left its loop.\<close>

inductive other_step :: "kid \<Rightarrow> gt_sys \<Rightarrow> gt_sys \<Rightarrow> bool" for k where
  event: "apic < 16 \<Longrightarrow> kthread_cpu_map s apic = Some j \<Longrightarrow> j \<noteq> k \<Longrightarrow> enabled apic j ev (s, U) \<Longrightarrow> sys_fair e j s \<Longrightarrow>
    run_event e apic ev s = Inr s' \<Longrightarrow> other_step k (s, U) (s', U \<union> created_by ev)"

definition stranded :: "kid set \<Rightarrow> kid \<Rightarrow> uid \<Rightarrow> gt_sys \<Rightarrow> bool" where
  "stranded K k v x \<longleftrightarrow> k \<in> K \<and> \<not> lb_on (fst x) \<and> (\<exists>Q. sys_ok K (snd x) (fst x) Q \<and> v \<in> held_by k Q)"

lemma stranded_step:
  assumes "other_step k x y" and "stranded K k v x"
  shows "stranded K k v y"
  using assms
proof (induction rule: other_step.induct)
  case (event apic s j ev U e s')
  then obtain Q where Q: "sys_ok K U s Q" "v \<in> held_by k Q" and k: "k \<in> K" "\<not> lb_on s" by (auto simp: stranded_def)
  have e: "sys_calls_ok e" using event.hyps by (simp add: sys_fair_def)
  show ?case
  proof (cases "is_create ev")
    case True
    then obtain u sp timer now f a gid creds where ev: "ev = Create u sp timer now f a gid creds" by (cases ev) auto
    then have c: "u \<notin> U" "unat gid < 32" "card U < 128" using event.hyps by auto
    have m: "kthread_cpu_map s apic \<noteq> None" using event.hyps by simp
    obtain j' where "same_config s s'"
        "sys_ok K (insert u U) s' (Q(PrioGroup (active s j') 16 (unat gid) := Q (PrioGroup (active s j') 16 (unat gid)) @ [u]))"
      using uthread_create_ok [OF Q(1) c(1) refl c(2) m event.hyps(1) c(3), of sp timer now f a creds] event.hyps(6) ev by auto
    then show ?thesis using k Q(2) held_by_append [of k Q] ev same_config_lb(1) unfolding stranded_def by fastforce
  next
    case False
    then have none: "created_by ev = {}" by (cases ev) auto
    obtain t where t: "sys_ok K U t Q" "ready_for j s t"
        "run_event e apic ev s = rbind (uthread_schedule e sched_find_best_uthread apic t) (\<lambda>(_, s'). Inr s')"
      using event_schedule [OF Q(1) event.hyps(2,1,4) False] by blast
    then obtain out where run: "uthread_schedule e sched_find_best_uthread apic t = Inr (out, s')"
      using event.hyps(6) by (cases "uthread_schedule e sched_find_best_uthread apic t") auto
    have t': "kthread_cpu_map t apic = Some j" "\<not> lb_on t" "kthread_env (kctxs t j)" using t(2) event.hyps(2) k(2) by (simp_all add: ready_for_def)
    obtain Q' where "sys_ok K U s' Q'" "same_config t s'" "held_by k Q \<subseteq> held_by k Q'"
      using schedule_keeps_held [OF t(1) e event.hyps(1) t' event.hyps(3) run] by blast
    then show ?thesis using k Q(2) none t'(2) same_config_lb(1) unfolding stranded_def by fastforce
  qed
qed

interpretation strand: invariant_system "stranded K k v" "other_step k" "stranded K k v" for K k v
  by unfold_locales (auto intro: stranded_step)

lemma unfinished_waits:
  assumes "sys_ok K U s Q" and "u \<in> U - zombies K Q"
  shows "\<not> app_exit_wait_done s"
proof
  assume "app_exit_wait_done s"
  then have "card (U - zombies K Q) = 0" using sys_okD(5) [OF assms(1)] by (simp add: app_exit_wait_done_def info_ok_def)
  moreover have "finite U" using sys_okD(3) [OF assms(1)] by (simp add: places_ok_def)
  ultimately show False using assms(2) by (metis card_0_eq empty_iff finite_Diff)
qed

lemma stranded_waits: "stranded K k v x \<Longrightarrow> \<not> app_exit_wait_done (fst x)"
  using held_by_unfinished unfinished_waits unfolding stranded_def by metis

subsection \<open>Steps for given events\<close>

text \<open>Calls that succeed, with a clock that stands still for the uthread that is put away.\<close>

definition calm :: "gt_state \<Rightarrow> kid \<Rightarrow> sys_env" where
  "calm s k = \<lparr>now_end = (case cur_uthread (krunqs s k) of None \<Rightarrow> tv_zero | Some u \<Rightarrow> start_running_time_step (uths s u)),
     now_start = tv_zero, sigaction_ok = True, sigaltstack_ok = True, sigaction_revert_ok = True, sigaltstack_revert_ok = True\<rparr>"

lemma calm_fair: "sys_calls_ok (calm s k)" "sys_fair (calm s k) k s"
  by (simp_all add: sys_fair_def sys_calls_ok_def calm_def slice_ok_def split: option.split)

text \<open>An event that can happen is a step, with what \<open>dispatched\<close> says of it.\<close>

lemma event_step:
  assumes ok: "sys_ok K U s Q" and apic: "apic < 16" and map: "kthread_cpu_map s apic = Some k"
    and lb: "lb_on s \<longrightarrow> lb_mapped apic s" and en: "enabled apic k ev (s, U)" and nc: "\<not> is_create ev"
  shows "\<exists>t out s' Q'. gt_step (s, U) (s', U) \<and> sys_ok K U t Q \<and> ready_for k s t \<and> sys_ok K U s' Q' \<and> same_config t s' \<and>
    uthread_schedule (calm s k) sched_find_best_uthread apic t = Inr (out, s') \<and>
    dispatched K U k s (put_away (calm s k) k t Q) out s' Q' \<and>
    (\<forall>now u. ev = Func_return now \<longrightarrow> cur_uthread (krunqs s k) = Some u \<longrightarrow>
       put_away (calm s k) k t Q = Q(Zombies k := Q (Zombies k) @ [u]))"
proof -
  obtain t where t: "sys_ok K U t Q" "ready_for k s t"
      "run_event (calm s k) apic ev s = rbind (uthread_schedule (calm s k) sched_find_best_uthread apic t) (\<lambda>(_, s'). Inr s')"
      "\<forall>now u. ev = Func_return now \<longrightarrow> cur_uthread (krunqs s k) = Some u \<longrightarrow> put_away (calm s k) k t Q = Q(Zombies k := Q (Zombies k) @ [u])"
    using event_schedule [OF ok map apic en nc, of "calm s k"] by blast
  have t': "kthread_cpu_map t apic = Some k" "lb_on t \<longrightarrow> lb_mapped apic t" "kthread_env (kctxs t k)"
      "kthread_flags (kctxs t k) = kthread_flags (kctxs s k)"
    using t(2) map lb by (simp_all add: ready_for_def)
  obtain out s' Q' where s': "uthread_schedule (calm s k) sched_find_best_uthread apic t = Inr (out, s')" "sys_ok K U s' Q'"
      "same_config t s'" "dispatched K U k t (put_away (calm s k) k t Q) out s' Q'"
    using uthread_schedule_ok [OF t(1) calm_fair(1) apic t'(1-3)] by blast
  have "run_event (calm s k) apic ev s = Inr s'" using t(3) s'(1) by simp
  moreover have "created_by ev = {}" using nc by (cases ev) auto
  ultimately have "gt_step (s, U) (s', U)" using gt_step.event [OF apic map en calm_fair(2)] by fastforce
  moreover have "dispatched K U k s (put_away (calm s k) k t Q) out s' Q'" using s'(4) dispatched_cong [OF t'(4)] by simp
  ultimately show ?thesis using t(1,2,4) s'(1-3) by blast
qed

text \<open>The contexts: a decision saves that of its kthread and marks at most it as done, when all is finished.\<close>

lemma schedule_contexts:
  assumes ok: "sys_ok K U t Q" and rf: "ready_for k s t" and apic: "apic < 16" and map: "kthread_cpu_map s apic = Some k"
    and lb: "lb_on s \<longrightarrow> lb_mapped apic s" and run: "uthread_schedule e sched_find_best_uthread apic t = Inr (out, s')"
    and cfg: "same_config t s'" and d: "dispatched K U k s (put_away e k t Q) out s' Q'"
  shows "kthread_flags (kctxs s' i) = kthread_flags (kctxs s i) \<or> i = k \<and> U \<noteq> {} \<and> U \<subseteq> zombies K Q'"
    and "kthread_env (kctxs s' i) = (i = k \<or> kthread_env (kctxs s i))"
    and "i \<noteq> k \<Longrightarrow> cur_uthread (krunqs s' i) = cur_uthread (krunqs s i)"
proof -
  have t: "kthread_cpu_map t apic = Some k" "lb_on t \<longrightarrow> lb_mapped apic t" "krunqs t = krunqs s" "kthread_env (kctxs t k)"
      "\<And>i. kthread_flags (kctxs t i) = kthread_flags (kctxs s i)" "\<And>i. i \<noteq> k \<Longrightarrow> kctxs t i = kctxs s i"
    using rf map lb by (simp_all add: ready_for_def)
  note sd = schedule_details [OF ok apic t(1,2) run]
  show "kthread_flags (kctxs s' i) = kthread_flags (kctxs s i) \<or> i = k \<and> U \<noteq> {} \<and> U \<subseteq> zombies K Q'"
  proof (cases out)
    case BackToKthread
    then show ?thesis using d sd t(5,6) by (cases "i = k") (auto simp: dispatched_def split: if_splits)
  next
    case (RunUthread u)
    then show ?thesis using sd t(5) by simp
  qed
  show "kthread_env (kctxs s' i) = (i = k \<or> kthread_env (kctxs s i))"
    using cfg t(4,6) by (cases "i = k") (simp_all add: same_config_def)
  show "cur_uthread (krunqs s' i) = cur_uthread (krunqs s i)" if "i \<noteq> k"
    using schedule_others [OF ok apic t(1,2) that run] t(3) by simp
qed

subsection \<open>The application can finish\<close>

text \<open>Every kthread has a processor, and a kthread that runs a uthread has saved its own context.\<close>

definition work_ok :: "kid set \<Rightarrow> gt_sys \<Rightarrow> bool" where
  "work_ok K x \<longleftrightarrow> gt_inv K x \<and> (\<forall>k\<in>K. \<exists>apic<16. kthread_cpu_map (fst x) apic = Some k) \<and>
     (\<forall>k\<in>K. cur_uthread (krunqs (fst x) k) \<noteq> None \<longrightarrow> kthread_env (kctxs (fst x) k))"

lemma init_work_ok:
  assumes "gt_init K x" and "\<forall>k\<in>K. \<exists>apic<16. kthread_cpu_map (fst x) apic = Some k"
  shows "work_ok K x"
proof -
  obtain Q where "sys_ok K {} (fst x) Q" using assms(1) by (auto simp: gt_init_def)
  then have "cur_uthread (krunqs (fst x) k) = None" if "k \<in> K" for k
    using that by (cases "cur_uthread (krunqs (fst x) k)") (auto simp: sys_ok_def places_ok_def currents_def)
  then show ?thesis using assms gt.inv_init [OF assms(1)] by (simp add: work_ok_def)
qed

text \<open>What scheduling leaves alone: the map of the kthreads, the options and the round-robin positions.\<close>

definition kept :: "gt_state \<Rightarrow> gt_state \<Rightarrow> bool" where
  "kept s s' \<longleftrightarrow> kthread_cpu_map s' = kthread_cpu_map s \<and> lb_on s' = lb_on s \<and>
     last_ugroup_kthread (ksched_shared_info s') = last_ugroup_kthread (ksched_shared_info s)"

lemma kept_trans: "kept s t \<Longrightarrow> kept t r \<Longrightarrow> kept s r"
  by (simp add: kept_def)

lemma schedule_kept:
  assumes "sys_ok K U t Q" and rf: "ready_for k s t" and "apic < 16" and map: "kthread_cpu_map s apic = Some k"
    and lb: "lb_on s \<longrightarrow> lb_mapped apic s" and "uthread_schedule e sched_find_best_uthread apic t = Inr (out, s')" and "same_config t s'"
  shows "kept s s'"
proof -
  have t: "kthread_cpu_map t apic = Some k" "lb_on t \<longrightarrow> lb_mapped apic t" using rf map lb by (simp_all add: ready_for_def)
  show ?thesis
    using schedule_last [OF assms(1,3) t assms(6)] rf same_config_lb(1) [OF assms(7)] assms(7)
    by (simp add: kept_def ready_for_def same_config_def)
qed

definition no_quit :: "kid set \<Rightarrow> gt_state \<Rightarrow> bool" where
  "no_quit K s \<longleftrightarrow> (\<forall>k\<in>K. kthread_flags (kctxs s k) AND KTHREAD_DONE = 0)"

lemma work_ok_step:
  assumes "gt_step x y" and w: "work_ok K x"
  shows "work_ok K y"
  using assms(1)
proof (cases rule: gt_step.cases)
  case (event apic s k ev U e s')
  have inv: "gt_inv K y" using gt.inv_step [OF _ gt_any_stepI [OF assms(1)]] w by (simp add: work_ok_def)
  obtain Q where Q: "sys_ok K U s Q" and lba: "lb_all s" using w event(1) by (auto simp: work_ok_def gt_inv_def)
  have lb: "lb_on s \<longrightarrow> lb_mapped apic s" using lba event(4) by (simp add: lb_all_def)
  have e: "sys_calls_ok e" using event(6) by (simp add: sys_fair_def)
  have "kthread_cpu_map s' = kthread_cpu_map s \<and> (\<forall>i\<in>K. cur_uthread (krunqs s' i) \<noteq> None \<longrightarrow> kthread_env (kctxs s' i))"
  proof (cases "is_create ev")
    case True
    then obtain u sp timer now f a gid creds where ev: "ev = Create u sp timer now f a gid creds" by (cases ev) auto
    then have c: "u \<notin> U" "unat gid < 32" "card U < 128" using event by auto
    have m: "kthread_cpu_map s apic \<noteq> None" using event by simp
    obtain r tid where r: "uthread_create (Some u) (Some sp) (Some timer) now f a gid creds s = Inr (r, tid, s')" "same_config s s'"
      using uthread_create_ok [OF Q c(1) refl c(2) m event(3) c(3), of sp timer now f a creds] event(7) ev by auto
    then show ?thesis using w event(1) uthread_create_cur [OF r(1)] by (auto simp: same_config_def work_ok_def)
  next
    case False
    obtain t where t: "sys_ok K U t Q" "ready_for k s t"
        "run_event e apic ev s = rbind (uthread_schedule e sched_find_best_uthread apic t) (\<lambda>(_, s'). Inr s')"
      using event_schedule [OF Q event(4,3,5) False] by blast
    then obtain out where run: "uthread_schedule e sched_find_best_uthread apic t = Inr (out, s')"
      using event(7) by (cases "uthread_schedule e sched_find_best_uthread apic t") auto
    have t': "kthread_cpu_map t apic = Some k" "lb_on t \<longrightarrow> lb_mapped apic t" "kthread_env (kctxs t k)"
        "kthread_flags (kctxs t k) = kthread_flags (kctxs s k)"
      using t(2) event(4) lb by (simp_all add: ready_for_def)
    obtain Q' where Q': "same_config t s'" "dispatched K U k t (put_away e k t Q) out s' Q'"
      using uthread_schedule_ok [OF t(1) e event(3) t'(1-3)] run by auto
    have d: "dispatched K U k s (put_away e k t Q) out s' Q'" using Q'(2) dispatched_cong [OF t'(4)] by simp
    have "kthread_cpu_map s' = kthread_cpu_map s" using Q'(1) t(2) by (simp add: same_config_def ready_for_def)
    moreover have "kthread_env (kctxs s' i)" if i: "i \<in> K" and c: "cur_uthread (krunqs s' i) \<noteq> None" for i
      using schedule_contexts(2,3) [OF t(1,2) event(3,4) lb run Q'(1) d, of i] w event(1) i c by (auto simp: work_ok_def)
    ultimately show ?thesis by blast
  qed
  then show ?thesis using inv w event(1,2) by (simp add: work_ok_def)
qed

interpretation wrk: invariant_system "work_ok K" gt_step "work_ok K" for K
  by unfold_locales (auto intro: work_ok_step)

lemma finished_done: "sys_ok K U s Q \<Longrightarrow> U \<subseteq> zombies K Q \<Longrightarrow> app_exit_wait_done s"
proof -
  assume ok: "sys_ok K U s Q" and "U \<subseteq> zombies K Q"
  then have "U - zombies K Q = {}" by blast
  then have "unat (kthread_cur_uthreads (ksched_shared_info s)) = 0"
    using sys_okD(5) [OF ok] by (simp only: info_ok_def) simp
  then show ?thesis by (simp add: app_exit_wait_done_def unat_eq_zero)
qed

text \<open>An iteration of the loop of an idle kthread while something is left to do.\<close>

lemma iterate:
  assumes w: "work_ok K (s, U)" and ok: "sys_ok K U s Q" and nq: "no_quit K s" and k: "k \<in> K" and idle: "cur_uthread (krunqs s k) = None"
    and left: "\<not> U \<subseteq> zombies K Q"
  shows "\<exists>s' Q'. gt_step (s, U) (s', U) \<and> sys_ok K U s' Q' \<and> no_quit K s' \<and> kept s s' \<and> zombies K Q' = zombies K Q \<and>
    (cur_uthread (krunqs s' k) = None \<longrightarrow> Q' = Q \<and> rq_size Q (active s k) = 0 \<and> active s' k = expires s k)"
proof -
  obtain apic where apic: "apic < 16" "kthread_cpu_map s apic = Some k" using w k by (auto simp: work_ok_def)
  have lb: "lb_on s \<longrightarrow> lb_mapped apic s" using w apic(2) by (simp add: work_ok_def gt_inv_def lb_all_def)
  have en: "enabled apic k Loop_iteration (s, U)" using idle nq k by (simp add: no_quit_def)
  obtain t out s' Q' where st: "gt_step (s, U) (s', U)" and t: "sys_ok K U t Q" "ready_for k s t" and s': "sys_ok K U s' Q'" "same_config t s'"
    and run: "uthread_schedule (calm s k) sched_find_best_uthread apic t = Inr (out, s')"
    and d: "dispatched K U k s (put_away (calm s k) k t Q) out s' Q'"
    using event_step [OF ok apic lb en] by auto
  have pa: "put_away (calm s k) k t Q = Q" using t(2) idle by (simp add: put_away_def ready_for_def)
  have z: "zombies K Q' = zombies K Q" using d pa by (cases out) (auto simp: dispatched_def pop_def)
  have "kthread_flags (kctxs s' i) = kthread_flags (kctxs s i)" for i
    using schedule_contexts(1) [OF t apic lb run s'(2) d] left [folded z] by blast
  then have "no_quit K s'" using nq by (simp only: no_quit_def)
  moreover have "cur_uthread (krunqs s' k) = None \<longrightarrow> Q' = Q \<and> rq_size Q (active s k) = 0 \<and> active s' k = expires s k"
  proof
    assume c: "cur_uthread (krunqs s' k) = None"
    have "out = BackToKthread" using d c by (cases out) (simp_all add: dispatched_def)
    moreover have "kthread_cpu_map t apic = Some k" "lb_on t \<longrightarrow> lb_mapped apic t" "krunqs t = krunqs s"
      using t(2) apic(2) lb by (simp_all add: ready_for_def)
    ultimately show "Q' = Q \<and> rq_size Q (active s k) = 0 \<and> active s' k = expires s k"
      using schedule_details [OF t(1) apic(1) _ _ run, of k, unfolded pa] d [unfolded pa] by (simp add: dispatched_def)
  qed
  moreover have "kept s s'" by (rule schedule_kept [OF t apic lb run s'(2)])
  ultimately show ?thesis using st s'(1) z by (intro exI [of _ s'] exI [of _ Q'] conjI)
qed

lemma held_size: "u \<in> held_by k Q \<Longrightarrow> rq_size Q (k, 0) \<noteq> 0 \<or> rq_size Q (k, 1) \<noteq> 0"
proof -
  assume "u \<in> held_by k Q"
  then obtain i p g where "i = 0 \<or> i = 1" "p < 32" "g < 32" "u \<in> set (Q (PrioGroup (k, i) p g))"
    by (auto simp: held_by_def rq_heads_def)
  then have "rq_len Q (k, i) p g \<noteq> 0" by (auto simp: rq_len_def)
  then have "rq_size Q (k, i) \<noteq> 0" using \<open>p < 32\<close> \<open>g < 32\<close> by (auto simp: rq_size_def totsum_eq_0)
  then show ?thesis using \<open>i = 0 \<or> i = 1\<close> by auto
qed

lemma loop_runs:
  assumes w: "work_ok K (s, U)" and ok: "sys_ok K U s Q" and nq: "no_quit K s" and k: "k \<in> K" and idle: "cur_uthread (krunqs s k) = None"
    and u: "u \<in> held_by k Q"
  shows "\<exists>s' Q'. gt_step\<^sup>*\<^sup>* (s, U) (s', U) \<and> sys_ok K U s' Q' \<and> no_quit K s' \<and> kept s s' \<and> zombies K Q' = zombies K Q \<and>
    cur_uthread (krunqs s' k) \<noteq> None"
proof -
  have left: "\<not> U \<subseteq> zombies K Q" using held_by_unfinished [OF ok k u] by blast
  obtain s1 Q1 where s1: "gt_step (s, U) (s1, U)" "sys_ok K U s1 Q1" "no_quit K s1" "kept s s1" "zombies K Q1 = zombies K Q"
      "cur_uthread (krunqs s1 k) = None \<longrightarrow> Q1 = Q \<and> rq_size Q (active s k) = 0 \<and> active s1 k = expires s k"
    using iterate [OF w ok nq k idle left] by (elim exE conjE)
  show ?thesis
  proof (cases "cur_uthread (krunqs s1 k) = None")
    case False
    then show ?thesis using s1(1-5) by blast
  next
    case True
    have w1: "work_ok K (s1, U)" using work_ok_step [OF s1(1) w] .
    obtain s2 Q2 where s2: "gt_step (s1, U) (s2, U)" "sys_ok K U s2 Q2" "no_quit K s2" "kept s1 s2" "zombies K Q2 = zombies K Q1"
        "cur_uthread (krunqs s2 k) = None \<longrightarrow> Q2 = Q1 \<and> rq_size Q1 (active s1 k) = 0 \<and> active s2 k = expires s1 k"
      using iterate [OF w1 s1(2,3) k True left [folded s1(5)]] by (elim exE conjE)
    have "active_runq (krunqs s k) < 2 \<and> expires_runq (krunqs s k) = 1 - active_runq (krunqs s k)"
      using sys_okD(2) [OF ok] k by (simp add: kt_ok_def)
    then have "rq_size Q (expires s k) \<noteq> 0" using held_size [OF u] s1(6) True by (auto simp: less_2_cases_iff)
    then have "cur_uthread (krunqs s2 k) \<noteq> None" using s2(6) s1(6) True by auto
    moreover have "gt_step\<^sup>*\<^sup>* (s, U) (s2, U)" using s1(1) s2(1) by (meson rtranclp.simps)
    ultimately show ?thesis using s2(2-5) s1(5) kept_trans [OF s1(4) s2(4)] by (intro exI [of _ s2] exI [of _ Q2]) simp
  qed
qed

lemma done_flag: "(w OR KTHREAD_DONE) AND KTHREAD_DONE \<noteq> 0" for w :: u32
proof -
  have "(w OR d) AND d = d" for d :: u32 by (rule bit_eqI) (auto simp: bit_simps)
  then show ?thesis by simp
qed

text \<open>The current uthread of a kthread returns from its function.\<close>

lemma return_step:
  assumes w: "work_ok K (s, U)" and ok: "sys_ok K U s Q" and k: "k \<in> K" and u: "cur_uthread (krunqs s k) = Some u"
  shows "\<exists>s' Q'. gt_step (s, U) (s', U) \<and> sys_ok K U s' Q' \<and> zombies K Q' = insert u (zombies K Q) \<and> u \<in> U - zombies K Q \<and> kept s s' \<and>
    (if U \<subseteq> zombies K Q' then kthread_flags (kctxs s' k) AND KTHREAD_DONE \<noteq> 0
     else \<forall>i. kthread_flags (kctxs s' i) = kthread_flags (kctxs s i))"
proof -
  obtain apic where apic: "apic < 16" "kthread_cpu_map s apic = Some k" using w k by (auto simp: work_ok_def)
  have lb: "lb_on s \<longrightarrow> lb_mapped apic s" using w apic(2) by (simp add: work_ok_def gt_inv_def lb_all_def)
  have en: "enabled apic k (Func_return tv_zero) (s, U)" using w k u by (simp add: work_ok_def)
  obtain t out s' Q' where st: "gt_step (s, U) (s', U)" and t: "sys_ok K U t Q" "ready_for k s t" and s': "sys_ok K U s' Q'" "same_config t s'"
    and run: "uthread_schedule (calm s k) sched_find_best_uthread apic t = Inr (out, s')"
    and d: "dispatched K U k s (put_away (calm s k) k t Q) out s' Q'"
    and pa: "put_away (calm s k) k t Q = Q(Zombies k := Q (Zombies k) @ [u])"
    using event_step [OF ok apic lb en] u by auto
  have z: "zombies K Q' = insert u (zombies K Q)" using d [unfolded pa] k by (cases out) (auto simp: dispatched_def pop_def)
  have "u \<in> currents K s" using k u by (auto simp: currents_def)
  then have "u \<in> U - zombies K Q" using sys_okD(3) [OF ok] zombies_queued [of K Q] by (auto simp: places_ok_def)
  moreover have "kept s s'" by (rule schedule_kept [OF t apic lb run s'(2)])
  moreover have "if U \<subseteq> zombies K Q' then kthread_flags (kctxs s' k) AND KTHREAD_DONE \<noteq> 0
      else \<forall>i. kthread_flags (kctxs s' i) = kthread_flags (kctxs s i)"
  proof (cases "U \<subseteq> zombies K Q'")
    case True
    obtain s1 where s1: "sys_ok K U s1 (Q(Zombies k := Q (Zombies k) @ [u]))" using leave_cur_put_away [OF t(1) k, of "calm s k"] pa by auto
    then have "ready K (Q(Zombies k := Q (Zombies k) @ [u])) \<subseteq> U" using sys_okD(3) [OF s1] by (auto simp: places_ok_def ready_def)
    then have e: "ready K (Q(Zombies k := Q (Zombies k) @ [u])) = {}" using True z k by (auto simp: ready_def)
    have "U \<noteq> {}" using \<open>u \<in> U - zombies K Q\<close> by blast
    moreover have "out = BackToKthread" using d [unfolded pa] e by (cases out) (simp_all add: dispatched_def)
    ultimately have "kthread_flags (kctxs s' k) = kthread_flags (kctxs s k) OR KTHREAD_DONE"
      using d [unfolded pa] True z k by (simp add: dispatched_def)
    then show ?thesis using True done_flag by (simp only: if_True) simp
  next
    case False
    then show ?thesis using schedule_contexts(1) [OF t apic lb run s'(2) d] by simp
  qed
  ultimately show ?thesis using st s'(1) z by blast
qed

lemma unfinished_places:
  assumes "sys_ok K U s Q" and "u \<in> U - zombies K Q"
  shows "(\<exists>k\<in>K. cur_uthread (krunqs s k) = Some u) \<or> (\<exists>k\<in>K. u \<in> held_by k Q)"
proof -
  have "u \<in> queued (Hs K) Q \<or> u \<in> currents K s" using sys_okD(3) [OF assms(1)] assms(2) by (auto simp: places_ok_def)
  then show ?thesis using assms(2) by (fastforce simp: queued_def currents_def held_by_def krunq_heads_def zombies_def)
qed

lemma run_one:
  assumes w: "work_ok K (s, U)" and ok: "sys_ok K U s Q" and nq: "no_quit K s" and left: "u \<in> U - zombies K Q"
  shows "\<exists>s' Q' k. k \<in> K \<and> gt_step\<^sup>*\<^sup>* (s, U) (s', U) \<and> sys_ok K U s' Q' \<and> no_quit K s' \<and> zombies K Q' = zombies K Q \<and>
    cur_uthread (krunqs s' k) \<noteq> None"
proof (cases "\<exists>k\<in>K. cur_uthread (krunqs s k) \<noteq> None")
  case True
  then show ?thesis using ok nq by blast
next
  case False
  then obtain k where k: "k \<in> K" "u \<in> held_by k Q" using unfinished_places [OF ok left] by auto
  have "cur_uthread (krunqs s k) = None" using False k(1) by blast
  from loop_runs [OF w ok nq k(1) this k(2)] show ?thesis using k(1) by blast
qed

lemma can_finish:
  assumes "work_ok K (s, U)" and "sys_ok K U s Q" and "no_quit K s"
  shows "\<exists>s'. gt_step\<^sup>*\<^sup>* (s, U) (s', U) \<and> app_exit_wait_done s'"
  using assms
proof (induction "card (U - zombies K Q)" arbitrary: s Q rule: less_induct)
  case less
  show ?case
  proof (cases "U \<subseteq> zombies K Q")
    case True
    then show ?thesis using finished_done [OF less.prems(2)] by blast
  next
    case False
    then obtain u where "u \<in> U - zombies K Q" by blast
    from run_one [OF less.prems this] obtain s1 Q1 k where s1: "k \<in> K" "gt_step\<^sup>*\<^sup>* (s, U) (s1, U)" "sys_ok K U s1 Q1" "no_quit K s1"
      "zombies K Q1 = zombies K Q" "cur_uthread (krunqs s1 k) \<noteq> None"
      by blast
    then obtain v where v: "cur_uthread (krunqs s1 k) = Some v" by blast
    have w1: "work_ok K (s1, U)" using wrk.inv_steps [OF s1(2) less.prems(1)] .
    obtain s2 Q2 where s2: "gt_step (s1, U) (s2, U)" "sys_ok K U s2 Q2" "zombies K Q2 = insert v (zombies K Q1)" "v \<in> U - zombies K Q1"
        "if U \<subseteq> zombies K Q2 then kthread_flags (kctxs s2 k) AND KTHREAD_DONE \<noteq> 0
         else \<forall>i. kthread_flags (kctxs s2 i) = kthread_flags (kctxs s1 i)"
      using return_step [OF w1 s1(3,1) v] by (elim exE conjE)
    have w2: "work_ok K (s2, U)" using work_ok_step [OF s2(1) w1] .
    have steps: "gt_step\<^sup>*\<^sup>* (s, U) (s2, U)" using s1(2) s2(1) by (rule rtranclp.rtrancl_into_rtrancl)
    show ?thesis
    proof (cases "U \<subseteq> zombies K Q2")
      case True
      then show ?thesis using finished_done [OF s2(2)] steps by blast
    next
      case False
      then have "no_quit K s2" using s2(5) s1(4) unfolding no_quit_def by simp
      moreover have "card (U - zombies K Q2) < card (U - zombies K Q)"
      proof (rule psubset_card_mono)
        show "finite (U - zombies K Q)" using sys_okD(3) [OF less.prems(2)] by (simp add: places_ok_def)
        show "U - zombies K Q2 \<subset> U - zombies K Q" using s2(3,4) s1(5) by auto
      qed
      ultimately obtain s' where "gt_step\<^sup>*\<^sup>* (s2, U) (s', U)" "app_exit_wait_done s'" using less.hyps w2 s2(2) by blast
      with steps show ?thesis by (meson rtranclp_trans)
    qed
  qed
qed

subsection \<open>A kthread that quits too early\<close>


text \<open>The next processor in the round-robin order is unique.\<close>

lemma next_cpu_unique: "next_cpu s g t \<Longrightarrow> next_cpu s g t' \<Longrightarrow> t' = t"
proof -
  have "d \<le> d'" if "kthread_cpu_map s ((l + Suc d') mod 16) \<noteq> None" "\<forall>j<d. kthread_cpu_map s ((l + Suc j) mod 16) = None" for l d d'
    using that by (meson not_le)
  then show "next_cpu s g t \<Longrightarrow> next_cpu s g t' \<Longrightarrow> t' = t"
    unfolding next_cpu_def Let_def by (metis le_antisym)
qed

lemma next_cpu_kept: "kthread_cpu_map s' = kthread_cpu_map s \<Longrightarrow>
    last_ugroup_kthread (ksched_shared_info s') g = last_ugroup_kthread (ksched_shared_info s) g \<Longrightarrow> next_cpu s' g t = next_cpu s g t"
  by (simp add: next_cpu_def)

text \<open>A creation as a step: the new uthread is on the queues of the next kthread, done or not.\<close>

lemma create_step:
  assumes w: "work_ok K (s, U)" and ok: "sys_ok K U s Q" and u: "u \<notin> U" and g: "g < 32" and room: "card U < 128"
    and t: "next_cpu s g t" "t < 16" "kthread_cpu_map s t = Some k"
  shows "\<exists>s' Q'. gt_step (s, U) (s', insert u U) \<and> sys_ok K (insert u U) s' Q' \<and> u \<in> held_by k Q' \<and> kctxs s' = kctxs s \<and>
    same_config s s' \<and> cur_uthread (krunqs s' k) = cur_uthread (krunqs s k) \<and>
    last_ugroup_kthread (ksched_shared_info s') = (last_ugroup_kthread (ksched_shared_info s))(g := of_nat t)"
proof -
  let ?gid = "of_nat g :: u32"
  let ?timer = "\<lparr>running_time = tv_zero, cpu_time = tv_zero\<rparr>"
  let ?ev = "Create u 0 ?timer tv_zero 0 0 ?gid 1"
  have gid: "unat ?gid = g" using g by (simp add: unat_of_nat)
  have m: "kthread_cpu_map s t \<noteq> None" using t(3) by simp
  obtain t' k' s' where s': "next_cpu s g t'" "kthread_cpu_map s t' = Some k'"
      "uthread_create (Some u) (Some 0) (Some ?timer) tv_zero 0 0 ?gid 1 s = Inr (0, Some (of_nat (card U)), s')"
      "last_ugroup_kthread (ksched_shared_info s') = (last_ugroup_kthread (ksched_shared_info s))(g := of_nat t')"
      "same_config s s'" "kctxs s' = kctxs s"
      "sys_ok K (insert u U) s' (Q(PrioGroup (active s k') 16 g := Q (PrioGroup (active s k') 16 g) @ [u]))"
    using uthread_create_ok [OF ok u gid g m t(2) room, of 0 ?timer tv_zero 0 0 1] by blast
  have "t' = t" by (rule next_cpu_unique [OF t(1) s'(1)])
  then have k': "k' = k" using s'(2) t(3) by simp
  have k: "k \<in> K" using sys_okD(2) [OF ok] t(3) by (auto simp: kt_ok_def)
  have "active s k \<in> Rs K" using sys_okD(2) [OF ok] k by (rule kt_ok_active_in_Rs)
  then have held: "u \<in> held_by k (Q(PrioGroup (active s k') 16 g := Q (PrioGroup (active s k') 16 g) @ [u]))"
    using g by (auto simp: k' held_by_def rq_heads_def)
  have "run_event (calm s k) t ?ev s = Inr s'" using s'(3) by simp
  moreover have "enabled t k ?ev (s, U)" using u room g gid by simp
  ultimately have "gt_step (s, U) (s', U \<union> created_by ?ev)" using gt_step.event [OF t(2,3) _ calm_fair(2)] by blast
  then show ?thesis using s'(4-7) held uthread_create_cur [OF s'(3), of k] \<open>t' = t\<close>
    by (intro exI [of _ s'] exI [of _ "Q(PrioGroup (active s k') 16 g := Q (PrioGroup (active s k') 16 g) @ [u])"]) simp
qed

text \<open>While \<open>main\<close> creates uthreads, one of the other kthreads can run the first one to its end, find all uthreads
  finished and quit; the next uthread that is sent to it stays on its queue.\<close>

lemma early_quit:
  assumes w: "work_ok K (s, {})" and nq: "no_quit K s" and lb: "\<not> lb_on s" and t: "t < 16" "kthread_cpu_map s t = Some k"
    and g: "g < 32" "g' < 32" "g \<noteq> g'" "next_cpu s g t" "next_cpu s g' t" and uv: "u \<noteq> v"
  shows "\<exists>s'. gt_step\<^sup>*\<^sup>* (s, {}) (s', {u, v}) \<and> kthread_flags (kctxs s' k) AND KTHREAD_DONE \<noteq> 0 \<and> stranded K k v (s', {u, v})"
proof -
  obtain Q where ok: "sys_ok K {} s Q" using w by (auto simp: work_ok_def gt_inv_def)
  have k: "k \<in> K" using sys_okD(2) [OF ok] t(2) by (auto simp: kt_ok_def)
  have idle: "cur_uthread (krunqs s k) = None" using sys_okD(3) [OF ok] k by (cases "cur_uthread (krunqs s k)") (auto simp: places_ok_def currents_def)
  obtain s1 Q1 where s1: "gt_step (s, {}) (s1, {u})" "sys_ok K {u} s1 Q1" "u \<in> held_by k Q1" "kctxs s1 = kctxs s" "same_config s s1"
      "cur_uthread (krunqs s1 k) = cur_uthread (krunqs s k)"
      "last_ugroup_kthread (ksched_shared_info s1) = (last_ugroup_kthread (ksched_shared_info s))(g := of_nat t)"
    using create_step [OF w ok _ g(1) _ g(4) t, of u] by auto
  have w1: "work_ok K (s1, {u})" using work_ok_step [OF s1(1) w] .
  have nq1: "no_quit K s1" using nq by (simp only: no_quit_def s1(4))
  obtain s2 Q2 where s2: "gt_step\<^sup>*\<^sup>* (s1, {u}) (s2, {u})" "sys_ok K {u} s2 Q2" "kept s1 s2" "cur_uthread (krunqs s2 k) \<noteq> None"
    using loop_runs [OF w1 s1(2) nq1 k _ s1(3)] s1(6) idle by auto
  then obtain x where x: "cur_uthread (krunqs s2 k) = Some x" by blast
  have w2: "work_ok K (s2, {u})" using wrk.inv_steps [OF s2(1) w1] .
  obtain s3 Q3 where s3: "gt_step (s2, {u}) (s3, {u})" "sys_ok K {u} s3 Q3" "zombies K Q3 = insert x (zombies K Q2)" "x \<in> {u} - zombies K Q2"
      "kept s2 s3" "if {u} \<subseteq> zombies K Q3 then kthread_flags (kctxs s3 k) AND KTHREAD_DONE \<noteq> 0
        else \<forall>i. kthread_flags (kctxs s3 i) = kthread_flags (kctxs s2 i)"
    using return_step [OF w2 s2(2) k x] by (elim exE conjE)
  have quit: "kthread_flags (kctxs s3 k) AND KTHREAD_DONE \<noteq> 0" using s3(3,4,6) by auto
  have kept: "kept s1 s3" by (rule kept_trans [OF s2(3) s3(5)])
  have w3: "work_ok K (s3, {u})" using work_ok_step [OF s3(1) w2] .
  have "kthread_cpu_map s1 = kthread_cpu_map s" using s1(5) by (simp add: same_config_def)
  then have map: "kthread_cpu_map s3 = kthread_cpu_map s" using kept by (simp add: kept_def)
  have lb3: "\<not> lb_on s3" using kept lb same_config_lb(1) [OF s1(5)] by (simp add: kept_def)
  have "last_ugroup_kthread (ksched_shared_info s3) g' = last_ugroup_kthread (ksched_shared_info s) g'"
    using kept s1(7) g(3) by (simp add: kept_def)
  then have "next_cpu s3 g' t" using g(5) next_cpu_kept [OF map] by blast
  then obtain s4 Q4 where s4: "gt_step (s3, {u}) (s4, {u, v})" "sys_ok K {u, v} s4 Q4" "v \<in> held_by k Q4" "kctxs s4 = kctxs s3" "same_config s3 s4"
    using create_step [OF w3 s3(2) _ g(2), of v t k] t uv map by (auto simp: insert_commute)
  have "gt_step\<^sup>*\<^sup>* (s, {}) (s4, {u, v})"
    using converse_rtranclp_into_rtranclp [of gt_step, OF s1(1) s2(1)] s3(1) s4(1) by (meson rtranclp.rtrancl_into_rtrancl)
  moreover have "stranded K k v (s4, {u, v})"
    using k s4(2,3) lb3 same_config_lb(1) [OF s4(5)] by (auto simp: stranded_def)
  ultimately show ?thesis using quit s4(4) by auto
qed

end
