(* ===== verification/GT_Example.thy ===== *)
theory GT_Example
  imports GT_Liveness
begin

unbundle bit_operations_syntax

text \<open>
  Concrete states on which the properties of the scheduler are instantiated: a kthread with two
  uthreads of different priorities on its active runqueue (\<open>ex_two\<close>), and a run of the library that
  starts one kthread (\<open>sx_boot\<close>), creates a uthread (\<open>sx_one\<close>) and dispatches it (\<open>sx_run\<close>).
\<close>

subsection \<open>One kthread, two uthreads\<close>

definition ex_uth :: "uid \<Rightarrow> uthread_struct" where
  "ex_uth u = uthread_zero\<lparr>uthread_state := UTHREAD_RUNNABLE, uthread_priority := (if u = 0 then 1 else 2),
     uthread_env := True\<rparr>"

definition ex_base :: gt_state where
  "ex_base = (kthread_init_runqueue 0 (gt_blank 1 0))\<lparr>uths := ex_uth\<rparr>"

definition ex_one :: gt_state where
  "ex_one = projr (raw_add_to_runqueue (0, 0) 0 ex_base)"

definition ex_two :: gt_state where
  "ex_two = projr (raw_add_to_runqueue (0, 0) 1 ex_one)"

definition ex_Q1 :: "rq_head \<Rightarrow> uid list" where
  "ex_Q1 = (\<lambda>_. [])(PrioGroup (0, 0) 1 0 := [0])"

definition ex_Q2 :: "rq_head \<Rightarrow> uid list" where
  "ex_Q2 = ex_Q1(PrioGroup (0, 0) 2 0 := [1])"

lemma ex_base_ok:
  "pq_ok (Hs {0}) (Rs {0}) ex_base (\<lambda>_. [])" "kt_ok {0} ex_base" "uths ex_base = ex_uth"
  "active_runq (krunqs ex_base 0) = 0" "expires_runq (krunqs ex_base 0) = 1"
proof -
  let ?b = "gt_blank 1 0"
  have "pq_ok {} {} ?b (\<lambda>_. [])" by (simp add: pq_ok_def tq_world_def)
  then have "pq_ok (krunq_heads 0 \<union> {}) (insert (0, 0) (insert (0, 1) {})) (kthread_init_runqueue 0 ?b)
      (\<lambda>h. if h \<in> krunq_heads 0 then [] else (\<lambda>_. []) h)"
    by (rule kthread_init_runqueue_ok) (simp_all add: gt_blank_def)
  then have "pq_ok (Hs {0}) (Rs {0}) (kthread_init_runqueue 0 ?b) (\<lambda>_. [])"
    by (simp add: if_cancel)
  then show "pq_ok (Hs {0}) (Rs {0}) ex_base (\<lambda>_. [])"
    by (rule pq_ok_cong [rotated 4]) (simp_all add: ex_base_def queued_def)
  show "kt_ok {0} ex_base"
    by (simp add: kt_ok_def ex_base_def kthread_init_runqueue_eq gt_blank_def krunq_zero_def)
qed (simp_all add: ex_base_def kthread_init_runqueue_eq)

lemma rq_size_empty: "(\<And>p g. Q (PrioGroup rq p g) = []) \<Longrightarrow> rq_size Q rq = 0"
  by (simp add: rq_size_def totsum_eq_0 rq_len_def)

lemma rq_size_upd:
  assumes "p < 32" and "g < 32" and "Q (PrioGroup rq p g) = []"
  shows "rq_size (Q(PrioGroup rq p g := [u])) rq = rq_size Q rq + 1"
proof -
  have "rq_len (Q(PrioGroup rq p g := [u])) rq = inc2 (rq_len Q rq) p g"
    using assms(3) by (auto simp: rq_len_def inc2_def fun_eq_iff)
  then show ?thesis using assms(1,2) by (simp add: rq_size_def)
qed

lemma ex_one_ok:
  "raw_add_to_runqueue (0, 0) 0 ex_base = Inr ex_one" "pq_ok (Hs {0}) (Rs {0}) ex_one ex_Q1"
  "only_queues ex_base ex_one"
proof -
  have pu: "unat (uthread_priority (uths ex_base 0)) = 1" and gu: "unat (uthread_gid (uths ex_base 0)) = 0"
    by (simp_all add: ex_base_ok ex_uth_def uthread_zero_def)
  obtain s' where "raw_add_to_runqueue (0, 0) 0 ex_base = Inr s'" "pq_ok (Hs {0}) (Rs {0}) s' ex_Q1"
    "s' = ex_base\<lparr>links := links s', runqs := (runqs ex_base)((0, 0) := runqs s' (0, 0))\<rparr>"
    using raw_add_to_runqueue_ok [OF ex_base_ok(1) _ _ pu _ gu] by (auto simp: queued_def rq_size_empty ex_Q1_def)
  then show "raw_add_to_runqueue (0, 0) 0 ex_base = Inr ex_one" "pq_ok (Hs {0}) (Rs {0}) ex_one ex_Q1"
    "only_queues ex_base ex_one" by (auto simp: ex_one_def intro: only_queuesI)
qed

lemma rq_size_ex [simp]: "rq_size ex_Q1 (0, 0) = 1" "rq_size ex_Q2 (0, 0) = 2" "rq_size ex_Q2 (0, 1) = 0"
  by (simp_all add: ex_Q1_def ex_Q2_def rq_size_upd rq_size_empty)

lemma ex_two_ok:
  "raw_add_to_runqueue (0, 0) 1 ex_one = Inr ex_two" "pq_ok (Hs {0}) (Rs {0}) ex_two ex_Q2"
  "only_queues ex_base ex_two" "kt_ok {0} ex_two" "active_runq (krunqs ex_two 0) = 0" "expires_runq (krunqs ex_two 0) = 1"
proof -
  have u: "uths ex_one = ex_uth" using only_queuesD(1) [OF ex_one_ok(3)] by (simp add: ex_base_ok)
  have pu: "unat (uthread_priority (uths ex_one 1)) = 2" and gu: "unat (uthread_gid (uths ex_one 1)) = 0"
    by (simp_all add: u ex_uth_def uthread_zero_def)
  have nq: "1 \<notin> queued (Hs {0}) ex_Q1" by (auto simp: queued_def ex_Q1_def split: if_splits)
  obtain s' where s': "raw_add_to_runqueue (0, 0) 1 ex_one = Inr s'" "pq_ok (Hs {0}) (Rs {0}) s' ex_Q2"
    "s' = ex_one\<lparr>links := links s', runqs := (runqs ex_one)((0, 0) := runqs s' (0, 0))\<rparr>"
    using raw_add_to_runqueue_ok [OF ex_one_ok(2) _ nq pu _ gu, of "(0, 0)"]
    by (auto simp: ex_Q2_def ex_Q1_def rq_size_upd rq_size_empty)
  then show "raw_add_to_runqueue (0, 0) 1 ex_one = Inr ex_two" "pq_ok (Hs {0}) (Rs {0}) ex_two ex_Q2"
    by (simp_all add: ex_two_def)
  have "only_queues ex_one ex_two" using s' by (auto simp: ex_two_def intro: only_queuesI)
  with ex_one_ok(3) show q: "only_queues ex_base ex_two" by (rule only_queues_trans)
  show "kt_ok {0} ex_two" using ex_base_ok(2) by (simp add: kt_ok_only_queues [OF q])
  show "active_runq (krunqs ex_two 0) = 0" "expires_runq (krunqs ex_two 0) = 1"
    by (simp_all add: only_queuesD [OF q] ex_base_ok)
qed

lemma raw_add_group_mask:
  assumes "raw_add_to_runqueue rq u s = Inr s'" and "unat (uthread_priority (uths s u)) = p" and "p < 32"
    and "unat (uthread_gid (uths s u)) = g" and "g < 32"
  shows "uthread_group_mask (runqs s' rq) g = SET_BIT (uthread_group_mask (runqs s rq) g) p"
  using assms by (auto simp: raw_add_to_runqueue_eq [OF assms(2,4,3,5)] rbind_eq_Inr counts_add_def)

lemma ex_two_group_mask [simp]: "\<not> bit (uthread_group_mask (runqs ex_two (0, 0)) 0) 0"
proof -
  have u: "uths ex_one = ex_uth" using only_queuesD(1) [OF ex_one_ok(3)] by (simp add: ex_base_ok)
  have "uthread_group_mask (runqs ex_two (0, 0)) 0 = SET_BIT (uthread_group_mask (runqs ex_one (0, 0)) 0) 2"
    by (rule raw_add_group_mask [OF ex_two_ok(1)]) (simp_all add: u ex_uth_def uthread_zero_def)
  also have "uthread_group_mask (runqs ex_one (0, 0)) 0 = SET_BIT (uthread_group_mask (runqs ex_base (0, 0)) 0) 1"
    by (rule raw_add_group_mask [OF ex_one_ok(1)]) (simp_all add: ex_base_ok ex_uth_def uthread_zero_def)
  also have "uthread_group_mask (runqs ex_base (0, 0)) 0 = 0"
    by (simp add: ex_base_def kthread_init_runqueue_eq gt_blank_def runq_zero_def)
  finally show ?thesis by simp
qed

subsection \<open>A run of the library\<close>

definition sx_env :: sys_env where
  "sx_env = \<lparr>now_end = \<lparr>tv_sec = 0, tv_usec = 5000\<rparr>, now_start = tv_zero, sigaction_ok = True,
     sigaltstack_ok = True, sigaction_revert_ok = True, sigaltstack_revert_ok = True\<rparr>"

definition sx_boot :: gt_state where
  "sx_boot = projr (app_init_main (Some 0) 11 12 0 (gt_blank 1 0))"

definition sx_one :: gt_state where
  "sx_one = projr (run_event sx_env 0 (Create 7 9 timer_zero tv_zero 0 0 3 100) sx_boot)"

definition sx_run :: gt_state where
  "sx_run = projr (run_event sx_env 0 Loop_iteration sx_one)"

lemma sx_env_ok [simp]: "sys_calls_ok sx_env"
  by (simp add: sys_calls_ok_def sx_env_def)

lemma sx_boot_ok:
  "app_init_main (Some 0) 11 12 0 (gt_blank 1 0) = Inr sx_boot" "\<exists>Q. sys_ok {0} {} sx_boot Q"
  "kthread_cpu_map sx_boot = [0 \<mapsto> 0]" "is_load_balancing sx_boot = 0" "kthread_flags (kctxs sx_boot 0) = 0"
  "is_credit_scheduler sx_boot = 1" "kthread_env (kctxs sx_boot 0) = False"
  "kthread_sched_timer (kctxs sx_boot 0) = Some Ksched_priority" "kthread_sched_relay (kctxs sx_boot 0) = Some Ksched_cosched"
  "last_ugroup_kthread (ksched_shared_info sx_boot) = (\<lambda>g. 0)"
proof -
  obtain s Q where s: "app_init_main (Some 0) 11 12 0 (gt_blank 1 0) = Inr s" "sys_ok {0} {} s Q"
    "kthread_cpu_map s = [0 \<mapsto> 0]" using app_init_main_ok [of 0 0 11 12 1 0] by auto
  then show eq: "app_init_main (Some 0) 11 12 0 (gt_blank 1 0) = Inr sx_boot" "\<exists>Q. sys_ok {0} {} sx_boot Q"
    "kthread_cpu_map sx_boot = [0 \<mapsto> 0]" by (auto simp: sx_boot_def)
  have b: "MALLOCZ_SAFE (Some 0) (ksched_info_init (gt_blank 1 0)) = Inr (Some 0, ksched_info_init (gt_blank 1 0))"
    by (rule MALLOC_eq) (simp add: ksched_info_init_def gt_blank_def gt_spinlock_init_def Let_def)
  have eq2: "sx_boot = (kthread_init_runqueue 0 (upd_kctx 0 (\<lambda>c. c\<lparr>k_pid := 11, k_tid := 12,
        kthread_sched_timer := Some Ksched_priority, kthread_sched_relay := Some Ksched_cosched, cpu_apic_id := of_nat 0\<rparr>)
      (upd_kctx 0 (\<lambda>c. c\<lparr>cpuid := 0, kthread_app_func := Some Gtthread_app_start\<rparr>)
        (store_zero_kctx 0 (ksched_info_init (gt_blank 1 0))))))
      \<lparr>kthread_cpu_map := (kthread_cpu_map (gt_blank 1 0))(0 := Some 0)\<rparr>"
    using eq(1) unfolding app_init_main_def b by (simp add: kthread_init_eq ksched_info_init_def Let_def)
  show "is_load_balancing sx_boot = 0" "kthread_flags (kctxs sx_boot 0) = 0" "is_credit_scheduler sx_boot = 1"
    "kthread_env (kctxs sx_boot 0) = False" "kthread_sched_timer (kctxs sx_boot 0) = Some Ksched_priority"
    "kthread_sched_relay (kctxs sx_boot 0) = Some Ksched_cosched"
    "last_ugroup_kthread (ksched_shared_info sx_boot) = (\<lambda>g. 0)"
    unfolding eq2 by (simp_all add: kthread_init_runqueue_eq store_zero_kctx_def kctx_zero_def
        ksched_info_init_def gt_blank_def Let_def)
qed

lemma sx_boot_init: "gt_init {0} (sx_boot, {})"
  using sx_boot_ok by (simp add: gt_init_def lb_all_def lb_on_def)

lemma sx_one_step:
  "gt_step (sx_boot, {}) (sx_one, {7})" "run_event sx_env 0 (Create 7 9 timer_zero tv_zero 0 0 3 100) sx_boot = Inr sx_one"
proof -
  obtain Q where ok: "sys_ok {0} {} sx_boot Q" using sx_boot_ok(2) by blast
  have en: "enabled 0 0 (Create 7 9 timer_zero tv_zero 0 0 3 100) (sx_boot, {})" by simp
  have idle: "cur_uthread (krunqs sx_boot 0) = None"
    using sys_okD(3) [OF ok] by (auto simp: places_ok_def currents_def)
  then have fair: "sys_fair sx_env 0 sx_boot" by (simp add: sys_fair_def)
  have m: "kthread_cpu_map sx_boot 0 = Some 0" by (simp add: sx_boot_ok)
  have "gt_inv {0} (sx_boot, {})" using gt.inv_init [OF sx_boot_init] .
  then obtain s where "run_event sx_env 0 (Create 7 9 timer_zero tv_zero 0 0 3 100) sx_boot = Inr s"
    using run_event_ok [OF _ _ m en fair] by auto
  then show r: "run_event sx_env 0 (Create 7 9 timer_zero tv_zero 0 0 3 100) sx_boot = Inr sx_one"
    by (simp add: sx_one_def)
  from gt_step.event [OF _ m en fair r] show "gt_step (sx_boot, {}) (sx_one, {7})" by simp
qed

lemma rq_size_nonempty: "p < 32 \<Longrightarrow> g < 32 \<Longrightarrow> Q (PrioGroup rq p g) \<noteq> [] \<Longrightarrow> rq_size Q rq \<noteq> 0"
  by (auto simp: rq_size_def totsum_eq_0 rq_len_def)

lemma sx_one_ok:
  "\<exists>Q. sys_ok {0} {7} sx_one Q \<and> rq_size Q (active sx_one 0) \<noteq> 0 \<and> rq_size Q (expires sx_one 0) = 0" "kthread_cpu_map sx_one = [0 \<mapsto> 0]"
  "\<not> lb_on sx_one" "kthread_flags (kctxs sx_one 0) = 0" "cur_uthread (krunqs sx_one 0) = None"
proof -
  obtain Q where ok: "sys_ok {0} {} sx_boot Q" using sx_boot_ok(2) by blast
  have m: "kthread_cpu_map sx_boot 0 \<noteq> None" by (simp add: sx_boot_ok)
  obtain t k s where s: "kthread_cpu_map sx_boot t = Some k"
    "uthread_create (Some 7) (Some 9) (Some timer_zero) tv_zero 0 0 3 100 sx_boot = Inr (0, Some (of_nat 0), s)"
    "same_config sx_boot s" "kctxs s = kctxs sx_boot" and ptr: "same_pointers sx_boot s"
    and ok1:
    "sys_ok {0} {7} s (Q(PrioGroup (active sx_boot k) 16 3 := Q (PrioGroup (active sx_boot k) 16 3) @ [7]))"
    (is "sys_ok _ _ _ ?Q")
    using uthread_create_ok [OF ok, of 7 3 3 0 9 timer_zero tv_zero 0 0 100] m by auto
  have eq: "s = sx_one" using s(2) sx_one_step(2) by simp
  have k: "k = 0" using s(1) by (simp add: sx_boot_ok split: if_splits)
  show m1: "kthread_cpu_map sx_one = [0 \<mapsto> 0]" using s(3) by (simp add: eq same_config_def sx_boot_ok)
  show "\<not> lb_on sx_one" using s(3) by (simp add: eq same_config_def lb_on_def sx_boot_ok)
  show "kthread_flags (kctxs sx_one 0) = 0" using s(4) by (simp add: eq sx_boot_ok)
  have pos: "?Q (PrioGroup (active sx_boot 0) 16 3) \<noteq> []" by (simp add: k)
  have ready7: "7 \<in> queued (Hs {0}) ?Q"
    using pos kt_ok_active_in_Rs [OF sys_okD(2) [OF ok], of 0]
    by (auto simp: queued_def krunq_heads_def rq_heads_def k intro!: bexI [of _ "PrioGroup (active sx_boot 0) 16 3"])
  then show idle: "cur_uthread (krunqs sx_one 0) = None"
    using sys_okD(3) [OF ok1] by (cases "cur_uthread (krunqs sx_one 0)") (auto simp: places_ok_def currents_def eq)
  have "active sx_one 0 = active sx_boot 0" "expires sx_one 0 = expires sx_boot 0"
    using ptr by (simp_all add: eq same_pointers_def)
  moreover have "rq_size ?Q (active sx_boot 0) \<noteq> 0" by (rule rq_size_nonempty [of 16 3 ?Q, OF _ _ pos]) simp_all
  moreover have "rq_size ?Q (expires sx_boot 0) = 0"
  proof -
    have ne: "active sx_boot 0 \<noteq> expires sx_boot 0" using kt_okD(3) [OF sys_okD(2) [OF ok], of 0] by auto arith
    have "Q (PrioGroup (expires sx_boot 0) p g) = []" if "p < 32" "g < 32" for p g
    proof -
      have "PrioGroup (expires sx_boot 0) p g \<in> Hs {0}"
        by (rule slot_in_Hs [OF _ kt_ok_expires_in_Rs [OF sys_okD(2) [OF ok]] that]) simp_all
      moreover have "queued (Hs {0}) Q = {}" using sys_okD(3) [OF ok] by (simp add: places_ok_def)
      ultimately show ?thesis by (auto simp: queued_def)
    qed
    with ne show ?thesis by (simp add: rq_size_def totsum_eq_0 rq_len_def k)
  qed
  ultimately show "\<exists>Q. sys_ok {0} {7} sx_one Q \<and> rq_size Q (active sx_one 0) \<noteq> 0 \<and> rq_size Q (expires sx_one 0) = 0"
    using ok1 unfolding eq by metis
qed

lemma sx_one_reached: "gt_init {0} (sx_boot, {})" "gt_step\<^sup>*\<^sup>* (sx_boot, {}) (sx_one, {7})"
  using sx_boot_init sx_one_step(1) by auto

lemma sx_one_enabled: "enabled 0 0 Loop_iteration (sx_one, {7})" "sys_fair sx_env 0 sx_one"
  using sx_one_ok by (simp_all add: sys_fair_def)

lemma sx_swapped_ok:
  "\<exists>Q. sys_ok {0} {7} (swapped 0 sx_one) Q \<and> rq_size Q (active (swapped 0 sx_one) 0) = 0 \<and>
     rq_size Q (expires (swapped 0 sx_one) 0) \<noteq> 0"
proof -
  obtain Q where ok: "sys_ok {0} {7} sx_one Q" "rq_size Q (active sx_one 0) \<noteq> 0" "rq_size Q (expires sx_one 0) = 0"
    using sx_one_ok(1) by blast
  have "sys_ok {0} {7} (swapped 0 sx_one) Q"
  proof (rule sys_ok_same_threads [OF ok(1) same_swapped])
    show "pq_ok (Hs {0}) (Rs {0}) (swapped 0 sx_one) Q" using sys_okD(1) [OF ok(1)] by (simp add: swapped_def)
    show "kt_ok {0} (swapped 0 sx_one)" using sys_okD(2) [OF ok(1)] by (simp add: kt_ok_swapped)
  qed
  with ok(2,3) show ?thesis by auto
qed

lemma sx_run_ok:
  "app_loop_iter sx_env 0 0 sx_one = Inr (Some (RunUthread 7, sx_run))" "\<exists>Q. sys_ok {0} {7} sx_run Q"
  "kthread_cpu_map sx_run = [0 \<mapsto> 0]" "\<not> lb_on sx_run" "kthread_env (kctxs sx_run 0)"
  "cur_uthread (krunqs sx_run 0) = Some 7" "uthread_state (uths sx_run 7) = UTHREAD_RUNNING"
proof -
  obtain Q where ok: "sys_ok {0} {7} sx_one Q" and ne: "rq_size Q (active sx_one 0) \<noteq> 0" using sx_one_ok(1) by blast
  let ?s = "upd_kctx 0 (\<lambda>c. c\<lparr>kthread_env := True\<rparr>) sx_one"
  have ok1: "sys_ok {0} {7} ?s Q" using ok by (rule sys_ok_upd_kctx)
  have c: "cur_uthread (krunqs ?s 0) = None" "kthread_cpu_map ?s 0 = Some 0" "lb_on ?s \<longrightarrow> lb_mapped 0 ?s"
    "kthread_env (kctxs ?s 0)" "rq_size Q (active ?s 0) \<noteq> 0"
    using sx_one_ok ne by (auto simp: lb_on_def)
  obtain p g s' Q' where d: "best_slot Q (active ?s 0) p g"
    "dispatch sx_env sched_find_best_uthread 0 0 ?s = Inr (RunUthread (hd (Q (PrioGroup (active ?s 0) p g))), s')"
    "sys_ok {0} {7} s' Q'" "same_config ?s s'"
    "dispatched {0} {7} 0 ?s Q (RunUthread (hd (Q (PrioGroup (active ?s 0) p g)))) s' Q'"
    using dispatch_active [OF ok1 c(1) sx_env_ok _ c(2-5)] by auto
  let ?u = "hd (Q (PrioGroup (active ?s 0) p g))"
  have "?u \<in> ready {0} Q" "cur_uthread (krunqs s' 0) = Some ?u" using d(5) by (simp_all add: dispatched_def)
  then have u: "?u = 7" using sys_okD(3) [OF ok] by (auto simp: ready_def places_ok_def)
  have "app_loop_iter sx_env 0 0 sx_one = Inr (Some (RunUthread 7, s'))"
    using d(2) u sx_one_ok by (simp add: app_loop_iter_def uthread_schedule_def leave_cur_def)
  moreover from this have "s' = sx_run" by (simp add: sx_run_def sx_one_ok)
  ultimately show "app_loop_iter sx_env 0 0 sx_one = Inr (Some (RunUthread 7, sx_run))"
    "\<exists>Q. sys_ok {0} {7} sx_run Q" "kthread_cpu_map sx_run = [0 \<mapsto> 0]" "\<not> lb_on sx_run" "kthread_env (kctxs sx_run 0)"
    "cur_uthread (krunqs sx_run 0) = Some 7" "uthread_state (uths sx_run 7) = UTHREAD_RUNNING"
    using d(3,4,5) u sx_one_ok(2,3) by (auto simp: same_config_def lb_on_def dispatched_def)
qed

lemma dispatch_start:
  "dispatch e best apic k s = Inr (RunUthread u, s') \<Longrightarrow> start_running_time_step (uths s' u) = now_start e"
  by (auto simp: dispatch_def Let_def result_simps split: option.splits if_splits)

lemma sx_run_fair: "sys_fair sx_env 0 sx_run"
proof -
  have "start_running_time_step (uths sx_run 7) = now_start sx_env"
    using sx_run_ok(1) sx_one_ok(2,4)
    by (auto simp: app_loop_iter_def uthread_schedule_def result_simps dest: dispatch_start)
  then show ?thesis
    by (simp add: sys_fair_def slice_ok_def sx_run_ok(6)) (simp add: sx_env_def tv_zero_def usecs_def)
qed

subsection \<open>The same run with its signals\<close>

text \<open>The signals of a process that starts, those after \<open>gtthread_app_init\<close>, those of the running uthread,
  and the latter after the timer has expired.\<close>

definition sx_blank :: sig_state where
  "sx_blank = \<lparr>sig_action = (\<lambda>_. \<lparr>sa_handler = None, sa_mask = {}\<rparr>), sig_blocked = (\<lambda>_. {}), sig_pending = (\<lambda>_. {}),
     itimer_virtual = (\<lambda>_. None)\<rparr>"

definition sx_sig0 :: sig_state where
  "sx_sig0 = app_init_signals (\<lambda>_. {}) 0 (kctxs sx_boot 0) sx_blank"

definition sx_sig1 :: sig_state where
  "sx_sig1 = snd (projr (run_event_sig (\<lambda>_. {}) sx_env 0 Loop_iteration (sx_one, sx_sig0)))"

definition sx_sig2 :: sig_state where
  "sx_sig2 = raise_signal SIGVTALRM 0 sx_sig1"

lemma sx_sig0_sel [simp]:
  "sa_handler (sig_action sx_sig0 SIGVTALRM) = Some (Sched_handler Ksched_priority)"
  "sa_handler (sig_action sx_sig0 SIGUSR1) = Some (Sched_handler Ksched_cosched)"
  "sig_blocked sx_sig0 0 = {}" "itimer_virtual sx_sig0 0 \<noteq> None"
  by (simp_all add: sx_sig0_def app_init_signals_def signal_defs Let_def sx_boot_ok sx_blank_def)

lemma sx_sig_init: "sig_init {0} ((sx_boot, {}), sx_sig0)"
  using sx_boot_init by (simp add: sig_init_def handlers_ok_def sx_boot_ok)

lemma sx_sig_steps:
  "sig_step\<^sup>*\<^sup>* ((sx_boot, {}), sx_sig0) ((sx_run, {7}), sx_sig2)" "SIGVTALRM \<in> sig_pending sx_sig2 0"
proof -
  let ?ev = "Create 7 9 timer_zero tv_zero 0 0 3 100"
  have m: "kthread_cpu_map sx_boot 0 = Some 0" "kthread_cpu_map sx_one 0 = Some 0" by (simp_all add: sx_boot_ok sx_one_ok)
  have "cur_uthread (krunqs sx_boot 0) = None"
    using gt.inv_init [OF sx_boot_init] by (auto simp: gt_inv_def sys_ok_def places_ok_def currents_def)
  then have fair: "sys_fair sx_env 0 sx_boot" by (simp add: sys_fair_def)
  have "run_event_sig (\<lambda>_. {}) sx_env 0 ?ev (sx_boot, sx_sig0) = Inr (sx_one, sx_sig0)"
    using sx_one_step(2) by (simp del: run_event.simps)
  then have step1: "sig_step ((sx_boot, {}), sx_sig0) ((sx_one, {7}), sx_sig0)"
    using sig_step.event [of 0 sx_boot 0 ?ev "{}" sx_sig0 sx_env "\<lambda>_. {}" sx_one sx_sig0] m(1) fair by simp
  have inv: "sig_inv {0} ((sx_one, {7}), sx_sig0)"
    using sgn.inv_step [OF sgn.inv_init [OF sx_sig_init] step1] .
  then obtain s x where r: "run_event_sig (\<lambda>_. {}) sx_env 0 Loop_iteration (sx_one, sx_sig0) = Inr (s, x)"
    "run_event sx_env 0 Loop_iteration sx_one = Inr s"
    using run_event_sig_ok [of "{0}" sx_one "{7}" sx_sig0 0 0 Loop_iteration sx_env "\<lambda>_. {}"] m(2) sx_one_enabled
    by (auto simp: sig_inv_def simp del: run_event.simps run_event_sig.simps)
  then have eq: "s = sx_run" "x = sx_sig1" by (simp_all add: sx_run_def sx_sig1_def)
  then have step2: "sig_step ((sx_one, {7}), sx_sig0) ((sx_run, {7}), sx_sig1)"
    using sig_step.event [of 0 sx_one 0 Loop_iteration "{7}" sx_sig0 sx_env "\<lambda>_. {}" sx_run sx_sig1] m(2) r(1) sx_one_enabled
    by (simp del: run_event_sig.simps)
  obtain fresh where "sx_sig1 = dispatch_signals (\<lambda>_. {}) 0 fresh (kctxs sx_run 0) sx_sig0"
  proof -
    have "uthread_schedule sx_env sched_find_best_uthread 0 (upd_kctx 0 (\<lambda>c. c\<lparr>kthread_env := True\<rparr>) sx_one) = Inr (RunUthread 7, sx_run)"
      using sx_run_ok(1) sx_one_ok(4) by (simp add: app_loop_iter_def result_simps)
    from schedule_sig_eq [OF this, of 0 "\<lambda>_. {}" sx_sig0] show ?thesis
      using that sx_one_ok(2,4) by (auto simp: sx_sig1_def app_loop_iter_sig_def)
  qed
  then have "itimer_virtual sx_sig1 = itimer_virtual sx_sig0" by (rule dispatch_signals_sel)
  then obtain t where "itimer_virtual sx_sig1 0 = Some t" using sx_sig0_sel(4) by (metis option.exhaust)
  then have "sig_step ((sx_run, {7}), sx_sig1) ((sx_run, {7}), sx_sig2)" unfolding sx_sig2_def by (rule sig_step.timer)
  with step1 step2 show "sig_step\<^sup>*\<^sup>* ((sx_boot, {}), sx_sig0) ((sx_run, {7}), sx_sig2)" by (meson r_into_rtranclp rtranclp_trans)
  show "SIGVTALRM \<in> sig_pending sx_sig2 0" by (simp add: sx_sig2_def raise_signal_def)
qed

lemma sx_sig_ok: "sig_ok {0} sx_run sx_sig2"
  using sgn.reachable_inv [OF sx_sig_init sx_sig_steps(1)] by (simp add: sig_inv_def)

subsection \<open>Two kthreads\<close>

definition sx_pair :: gt_state where
  "sx_pair = projr (app_init_others (\<lambda>j. (Some 1, Some 1, 77)) 2 1 sx_boot)"

definition sx_duo :: gt_state where
  "sx_duo = (projr (run_handlers [(1, 11, 13, 1)] sx_pair))\<lparr>is_kernel_thread_ready := 1\<rparr>"

lemma sx_duo_ok:
  "app_init_others (\<lambda>j. (Some 1, Some 1, 77)) 2 1 sx_boot = Inr sx_pair"
  "app_init_round (num_cpus_of 2) (projr (run_handlers [(1, 11, 13, 1)] sx_pair)) = Inr (Some sx_duo)"
  "\<exists>Q. sys_ok {0, 1} {} sx_duo Q" "kthread_cpu_map sx_duo = [0 \<mapsto> 0, 1 \<mapsto> 1]" "\<not> lb_on sx_duo" "no_quit {0, 1} sx_duo"
  "last_ugroup_kthread (ksched_shared_info sx_duo) = (\<lambda>g. 0)"
proof -
  have two: "{Suc 0..<2} = {Suc 0}" by auto
  have "\<exists>s1 s2 s3 Q. app_init_main (Some 0) 11 12 0 (gt_blank 1 0) = Inr s1 \<and>
      app_init_others (\<lambda>j. (Some 1, Some 1, 77)) 2 1 s1 = Inr s2 \<and> run_handlers [(1, 11, 13, 1)] s2 = Inr s3 \<and>
      app_init_round (num_cpus_of 2) s3 = Inr (Some (s3\<lparr>is_kernel_thread_ready := 1\<rparr>)) \<and>
      sys_ok (insert 0 ((\<lambda>j. 1) ` {1..<2 :: nat})) {} (s3\<lparr>is_kernel_thread_ready := 1\<rparr>) Q"
    by (rule startup_ok) (auto simp: num_cpus_of_def two)
  then obtain s2 s3 Q where s: "app_init_others (\<lambda>j. (Some 1, Some 1, 77)) 2 1 sx_boot = Inr s2" "run_handlers [(1, 11, 13, 1)] s2 = Inr s3"
      "app_init_round (num_cpus_of 2) s3 = Inr (Some (s3\<lparr>is_kernel_thread_ready := 1\<rparr>))"
      "sys_ok (insert 0 ((\<lambda>j. 1) ` {1..<2 :: nat})) {} (s3\<lparr>is_kernel_thread_ready := 1\<rparr>) Q"
    using sx_boot_ok(1) by auto
  have p: "s2 = sx_pair" "sx_duo = s3\<lparr>is_kernel_thread_ready := 1\<rparr>" using s(1,2) by (simp_all add: sx_pair_def sx_duo_def)
  show "app_init_others (\<lambda>j. (Some 1, Some 1, 77)) 2 1 sx_boot = Inr sx_pair" using s(1) p(1) by simp
  show "app_init_round (num_cpus_of 2) (projr (run_handlers [(1, 11, 13, 1)] sx_pair)) = Inr (Some sx_duo)" using s(2,3) p by simp
  show "\<exists>Q. sys_ok {0, 1} {} sx_duo Q" using s(4) p(2) by (auto simp: two)
  have lock: "locked (malloc_lock (ksched_shared_info sx_boot)) = 0" using sx_boot_ok(2) by (auto simp: sys_ok_def info_ok_def)
  have "app_init_others (\<lambda>j. (Some 1, Some 1, 77)) 2 1 sx_boot =
      Inr (upd_kctx 1 (\<lambda>c. c\<lparr>cpuid := 1, kthread_app_func := Some Gtthread_app_start\<rparr>) (store_zero_kctx 1 sx_boot))"
    using lock by (simp add: app_init_others.simps MALLOC_eq kthread_create_def store_zero_kctx_def numeral_2_eq_2)
  then have e: "sx_pair = upd_kctx 1 (\<lambda>c. c\<lparr>cpuid := 1, kthread_app_func := Some Gtthread_app_start\<rparr>) (store_zero_kctx 1 sx_boot)"
    using s(1) p(1) by simp
  have m: "kthread_cpu_map sx_pair = [0 \<mapsto> 0]" "is_load_balancing sx_pair = 0" "kthread_flags (kctxs sx_pair 0) = 0"
      "kthread_flags (kctxs sx_pair 1) = 0" "last_ugroup_kthread (ksched_shared_info sx_pair) = (\<lambda>g. 0)"
      "kthread_app_func (kctxs sx_pair 1) = Some Gtthread_app_start"
    by (simp_all add: e store_zero_kctx_def kctx_zero_def sx_boot_ok)
  have s3: "s3 = (kthread_init_runqueue 1 (upd_kctx 1 (\<lambda>c. c\<lparr>k_pid := 11, k_tid := 13, kthread_sched_timer := Some Ksched_priority,
        kthread_sched_relay := Some Ksched_cosched, cpu_apic_id := of_nat 1\<rparr>) sx_pair))\<lparr>kthread_cpu_map := (kthread_cpu_map sx_pair)(1 := Some 1)\<rparr>"
    using s(2) p(1) by (simp add: kthread_handler_def kthread_init_eq kthread_init_runqueue_eq m [unfolded One_nat_def])
  show "kthread_cpu_map sx_duo = [0 \<mapsto> 0, 1 \<mapsto> 1]" "\<not> lb_on sx_duo" "no_quit {0, 1} sx_duo"
    "last_ugroup_kthread (ksched_shared_info sx_duo) = (\<lambda>g. 0)"
    by (simp_all add: p(2) s3 kthread_init_runqueue_eq m [unfolded One_nat_def] lb_on_def no_quit_def)
qed

lemma sx_duo_init: "gt_init {0, 1} (sx_duo, {})"
  using sx_duo_ok by (simp add: gt_init_def lb_all_def)

lemma sx_duo_next: "next_cpu sx_duo g 1"
  unfolding next_cpu_def Let_def by (rule exI [of _ 0]) (simp add: sx_duo_ok)

end
