(* ===== verification/GT_Matrix.thy ===== *)
theory GT_Matrix
  imports GT_Kthread
begin

text \<open>
  gt_matrix.c, the application on top of the thread library: the matrices, the function that every
  uthread runs, the command line, the uthreads that \<open>main\<close> creates, and the report written at the
  end. Matrix entries are C \<open>int\<close>s, kept as 32-bit words.
\<close>

subsection \<open>Matrices\<close>

definition SIZE :: nat where [simp]: "SIZE = 256"

record matrix_t =
  entry :: "nat \<Rightarrow> nat \<Rightarrow> u32"
  rows :: nat
  cols :: nat

definition set_entry :: "nat \<Rightarrow> nat \<Rightarrow> u32 \<Rightarrow> matrix_t \<Rightarrow> matrix_t res" where
  "set_entry i j v mat =
     in_bounds i SIZE (in_bounds j SIZE (Inr (mat\<lparr>entry := (entry mat)(i := (entry mat i)(j := v))\<rparr>)))"

definition get_entry :: "nat \<Rightarrow> nat \<Rightarrow> matrix_t \<Rightarrow> u32 res" where
  "get_entry i j mat = in_bounds i SIZE (in_bounds j SIZE (Inr (entry mat i j)))"

definition generate_matrix :: "matrix_t \<Rightarrow> u32 \<Rightarrow> nat \<Rightarrow> matrix_t res" where
  "generate_matrix mat val matrix_size =
     (let mat1 = mat\<lparr>rows := matrix_size, cols := matrix_size\<rparr>
      in for_res (\<lambda>i. for_res (\<lambda>j. set_entry i j val) 0 (cols mat1)) 0 (rows mat1) mat1)"

definition init_matrices :: "nat \<Rightarrow> matrix_t \<times> matrix_t \<times> matrix_t \<Rightarrow> (matrix_t \<times> matrix_t \<times> matrix_t) res" where
  "init_matrices matrix_size = (\<lambda>(A, B, C).
     rbind (generate_matrix A 1 matrix_size) (\<lambda>A'.
     rbind (generate_matrix B 1 matrix_size) (\<lambda>B'.
     rbind (generate_matrix C 0 matrix_size) (\<lambda>C'. Inr (A', B', C')))))"

subsection \<open>The uthreads' function\<close>

record uthread_arg_t =
  arg_matrix_size :: nat
  arg_tid :: nat
  arg_gid :: nat

text \<open>The body of the three nested loops, which only yields; its state is \<open>num_yield\<close>.\<close>

definition mulmat_body :: "int \<Rightarrow> nat \<Rightarrow> nat \<Rightarrow> nat" where
  "mulmat_body credit_scheduler tid num_yield =
     (if credit_scheduler = 1 \<and> tid \<le> 32 \<and> num_yield < 10 then num_yield + 1 else num_yield)"

definition mulmat_loops :: "int \<Rightarrow> nat \<Rightarrow> nat \<Rightarrow> nat \<Rightarrow> nat" where
  "mulmat_loops credit_scheduler tid end_row end_col =
     fold (\<lambda>i. fold (\<lambda>j. fold (\<lambda>k. mulmat_body credit_scheduler tid) [0..<SIZE]) [0..<end_col]) [0..<end_row] 0"

text \<open>\<open>uthread_mulmat\<close>: how many times it calls \<open>gt_yield\<close>, and the matrix \<open>C\<close> afterwards. The
  assignment follows the loops, with the values the loop variables have then.\<close>

definition uthread_mulmat :: "int \<Rightarrow> uthread_arg_t \<Rightarrow> matrix_t \<Rightarrow> matrix_t \<Rightarrow> matrix_t \<Rightarrow> nat \<times> matrix_t res" where
  "uthread_mulmat credit_scheduler arg A B C =
     (let end_row = arg_matrix_size arg; end_col = arg_matrix_size arg;
          num_yield = mulmat_loops credit_scheduler (arg_tid arg) end_row end_col;
          i = end_row;
          j = (if 0 < end_row then end_col else 0);
          k = (if 0 < end_row \<and> 0 < end_col then SIZE else 0)
      in (num_yield,
          rbind (get_entry i j C) (\<lambda>c.
          rbind (get_entry i k A) (\<lambda>a.
          rbind (get_entry k j B) (\<lambda>b.
          set_entry i j (c + a * b) C)))))"

subsection \<open>Command line\<close>

text \<open>The flags \<open>is_load_balancing\<close> and \<open>is_credit_scheduler\<close>. The argument after the last one is a null
  pointer.\<close>

fun parse_args :: "string list \<Rightarrow> int \<times> int \<Rightarrow> (int \<times> int) res" where
  "parse_args [] flags = Inr flags"
| "parse_args (arg # args) (lb, cs) =
     (if arg \<noteq> [] \<and> hd arg = CHR ''-'' then
        if tl arg = ''lb'' then parse_args args (1, cs)
        else if tl arg = ''s'' then
          (case args of
             [] \<Rightarrow> Inl NullDeref
           | v # rest \<Rightarrow>
               if v = ''0'' then parse_args rest (lb, cs)
               else if v = ''1'' then parse_args rest (lb, 1)
               else parse_args rest (lb, cs))
        else parse_args args (lb, cs)
      else parse_args args (lb, cs))"

subsection \<open>The uthreads of \<open>main\<close>\<close>

definition NUM_THREADS :: nat where [simp]: "NUM_THREADS = 128"
definition NUM_GROUPS :: nat where [simp]: "NUM_GROUPS = 4"

text \<open>\<open>for(size = 32; size <= 256; size *= 2)\<close> and \<open>for(credit = 25; credit <= 100; credit += 25)\<close>, as the
  values they go through.\<close>

function size_loop :: "nat \<Rightarrow> nat list" where
  "size_loop sz = (if 0 < sz \<and> sz \<le> 256 then sz # size_loop (sz * 2) else [])"
  by pat_completeness auto
termination
  by (relation "measure (\<lambda>sz. 257 - sz)") auto

function credit_loop :: "nat \<Rightarrow> nat list" where
  "credit_loop credit = (if credit \<le> 100 then credit # credit_loop (credit + 25) else [])"
  by pat_completeness auto
termination
  by (relation "measure (\<lambda>credit. 101 - credit)") auto

declare size_loop.simps [simp del] credit_loop.simps [simp del]

text \<open>The size and the credits of the uthreads in the order of their creation, and the arguments of the
  calls of \<open>uthread_create\<close>: number, group, matrix size, credits.\<close>

definition creation_order :: "int \<Rightarrow> (nat \<times> nat) list" where
  "creation_order credit_scheduler =
     (if credit_scheduler = 0 then
        concat (map (\<lambda>sz. map (\<lambda>inx. (sz, 0)) [0..<NUM_THREADS div 4]) (size_loop 32))
      else
        concat (map (\<lambda>credit. concat (map (\<lambda>sz. map (\<lambda>inx. (sz, credit)) [0..<NUM_THREADS div 4 div 4])
          (size_loop 32))) (credit_loop 25)))"

definition main_threads :: "int \<Rightarrow> (nat \<times> nat \<times> nat \<times> nat) list" where
  "main_threads credit_scheduler =
     map (\<lambda>(thread_id, sz, credit). (thread_id, thread_id mod NUM_GROUPS, sz, credit))
       (enumerate 0 (creation_order credit_scheduler))"

subsection \<open>The report\<close>

text \<open>C division of \<open>long\<close>s rounds towards zero.\<close>

definition c_div :: "int \<Rightarrow> int \<Rightarrow> int" where
  "c_div a b = (if 0 \<le> a then a div b else - ((- a) div b))"

definition m_values :: "nat list" where "m_values = [32, 64, 128, 256]"
definition c_values :: "nat list" where "c_values = [25, 50, 75, 100]"

record csv_state =
  m_index :: nat
  c_index :: nat
  total_cpu :: int
  total_exec :: int
  total_wait :: int
  detailed :: "(nat \<times> nat \<times> nat \<times> int \<times> int \<times> int) list"
  cumulative :: "(nat \<times> nat \<times> int \<times> int \<times> int) list"

definition csv_step :: "(nat \<Rightarrow> uthread_timer_t option) \<Rightarrow> nat \<Rightarrow> csv_state \<Rightarrow> csv_state res" where
  "csv_step data_list i s =
     deref (data_list i) (\<lambda>d.
     let cpu = usecs (cpu_time d); exec = usecs (running_time d); wait = exec - cpu;
         s1 = s\<lparr>total_cpu := total_cpu s + cpu, total_exec := total_exec s + exec, total_wait := total_wait s + wait\<rparr>
     in in_bounds (c_index s1) 4 (in_bounds (m_index s1) 4 (
        let lab_c = c_values ! c_index s1; lab_m = m_values ! m_index s1;
            s2 = s1\<lparr>detailed := detailed s1 @ [(lab_c, lab_m, i, cpu, wait, exec)]\<rparr>;
            s3 = (if (i + 1) mod 8 = 0 then
                    s2\<lparr>cumulative := cumulative s2 @
                         [(lab_c, lab_m, c_div (total_cpu s2) 8, c_div (total_wait s2) 8, c_div (total_exec s2) 8)],
                       total_cpu := 0, total_exec := 0, total_wait := 0,
                       c_index := (if c_index s2 + 1 = 4 then 0 else c_index s2 + 1)\<rparr>
                  else s2);
            s4 = (if i mod 32 = 0 \<and> 0 < i then s3\<lparr>m_index := m_index s3 + 1\<rparr> else s3)
        in Inr s4)))"

definition csv_start :: csv_state where
  "csv_start = \<lparr>m_index = 0, c_index = 0, total_cpu = 0, total_exec = 0, total_wait = 0, detailed = [], cumulative = []\<rparr>"

text \<open>\<open>write_to_csv\<close>: the rows of the two files, or \<open>None\<close> when a file cannot be opened.\<close>

definition write_to_csv ::
  "bool \<Rightarrow> (nat \<Rightarrow> uthread_timer_t option) \<Rightarrow>
   ((nat \<times> nat \<times> nat \<times> int \<times> int \<times> int) list \<times> (nat \<times> nat \<times> int \<times> int \<times> int) list) option res" where
  "write_to_csv fopen_ok data_list =
     (if \<not> fopen_ok then Inr None
      else rbind (for_res (csv_step data_list) 0 128 csv_start) (\<lambda>s. Inr (Some (detailed s, cumulative s))))"

subsection \<open>What the code computes\<close>

lemma generate_matrix_ok:
  assumes "n \<le> 256"
  shows "\<exists>mat'. generate_matrix mat v n = Inr mat' \<and> rows mat' = n \<and> cols mat' = n \<and>
    (\<forall>i j. entry mat' i j = (if i < n \<and> j < n then v else entry mat i j))"
proof -
  let ?row = "\<lambda>i j mt. rows mt = n \<and> cols mt = n \<and>
      (\<forall>a b. entry mt a b = (if b < n \<and> a < i \<or> a = i \<and> b < j then v else entry mat a b))"
  let ?body = "\<lambda>i. for_res (\<lambda>j. set_entry i j v) 0 n"
  have inner: "\<exists>mt'. ?body i mt = Inr mt' \<and> ?row (Suc i) 0 mt'" if "i < n" "?row i 0 mt" for i mt
  proof -
    have "\<exists>mt'. ?body i mt = Inr mt' \<and> ?row i n mt'"
      by (rule for_res_inv [where I = "?row i"])
         (use that assms in \<open>auto simp: set_entry_def less_Suc_eq\<close>)
    then show ?thesis by (elim exE conjE) (auto simp: less_Suc_eq)
  qed
  have "\<exists>mt'. for_res ?body 0 n (mat\<lparr>rows := n, cols := n\<rparr>) = Inr mt' \<and> ?row n 0 mt'"
    by (rule for_res_inv [where I = "\<lambda>i. ?row i 0"]) (use inner in auto)
  then show ?thesis by (auto simp: generate_matrix_def Let_def)
qed

lemma mulmat_body_funpow: "(mulmat_body cs tid ^^ k) y = (if cs = 1 \<and> tid \<le> 32 then max y (min 10 (y + k)) else y)"
  by (induction k) (auto simp: mulmat_body_def)

lemma fold_const: "fold (\<lambda>_. f) xs = f ^^ length xs"
  by (induction xs) (simp_all add: funpow_swap1 fun_eq_iff)

lemma mulmat_loops_eq:
  "mulmat_loops cs tid r c = (if cs = 1 \<and> tid \<le> 32 then min 10 (256 * c * r) else 0)"
  unfolding mulmat_loops_def fold_const by (simp add: funpow_mult mulmat_body_funpow)

text \<open>The assignment after the loops uses \<open>k = SIZE\<close> as an index: the function makes its yields and then
  leaves the bounds of \<open>A\<close>, without having multiplied anything.\<close>

lemma uthread_mulmat_out_of_bounds:
  assumes "0 < arg_matrix_size arg"
  shows "uthread_mulmat cs arg A B C = (if cs = 1 \<and> arg_tid arg \<le> 32 then 10 else 0, Inl OutOfBounds)"
proof -
  let ?n = "arg_matrix_size arg"
  have "256 * 1 * 1 \<le> 256 * ?n * ?n" using assms by (intro mult_le_mono) simp_all
  then have "10 \<le> 256 * ?n * ?n" by (rule order_trans [rotated]) simp
  then have "min 10 (256 * ?n * ?n) = 10" by (rule min_absorb1)
  moreover have "get_entry ?n ?n C = Inl OutOfBounds \<or> (\<exists>c. get_entry ?n ?n C = Inr c)"
    by (simp add: get_entry_def in_bounds_def)
  ultimately show ?thesis using assms
    by (auto simp: uthread_mulmat_def Let_def mulmat_loops_eq get_entry_def in_bounds_def)
qed

lemma size_loop_32: "size_loop 32 = [32, 64, 128, 256]"
  by (simp add: size_loop.simps)

lemma credit_loop_25: "credit_loop 25 = [25, 50, 75, 100]"
  by (simp add: credit_loop.simps)

lemma nth_concat_const:
  assumes "\<And>x. x \<in> set xs \<Longrightarrow> length (f x) = n" and "i < n * length xs"
  shows "concat (map f xs) ! i = f (xs ! (i div n)) ! (i mod n)"
  using assms
proof (induction xs arbitrary: i)
  case (Cons x xs)
  have fx: "length (f x) = n" using Cons.prems(1) by simp
  show ?case
  proof (cases "i < n")
    case True
    then show ?thesis using fx by (simp add: nth_append)
  next
    case False
    then have n: "0 < n" using Cons.prems(2) by (cases n) auto
    have "concat (map f xs) ! (i - n) = f (xs ! ((i - n) div n)) ! ((i - n) mod n)"
      using Cons.prems False by (intro Cons.IH) auto
    moreover have "i div n = Suc ((i - n) div n)" "i mod n = (i - n) mod n"
      using False n by (simp_all add: le_div_geq le_mod_geq)
    ultimately show ?thesis using False fx by (simp add: nth_append)
  qed
qed simp

lemma length_concat_const: "(\<And>x. x \<in> set xs \<Longrightarrow> length (f x) = n) \<Longrightarrow> length (concat (map f xs)) = n * length xs"
  by (induction xs) auto

lemma creation_order_fifo:
  assumes "i < 128"
  shows "creation_order 0 ! i = ([32, 64, 128, 256] ! (i div 32), 0)" "length (creation_order 0) = 128"
proof -
  have i: "i div 32 < 4" "i mod 32 < 32" using assms by (simp_all add: less_mult_imp_div_less)
  have co: "creation_order 0 = concat (map (\<lambda>sz. map (\<lambda>inx. (sz, 0)) [0..<32]) [32, 64, 128, 256])"
    by (simp add: creation_order_def size_loop_32)
  show "creation_order 0 ! i = ([32, 64, 128, 256] ! (i div 32), 0)"
    unfolding co using assms i by (subst nth_concat_const [of _ _ 32]) auto
  show "length (creation_order 0) = 128"
    unfolding co by (subst length_concat_const [of _ _ 32]) auto
qed

lemma creation_order_credit:
  assumes "i < 128" and "cs \<noteq> 0"
  shows "creation_order cs ! i = ([32, 64, 128, 256] ! (i div 8 mod 4), [25, 50, 75, 100] ! (i div 32))"
    "length (creation_order cs) = 128"
proof -
  let ?g = "\<lambda>c. concat (map (\<lambda>sz. map (\<lambda>inx. (sz, c)) [0..<8]) [32, 64, 128, 256 :: nat])"
  have co: "creation_order cs = concat (map ?g [25, 50, 75, 100 :: nat])"
    using assms(2) by (simp add: creation_order_def size_loop_32 credit_loop_25)
  have len: "length (?g c) = 32" for c by simp
  have i: "i mod 32 < 32" "i div 32 < 4" "i mod 32 div 8 < 4" "i mod 32 mod 8 < 8"
    using assms(1) by (simp_all add: less_mult_imp_div_less)
  have "creation_order cs ! i = ?g ([25, 50, 75, 100] ! (i div 32)) ! (i mod 32)"
    unfolding co using assms(1) by (subst nth_concat_const [of _ _ 32]) auto
  also have "\<dots> = ([32, 64, 128, 256] ! (i mod 32 div 8), [25, 50, 75, 100] ! (i div 32))"
    using i by (subst nth_concat_const [of _ _ 8]) auto
  also have "i mod 32 div 8 = i div 8 mod 4"
  proof -
    have "(8 * a + b) div 8 = a" if "b < 8" for a b :: nat using that by simp
    moreover have "i mod 32 = 8 * (i div 8 mod 4) + i mod 8" using mod_mult2_eq [of i 8 4] by simp
    ultimately show ?thesis by (metis mod_less_divisor zero_less_numeral)
  qed
  finally show "creation_order cs ! i = ([32, 64, 128, 256] ! (i div 8 mod 4), [25, 50, 75, 100] ! (i div 32))" .
  show "length (creation_order cs) = 128"
    unfolding co by (subst length_concat_const [of _ _ 32]) auto
qed

text \<open>The rows of the report: the times of each uthread and the means over eight, with the labels that
  the running indices give.\<close>

definition csv_row :: "(nat \<Rightarrow> int) \<Rightarrow> (nat \<Rightarrow> int) \<Rightarrow> nat \<Rightarrow> nat \<times> nat \<times> nat \<times> int \<times> int \<times> int" where
  "csv_row cpu exec j =
     (c_values ! (j div 8 mod 4), m_values ! ((j - 1) div 32), j, cpu j, exec j - cpu j, exec j)"

definition csv_group :: "(nat \<Rightarrow> int) \<Rightarrow> (nat \<Rightarrow> int) \<Rightarrow> nat \<Rightarrow> nat \<times> nat \<times> int \<times> int \<times> int" where
  "csv_group cpu exec q =
     (let total = (\<lambda>f. \<Sum>j = 8 * q..<8 * q + 8. f j)
      in (c_values ! (q mod 4), m_values ! (q div 4), c_div (total cpu) 8,
          c_div (total (\<lambda>j. exec j - cpu j)) 8, c_div (total exec) 8))"

definition csv_inv :: "(nat \<Rightarrow> int) \<Rightarrow> (nat \<Rightarrow> int) \<Rightarrow> nat \<Rightarrow> csv_state \<Rightarrow> bool" where
  "csv_inv cpu exec i s \<longleftrightarrow>
     c_index s = i div 8 mod 4 \<and> m_index s = (i - 1) div 32 \<and>
     total_cpu s = (\<Sum>j = 8 * (i div 8)..<i. cpu j) \<and> total_exec s = (\<Sum>j = 8 * (i div 8)..<i. exec j) \<and>
     total_wait s = (\<Sum>j = 8 * (i div 8)..<i. exec j - cpu j) \<and>
     detailed s = map (csv_row cpu exec) [0..<i] \<and> cumulative s = map (csv_group cpu exec) [0..<i div 8]"

lemma eight_div:
  assumes "Suc i mod 8 = 0"
  shows "Suc i div 8 = Suc (i div 8)" "Suc i = 8 * (i div 8) + 8" "(i - 1) div 32 = i div 8 div 4"
proof -
  have "i mod 8 = 7" using assms by (simp add: mod_Suc split: if_splits)
  then obtain q where q: "i = 8 * q + 7" using div_mult_mod_eq [of i 8] by (metis mult.commute)
  have d: "i div 8 = q" unfolding q by simp
  show "Suc i div 8 = Suc (i div 8)" using d q by simp
  show "Suc i = 8 * (i div 8) + 8" using d q by simp
  have "(i - 1) div 32 = (8 * q + 6) div 8 div 4" unfolding q by (simp add: div_mult2_eq)
  then show "(i - 1) div 32 = i div 8 div 4" using d by simp
qed

lemma not_eight_div: "Suc i mod 8 \<noteq> 0 \<Longrightarrow> Suc i div 8 = i div 8"
  by (simp add: div_Suc)

lemma csv_index_step:
  "(Suc i - 1) div 32 = (if i mod 32 = 0 \<and> 0 < i then (i - 1) div 32 + 1 else (i - 1) div 32)"
  by (cases i) (auto simp: div_Suc mod_Suc)

lemma csv_step_inv_group:
  assumes i: "i < 128" and d: "data i = Some d" and D: "cpu i = usecs (cpu_time d)" "exec i = usecs (running_time d)"
    and inv: "csv_inv cpu exec i s" and g: "Suc i mod 8 = 0"
  shows "\<exists>s'. csv_step data i s = Inr s' \<and> csv_inv cpu exec (Suc i) s'"
proof -
  note e = eight_div [OF g]
  let ?a = "8 * (i div 8)"
  have ci: "c_index s < 4" and cs: "c_index s = i div 8 mod 4" and ms: "m_index s = (i - 1) div 32"
    using inv by (simp_all add: csv_inv_def)
  have mi: "m_index s < 4" using ms i by (simp add: less_mult_imp_div_less)
  have "total_cpu s = sum cpu {?a..<i}" "total_exec s = sum exec {?a..<i}"
      "total_wait s = (\<Sum>j = ?a..<i. exec j - cpu j)"
    using inv by (simp_all add: csv_inv_def)
  moreover have "{?a..<?a + 8} = insert i {?a..<i}" using e(2) by auto
  ultimately have tot: "sum cpu {?a..<?a + 8} = total_cpu s + cpu i"
      "sum exec {?a..<?a + 8} = total_exec s + exec i"
      "(\<Sum>j = ?a..<?a + 8. exec j - cpu j) = total_wait s + (exec i - cpu i)"
    by simp_all
  let ?s' = "s\<lparr>total_cpu := 0, total_exec := 0, total_wait := 0,
    c_index := (if c_index s + 1 = 4 then 0 else c_index s + 1),
    m_index := (if i mod 32 = 0 \<and> 0 < i then m_index s + 1 else m_index s),
    detailed := detailed s @ [csv_row cpu exec i], cumulative := cumulative s @ [csv_group cpu exec (i div 8)]\<rparr>"
  have row: "csv_row cpu exec i = (c_values ! c_index s, m_values ! m_index s, i, cpu i, exec i - cpu i, exec i)"
    by (simp add: csv_row_def cs ms)
  have grp: "csv_group cpu exec (i div 8) = (c_values ! c_index s, m_values ! m_index s,
      c_div (total_cpu s + cpu i) 8, c_div (total_wait s + (exec i - cpu i)) 8, c_div (total_exec s + exec i) 8)"
    unfolding csv_group_def Let_def tot cs ms e(3) ..
  have "csv_step data i s = Inr ?s'"
    unfolding csv_step_def Let_def row grp using ci mi d D g by simp
  moreover have "csv_inv cpu exec (Suc i) ?s'"
  proof -
    have "8 * Suc (i div 8) = Suc i" using e(2) by simp
    then have "{8 * Suc (i div 8)..<Suc i} = {}" by simp
    moreover have "Suc (i div 8) mod 4 = (if c_index s + 1 = 4 then 0 else c_index s + 1)"
      unfolding cs by (simp add: mod_Suc)
    ultimately show ?thesis unfolding csv_inv_def e(1) csv_index_step ms [symmetric]
      using inv by (simp add: csv_inv_def)
  qed
  ultimately show ?thesis by blast
qed

lemma csv_step_inv_single:
  assumes i: "i < 128" and d: "data i = Some d" and D: "cpu i = usecs (cpu_time d)" "exec i = usecs (running_time d)"
    and inv: "csv_inv cpu exec i s" and g: "Suc i mod 8 \<noteq> 0"
  shows "\<exists>s'. csv_step data i s = Inr s' \<and> csv_inv cpu exec (Suc i) s'"
proof -
  have ci: "c_index s < 4" and cs: "c_index s = i div 8 mod 4" and ms: "m_index s = (i - 1) div 32"
    using inv by (simp_all add: csv_inv_def)
  have mi: "m_index s < 4" using ms i by (simp add: less_mult_imp_div_less)
  let ?s' = "s\<lparr>total_cpu := total_cpu s + cpu i, total_exec := total_exec s + exec i,
    total_wait := total_wait s + (exec i - cpu i),
    m_index := (if i mod 32 = 0 \<and> 0 < i then m_index s + 1 else m_index s),
    detailed := detailed s @ [csv_row cpu exec i]\<rparr>"
  have row: "csv_row cpu exec i = (c_values ! c_index s, m_values ! m_index s, i, cpu i, exec i - cpu i, exec i)"
    by (simp add: csv_row_def cs ms)
  have "csv_step data i s = Inr ?s'"
    unfolding csv_step_def Let_def row using ci mi d D g by simp
  moreover have "\<not> i < 8 * (i div 8)" by simp
  then have "csv_inv cpu exec (Suc i) ?s'"
    unfolding csv_inv_def not_eight_div [OF g] csv_index_step ms [symmetric]
    using inv by (simp add: csv_inv_def)
  ultimately show ?thesis by blast
qed

lemma write_to_csv_ok:
  assumes "\<forall>i<128. \<exists>d. data i = Some d \<and> cpu i = usecs (cpu_time d) \<and> exec i = usecs (running_time d)"
  shows "write_to_csv True data =
    Inr (Some (map (csv_row cpu exec) [0..<128], map (csv_group cpu exec) [0..<16]))"
proof -
  have "\<exists>s'. for_res (csv_step data) 0 128 csv_start = Inr s' \<and> csv_inv cpu exec 128 s'"
    by (rule for_res_inv [where I = "csv_inv cpu exec"])
       (use assms csv_step_inv_group csv_step_inv_single in \<open>blast, simp_all add: csv_inv_def csv_start_def\<close>)
  then show ?thesis by (auto simp: write_to_csv_def csv_inv_def)
qed

text \<open>The uthreads of \<open>main\<close> by number.\<close>

lemma main_threads_nth:
  assumes "i < 128"
  shows "main_threads cs ! i =
    (i, i mod 4, if cs = 0 then [32, 64, 128, 256] ! (i div 32) else [32, 64, 128, 256] ! (i div 8 mod 4),
     if cs = 0 then 0 else [25, 50, 75, 100] ! (i div 32))"
  using assms creation_order_fifo [OF assms] creation_order_credit [OF assms, of cs]
  by (cases "cs = 0") (simp_all add: main_threads_def nth_enumerate_eq)

lemma length_main_threads: "length (main_threads cs) = 128"
  using creation_order_fifo(2) [of 0] creation_order_credit(2) [of 0 cs]
  by (cases "cs = 0") (simp_all add: main_threads_def)

text \<open>The labels of a row agree with what \<open>main\<close> asked for only where the two numberings coincide.\<close>

lemma nth4_eq_iff: "distinct [a, b, c, d] \<Longrightarrow> x < 4 \<Longrightarrow> y < 4 \<Longrightarrow> [a, b, c, d] ! x = [a, b, c, d] ! y \<longleftrightarrow> x = y"
  by (rule nth_eq_iff_index_eq) simp_all

lemma csv_labels_agree:
  assumes "i < 128"
  shows "fst (csv_row cpu exec i) = snd (snd (snd (main_threads 1 ! i))) \<and>
      fst (snd (csv_row cpu exec i)) = fst (snd (snd (main_threads 1 ! i))) \<longleftrightarrow>
    i div 8 mod 4 = i div 32 \<and> (i - 1) div 32 = i div 32"
proof -
  have b: "i div 32 < 4" "(i - 1) div 32 < 4" "i div 8 mod 4 < 4"
    using assms by (simp_all add: less_mult_imp_div_less)
  show ?thesis unfolding main_threads_nth [OF assms] csv_row_def c_values_def m_values_def
    using nth4_eq_iff [of "25::nat" 50 75 100, OF _ b(3,1)] nth4_eq_iff [of "32::nat" 64 128 256, OF _ b(2,3)]
    by auto
qed

text \<open>An argument list that is made of complete options.\<close>

definition complete_option :: "string list \<Rightarrow> bool" where
  "complete_option opt \<longleftrightarrow>
     opt = [''-lb''] \<or> (\<exists>v. opt = [''-s'', v]) \<or> (\<exists>x. opt = [x] \<and> x \<noteq> ''-lb'' \<and> x \<noteq> ''-s'')"

lemma parse_args_complete:
  assumes "list_all complete_option opts"
  shows "parse_args (concat opts @ rest) (lb, cs) =
    parse_args rest (if [''-lb''] \<in> set opts then 1 else lb, if [''-s'', ''1''] \<in> set opts then 1 else cs)"
  using assms
proof (induction opts arbitrary: lb cs)
  case (Cons opt opts)
  then have IH: "parse_args (concat opts @ rest) (a, b) =
      parse_args rest (if [''-lb''] \<in> set opts then 1 else a, if [''-s'', ''1''] \<in> set opts then 1 else b)" for a b
    by simp
  from Cons.prems consider "opt = [''-lb'']" | v where "opt = [''-s'', v]"
    | x where "opt = [x]" "x \<noteq> ''-lb''" "x \<noteq> ''-s''"
    by (auto simp: complete_option_def)
  then show ?case
  proof cases
    case 3
    then have "parse_args (x # concat opts @ rest) (lb, cs) = parse_args (concat opts @ rest) (lb, cs)"
      by (cases x) auto
    with 3 show ?thesis by (simp add: IH)
  qed (auto simp: IH)
qed simp

end
