(* ===== verification/TF_Common.thy ===== *)
theory TF_Common
  imports GT_Prelude
begin

text \<open>
  TinyFile, the compression service: the messages and the data that its server and its clients share
  (include/tinyfile/common_api.h), and the operations of the C library on character buffers that both
  use. A character array is the string up to its terminator; copying a string into an array that has
  no room for it and its terminator is the fault \<open>OutOfBounds\<close>.
\<close>

subsection \<open>Messages and shared data\<close>

definition NUM_WORKER_THREADS_PER_CLIENT :: nat where [simp]: "NUM_WORKER_THREADS_PER_CLIENT = 10"

text \<open>An enumeration read from a message may hold another number than those of its constants.\<close>

datatype client_unregister = UNREGISTERED

datatype client_register_command = REGISTER | UNREGISTER | Other_command int

datatype client_service_request = COMPRESS | Other_request int

record client_register_message_entry =
  client_pid :: int
  command :: client_register_command
  msg_send_queue_name :: string
  msg_recv_queue_name :: string
  msg_shm_name :: string

record client_t =
  pid :: int
  send_q :: nat
  recv_q :: nat
  send_queue_name :: string
  recv_queue_name :: string
  shared_memory_address :: nat
  shared_memory_size :: nat
  shm_name :: string
  is_worker_thread_active :: int
  workers :: "nat list"

record client_message_info =
  shared_memory_entry_index :: int
  request :: client_service_request

record shared_memory_entry =
  original_file_path :: string
  compressed_file_path :: string
  mutex :: bool
  is_used :: bool
  is_done :: bool

text \<open>The size of an entry: two paths of 100 bytes, a mutex of 40 and two integers of 4.\<close>

definition sizeof_entry :: nat where [simp]: "sizeof_entry = 248"

subsection \<open>Character buffers\<close>

definition strcpy :: "nat \<Rightarrow> string \<Rightarrow> string res" where
  "strcpy capacity src = (if length src < capacity then Inr src else Inl OutOfBounds)"

definition strcat :: "nat \<Rightarrow> string \<Rightarrow> string \<Rightarrow> string res" where
  "strcat capacity dest src = strcpy capacity (dest @ src)"

fun strstr :: "string \<Rightarrow> string \<Rightarrow> nat option" where
  "strstr haystack needle =
     (if take (length needle) haystack = needle then Some 0
      else case haystack of [] \<Rightarrow> None | c # rest \<Rightarrow> map_option Suc (strstr rest needle))"

declare strstr.simps [simp del]

lemma strcpy_fits [simp]: "length s < n \<Longrightarrow> strcpy n s = Inr s"
  by (simp add: strcpy_def)

lemma strcpy_overflow [simp]: "n \<le> length s \<Longrightarrow> strcpy n s = Inl OutOfBounds"
  by (simp add: strcpy_def)

lemma strstr_found: "strstr hay needle = Some i \<Longrightarrow> \<exists>rest. hay = take i hay @ needle @ rest \<and> i \<le> length hay"
proof (induction hay arbitrary: i)
  case Nil
  then show ?case by (simp add: strstr.simps split: if_splits)
next
  case (Cons c hay)
  show ?case
  proof (cases "take (length needle) (c # hay) = needle")
    case True
    then have "c # hay = needle @ drop (length needle) (c # hay)" by (metis append_take_drop_id)
    moreover have "i = 0" using Cons.prems True by (simp add: strstr.simps [of "c # hay"])
    ultimately show ?thesis by (metis append_Nil take_0 le0)
  next
    case False
    with Cons.prems obtain j where j: "strstr hay needle = Some j" "i = Suc j"
      by (auto simp: strstr.simps [of "c # hay"])
    with Cons.IH show ?thesis by fastforce
  qed
qed

lemma strstr_none: "strstr hay needle = None \<Longrightarrow> hay \<noteq> xs @ needle @ ys"
proof (induction hay arbitrary: xs)
  case Nil
  then show ?case by (auto simp: strstr.simps split: if_splits)
next
  case (Cons c hay)
  then have n: "take (length needle) (c # hay) \<noteq> needle" "strstr hay needle = None"
    by (auto simp: strstr.simps [of "c # hay"] split: if_splits)
  show ?case
  proof (cases xs)
    case Nil
    with n(1) show ?thesis by (metis append_Nil append_eq_conv_conj)
  next
    case (Cons x xs')
    with Cons.IH [OF n(2), of xs'] show ?thesis by auto
  qed
qed

end
