(* ===== verification/TF_Registry.thy ===== *)
theory TF_Registry
  imports TF_Common
begin

text \<open>
  The server's doubly linked list of clients (server.c, server.h). Nodes live at the addresses of a
  heap; an address that is not allocated, or that was freed, holds \<open>None\<close>, and access to it is the
  fault \<open>Undefined\<close>. The traversals are loops over the links, which may not end on a list with a
  cycle: \<open>None\<close> is a traversal that does not end.

  The list is shown to implement a finite sequence of clients: appending, searching by process
  number and removing.
\<close>

subsection \<open>Nodes and operations\<close>

record client_node =
  node_client :: client_t
  next_node :: "nat option"
  prev_node :: "nat option"

type_synonym node_heap = "nat \<Rightarrow> client_node option"

record registry =
  nodes :: node_heap
  client_list_head_node :: "nat option"

definition node_at :: "node_heap \<Rightarrow> nat \<Rightarrow> (client_node \<Rightarrow> 'a res) \<Rightarrow> 'a res" where
  "node_at h p f = (case h p of None \<Rightarrow> Inl Undefined | Some n \<Rightarrow> f n)"

definition set_node :: "nat \<Rightarrow> (client_node \<Rightarrow> client_node) \<Rightarrow> registry \<Rightarrow> registry res" where
  "set_node p f r = node_at (nodes r) p (\<lambda>n. Inr (r\<lparr>nodes := (nodes r)(p := Some (f n))\<rparr>))"

text \<open>The loop \<open>while(tail->next != NULL) tail = tail->next\<close>.\<close>

partial_function (option) find_tail :: "node_heap \<Rightarrow> nat \<Rightarrow> nat res option" where
  "find_tail h tail =
     (case h tail of
        None \<Rightarrow> Some (Inl Undefined)
      | Some n \<Rightarrow> (case next_node n of None \<Rightarrow> Some (Inr tail) | Some q \<Rightarrow> find_tail h q))"

definition append_client_node_to_tail :: "nat \<Rightarrow> registry \<Rightarrow> registry res" where
  "append_client_node_to_tail node r =
     (case client_list_head_node r of
        None \<Rightarrow>
          set_node node (\<lambda>n. n\<lparr>next_node := None, prev_node := None\<rparr>) (r\<lparr>client_list_head_node := Some node\<rparr>)
      | Some head \<Rightarrow>
          (case find_tail (nodes r) head of
             None \<Rightarrow> Inl SpinForever
           | Some res \<Rightarrow>
               rbind res (\<lambda>tail.
               rbind (set_node tail (\<lambda>n. n\<lparr>next_node := Some node\<rparr>) r) (\<lambda>r1.
               set_node node (\<lambda>n. n\<lparr>prev_node := Some tail, next_node := None\<rparr>) r1))))"

text \<open>The loop of \<open>find_current_client_node\<close>, whose result may be the null pointer.\<close>

partial_function (option) find_from :: "node_heap \<Rightarrow> int \<Rightarrow> nat option \<Rightarrow> nat option res option" where
  "find_from h the_pid current =
     (case current of
        None \<Rightarrow> Some (Inr None)
      | Some p \<Rightarrow>
          (case h p of
             None \<Rightarrow> Some (Inl Undefined)
           | Some n \<Rightarrow> if pid (node_client n) = the_pid then Some (Inr (Some p))
                       else find_from h the_pid (next_node n)))"

definition find_current_client_node :: "int \<Rightarrow> registry \<Rightarrow> nat option res" where
  "find_current_client_node the_pid r =
     (case find_from (nodes r) the_pid (client_list_head_node r) of None \<Rightarrow> Inl SpinForever | Some res \<Rightarrow> res)"

definition remove_client_node :: "nat \<Rightarrow> registry \<Rightarrow> registry res" where
  "remove_client_node node r =
     node_at (nodes r) node (\<lambda>n.
     rbind (case prev_node n of
              None \<Rightarrow> Inr (r\<lparr>client_list_head_node := next_node n\<rparr>)
            | Some q \<Rightarrow> set_node q (\<lambda>m. m\<lparr>next_node := next_node n\<rparr>) r) (\<lambda>r1.
     case next_node n of
       None \<Rightarrow> Inr r1
     | Some q \<Rightarrow> set_node q (\<lambda>m. m\<lparr>prev_node := prev_node n\<rparr>) r1))"

subsection \<open>The sequence that a list holds\<close>

text \<open>\<open>dseg h p pr xs q\<close>: the links lead from \<open>p\<close> through the nodes \<open>xs\<close> to \<open>q\<close>, and the back links from the
  first of them to \<open>pr\<close>.\<close>

fun dseg :: "node_heap \<Rightarrow> nat option \<Rightarrow> nat option \<Rightarrow> nat list \<Rightarrow> nat option \<Rightarrow> bool" where
  "dseg h p pr [] q \<longleftrightarrow> p = q"
| "dseg h p pr (x # xs) q \<longleftrightarrow>
     p = Some x \<and> (case h x of None \<Rightarrow> False | Some n \<Rightarrow> prev_node n = pr \<and> dseg h (next_node n) (Some x) xs q)"

definition client_list :: "registry \<Rightarrow> nat list \<Rightarrow> bool" where
  "client_list r ps \<longleftrightarrow> distinct ps \<and> dseg (nodes r) (client_list_head_node r) None ps None"

definition client_at :: "registry \<Rightarrow> nat \<Rightarrow> client_t" where
  "client_at r p = node_client (the (nodes r p))"

lemma dseg_other [simp]: "x \<notin> set xs \<Longrightarrow> dseg (h(x := v)) p pr xs q = dseg h p pr xs q"
  by (induction xs arbitrary: p pr) (auto split: option.splits)

lemma dseg_append:
  "dseg h p pr (xs @ ys) q \<longleftrightarrow>
     (\<exists>r. dseg h p pr xs r \<and> dseg h r (if xs = [] then pr else Some (last xs)) ys q)"
  by (induction xs arbitrary: p pr) (auto split: option.splits)

lemma dseg_snoc:
  "dseg h p pr (xs @ [x]) q \<longleftrightarrow> dseg h p pr xs (Some x) \<and>
     (\<exists>n. h x = Some n \<and> prev_node n = (if xs = [] then pr else Some (last xs)) \<and> next_node n = q)"
  by (auto simp: dseg_append split: option.splits)

lemma dseg_alloc: "dseg h p pr xs q \<Longrightarrow> x \<in> set xs \<Longrightarrow> \<exists>n. h x = Some n"
  by (induction xs arbitrary: p pr) (auto split: option.splits)

lemma client_list_alloc: "client_list r ps \<Longrightarrow> p \<in> set ps \<Longrightarrow> \<exists>n. nodes r p = Some n"
  unfolding client_list_def using dseg_alloc by blast

lemma dseg_next_change:
  assumes "dseg h p pr (xs @ [x]) q" and "x \<notin> set xs" and "h x = Some n"
  shows "dseg (h(x := Some (n\<lparr>next_node := q'\<rparr>))) p pr (xs @ [x]) q'"
  using assms by (auto simp: dseg_snoc)

lemma dseg_prev_change:
  assumes "dseg h p pr (x # xs) q" and "x \<notin> set xs" and "h x = Some n"
  shows "dseg (h(x := Some (n\<lparr>prev_node := pr'\<rparr>))) p pr' (x # xs) q"
  using assms by auto

lemma dseg_data_change:
  assumes "h x = Some n" and "next_node n' = next_node n" and "prev_node n' = prev_node n"
  shows "dseg (h(x := Some n')) p pr xs q = dseg h p pr xs q"
  using assms by (induction xs arbitrary: p pr) (auto split: option.splits)

lemma set_client_ok:
  assumes rep: "client_list r ps" and p: "p \<in> set ps"
  shows "\<exists>r' n. set_node p (\<lambda>n. n\<lparr>node_client := f (node_client n)\<rparr>) r = Inr r' \<and> client_list r' ps \<and>
    client_at r' = (client_at r)(p := f (client_at r p)) \<and> dom (nodes r') = dom (nodes r) \<and> nodes r' p = Some n \<and>
    node_client n = f (client_at r p)"
proof -
  obtain n where n: "nodes r p = Some n" using client_list_alloc [OF assms] by blast
  then show ?thesis using rep
    by (auto simp: set_node_def node_at_def client_list_def client_at_def fun_eq_iff dseg_data_change [of "nodes r" p n])
qed

lemma client_list_unlink:
  assumes "client_list r ps" and "p \<notin> set ps"
  shows "client_list (r\<lparr>nodes := (nodes r)(p := v)\<rparr>) ps"
  using assms by (simp add: client_list_def)

subsection \<open>The operations on sequences\<close>

lemma find_tail_dseg: "dseg h (Some x) pr (x # xs) None \<Longrightarrow> find_tail h x = Some (Inr (last (x # xs)))"
proof (induction xs arbitrary: x pr)
  case Nil
  then show ?case by (auto simp: find_tail.simps [of h x] split: option.splits)
next
  case (Cons y xs)
  then obtain n where n: "h x = Some n" "next_node n = Some y" "dseg h (Some y) (Some x) (y # xs) None"
    by (auto split: option.splits)
  with Cons.IH show ?case by (simp add: find_tail.simps [of h x])
qed

lemma append_client_node_ok:
  assumes rep: "client_list r ps" and fresh: "p \<notin> set ps" and p: "nodes r p = Some n"
  shows "\<exists>r'. append_client_node_to_tail p r = Inr r' \<and> client_list r' (ps @ [p]) \<and>
    client_at r' = client_at r \<and> dom (nodes r') = dom (nodes r)"
proof (cases ps rule: rev_cases)
  case Nil
  with rep p show ?thesis
    by (auto simp: append_client_node_to_tail_def set_node_def node_at_def client_list_def client_at_def fun_eq_iff)
next
  case (snoc qs t)
  have seg: "dseg (nodes r) (client_list_head_node r) None (qs @ [t]) None" and d: "distinct (qs @ [t])"
    using rep snoc by (simp_all add: client_list_def)
  obtain x xs where x: "qs @ [t] = x # xs" by (cases "qs @ [t]") auto
  with seg have hd: "client_list_head_node r = Some x" by (simp only: dseg.simps)
  have tail: "find_tail (nodes r) x = Some (Inr t)"
    using find_tail_dseg [of "nodes r" x None xs] seg hd x by (metis last_snoc)
  obtain m where m: "nodes r t = Some m" using seg by (auto simp: dseg_snoc)
  have tp: "t \<noteq> p" "p \<notin> set qs" using fresh snoc by auto
  let ?h = "(nodes r)(t := Some (m\<lparr>next_node := Some p\<rparr>), p := Some (n\<lparr>prev_node := Some t, next_node := None\<rparr>))"
  have "dseg ?h (client_list_head_node r) None (qs @ [t]) (Some p)"
    using dseg_next_change [OF seg _ m, of "Some p"] d tp by simp
  then have "dseg ?h (client_list_head_node r) None ((qs @ [t]) @ [p]) None"
    by (simp only: dseg_snoc [of _ _ _ "qs @ [t]"]) simp
  then show ?thesis using hd tail m p tp d snoc fresh
    by (auto simp: append_client_node_to_tail_def set_node_def node_at_def client_list_def client_at_def fun_eq_iff)
qed

text \<open>The first of the nodes \<open>ps\<close> that holds a client with the given process number.\<close>

definition first_with :: "registry \<Rightarrow> int \<Rightarrow> nat list \<Rightarrow> nat option" where
  "first_with r k ps = List.find (\<lambda>p. pid (client_at r p) = k) ps"

lemma find_from_dseg:
  "dseg (nodes r) p pr ps None \<Longrightarrow> find_from (nodes r) k p = Some (Inr (first_with r k ps))"
proof (induction ps arbitrary: p pr)
  case Nil
  then show ?case by (simp add: find_from.simps first_with_def)
next
  case (Cons x ps)
  then obtain n where n: "p = Some x" "nodes r x = Some n" "dseg (nodes r) (next_node n) (Some x) ps None"
    by (auto split: option.splits)
  then show ?case using Cons.IH [OF n(3)]
    by (simp add: find_from.simps [of _ _ "Some x"] first_with_def client_at_def)
qed

lemma find_current_client_node_ok: "client_list r ps \<Longrightarrow> find_current_client_node k r = Inr (first_with r k ps)"
  using find_from_dseg [of r "client_list_head_node r" None ps k]
  by (simp add: find_current_client_node_def client_list_def)

lemma first_with_mem: "first_with r k ps = Some p \<Longrightarrow> p \<in> set ps \<and> pid (client_at r p) = k"
  by (auto simp: first_with_def find_Some_iff)

lemma remove_client_node_ok:
  assumes rep: "client_list r ps" and p: "p \<in> set ps"
  shows "\<exists>r'. remove_client_node p r = Inr r' \<and> client_list r' (remove1 p ps) \<and>
    client_at r' = client_at r \<and> dom (nodes r') = dom (nodes r)"
proof -
  obtain as bs where ps: "ps = as @ p # bs" using p by (auto simp: in_set_conv_decomp)
  have d: "distinct (as @ p # bs)" and seg: "dseg (nodes r) (client_list_head_node r) None (as @ p # bs) None"
    using rep ps by (simp_all add: client_list_def)
  then obtain n where n: "nodes r p = Some n" "dseg (nodes r) (client_list_head_node r) None as (Some p)"
      "prev_node n = (if as = [] then None else Some (last as))" "dseg (nodes r) (next_node n) (Some p) bs None"
    by (auto simp: dseg_append split: option.splits)
  have rm: "remove1 p ps = as @ bs" using d ps by (simp add: remove1_append)
  let ?pr = "prev_node n"
  obtain r1 where r1: "(case ?pr of None \<Rightarrow> Inr (r\<lparr>client_list_head_node := next_node n\<rparr>)
            | Some q \<Rightarrow> set_node q (\<lambda>m. m\<lparr>next_node := next_node n\<rparr>) r) = Inr r1"
      "dseg (nodes r1) (client_list_head_node r1) None as (next_node n)"
      "dseg (nodes r1) (next_node n) (Some p) bs None" "client_at r1 = client_at r" "dom (nodes r1) = dom (nodes r)"
  proof (cases as rule: rev_cases)
    case Nil
    with n that show ?thesis by (simp add: client_at_def fun_eq_iff)
  next
    case (snoc cs t)
    then obtain m where m: "nodes r t = Some m" using n(2) by (auto simp: dseg_snoc)
    let ?h = "(nodes r)(t := Some (m\<lparr>next_node := next_node n\<rparr>))"
    have "dseg ?h (client_list_head_node r) None (cs @ [t]) (next_node n)"
      using dseg_next_change [of "nodes r" "client_list_head_node r" None cs t "Some p" m "next_node n"] m n(2) d snoc
      by simp
    moreover have "t \<notin> set bs" using d snoc by auto
    then have "dseg ?h (next_node n) (Some p) bs None" using n(4) by simp
    ultimately show ?thesis using that m n(3) snoc
      by (auto simp: set_node_def node_at_def client_at_def fun_eq_iff)
  qed
  show ?thesis
  proof (cases bs)
    case Nil
    with n r1 d rm show ?thesis by (auto simp: remove_client_node_def node_at_def client_list_def)
  next
    case (Cons b cs)
    then obtain m where m: "next_node n = Some b" "nodes r1 b = Some m" using r1(3) by (auto split: option.splits)
    let ?h = "(nodes r1)(b := Some (m\<lparr>prev_node := ?pr\<rparr>))"
    have "dseg ?h (Some b) ?pr (b # cs) None"
      using dseg_prev_change [of "nodes r1" "Some b" "Some p" b cs None m ?pr] r1(3) d Cons m by simp
    moreover have "dseg ?h (client_list_head_node r1) None as (Some b)" using r1(2) m d Cons by simp
    ultimately have "dseg ?h (client_list_head_node r1) None (as @ bs) None"
      using n(3) Cons by (auto simp: dseg_append)
    moreover have "node_client m = node_client (the (nodes r b))"
      using fun_cong [OF r1(4), of b] m(2) by (simp add: client_at_def)
    ultimately show ?thesis using n r1 m d rm
      by (auto simp: remove_client_node_def set_node_def node_at_def client_list_def client_at_def fun_eq_iff)
  qed
qed

subsection \<open>The interface of the list\<close>

text \<open>What the server relies on: a directory of nodes, searched by process number.\<close>

locale client_directory =
  fixes rep :: "'r \<Rightarrow> 'p list \<Rightarrow> bool"
    and allocated :: "'r \<Rightarrow> 'p \<Rightarrow> bool"
    and add :: "'p \<Rightarrow> 'r \<Rightarrow> 'r res"
    and lookup :: "int \<Rightarrow> 'r \<Rightarrow> 'p option res"
    and del :: "'p \<Rightarrow> 'r \<Rightarrow> 'r res"
    and pid_at :: "'r \<Rightarrow> 'p \<Rightarrow> int"
  assumes add_law: "rep r ps \<Longrightarrow> p \<notin> set ps \<Longrightarrow> allocated r p \<Longrightarrow>
      \<exists>r'. add p r = Inr r' \<and> rep r' (ps @ [p]) \<and> pid_at r' = pid_at r"
    and lookup_law: "rep r ps \<Longrightarrow> lookup k r = Inr (List.find (\<lambda>p. pid_at r p = k) ps)"
    and del_law: "rep r ps \<Longrightarrow> p \<in> set ps \<Longrightarrow>
      \<exists>r'. del p r = Inr r' \<and> rep r' (remove1 p ps) \<and> pid_at r' = pid_at r"
begin

lemma lookup_added:
  assumes "rep r ps" and "p \<notin> set ps" and "allocated r p"
  shows "\<exists>r'. add p r = Inr r' \<and> rep r' (ps @ [p]) \<and>
    lookup k r' = Inr (case List.find (\<lambda>q. pid_at r q = k) ps of
                         Some q \<Rightarrow> Some q | None \<Rightarrow> if pid_at r p = k then Some p else None)"
proof -
  have "List.find P (xs @ [x]) = (case List.find P xs of Some q \<Rightarrow> Some q | None \<Rightarrow> if P x then Some x else None)"
    for P and xs :: "'p list" and x by (induction xs) auto
  with add_law [OF assms] lookup_law show ?thesis by force
qed

lemma lookup_deleted:
  assumes "rep r ps" and "distinct (map (pid_at r) ps)" and "p \<in> set ps"
  shows "\<exists>r'. del p r = Inr r' \<and> rep r' (remove1 p ps) \<and> lookup (pid_at r p) r' = Inr None"
proof -
  obtain r' where r': "del p r = Inr r'" "rep r' (remove1 p ps)" "pid_at r' = pid_at r"
    using del_law [OF assms(1,3)] by blast
  have "distinct ps" using assms(2) by (simp add: distinct_map)
  have "pid_at r q \<noteq> pid_at r p" if "q \<in> set (remove1 p ps)" for q
    using that assms(2,3) \<open>distinct ps\<close> by (auto simp: distinct_map inj_on_def)
  then have "List.find (\<lambda>q. pid_at r' q = pid_at r p) (remove1 p ps) = None"
    by (auto simp: find_None_iff r'(3))
  with r' lookup_law show ?thesis by metis
qed

end

interpretation dir: client_directory client_list "\<lambda>r p. nodes r p \<noteq> None" append_client_node_to_tail
  find_current_client_node remove_client_node "\<lambda>r p. pid (client_at r p)"
proof (unfold_locales, goal_cases)
  case (1 r ps p)
  then obtain n where "nodes r p = Some n" by blast
  from append_client_node_ok [OF 1(1,2) this] show ?case by auto
next
  case (2 r ps k)
  then show ?case by (simp add: find_current_client_node_ok first_with_def)
next
  case (3 r ps p)
  from remove_client_node_ok [OF this] show ?case by auto
qed

end
