(* ===== verification/TF_Server.thy ===== *)
theory TF_Server
  imports TF_Registry
begin

text \<open>
  The server of TinyFile (server.c): registration of clients, the thread that reads the registration
  queue, the end of the server, and the compression of a file on behalf of a client.

  The results of system calls are parameters. A descriptor of a message queue is open while \<open>mq_desc\<close>
  knows the queue it stands for; \<open>mq_pending\<close> counts the messages that wait in a queue, of which there
  is room for ten. Sending on a closed descriptor fails; sending to a full queue waits, which is the
  fault \<open>SpinForever\<close> of a run in which nobody else acts.
\<close>

subsection \<open>State\<close>

record server_state =
  reg :: registry
  num_shared_memory :: int
  is_exit_register_client_server :: int
  register_queue_open :: bool
  mq_desc :: "nat \<Rightarrow> string option"
  mq_pending :: "string \<Rightarrow> nat"
  mapped :: "nat set"
  running_workers :: "nat list"

text \<open>What the system calls of a registration return, and what its uninitialised memory holds.\<close>

record server_env =
  mq_open_r :: "string \<Rightarrow> nat option"
  shm_open_r :: "string \<Rightarrow> bool"
  st_size_r :: "string \<Rightarrow> nat"
  mmap_r :: "string \<Rightarrow> nat option"
  pthread_create_r :: "nat \<Rightarrow> nat option"
  malloc_r :: "nat option"
  stack_client :: client_t
  heap_node :: client_node

definition EXIT_FAILURE :: int where [simp]: "EXIT_FAILURE = 1"

definition mq_open :: "server_env \<Rightarrow> string \<Rightarrow> server_state \<Rightarrow> (nat \<times> server_state) res" where
  "mq_open env name s =
     (case mq_open_r env name of
        None \<Rightarrow> Inl (ProcessExit EXIT_FAILURE)
      | Some d \<Rightarrow> Inr (d, s\<lparr>mq_desc := (mq_desc s)(d \<mapsto> name)\<rparr>))"

definition mq_close :: "nat \<Rightarrow> server_state \<Rightarrow> server_state" where
  "mq_close d s = s\<lparr>mq_desc := (mq_desc s)(d := None)\<rparr>"

definition mq_send_or_exit :: "nat \<Rightarrow> server_state \<Rightarrow> server_state res" where
  "mq_send_or_exit d s =
     (case mq_desc s d of
        None \<Rightarrow> Inl (ProcessExit EXIT_FAILURE)
      | Some name \<Rightarrow>
          if mq_pending s name < 10 then Inr (s\<lparr>mq_pending := (mq_pending s)(name := mq_pending s name + 1)\<rparr>)
          else Inl SpinForever)"

definition munmap :: "nat \<Rightarrow> server_state \<Rightarrow> server_state" where
  "munmap a s = s\<lparr>mapped := mapped s - {a}\<rparr>"

subsection \<open>Registration\<close>

definition open_shared_memory :: "server_env \<Rightarrow> client_register_message_entry \<Rightarrow> client_t \<Rightarrow> client_t res" where
  "open_shared_memory env msg client =
     (if \<not> shm_open_r env (msg_shm_name msg) then Inl (ProcessExit EXIT_FAILURE)
      else (let c1 = client\<lparr>shm_name := msg_shm_name msg\<rparr>;
                c2 = c1\<lparr>shared_memory_size := st_size_r env (msg_shm_name msg)\<rparr>
            in case mmap_r env (msg_shm_name msg) of
                 None \<Rightarrow> Inl (ProcessExit EXIT_FAILURE)
               | Some a \<Rightarrow> Inr (c2\<lparr>shared_memory_address := a\<rparr>)))"

definition start_worker_threads :: "server_env \<Rightarrow> client_t \<Rightarrow> client_t res" where
  "start_worker_threads env client =
     for_res (\<lambda>i c. case pthread_create_r env i of
                       None \<Rightarrow> Inl (ProcessExit EXIT_FAILURE)
                     | Some t \<Rightarrow> Inr (c\<lparr>workers := (workers c)[i := t]\<rparr>))
       0 NUM_WORKER_THREADS_PER_CLIENT (client\<lparr>is_worker_thread_active := 1\<rparr>)"

definition register_client_to_server :: "server_env \<Rightarrow> client_register_message_entry \<Rightarrow> server_state \<Rightarrow> server_state res" where
  "register_client_to_server env msg s =
     (let c0 = (stack_client env)\<lparr>pid := client_pid msg\<rparr>
      in rbind (mq_open env (msg_send_queue_name msg) s) (\<lambda>(sq, s1).
         rbind (mq_open env (msg_recv_queue_name msg) s1) (\<lambda>(rq, s2).
         rbind (open_shared_memory env msg (c0\<lparr>send_q := sq, recv_q := rq\<rparr>)) (\<lambda>c1.
         rbind (start_worker_threads env c1) (\<lambda>c2.
         deref (malloc_r env) (\<lambda>node.
         let new_client_node = (heap_node env)\<lparr>node_client := c2\<rparr>;
             r1 = (reg s2)\<lparr>nodes := (nodes (reg s2))(node \<mapsto> new_client_node)\<rparr>
         in rbind (append_client_node_to_tail node r1) (\<lambda>r2.
            Inr (s2\<lparr>reg := r2, mapped := insert (shared_memory_address c2) (mapped s2),
                    running_workers := running_workers s2 @ workers c2\<rparr>))))))))"

definition unregister_client_from_server :: "client_register_message_entry \<Rightarrow> server_state \<Rightarrow> server_state res" where
  "unregister_client_from_server msg s =
     rbind (find_current_client_node (client_pid msg) (reg s)) (\<lambda>found.
     case found of
       None \<Rightarrow> Inr s
     | Some node \<Rightarrow>
         rbind (set_node node (\<lambda>n. n\<lparr>node_client := (node_client n)\<lparr>is_worker_thread_active := 0\<rparr>\<rparr>) (reg s)) (\<lambda>r1.
         node_at (nodes r1) node (\<lambda>n.
         let c = node_client n
         in rbind (mq_send_or_exit (recv_q c) (s\<lparr>reg := r1\<rparr>)) (\<lambda>s1.
            rbind (remove_client_node node (reg s1)) (\<lambda>r2.
            let s2 = mq_close (recv_q c) (mq_close (send_q c) (s1\<lparr>reg := r2\<rparr>));
                s3 = munmap (shared_memory_address c) s2;
                s4 = s3\<lparr>num_shared_memory := num_shared_memory s3 + 1\<rparr>
            in Inr (s4\<lparr>reg := (reg s4)\<lparr>nodes := (nodes (reg s4))(node := None)\<rparr>\<rparr>))))))"

text \<open>\<open>unregister_client_directly\<close> fills only the process number of the message, which is all that is read.\<close>

definition unregister_client_directly :: "int \<Rightarrow> server_state \<Rightarrow> server_state res" where
  "unregister_client_directly the_pid s =
     unregister_client_from_server
       \<lparr>client_pid = the_pid, command = UNREGISTER, msg_send_queue_name = [], msg_recv_queue_name = [], msg_shm_name = []\<rparr> s"

subsection \<open>The registration thread\<close>

text \<open>The loop \<open>while(num_shared_memory == 0) usleep(100)\<close>; only this thread frees a shared memory.\<close>

partial_function (option) wait_shared_memory :: "int \<Rightarrow> unit option" where
  "wait_shared_memory n = (if n = 0 then wait_shared_memory n else Some ())"

definition handle_register_message ::
  "server_env \<Rightarrow> client_register_message_entry \<Rightarrow> server_state \<Rightarrow> server_state res" where
  "handle_register_message env msg s =
     (case command msg of
        REGISTER \<Rightarrow>
          if num_shared_memory s > 0 then
            rbind (register_client_to_server env msg s) (\<lambda>s1.
            Inr (s1\<lparr>num_shared_memory := num_shared_memory s1 - 1\<rparr>))
          else (case wait_shared_memory (num_shared_memory s) of None \<Rightarrow> Inl SpinForever | Some _ \<Rightarrow> Inr s)
      | UNREGISTER \<Rightarrow> unregister_client_from_server msg s
      | Other_command c \<Rightarrow> Inr s)"

text \<open>\<open>register_client_handler\<close> on the results of its calls of \<open>mq_receive\<close>: nothing, or a message together with
  the environment of its treatment.\<close>

fun register_client_handler ::
  "(server_env \<times> client_register_message_entry) option list \<Rightarrow> server_state \<Rightarrow> server_state res" where
  "register_client_handler [] s = Inr s"
| "register_client_handler (r # rs) s =
     (if is_exit_register_client_server s \<noteq> 0 then Inr s
      else case r of
             None \<Rightarrow> register_client_handler rs s
           | Some (env, msg) \<Rightarrow> rbind (handle_register_message env msg s) (register_client_handler rs))"

subsection \<open>The end of the server\<close>

partial_function (option) exit_loop :: "nat option \<Rightarrow> server_state \<Rightarrow> server_state res option" where
  "exit_loop current s =
     (case current of
        None \<Rightarrow> Some (Inr s)
      | Some p \<Rightarrow>
          (case nodes (reg s) p of
             None \<Rightarrow> Some (Inl Undefined)
           | Some n \<Rightarrow>
               (let c = node_client n;
                    s1 = munmap (shared_memory_address c) (mq_close (recv_q c) (mq_close (send_q c) s))
                in case unregister_client_directly (pid c) s1 of
                     Inl e \<Rightarrow> Some (Inl e)
                   | Inr s2 \<Rightarrow>
                       (case nodes (reg s2) p of
                          None \<Rightarrow> Some (Inl Undefined)
                        | Some n2 \<Rightarrow> exit_loop (next_node n2) s2))))"

definition exit_server :: "server_state \<Rightarrow> server_state res" where
  "exit_server s =
     (case exit_loop (client_list_head_node (reg s)) s of
        None \<Rightarrow> Inl SpinForever
      | Some res \<Rightarrow> rbind res (\<lambda>s1. Inr (s1\<lparr>register_queue_open := False\<rparr>)))"

definition server_start :: "int \<Rightarrow> server_state" where
  "server_start n_sms =
     \<lparr>reg = \<lparr>nodes = \<lambda>_. None, client_list_head_node = None\<rparr>, num_shared_memory = n_sms,
      is_exit_register_client_server = 0, register_queue_open = True, mq_desc = \<lambda>_. None,
      mq_pending = \<lambda>_. 0, mapped = {}, running_workers = []\<rparr>"

subsection \<open>Consistency\<close>

text \<open>The nodes allocated are those of the list, and their descriptors are open and all different.\<close>

definition descs :: "registry \<Rightarrow> nat \<Rightarrow> nat list" where
  "descs r p = [send_q (client_at r p), recv_q (client_at r p)]"

definition registry_ok :: "server_state \<Rightarrow> nat list \<Rightarrow> bool" where
  "registry_ok s ps \<longleftrightarrow> client_list (reg s) ps \<and> dom (nodes (reg s)) = set ps \<and>
     distinct (concat (map (descs (reg s)) ps)) \<and>
     set (concat (map (descs (reg s)) ps)) \<subseteq> dom (mq_desc s)"

text \<open>The system grants what a registration asks for.\<close>

definition calls_ok :: "server_env \<Rightarrow> client_register_message_entry \<Rightarrow> server_state \<Rightarrow> bool" where
  "calls_ok env msg s \<longleftrightarrow>
     (\<exists>sq rq p. mq_open_r env (msg_send_queue_name msg) = Some sq \<and> mq_open_r env (msg_recv_queue_name msg) = Some rq \<and>
        sq \<noteq> rq \<and> mq_desc s sq = None \<and> mq_desc s rq = None \<and> malloc_r env = Some p \<and> nodes (reg s) p = None) \<and>
     shm_open_r env (msg_shm_name msg) \<and> mmap_r env (msg_shm_name msg) \<noteq> None \<and>
     (\<forall>i<10. pthread_create_r env i \<noteq> None) \<and> length (workers (stack_client env)) = 10"

definition worker_ids :: "server_env \<Rightarrow> nat list" where
  "worker_ids env = map (\<lambda>i. the (pthread_create_r env i)) [0..<10]"

lemma start_worker_threads_ok:
  assumes "\<forall>i<10. pthread_create_r env i \<noteq> None" and "length (workers c) = 10"
  shows "start_worker_threads env c = Inr (c\<lparr>is_worker_thread_active := 1, workers := worker_ids env\<rparr>)"
proof -
  let ?I = "\<lambda>i c'. \<exists>ws. c' = c\<lparr>is_worker_thread_active := 1, workers := ws\<rparr> \<and> length ws = 10 \<and>
      (\<forall>j<i. ws ! j = the (pthread_create_r env j))"
  let ?body = "\<lambda>i c. case pthread_create_r env i of None \<Rightarrow> Inl (ProcessExit EXIT_FAILURE)
                     | Some t \<Rightarrow> Inr (c\<lparr>workers := (workers c)[i := t]\<rparr>)"
  have step: "\<exists>c'. ?body i c0 = Inr c' \<and> ?I (Suc i) c'" if i: "i < 10" and I: "?I i c0" for i c0
  proof -
    obtain ws where ws: "c0 = c\<lparr>is_worker_thread_active := 1, workers := ws\<rparr>" "length ws = 10"
        "\<forall>j<i. ws ! j = the (pthread_create_r env j)" using I by blast
    obtain t where t: "pthread_create_r env i = Some t" using assms(1) i by blast
    have "length (ws[i := t]) = 10" "\<forall>j<Suc i. ws[i := t] ! j = the (pthread_create_r env j)"
      using ws(2,3) t i by (simp_all add: less_Suc_eq nth_list_update)
    then show ?thesis using ws(1) t by auto
  qed
  have "\<exists>c'. for_res ?body 0 10 (c\<lparr>is_worker_thread_active := 1\<rparr>) = Inr c' \<and> ?I 10 c'"
    by (rule for_res_inv [where I = ?I]) (use step assms(2) in \<open>auto intro: exI [of _ "workers c"]\<close>)
  then obtain ws where "for_res ?body 0 10 (c\<lparr>is_worker_thread_active := 1\<rparr>) =
      Inr (c\<lparr>is_worker_thread_active := 1, workers := ws\<rparr>)" "length ws = 10"
      "\<forall>j<10. ws ! j = the (pthread_create_r env j)" by blast
  moreover from this(2,3) have "ws = worker_ids env" by (auto simp: worker_ids_def list_eq_iff_nth_eq)
  ultimately show ?thesis by (simp add: start_worker_threads_def)
qed

text \<open>The client that a registration creates.\<close>

definition new_client :: "server_env \<Rightarrow> client_register_message_entry \<Rightarrow> client_t" where
  "new_client env msg = (stack_client env)\<lparr>pid := client_pid msg,
     send_q := the (mq_open_r env (msg_send_queue_name msg)), recv_q := the (mq_open_r env (msg_recv_queue_name msg)),
     shared_memory_address := the (mmap_r env (msg_shm_name msg)),
     shared_memory_size := st_size_r env (msg_shm_name msg), shm_name := msg_shm_name msg,
     is_worker_thread_active := 1, workers := worker_ids env\<rparr>"

lemma register_client_ok:
  assumes ok: "registry_ok s ps" and calls: "calls_ok env msg s"
  shows "\<exists>s' p. register_client_to_server env msg s = Inr s' \<and> p \<notin> set ps \<and> registry_ok s' (ps @ [p]) \<and>
    client_at (reg s') = (client_at (reg s))(p := new_client env msg) \<and>
    num_shared_memory s' = num_shared_memory s \<and> running_workers s' = running_workers s @ worker_ids env \<and>
    is_exit_register_client_server s' = is_exit_register_client_server s \<and> mq_pending s' = mq_pending s"
proof -
  obtain sq rq p a where c: "mq_open_r env (msg_send_queue_name msg) = Some sq"
      "mq_open_r env (msg_recv_queue_name msg) = Some rq" "sq \<noteq> rq" "mq_desc s sq = None" "mq_desc s rq = None"
      "malloc_r env = Some p" "nodes (reg s) p = None" "mmap_r env (msg_shm_name msg) = Some a"
    using calls by (auto simp: calls_ok_def)
  have w: "start_worker_threads env c = Inr (c\<lparr>is_worker_thread_active := 1, workers := worker_ids env\<rparr>)"
    if "length (workers c) = 10" for c
    using that calls by (intro start_worker_threads_ok) (simp_all add: calls_ok_def)
  have nc: "new_client env msg = (stack_client env)\<lparr>pid := client_pid msg, send_q := sq, recv_q := rq,
      shm_name := msg_shm_name msg, shared_memory_size := st_size_r env (msg_shm_name msg),
      shared_memory_address := a, is_worker_thread_active := 1, workers := worker_ids env\<rparr>"
    using c by (simp add: new_client_def)
  let ?n = "(heap_node env)\<lparr>node_client := new_client env msg\<rparr>"
  let ?r1 = "(reg s)\<lparr>nodes := (nodes (reg s))(p \<mapsto> ?n)\<rparr>"
  have p: "p \<notin> set ps" using ok c(7) by (auto simp: registry_ok_def)
  have "client_list ?r1 ps" using ok p by (simp add: registry_ok_def client_list_unlink)
  then obtain r2 where r2: "append_client_node_to_tail p ?r1 = Inr r2" "client_list r2 (ps @ [p])"
      "client_at r2 = client_at ?r1" "dom (nodes r2) = dom (nodes ?r1)"
    using append_client_node_ok [of ?r1 ps p ?n] p by auto
  have ca: "client_at r2 = (client_at (reg s))(p := new_client env msg)"
    by (simp add: r2(3) client_at_def fun_eq_iff)
  let ?s' = "s\<lparr>mq_desc := (mq_desc s)(sq \<mapsto> msg_send_queue_name msg, rq \<mapsto> msg_recv_queue_name msg),
      reg := r2, mapped := insert a (mapped s), running_workers := running_workers s @ worker_ids env\<rparr>"
  have run: "register_client_to_server env msg s = Inr ?s'"
    using c r2(1) calls
    by (simp add: register_client_to_server_def Let_def mq_open_def open_shared_memory_def w calls_ok_def nc)
  have ds: "map (descs r2) ps = map (descs (reg s)) ps" "descs r2 p = [sq, rq]"
    using p c by (auto simp: descs_def ca new_client_def)
  have "sq \<notin> set (concat (map (descs (reg s)) ps))" "rq \<notin> set (concat (map (descs (reg s)) ps))"
    using ok c(4,5) by (auto simp: registry_ok_def)
  then have "registry_ok ?s' (ps @ [p])"
    using ok c(3) r2(2,4)
    by (simp add: registry_ok_def ds del: set_concat) (auto simp del: set_concat)
  with run p ca show ?thesis by (intro exI [of _ ?s'] exI [of _ p]) simp
qed

lemma unregister_unknown:
  assumes "registry_ok s ps" and "first_with (reg s) (client_pid msg) ps = None"
  shows "unregister_client_from_server msg s = Inr s"
proof -
  have "client_list (reg s) ps" using assms(1) by (simp add: registry_ok_def)
  then show ?thesis
    using assms(2) by (simp add: unregister_client_from_server_def find_current_client_node_ok)
qed

text \<open>The state after the flag of the workers is cleared in the node found.\<close>

lemma unregister_found:
  assumes ok: "client_list (reg s) ps" and f: "first_with (reg s) (client_pid msg) ps = Some p"
  shows "\<exists>r1. client_list r1 ps \<and> dom (nodes r1) = dom (nodes (reg s)) \<and>
    client_at r1 = (client_at (reg s))(p := (client_at (reg s) p)\<lparr>is_worker_thread_active := 0\<rparr>) \<and>
    unregister_client_from_server msg s =
      (let c = client_at (reg s) p
       in rbind (mq_send_or_exit (recv_q c) (s\<lparr>reg := r1\<rparr>)) (\<lambda>s1.
          rbind (remove_client_node p (reg s1)) (\<lambda>r2.
          let s2 = mq_close (recv_q c) (mq_close (send_q c) (s1\<lparr>reg := r2\<rparr>));
              s3 = munmap (shared_memory_address c) s2;
              s4 = s3\<lparr>num_shared_memory := num_shared_memory s3 + 1\<rparr>
          in Inr (s4\<lparr>reg := (reg s4)\<lparr>nodes := (nodes (reg s4))(p := None)\<rparr>\<rparr>))))"
proof -
  have p: "p \<in> set ps" using first_with_mem [OF f] by simp
  obtain r1 n where r1: "set_node p (\<lambda>n. n\<lparr>node_client := (node_client n)\<lparr>is_worker_thread_active := 0\<rparr>\<rparr>) (reg s) = Inr r1"
      "client_list r1 ps" "client_at r1 = (client_at (reg s))(p := (client_at (reg s) p)\<lparr>is_worker_thread_active := 0\<rparr>)"
      "dom (nodes r1) = dom (nodes (reg s))" "nodes r1 p = Some n"
      "node_client n = (client_at (reg s) p)\<lparr>is_worker_thread_active := 0\<rparr>"
    using set_client_ok [OF ok p, of "\<lambda>c. c\<lparr>is_worker_thread_active := 0\<rparr>"] by blast
  have "unregister_client_from_server msg s =
      (let c = client_at (reg s) p
       in rbind (mq_send_or_exit (recv_q c) (s\<lparr>reg := r1\<rparr>)) (\<lambda>s1.
          rbind (remove_client_node p (reg s1)) (\<lambda>r2.
          let s2 = mq_close (recv_q c) (mq_close (send_q c) (s1\<lparr>reg := r2\<rparr>));
              s3 = munmap (shared_memory_address c) s2;
              s4 = s3\<lparr>num_shared_memory := num_shared_memory s3 + 1\<rparr>
          in Inr (s4\<lparr>reg := (reg s4)\<lparr>nodes := (nodes (reg s4))(p := None)\<rparr>\<rparr>))))"
    by (simp add: unregister_client_from_server_def find_current_client_node_ok [OF ok] f r1(1,5,6) node_at_def Let_def)
  with r1 show ?thesis by blast
qed

lemma distinct_concat_remove1:
  assumes "distinct (concat (map f xs))" and "x \<in> set xs" and "distinct xs"
  shows "distinct (concat (map f (remove1 x xs)))"
    "set (concat (map f (remove1 x xs))) = set (concat (map f xs)) - set (f x)"
proof -
  obtain as bs where xs: "xs = as @ x # bs" using assms(2) by (auto simp: in_set_conv_decomp)
  then have rm: "remove1 x xs = as @ bs" using assms(3) by (simp add: remove1_append)
  show "distinct (concat (map f (remove1 x xs)))" using assms(1) unfolding rm by (auto simp: xs)
  show "set (concat (map f (remove1 x xs))) = set (concat (map f xs)) - set (f x)"
  proof -
    have "set (f x) \<inter> set (concat (map f as)) = {}" "set (f x) \<inter> set (concat (map f bs)) = {}"
      using assms(1) unfolding xs by (auto simp del: set_concat)
    then show ?thesis unfolding rm unfolding xs by (simp only: map_append concat_append set_append list.map concat.simps) blast
  qed
qed

lemma unregister_client_ok:
  assumes ok: "registry_ok s ps" and f: "first_with (reg s) (client_pid msg) ps = Some p"
    and q: "mq_desc s (recv_q (client_at (reg s) p)) = Some name" and room: "mq_pending s name < 10"
  shows "\<exists>s'. unregister_client_from_server msg s = Inr s' \<and> registry_ok s' (remove1 p ps) \<and>
    (\<forall>p'\<in>set (remove1 p ps). client_at (reg s') p' = client_at (reg s) p') \<and>
    num_shared_memory s' = num_shared_memory s + 1 \<and>
    mq_pending s' = (mq_pending s)(name := mq_pending s name + 1) \<and> running_workers s' = running_workers s \<and>
    is_exit_register_client_server s' = is_exit_register_client_server s"
proof -
  let ?c = "client_at (reg s) p"
  have cl: "client_list (reg s) ps" and dps: "distinct ps" using ok by (simp_all add: registry_ok_def client_list_def)
  have p: "p \<in> set ps" using first_with_mem [OF f] by simp
  obtain r1 where r1: "client_list r1 ps" "dom (nodes r1) = dom (nodes (reg s))"
      "client_at r1 = (client_at (reg s))(p := ?c\<lparr>is_worker_thread_active := 0\<rparr>)"
      "unregister_client_from_server msg s =
      (let c = client_at (reg s) p
       in rbind (mq_send_or_exit (recv_q c) (s\<lparr>reg := r1\<rparr>)) (\<lambda>s1.
          rbind (remove_client_node p (reg s1)) (\<lambda>r2.
          let s2 = mq_close (recv_q c) (mq_close (send_q c) (s1\<lparr>reg := r2\<rparr>));
              s3 = munmap (shared_memory_address c) s2;
              s4 = s3\<lparr>num_shared_memory := num_shared_memory s3 + 1\<rparr>
          in Inr (s4\<lparr>reg := (reg s4)\<lparr>nodes := (nodes (reg s4))(p := None)\<rparr>\<rparr>))))"
    using unregister_found [OF cl f] by blast
  obtain r2 where r2: "remove_client_node p r1 = Inr r2" "client_list r2 (remove1 p ps)"
      "client_at r2 = client_at r1" "dom (nodes r2) = dom (nodes r1)"
    using remove_client_node_ok [OF r1(1) p] by blast
  let ?r3 = "r2\<lparr>nodes := (nodes r2)(p := None)\<rparr>"
  let ?s' = "s\<lparr>reg := ?r3, mq_pending := (mq_pending s)(name := mq_pending s name + 1),
      mq_desc := (mq_desc s)(send_q ?c := None, recv_q ?c := None),
      mapped := mapped s - {shared_memory_address ?c}, num_shared_memory := num_shared_memory s + 1\<rparr>"
  have run: "unregister_client_from_server msg s = Inr ?s'"
    unfolding r1(4) using q room r2(1)
    by (simp add: Let_def mq_send_or_exit_def mq_close_def munmap_def)
  have np: "p \<notin> set (remove1 p ps)" using dps by simp
  have ca: "client_at ?r3 p' = client_at (reg s) p'" if "p' \<in> set (remove1 p ps)" for p'
  proof -
    have "p' \<noteq> p" using that np by blast
    moreover from this have "client_at ?r3 p' = client_at r2 p'" by (simp add: client_at_def)
    ultimately show ?thesis by (simp add: r2(3) r1(3))
  qed
  then have ds: "map (descs ?r3) (remove1 p ps) = map (descs (reg s)) (remove1 p ps)"
    by (simp add: descs_def)
  note dc = distinct_concat_remove1 [OF _ p dps, of "descs (reg s)"]
  have "set (concat (map (descs (reg s)) (remove1 p ps))) \<subseteq> dom (mq_desc s) - {send_q ?c, recv_q ?c}"
    using ok dc(2) by (auto simp: registry_ok_def descs_def)
  then have "registry_ok ?s' (remove1 p ps)"
    using ok r1(2) r2(2,4) dc(1) np dps
    by (auto simp: registry_ok_def ds client_list_unlink)
  with run ca show ?thesis by auto
qed

subsection \<open>The registration thread\<close>

lemma wait_shared_memory_diverges: "wait_shared_memory 0 = None"
proof -
  have "n \<noteq> 0" if "wait_shared_memory n = Some x" for n x
    by (rule wait_shared_memory.raw_induct [OF _ that]) (auto split: if_splits)
  then show ?thesis by (cases "wait_shared_memory 0") auto
qed

lemma wait_shared_memory_returns: "n \<noteq> 0 \<Longrightarrow> wait_shared_memory n = Some ()"
  by (simp add: wait_shared_memory.simps)

text \<open>What a message does to the sequence of registered process numbers, when there is room for \<open>n\<close> of
  them: the abstract service.\<close>

fun directory_step :: "int \<Rightarrow> client_register_message_entry \<Rightarrow> int list \<Rightarrow> int list option" where
  "directory_step n msg pids =
     (case command msg of
        REGISTER \<Rightarrow> if int (length pids) < n then Some (pids @ [client_pid msg]) else None
      | UNREGISTER \<Rightarrow> Some (remove1 (client_pid msg) pids)
      | Other_command _ \<Rightarrow> Some pids)"

definition server_ok :: "int \<Rightarrow> server_state \<Rightarrow> nat list \<Rightarrow> bool" where
  "server_ok n s ps \<longleftrightarrow> registry_ok s ps \<and> num_shared_memory s = n - int (length ps) \<and> int (length ps) \<le> n"

definition pids_of :: "server_state \<Rightarrow> nat list \<Rightarrow> int list" where
  "pids_of s ps = map (\<lambda>p. pid (client_at (reg s) p)) ps"

text \<open>What a message needs from the system.\<close>

definition message_granted :: "server_env \<Rightarrow> client_register_message_entry \<Rightarrow> server_state \<Rightarrow> bool" where
  "message_granted env msg s \<longleftrightarrow>
     (command msg = REGISTER \<longrightarrow> calls_ok env msg s) \<and>
     (command msg = UNREGISTER \<longrightarrow> (\<forall>name. mq_pending s name < 10))"

lemma remove1_find: "List.find (\<lambda>p. f p = k) ps = Some p \<Longrightarrow> map f (remove1 p ps) = remove1 k (map f ps)"
proof (induction ps)
  case (Cons x ps)
  have "f p = k" using Cons.prems by (auto simp: find_Some_iff simp del: find.simps)
  with Cons show ?case by (auto split: if_splits)
qed simp

lemma find_none_remove1: "List.find (\<lambda>p. f p = k) ps = None \<Longrightarrow> remove1 k (map f ps) = map f ps"
  by (induction ps) (auto split: if_splits)

lemma register_message_ok:
  assumes "server_ok n s ps" and "calls_ok env msg s" and "command msg = REGISTER" and "int (length ps) < n"
  shows "\<exists>s' p. handle_register_message env msg s = Inr s' \<and> server_ok n s' (ps @ [p]) \<and>
    pids_of s' (ps @ [p]) = pids_of s ps @ [client_pid msg] \<and>
    running_workers s' = running_workers s @ worker_ids env"
proof -
  obtain s1 p where s1: "register_client_to_server env msg s = Inr s1" "p \<notin> set ps" "registry_ok s1 (ps @ [p])"
      "client_at (reg s1) = (client_at (reg s))(p := new_client env msg)"
      "num_shared_memory s1 = num_shared_memory s" "running_workers s1 = running_workers s @ worker_ids env"
    using register_client_ok [of s ps env msg] assms by (auto simp: server_ok_def)
  let ?s' = "s1\<lparr>num_shared_memory := num_shared_memory s1 - 1\<rparr>"
  have "handle_register_message env msg s = Inr ?s'"
    using assms s1(1) by (simp add: handle_register_message_def server_ok_def)
  moreover have "server_ok n ?s' (ps @ [p])"
    using assms s1(3,5) by (simp add: server_ok_def registry_ok_def)
  moreover have "pids_of ?s' (ps @ [p]) = pids_of s ps @ [client_pid msg]"
    using s1(2) by (auto simp: pids_of_def s1(4) new_client_def)
  ultimately show ?thesis using s1(6) by (intro exI [of _ ?s'] exI [of _ p]) simp
qed

lemma unregister_message_ok:
  assumes ok: "server_ok n s ps" and room: "\<forall>name. mq_pending s name < 10" and u: "command msg = UNREGISTER"
  shows "\<exists>s' ps'. handle_register_message env msg s = Inr s' \<and> server_ok n s' ps' \<and>
    pids_of s' ps' = remove1 (client_pid msg) (pids_of s ps)"
proof (cases "first_with (reg s) (client_pid msg) ps")
  case None
  have "handle_register_message env msg s = Inr s"
    using unregister_unknown [OF _ None] ok u by (simp add: handle_register_message_def server_ok_def)
  moreover have "pids_of s ps = remove1 (client_pid msg) (pids_of s ps)"
    using None find_none_remove1 unfolding first_with_def pids_of_def by metis
  ultimately show ?thesis using ok by metis
next
  case (Some p)
  have r: "registry_ok s ps" using ok by (simp add: server_ok_def)
  have p: "p \<in> set ps" using first_with_mem [OF Some] by simp
  then obtain name where "mq_desc s (recv_q (client_at (reg s) p)) = Some name"
    using r by (force simp: registry_ok_def descs_def)
  from unregister_client_ok [OF r Some this] room obtain s' where
    s': "unregister_client_from_server msg s = Inr s'" "registry_ok s' (remove1 p ps)"
      "\<forall>p'\<in>set (remove1 p ps). client_at (reg s') p' = client_at (reg s) p'"
      "num_shared_memory s' = num_shared_memory s + 1" by blast
  obtain m where "length ps = Suc m" using p by (cases ps) auto
  then have len: "int (length (remove1 p ps)) = int (length ps) - 1"
    using p by (simp add: length_remove1_mem)
  have "server_ok n s' (remove1 p ps)"
    using ok s'(2,4) len by (simp add: server_ok_def)
  moreover have "pids_of s' (remove1 p ps) = remove1 (client_pid msg) (pids_of s ps)"
  proof -
    have "pids_of s' (remove1 p ps) = map (\<lambda>p. pid (client_at (reg s) p)) (remove1 p ps)"
      using s'(3) by (simp add: pids_of_def)
    then show ?thesis
      using remove1_find [OF Some [unfolded first_with_def]] by (simp add: pids_of_def)
  qed
  ultimately show ?thesis using s'(1) u by (auto simp: handle_register_message_def)
qed

text \<open>Every message refines the abstract service, except a registration when no shared memory is left,
  on which the thread waits for ever.\<close>

lemma handle_message_refines:
  assumes ok: "server_ok n s ps" and g: "message_granted env msg s"
  shows "case directory_step n msg (pids_of s ps) of
      None \<Rightarrow> handle_register_message env msg s = Inl SpinForever
    | Some pids \<Rightarrow> \<exists>s' ps'. handle_register_message env msg s = Inr s' \<and> server_ok n s' ps' \<and> pids_of s' ps' = pids"
proof (cases "command msg")
  case REGISTER
  show ?thesis
  proof (cases "int (length ps) < n")
    case True
    with register_message_ok [OF ok _ REGISTER True] g REGISTER show ?thesis
      by (fastforce simp: message_granted_def pids_of_def)
  next
    case False
    then have "num_shared_memory s = 0" using ok by (simp add: server_ok_def)
    then show ?thesis using False REGISTER
      by (simp add: pids_of_def handle_register_message_def wait_shared_memory_diverges)
  qed
next
  case UNREGISTER
  with unregister_message_ok [OF ok _ UNREGISTER] g show ?thesis
    by (simp add: message_granted_def)
next
  case (Other_command c)
  then show ?thesis using ok by (auto simp: handle_register_message_def)
qed

text \<open>The whole loop of the thread follows the abstract service, as long as no registration comes when
  all shared memories are taken.\<close>

fun directory_run :: "int \<Rightarrow> client_register_message_entry list \<Rightarrow> int list \<Rightarrow> int list option" where
  "directory_run n [] pids = Some pids"
| "directory_run n (m # ms) pids =
     (case directory_step n m pids of None \<Rightarrow> None | Some pids' \<Rightarrow> directory_run n ms pids')"

definition received :: "(server_env \<times> client_register_message_entry) option list \<Rightarrow> client_register_message_entry list" where
  "received rs = map snd (List.map_filter (\<lambda>x. x) rs)"

lemma received_simps [simp]:
  "received [] = []" "received (None # rs) = received rs" "received (Some (e, m) # rs) = m # received rs"
  by (simp_all add: received_def List.map_filter_def)

text \<open>The system grants each message what it needs in the state in which it arrives.\<close>

fun run_granted :: "(server_env \<times> client_register_message_entry) option list \<Rightarrow> server_state \<Rightarrow> bool" where
  "run_granted [] s \<longleftrightarrow> True"
| "run_granted (None # rs) s \<longleftrightarrow> run_granted rs s"
| "run_granted (Some (env, msg) # rs) s \<longleftrightarrow> message_granted env msg s \<and>
     (case handle_register_message env msg s of Inl e \<Rightarrow> True | Inr s' \<Rightarrow> run_granted rs s')"

lemma handle_keeps_flag:
  assumes "server_ok n s ps" and "message_granted env msg s" and "handle_register_message env msg s = Inr s'"
  shows "is_exit_register_client_server s' = is_exit_register_client_server s"
proof (cases "command msg")
  case REGISTER
  show ?thesis
  proof (cases "num_shared_memory s > 0")
    case True
    have "registry_ok s ps" "calls_ok env msg s"
      using assms(1,2) REGISTER by (simp_all add: server_ok_def message_granted_def)
    from register_client_ok [OF this] show ?thesis
      using assms(3) REGISTER True by (auto simp: handle_register_message_def)
  next
    case False
    then show ?thesis using assms(3) REGISTER by (auto simp: handle_register_message_def split: option.splits)
  qed
next
  case UNREGISTER
  have r: "registry_ok s ps" and room: "\<forall>name. mq_pending s name < 10"
    using assms(1,2) UNREGISTER by (simp_all add: server_ok_def message_granted_def)
  show ?thesis
  proof (cases "first_with (reg s) (client_pid msg) ps")
    case None
    with unregister_unknown [OF r None] UNREGISTER assms(3) show ?thesis by (simp add: handle_register_message_def)
  next
    case (Some p)
    then obtain name where "mq_desc s (recv_q (client_at (reg s) p)) = Some name"
      using first_with_mem [OF Some] r by (force simp: registry_ok_def descs_def)
    from unregister_client_ok [OF r Some this] room UNREGISTER assms(3) show ?thesis
      by (auto simp: handle_register_message_def)
  qed
qed (use assms(3) in \<open>auto simp: handle_register_message_def\<close>)

lemma handler_refines:
  assumes "server_ok n s ps" and "is_exit_register_client_server s = 0" and "run_granted rs s"
  shows "case directory_run n (received rs) (pids_of s ps) of
      None \<Rightarrow> register_client_handler rs s = Inl SpinForever
    | Some pids \<Rightarrow> \<exists>s' ps'. register_client_handler rs s = Inr s' \<and> server_ok n s' ps' \<and> pids_of s' ps' = pids"
  using assms
proof (induction rs arbitrary: s ps)
  case Nil
  then show ?case by auto
next
  case (Cons r rs)
  show ?case
  proof (cases r)
    case None
    have "register_client_handler (r # rs) s = register_client_handler rs s" "received (r # rs) = received rs"
      "run_granted rs s" using None Cons.prems(2,3) by simp_all
    then show ?thesis using Cons.IH [OF Cons.prems(1,2)] by (simp only:)
  next
    case (Some em)
    then obtain env msg where r: "r = Some (env, msg)" by (cases em) auto
    have g: "message_granted env msg s" using Cons.prems(3) r by simp
    note one = handle_message_refines [OF Cons.prems(1) g]
    show ?thesis
    proof (cases "directory_step n msg (pids_of s ps)")
      case None
      then show ?thesis using one r Cons.prems(2) by simp
    next
      case (Some pids)
      then obtain s' ps' where s': "handle_register_message env msg s = Inr s'" "server_ok n s' ps'" "pids_of s' ps' = pids"
        using one by auto
      have "is_exit_register_client_server s' = 0"
        using handle_keeps_flag [OF Cons.prems(1) g s'(1)] Cons.prems(2) by simp
      moreover have "run_granted rs s'" using Cons.prems(3) r s'(1) by simp
      moreover have "register_client_handler (r # rs) s = register_client_handler rs s'"
          "directory_run n (received (r # rs)) (pids_of s ps) = directory_run n (received rs) (pids_of s' ps')"
        using s' Some r Cons.prems(2) by simp_all
      ultimately show ?thesis using Cons.IH [OF s'(2)] by (simp only:)
    qed
  qed
qed

lemma server_start_ok: "0 \<le> n \<Longrightarrow> server_ok n (server_start n) []"
  by (simp add: server_ok_def server_start_def registry_ok_def client_list_def)

subsection \<open>The end of the server\<close>

text \<open>\<open>exit_server\<close> closes the queue of the first client before it sends the notification there.\<close>

lemma exit_server_fails:
  assumes ok: "registry_ok s (p # ps)"
  shows "exit_server s = Inl (ProcessExit 1)"
proof -
  obtain n where n: "client_list_head_node (reg s) = Some p" "nodes (reg s) p = Some n"
    using ok by (auto simp: registry_ok_def client_list_def split: option.splits)
  let ?c = "client_at (reg s) p"
  have c: "node_client n = ?c" using n(2) by (simp add: client_at_def)
  let ?s1 = "munmap (shared_memory_address ?c) (mq_close (recv_q ?c) (mq_close (send_q ?c) s))"
  have reg: "reg ?s1 = reg s" by (simp add: munmap_def mq_close_def)
  have cl: "client_list (reg ?s1) (p # ps)" using ok by (simp add: reg registry_ok_def)
  have "unregister_client_directly (pid ?c) ?s1 = Inl (ProcessExit 1)"
  proof -
    let ?m = "\<lparr>client_pid = pid ?c, command = UNREGISTER, msg_send_queue_name = [], msg_recv_queue_name = [], msg_shm_name = []\<rparr>"
    have "first_with (reg ?s1) (client_pid ?m) (p # ps) = Some p" by (simp add: first_with_def reg)
    from unregister_found [OF cl this] show ?thesis
      by (auto simp: unregister_client_directly_def Let_def mq_send_or_exit_def reg munmap_def mq_close_def)
  qed
  then show ?thesis using n by (simp add: exit_server_def exit_loop.simps [of "Some p"] Let_def c)
qed

lemma exit_server_empty: "registry_ok s [] \<Longrightarrow> exit_server s = Inr (s\<lparr>register_queue_open := False\<rparr>)"
  by (simp add: exit_server_def exit_loop.simps registry_ok_def client_list_def)

end
