(* ===== verification/TF_Worker.thy ===== *)
theory TF_Worker
  imports TF_Common
begin

text \<open>
  The work of the server's worker threads (server.c): \<open>compress_file\<close>, \<open>handle_message\<close> and the loop of
  \<open>worker_thread_handler\<close>.

  The compression library is a parameter: \<open>max_len\<close> is \<open>snappy_max_compressed_length\<close>, \<open>snap\<close> is what
  \<open>snappy_compress\<close> writes for an input, and \<open>fresh k\<close> is what a block of \<open>k\<close> bytes from \<open>malloc\<close> holds
  before it is written. The documented behaviour that the code relies on is that the output fits the
  block (\<open>snappy_fits\<close>).
\<close>

type_synonym byte = "8 word"
type_synonym files = "string \<Rightarrow> byte list option"

record compressor =
  max_len :: "nat \<Rightarrow> nat"
  snap :: "byte list \<Rightarrow> byte list"
  fresh :: "nat \<Rightarrow> byte list"

definition snappy_fits :: "compressor \<Rightarrow> bool" where
  "snappy_fits z \<longleftrightarrow> (\<forall>data. length (snap z data) \<le> max_len z (length data)) \<and> (\<forall>k. length (fresh z k) = k)"

text \<open>The files that can be opened for writing, and whether the seeks, the allocation and the reading of
  the input succeed.\<close>

record file_env =
  writable :: "string \<Rightarrow> bool"
  input_ok :: bool

subsection \<open>Compression of a file\<close>

text \<open>\<open>fprintf(fp, "%s", buffer)\<close> writes the bytes before the first zero; without one it leaves the block.\<close>

definition fprintf_s :: "byte list \<Rightarrow> byte list res" where
  "fprintf_s buffer = (if 0 \<in> set buffer then Inr (takeWhile (\<lambda>b. b \<noteq> 0) buffer) else Inl OutOfBounds)"

definition compress_file :: "compressor \<Rightarrow> file_env \<Rightarrow> string \<Rightarrow> string \<Rightarrow> files \<Rightarrow> (int \<times> files) res" where
  "compress_file z env input_file output_file fs =
     (case fs input_file of
        None \<Rightarrow> Inr (-1, fs)
      | Some source_file_buffer \<Rightarrow>
          if \<not> input_ok env then Inl (ProcessExit 1)
          else
            let compressed_length = max_len z (length source_file_buffer);
                compressed = snap z source_file_buffer;
                compressed_file_buffer = compressed @ drop (length compressed) (fresh z compressed_length)
            in if \<not> writable env output_file then Inr (-1, fs)
               else rbind (fprintf_s compressed_file_buffer) (\<lambda>written.
                    Inr (0, fs(output_file \<mapsto> written))))"

subsection \<open>Messages\<close>

text \<open>The shared memory of a client is an array of entries. A mutex that is held is waited for; here nobody
  else runs, so that waiting does not end.\<close>

definition lock_entry :: "shared_memory_entry \<Rightarrow> shared_memory_entry res" where
  "lock_entry en = (if mutex en then Inl SpinForever else Inr (en\<lparr>mutex := True\<rparr>))"

definition unlock_entry :: "shared_memory_entry \<Rightarrow> shared_memory_entry" where
  "unlock_entry en = en\<lparr>mutex := False\<rparr>"

definition entry_at :: "int \<Rightarrow> shared_memory_entry list \<Rightarrow> (nat \<Rightarrow> 'a res) \<Rightarrow> 'a res" where
  "entry_at i mem f = (if 0 \<le> i \<and> nat i < length mem then f (nat i) else Inl OutOfBounds)"

definition handle_message ::
  "compressor \<Rightarrow> file_env \<Rightarrow> client_message_info \<Rightarrow> shared_memory_entry list \<times> files \<Rightarrow>
   (shared_memory_entry list \<times> files) res" where
  "handle_message z env message_info = (\<lambda>(mem, fs).
     entry_at (shared_memory_entry_index message_info) mem (\<lambda>i.
     case request message_info of
       COMPRESS \<Rightarrow>
         rbind (compress_file z env (original_file_path (mem ! i)) (compressed_file_path (mem ! i)) fs) (\<lambda>(rc, fs1).
         rbind (lock_entry (mem ! i)) (\<lambda>en.
         Inr (mem[i := unlock_entry (en\<lparr>is_done := True\<rparr>)], fs1)))
     | Other_request c \<Rightarrow> Inr (mem, fs)))"

text \<open>\<open>worker_thread_handler\<close> on the results of its calls of \<open>mq_receive\<close>, while the flag that it reads
  stays set.\<close>

fun worker_thread_handler ::
  "compressor \<Rightarrow> (file_env \<times> client_message_info) option list \<Rightarrow> shared_memory_entry list \<times> files \<Rightarrow>
   (shared_memory_entry list \<times> files) res" where
  "worker_thread_handler z [] s = Inr s"
| "worker_thread_handler z (None # rs) s = worker_thread_handler z rs s"
| "worker_thread_handler z (Some (env, message_info) # rs) s =
     rbind (handle_message z env message_info s) (worker_thread_handler z rs)"

subsection \<open>What is written\<close>

lemma takeWhile_snoc_zero:
  assumes "0 \<notin> set xs"
  shows "takeWhile (\<lambda>b. b \<noteq> 0) (xs @ ys) = xs @ takeWhile (\<lambda>b. b \<noteq> (0 :: byte)) ys"
proof -
  have "\<And>x. x \<in> set xs \<Longrightarrow> x \<noteq> 0" using assms by auto
  then show ?thesis by (simp add: takeWhile_append2)
qed

text \<open>The file written holds the compressed data just when these contain no zero byte and the block of
  memory happens to hold a zero byte right after them.\<close>

lemma fprintf_s_exact:
  "fprintf_s (xs @ ys) = Inr xs \<longleftrightarrow> 0 \<notin> set xs \<and> ys \<noteq> [] \<and> hd ys = 0"
proof (cases "0 \<in> set xs")
  case True
  then have "length (takeWhile (\<lambda>b. b \<noteq> 0) (xs @ ys)) < length xs"
    by (induction xs) auto
  with True show ?thesis by (auto simp: fprintf_s_def)
next
  case False
  then have "takeWhile (\<lambda>b. b \<noteq> 0) (xs @ ys) = xs \<longleftrightarrow> takeWhile (\<lambda>b. b \<noteq> 0) ys = []"
    by (simp add: takeWhile_snoc_zero)
  with False show ?thesis by (cases ys) (auto simp: fprintf_s_def)
qed

lemma fprintf_s_truncates:
  assumes "0 \<in> set xs"
  shows "\<exists>written. fprintf_s (xs @ ys) = Inr written \<and> length written < length xs \<and> written = take (length written) xs"
proof -
  let ?w = "takeWhile (\<lambda>b. b \<noteq> 0) xs"
  have w: "takeWhile (\<lambda>b. b \<noteq> 0) (xs @ ys) = ?w" using assms by (intro takeWhile_append1) auto
  moreover have "length ?w < length xs" using assms by (induction xs) auto
  moreover have "?w = take (length ?w) xs" by (metis takeWhile_eq_take)
  ultimately show ?thesis using assms by (intro exI [of _ ?w]) (simp add: fprintf_s_def)
qed

text \<open>What is left of the block after the compressed data.\<close>

definition leftover :: "compressor \<Rightarrow> byte list \<Rightarrow> byte list" where
  "leftover z data = drop (length (snap z data)) (fresh z (max_len z (length data)))"

lemma compress_file_exact:
  assumes "fs input = Some data" and "input_ok env" and "writable env output"
  shows "compress_file z env input output fs = Inr (0, fs(output \<mapsto> snap z data)) \<longleftrightarrow>
    0 \<notin> set (snap z data) \<and> leftover z data \<noteq> [] \<and> hd (leftover z data) = 0"
proof -
  let ?r = "fprintf_s (snap z data @ leftover z data)"
  have "compress_file z env input output fs = rbind ?r (\<lambda>written. Inr (0, fs(output \<mapsto> written)))"
    using assms by (simp add: compress_file_def Let_def leftover_def)
  moreover have "rbind ?r (\<lambda>written. Inr (0 :: int, fs(output \<mapsto> written))) = Inr (0, fs(output \<mapsto> snap z data))
      \<longleftrightarrow> ?r = Inr (snap z data)"
    by (cases ?r) (auto dest: map_upd_eqD1)
  ultimately show ?thesis by (simp add: fprintf_s_exact)
qed

text \<open>When the compression of a file stops the server, with the failure status or by leaving the block: the
  input is there, and it cannot be read, or the output can be opened and the block has no zero byte.\<close>

definition fatal_input :: "compressor \<Rightarrow> file_env \<Rightarrow> string \<Rightarrow> string \<Rightarrow> files \<Rightarrow> bool" where
  "fatal_input z env input output fs \<longleftrightarrow>
     (\<exists>data. fs input = Some data \<and> (\<not> input_ok env \<or> writable env output \<and> 0 \<notin> set (snap z data @ leftover z data)))"

lemma compress_file_fatal:
  "(\<exists>f. compress_file z env input output fs = Inl f) \<longleftrightarrow> fatal_input z env input output fs"
  by (auto simp: compress_file_def fatal_input_def leftover_def fprintf_s_def Let_def split: option.splits)

subsection \<open>What a message does\<close>

text \<open>A compression request, whatever becomes of the file, ends with the entry marked as done and unlocked,
  unless the process exits or leaves the block of the compressed data.\<close>

lemma handle_message_marks:
  assumes "0 \<le> shared_memory_entry_index msg" and "nat (shared_memory_entry_index msg) = i" and "i < length mem"
    and "\<not> mutex (mem ! i)" and "request msg = COMPRESS"
    and "compress_file z env (original_file_path (mem ! i)) (compressed_file_path (mem ! i)) fs = Inr (rc, fs')"
  shows "handle_message z env msg (mem, fs) = Inr (mem[i := (mem ! i)\<lparr>is_done := True\<rparr>], fs')"
proof -
  have "unlock_entry ((mem ! i)\<lparr>mutex := True, is_done := True\<rparr>) = (mem ! i)\<lparr>is_done := True\<rparr>"
    using assms(4) by (cases "mem ! i") (simp add: unlock_entry_def)
  then show ?thesis using assms by (simp add: handle_message_def entry_at_def lock_entry_def)
qed

lemma handle_message_fatal:
  assumes "0 \<le> shared_memory_entry_index msg" and "nat (shared_memory_entry_index msg) = i" and "i < length mem"
    and "\<not> mutex (mem ! i)" and "request msg = COMPRESS"
  shows "(\<exists>f. handle_message z env msg (mem, fs) = Inl f) \<longleftrightarrow>
    fatal_input z env (original_file_path (mem ! i)) (compressed_file_path (mem ! i)) fs"
proof (cases "compress_file z env (original_file_path (mem ! i)) (compressed_file_path (mem ! i)) fs")
  case (Inl f)
  then show ?thesis
    using assms compress_file_fatal [of z env "original_file_path (mem ! i)"] by (auto simp: handle_message_def entry_at_def)
next
  case (Inr r)
  then show ?thesis
    using handle_message_marks [OF assms, of z env fs "fst r" "snd r"]
      compress_file_fatal [of z env "original_file_path (mem ! i)" "compressed_file_path (mem ! i)" fs] by simp
qed

end
