(* ===== verification/C_String.thy ===== *)
theory C_String
  imports GT_Prelude
begin

text \<open>
  Decimal numbers as text: what \<open>sprintf("%d")\<close> and \<open>std::to_string\<close> print, and what \<open>atoi\<close> and
  \<open>std::stoi\<close> read. Reading is shown to invert printing, also when other text follows that does not
  start with a digit. A buffer read as a string ends at its first zero byte. Lines and fields, as \<open>std::getline\<close> cuts them, are here too.
\<close>

subsection \<open>Buffers as strings\<close>

definition NUL :: char where "NUL = CHR 0x00"

definition c_str :: "string \<Rightarrow> string" where
  "c_str buf = takeWhile (\<lambda>c. c \<noteq> NUL) buf"

lemma c_str_no_NUL [simp]: "NUL \<notin> set s \<Longrightarrow> c_str s = s"
  by (auto simp: c_str_def takeWhile_eq_all_conv)

subsection \<open>Printing\<close>

definition digit_char :: "nat \<Rightarrow> char" where
  "digit_char d = char_of (48 + d)"

fun show_nat :: "nat \<Rightarrow> string" where
  "show_nat n = (if n < 10 then [digit_char n] else show_nat (n div 10) @ [digit_char (n mod 10)])"

declare show_nat.simps [simp del]

definition show_int :: "int \<Rightarrow> string" where
  "show_int i = (if i < 0 then CHR ''-'' # show_nat (nat (- i)) else show_nat (nat i))"

subsection \<open>Reading\<close>

definition is_digit :: "char \<Rightarrow> bool" where
  "is_digit c \<longleftrightarrow> 48 \<le> (of_char c :: nat) \<and> (of_char c :: nat) \<le> 57"

definition digit_val :: "char \<Rightarrow> nat" where
  "digit_val c = of_char c - 48"

definition is_space :: "char \<Rightarrow> bool" where
  "is_space c \<longleftrightarrow> c = CHR '' '' \<or> (9 \<le> (of_char c :: nat) \<and> (of_char c :: nat) \<le> 13)"

fun read_nat :: "nat \<Rightarrow> string \<Rightarrow> nat" where
  "read_nat acc [] = acc"
| "read_nat acc (c # s) = (if is_digit c then read_nat (10 * acc + digit_val c) s else acc)"

text \<open>\<open>std::stoi\<close>: white space, an optional sign and digits are read, what follows is ignored. No digits, or
  a value that does not fit, is an exception.\<close>

definition stoi :: "string \<Rightarrow> int res" where
  "stoi s =
     (let s1 = dropWhile is_space s;
          (neg, s2) = (case s1 of
                         [] \<Rightarrow> (False, [])
                       | c # r \<Rightarrow> if c = CHR ''-'' then (True, r) else if c = CHR ''+'' then (False, r) else (False, s1));
          v = (if neg then - int (read_nat 0 s2) else int (read_nat 0 s2))
      in if s2 = [] \<or> \<not> is_digit (hd s2) then Inl Uncaught
         else if - (2 ^ 31) \<le> v \<and> v < 2 ^ 31 then Inr v else Inl Uncaught)"

text \<open>\<open>atoi\<close>: no digits give 0, and a value that does not fit is undefined.\<close>

definition atoi :: "string \<Rightarrow> int res" where
  "atoi s =
     (let s1 = dropWhile is_space s;
          s2 = (case s1 of [] \<Rightarrow> [] | c # r \<Rightarrow> if c = CHR ''-'' \<or> c = CHR ''+'' then r else s1)
      in if s2 = [] \<or> \<not> is_digit (hd s2) then Inr 0
         else case stoi s of Inl e \<Rightarrow> Inl Undefined | Inr v \<Rightarrow> Inr v)"

text \<open>\<open>std::getline(s, token, sep)\<close> in a loop: the pieces between separators. A separator at the very end
  does not start another piece.\<close>

function getlines :: "char \<Rightarrow> string \<Rightarrow> string list" where
  "getlines sep s =
     (if s = [] then []
      else takeWhile (\<lambda>c. c \<noteq> sep) s # getlines sep (tl (dropWhile (\<lambda>c. c \<noteq> sep) s)))"
  by pat_completeness auto
termination
proof (relation "measure (\<lambda>(sep, s). length s)", goal_cases)
  case (2 sep s)
  have "length (dropWhile (\<lambda>c. c \<noteq> sep) s) \<le> length s" by (rule length_dropWhile_le)
  moreover from 2 have "0 < length s" by simp
  ultimately have "length (dropWhile (\<lambda>c. c \<noteq> sep) s) - 1 < length s" by linarith
  then show ?case by simp
qed simp

declare getlines.simps [simp del]

subsection \<open>Round trips\<close>

lemma of_char_digit [simp]: "d < 10 \<Longrightarrow> of_char (digit_char d) = 48 + d"
  by (simp add: digit_char_def)

lemma is_digit_digit [simp]: "d < 10 \<Longrightarrow> is_digit (digit_char d)"
  by (simp add: is_digit_def)

lemma digit_val_digit [simp]: "d < 10 \<Longrightarrow> digit_val (digit_char d) = d"
  by (simp add: digit_val_def)

lemma show_nat_digits: "c \<in> set (show_nat n) \<Longrightarrow> is_digit c"
  by (induction n rule: show_nat.induct) (subst (asm) (2) show_nat.simps, auto split: if_splits)

lemma show_nat_nonempty [simp]: "show_nat n \<noteq> []"
  by (simp add: show_nat.simps [of n])

lemma read_nat_append:
  "(\<And>c. c \<in> set ds \<Longrightarrow> is_digit c) \<Longrightarrow> read_nat acc (ds @ s) = read_nat (read_nat acc ds) s"
  by (induction ds arbitrary: acc) auto

lemma read_show_nat: "read_nat 0 (show_nat n) = n"
proof (induction n rule: show_nat.induct)
  case (1 n)
  show ?case
  proof (cases "n < 10")
    case True
    then show ?thesis by (simp add: show_nat.simps [of n])
  next
    case False
    then have "read_nat 0 (show_nat n) = read_nat (n div 10) [digit_char (n mod 10)]"
      using 1 show_nat_digits by (simp add: show_nat.simps [of n] read_nat_append)
    then show ?thesis by simp
  qed
qed

lemma show_nat_inj: "show_nat a = show_nat b \<Longrightarrow> a = b"
  by (metis read_show_nat)

lemma show_nat_length: "n < 10 ^ k \<Longrightarrow> 0 < k \<Longrightarrow> length (show_nat n) \<le> k"
proof (induction k arbitrary: n)
  case (Suc k)
  show ?case
  proof (cases "n < 10")
    case True
    then show ?thesis by (simp add: show_nat.simps [of n])
  next
    case False
    then have "0 < k" using Suc.prems by (cases k) auto
    moreover have "n div 10 < 10 ^ k" using Suc.prems by (simp add: less_mult_imp_div_less)
    ultimately show ?thesis using Suc.IH False by (simp add: show_nat.simps [of n])
  qed
qed simp

lemma read_nat_stop: "s = [] \<or> \<not> is_digit (hd s) \<Longrightarrow> read_nat acc s = acc"
  by (cases s) auto

lemma read_show_nat_rest: "s = [] \<or> \<not> is_digit (hd s) \<Longrightarrow> read_nat 0 (show_nat n @ s) = n"
  using show_nat_digits by (simp add: read_nat_append read_show_nat read_nat_stop)

lemma hd_show_nat: "is_digit (hd (show_nat n))"
  by (rule show_nat_digits [of _ n]) simp

lemma digit_not_special: "is_digit c \<Longrightarrow> \<not> is_space c \<and> c \<noteq> CHR ''-'' \<and> c \<noteq> CHR ''+'' \<and> c \<noteq> CHR ''|'' \<and> c \<noteq> CHR ''\<newline>''"
  by (auto simp: is_digit_def is_space_def)

lemma stoi_show_int:
  assumes range: "- (2 ^ 31) \<le> i" "i < 2 ^ 31" and rest: "s = [] \<or> \<not> is_digit (hd s)"
  shows "stoi (show_int i @ s) = Inr i"
proof (cases "i < 0")
  case True
  obtain c r where c: "show_nat (nat (- i)) = c # r" by (cases "show_nat (nat (- i))") auto
  have "is_digit c" using hd_show_nat [of "nat (- i)"] c by simp
  moreover have "read_nat 0 (c # r @ s) = nat (- i)" using read_show_nat_rest [OF rest, of "nat (- i)"] c by simp
  moreover have "\<not> is_space CHR ''-''" by (simp add: is_space_def)
  ultimately show ?thesis using True range
    by (simp add: stoi_def show_int_def c Let_def del: read_nat.simps)
next
  case False
  obtain c r where c: "show_nat (nat i) = c # r" by (cases "show_nat (nat i)") auto
  have d: "is_digit c" using hd_show_nat [of "nat i"] c by simp
  have "read_nat 0 (c # r @ s) = nat i" using read_show_nat_rest [OF rest, of "nat i"] c by simp
  then show ?thesis using False range d digit_not_special [OF d]
    by (simp add: stoi_def show_int_def c Let_def del: read_nat.simps)
qed

lemma atoi_show_nat:
  assumes "n < 2 ^ 31" and "s = [] \<or> \<not> is_digit (hd s)"
  shows "atoi (show_nat n @ s) = Inr (int n)"
proof -
  obtain c r where c: "show_nat n @ s = c # r" "is_digit c"
    using hd_show_nat [of n] by (cases "show_nat n") auto
  have "stoi (show_nat n @ s) = Inr (int n)"
    using stoi_show_int [of "int n" s] assms by (simp add: show_int_def)
  then show ?thesis using c digit_not_special [OF c(2)] by (simp add: atoi_def)
qed

lemma show_int_chars: "c \<in> set (show_int i) \<Longrightarrow> c \<noteq> CHR ''|'' \<and> c \<noteq> CHR ''\<newline>''"
  using show_nat_digits digit_not_special by (auto simp: show_int_def split: if_splits)

lemma show_int_nonempty [simp]: "show_int i \<noteq> []"
  by (simp add: show_int_def)

lemma getlines_field:
  assumes "sep \<notin> set x"
  shows "getlines sep (x @ sep # s) = x # getlines sep s" and "x \<noteq> [] \<Longrightarrow> getlines sep x = [x]"
proof -
  have x: "\<And>c. c \<in> set x \<Longrightarrow> c \<noteq> sep" using assms by auto
  then show "getlines sep (x @ sep # s) = x # getlines sep s"
    by (subst getlines.simps) (simp add: takeWhile_append2 dropWhile_append2)
  show "getlines sep x = [x]" if "x \<noteq> []"
  proof -
    have "takeWhile (\<lambda>c. c \<noteq> sep) x = x" using x by simp
    moreover have "dropWhile (\<lambda>c. c \<noteq> sep) x = []" using x by (simp add: dropWhile_eq_Nil_conv)
    then have "getlines sep (tl (dropWhile (\<lambda>c. c \<noteq> sep) x)) = []"
      by (simp only: list.sel) (simp add: getlines.simps)
    ultimately show ?thesis using that by (subst getlines.simps) simp
  qed
qed

lemma getlines_empty [simp]: "getlines sep [] = []"
  by (simp add: getlines.simps)

text \<open>A text written line by line is read line by line.\<close>

lemma getlines_concat:
  assumes "\<And>x. x \<in> set xs \<Longrightarrow> sep \<notin> set x"
  shows "getlines sep (concat (map (\<lambda>x. x @ [sep]) xs) @ s) = xs @ getlines sep s"
  using assms by (induction xs) (auto simp: getlines_field)

end
