(* ===== verification/TF_Client.thy ===== *)
theory TF_Client
  imports TF_Worker C_String
begin

text \<open>
  The client of TinyFile (client.c): the set-up of its queues and its shared memory, the reservation of
  an entry for a file, and the two ways of asking for a compression.

  Entries are reserved under a mutex of the process. A mutex that is held is waited for, which does not
  end when nobody else runs. The results of system calls are parameters.
\<close>

subsection \<open>Set-up\<close>

definition CLIENT_MESSAGE_SEND_QUEUE_PREFIX :: string where
  "CLIENT_MESSAGE_SEND_QUEUE_PREFIX = ''/client_message_send_queue_''"
definition CLIENT_MESSAGE_RECV_QUEUE_PREFIX :: string where
  "CLIENT_MESSAGE_RECV_QUEUE_PREFIX = ''/client_message_recv_queue_''"
definition CLIENT_SHARED_MEMORY_NAME_PREFIX :: string where
  "CLIENT_SHARED_MEMORY_NAME_PREFIX = ''/client_shared_memory_''"

record client_env =
  c_getpid :: int
  c_mq_open :: "string \<Rightarrow> nat option"
  c_shm_open :: "string \<Rightarrow> bool"
  c_ftruncate :: "nat \<Rightarrow> bool"
  c_mmap :: "nat \<Rightarrow> nat option"
  c_mq_send :: bool
  c_stack_entry :: shared_memory_entry

text \<open>The process state: the client, its shared memory and the mutex for reservations.\<close>

record client_state =
  cl :: client_t
  mem :: "shared_memory_entry list"
  global_mutex_c :: bool
  register_entry_c :: client_register_message_entry
  sent_registrations :: "client_register_message_entry list"

definition open_message_queues :: "client_env \<Rightarrow> client_state \<Rightarrow> client_state res" where
  "open_message_queues env s =
     rbind (strcpy 100 (CLIENT_MESSAGE_SEND_QUEUE_PREFIX @ show_int (c_getpid env))) (\<lambda>sname.
     rbind (strcpy 100 (CLIENT_MESSAGE_RECV_QUEUE_PREFIX @ show_int (c_getpid env))) (\<lambda>rname.
     let c = (cl s)\<lparr>pid := c_getpid env, send_queue_name := sname, recv_queue_name := rname\<rparr>
     in case c_mq_open env sname of
          None \<Rightarrow> Inl (ProcessExit 1)
        | Some sq \<Rightarrow>
            (case c_mq_open env rname of
               None \<Rightarrow> Inl (ProcessExit 1)
             | Some rq \<Rightarrow> Inr (s\<lparr>cl := c\<lparr>send_q := sq, recv_q := rq\<rparr>\<rparr>))))"

text \<open>\<open>*max_per_shared_memory_size_ptr / sizeof(shared_memory_entry_t)\<close>: the \<open>int\<close> becomes an unsigned number of
  64 bits.\<close>

definition num_entries :: "int \<Rightarrow> nat" where
  "num_entries max_size = nat (max_size mod 2 ^ 64) div sizeof_entry"

text \<open>The loop that waits for the server to publish the size; \<open>sizes k\<close> is what the \<open>k\<close>-th look finds.\<close>

partial_function (option) wait_size :: "(nat \<Rightarrow> int) \<Rightarrow> nat \<Rightarrow> int option" where
  "wait_size sizes k = (if sizes k = -1 then wait_size sizes (Suc k) else Some (sizes k))"

definition client_open_shared_memory :: "client_env \<Rightarrow> (nat \<Rightarrow> int) \<Rightarrow> client_state \<Rightarrow> client_state res" where
  "client_open_shared_memory env sizes s =
     rbind (strcpy 100 (CLIENT_SHARED_MEMORY_NAME_PREFIX @ show_int (c_getpid env))) (\<lambda>name.
     case wait_size sizes 0 of
       None \<Rightarrow> Inl SpinForever
     | Some max_size \<Rightarrow>
         if \<not> c_shm_open env name then Inl (ProcessExit 1)
         else
           let n = num_entries max_size; bytes = sizeof_entry * n
           in if \<not> c_ftruncate env bytes then Inl (ProcessExit 1)
              else case c_mmap env bytes of
                     None \<Rightarrow> Inl (ProcessExit 1)
                   | Some a \<Rightarrow>
                       let en = (c_stack_entry env)\<lparr>is_done := False, is_used := False\<rparr>
                       in rbind (for_res (\<lambda>i m. Inr (m @ [en\<lparr>mutex := False\<rparr>])) 0 n []) (\<lambda>m.
                          Inr (s\<lparr>cl := (cl s)\<lparr>shm_name := name, shared_memory_size := bytes, shared_memory_address := a\<rparr>,
                                 mem := m\<rparr>)))"

definition copy_client_info_to_register_entry :: "client_state \<Rightarrow> client_state" where
  "copy_client_info_to_register_entry s =
     s\<lparr>register_entry_c := \<lparr>client_pid = pid (cl s), command = REGISTER, msg_send_queue_name = send_queue_name (cl s),
         msg_recv_queue_name = recv_queue_name (cl s), msg_shm_name = shm_name (cl s)\<rparr>\<rparr>"

definition initialize_client :: "client_env \<Rightarrow> bool \<Rightarrow> (nat \<Rightarrow> int) \<Rightarrow> client_state \<Rightarrow> client_state res" where
  "initialize_client env register_queue_exists sizes s =
     (if \<not> register_queue_exists then Inl (ProcessExit 1)
      else rbind (open_message_queues env s) (\<lambda>s1.
           rbind (client_open_shared_memory env sizes s1) (\<lambda>s2.
           let s3 = copy_client_info_to_register_entry s2
           in if \<not> c_mq_send env then Inl (ProcessExit 1)
              else Inr (s3\<lparr>sent_registrations := sent_registrations s3 @ [register_entry_c s3],
                           global_mutex_c := False\<rparr>))))"

subsection \<open>Reservation of an entry\<close>

text \<open>What happens to a free entry: \<open>Inl\<close> of the inner sum is the early return, which keeps the entry
  locked. \<open>dir_ok\<close> says for which folders \<open>stat\<close> or \<open>mkdir\<close> succeeds.\<close>

definition claim_entry ::
  "(string \<Rightarrow> bool) \<Rightarrow> string \<Rightarrow> shared_memory_entry \<Rightarrow> (shared_memory_entry + shared_memory_entry) res" where
  "claim_entry dir_ok file_path en =
     rbind (strcpy 100 file_path) (\<lambda>orig.
     let en1 = en\<lparr>is_used := True, is_done := False, original_file_path := orig\<rparr>
     in case strstr file_path ''/input/'' of
          None \<Rightarrow> Inr (Inl en1)
        | Some base_len \<Rightarrow>
            rbind (strcpy 256 (take base_len file_path)) (\<lambda>base_path.
            let file_name = drop (base_len + 7) file_path
            in rbind (strcat 256 base_path ''/output/'') (\<lambda>output_folder.
               if \<not> dir_ok output_folder then Inr (Inl en1)
               else rbind (strcpy 100 output_folder) (\<lambda>p1.
                    rbind (strcat 100 p1 file_name) (\<lambda>p2.
                    rbind (strcat 100 p2 ''_compressed'') (\<lambda>p3.
                    Inr (Inr (unlock_entry (en1\<lparr>compressed_file_path := p3\<rparr>)))))))))"

function find_and_set_loop ::
  "(string \<Rightarrow> bool) \<Rightarrow> string \<Rightarrow> nat \<Rightarrow> nat \<Rightarrow> shared_memory_entry list \<Rightarrow> (int \<times> shared_memory_entry list) res" where
  "find_and_set_loop dir_ok file_path i n entries =
     (if i < n then
        in_bounds i (length entries) (
        rbind (lock_entry (entries ! i)) (\<lambda>en.
        if \<not> is_used en then
          rbind (claim_entry dir_ok file_path en) (\<lambda>r.
          case r of
            Inl en1 \<Rightarrow> Inr (-1, entries[i := en1])
          | Inr en1 \<Rightarrow> Inr (int i, entries[i := en1]))
        else find_and_set_loop dir_ok file_path (Suc i) n (entries[i := unlock_entry en])))
      else Inr (-1, entries))"
  by pat_completeness auto
termination
  by (relation "measure (\<lambda>(_, _, i, n, _). n - i)") auto

declare find_and_set_loop.simps [simp del]

definition find_and_set_shared_memory_entry_index ::
  "(string \<Rightarrow> bool) \<Rightarrow> int \<Rightarrow> string \<Rightarrow> shared_memory_entry list \<Rightarrow> (int \<times> shared_memory_entry list) res" where
  "find_and_set_shared_memory_entry_index dir_ok max_size file_path entries =
     find_and_set_loop dir_ok file_path 0 (num_entries max_size) entries"

subsection \<open>Requests\<close>

text \<open>One look of \<open>wait_response_from_server\<close>: \<open>None\<close> means that the entry is not done yet.\<close>

definition wait_poll :: "nat \<Rightarrow> shared_memory_entry list \<Rightarrow> shared_memory_entry list option res" where
  "wait_poll i entries =
     in_bounds i (length entries) (
     rbind (lock_entry (entries ! i)) (\<lambda>en.
     if is_done en then Inr (Some (entries[i := unlock_entry (en\<lparr>is_used := False, is_done := False\<rparr>)]))
     else Inr None))"

text \<open>The reservation under the mutex of the process.\<close>

definition reserve ::
  "(string \<Rightarrow> bool) \<Rightarrow> int \<Rightarrow> string \<Rightarrow> client_state \<Rightarrow> (int \<times> client_state) res" where
  "reserve dir_ok max_size file_path s =
     (if global_mutex_c s then Inl SpinForever
      else rbind (find_and_set_shared_memory_entry_index dir_ok max_size file_path (mem s)) (\<lambda>(i, m).
           Inr (i, s\<lparr>mem := m\<rparr>)))"

text \<open>The request of \<open>communicate_file_sync\<close>, before the waiting: the message for the server.\<close>

definition communicate_file_sync ::
  "(string \<Rightarrow> bool) \<Rightarrow> int \<Rightarrow> bool \<Rightarrow> string \<Rightarrow> client_state \<Rightarrow> (client_message_info \<times> client_state) res" where
  "communicate_file_sync dir_ok max_size send_ok file_path s =
     rbind (reserve dir_ok max_size file_path s) (\<lambda>(i, s1).
     if i = -1 then Inl (ProcessExit 1)
     else if \<not> send_ok then Inl (ProcessExit 1)
     else Inr (\<lparr>shared_memory_entry_index = i, request = COMPRESS\<rparr>, s1))"

text \<open>\<open>communicate_file_async\<close> tries again until an entry is free; \<open>others k\<close> is what the other threads and
  the server do to the memory after the \<open>k\<close>-th attempt.\<close>

partial_function (option) reserve_again ::
  "(string \<Rightarrow> bool) \<Rightarrow> int \<Rightarrow> (nat \<Rightarrow> shared_memory_entry list \<Rightarrow> shared_memory_entry list) \<Rightarrow> string \<Rightarrow> nat \<Rightarrow>
    client_state \<Rightarrow> (int \<times> client_state) res option" where
  "reserve_again dir_ok max_size others file_path k s =
     (case reserve dir_ok max_size file_path s of
        Inl e \<Rightarrow> Some (Inl e)
      | Inr (i, s1) \<Rightarrow>
          if i = -1 then reserve_again dir_ok max_size others file_path (Suc k) (s1\<lparr>mem := others k (mem s1)\<rparr>)
          else Some (Inr (i, s1)))"

definition communicate_file_async ::
  "(string \<Rightarrow> bool) \<Rightarrow> int \<Rightarrow> (nat \<Rightarrow> shared_memory_entry list \<Rightarrow> shared_memory_entry list) \<Rightarrow> bool \<Rightarrow> string \<Rightarrow>
    client_state \<Rightarrow> (int \<times> client_message_info \<times> client_state) res" where
  "communicate_file_async dir_ok max_size others send_ok file_path s =
     (case reserve_again dir_ok max_size others file_path 0 s of
        None \<Rightarrow> Inl SpinForever
      | Some res \<Rightarrow>
          rbind res (\<lambda>(i, s1).
          if \<not> send_ok then Inl (ProcessExit 1)
          else Inr (i, \<lparr>shared_memory_entry_index = i, request = COMPRESS\<rparr>, s1)))"

subsection \<open>File lists and the end of the client\<close>

text \<open>The loop \<open>while(fgets(line, 100, file_list) != NULL)\<close> with its removal of the line end: a piece has at most
  99 characters.\<close>

function fgets_lines :: "string \<Rightarrow> string list" where
  "fgets_lines text =
     (if text = [] then []
      else let upto = takeWhile (\<lambda>c. c \<noteq> CHR ''\<newline>'') text
           in if length upto < 99 then upto # fgets_lines (drop (length upto + 1) text)
              else take 99 text # fgets_lines (drop 99 text))"
  by pat_completeness auto
termination
  by (relation "measure length") auto

declare fgets_lines.simps [simp del]

text \<open>The asynchronous mode of \<open>main\<close> first collects the paths in an array of 100 pointers.\<close>

definition collect_files :: "string \<Rightarrow> string list res" where
  "collect_files text =
     for_res (\<lambda>k list. in_bounds k 100 (Inr (list @ [fgets_lines text ! k]))) 0 (length (fgets_lines text)) []"

text \<open>\<open>exit_client\<close>: the message of unregistration and the loop that waits for the answer; \<open>answers k\<close> says
  whether the \<open>k\<close>-th call of \<open>mq_receive\<close> returns a message with the status \<open>UNREGISTERED\<close>.\<close>

partial_function (option) wait_unregistered :: "(nat \<Rightarrow> bool) \<Rightarrow> nat \<Rightarrow> nat option" where
  "wait_unregistered answers k = (if answers k then Some k else wait_unregistered answers (Suc k))"

definition exit_client :: "bool \<Rightarrow> (nat \<Rightarrow> bool) \<Rightarrow> client_state \<Rightarrow> client_state res" where
  "exit_client send_ok answers s =
     (if \<not> send_ok then Inl (ProcessExit 1)
      else let s1 = s\<lparr>register_entry_c := (register_entry_c s)\<lparr>command := UNREGISTER\<rparr>\<rparr>;
               s2 = s1\<lparr>sent_registrations := sent_registrations s1 @ [register_entry_c s1]\<rparr>
           in case wait_unregistered answers 0 of
                None \<Rightarrow> Inl SpinForever
              | Some _ \<Rightarrow> Inr (s2\<lparr>mem := []\<rparr>))"

subsection \<open>Set-up is consistent with the server\<close>

lemma show_pid_length: "- (2 ^ 31) \<le> i \<Longrightarrow> i < 2 ^ 31 \<Longrightarrow> length (show_int i) \<le> 11"
proof -
  assume "- (2 ^ 31) \<le> i" "i < 2 ^ 31"
  then have "nat (- i) < 10 ^ 10" "nat i < 10 ^ 10" by simp_all
  then have "length (show_nat (nat (- i))) \<le> 10" "length (show_nat (nat i)) \<le> 10"
    by (intro show_nat_length; simp)+
  then show ?thesis by (simp add: show_int_def)
qed

lemma init_memory:
  "for_res (\<lambda>i m. Inr (m @ [en])) 0 n [] = Inr (replicate n en)"
proof -
  have "\<exists>m. for_res (\<lambda>i m. Inr (m @ [en])) 0 n [] = Inr m \<and> m = replicate n en"
    by (rule for_res_inv [where I = "\<lambda>i m. m = replicate i en"]) (auto simp flip: replicate_append_same)
  then show ?thesis by simp
qed

text \<open>The loops that wait end with the first look that finds what they wait for.\<close>

lemma wait_size_ends:
  assumes "\<forall>j<n. sizes j = -1" and "sizes n \<noteq> -1" and "k \<le> n"
  shows "wait_size sizes k = Some (sizes n)"
  using assms(3)
proof (induction "n - k" arbitrary: k)
  case 0
  then show ?case using assms(2) by (subst wait_size.simps) simp
next
  case (Suc d)
  then have "k < n" by simp
  moreover have "wait_size sizes (Suc k) = Some (sizes n)" using Suc by simp
  ultimately show ?case using assms(1) by (subst wait_size.simps) simp
qed

lemma wait_unregistered_ends: "answers n \<Longrightarrow> k \<le> n \<Longrightarrow> wait_unregistered answers k \<noteq> None"
proof (induction "n - k" arbitrary: k)
  case (Suc d)
  then show ?case by (cases "answers k"; subst wait_unregistered.simps) simp_all
qed (subst wait_unregistered.simps, simp)

text \<open>A client that starts has the queues and the shared memory named after its process, announces
  exactly these to the server, and has as many entries as fit the size that the server published, all free
  and unlocked. The names fit their buffers.\<close>

definition registration_of :: "int \<Rightarrow> client_register_message_entry" where
  "registration_of p = \<lparr>client_pid = p, command = REGISTER, msg_send_queue_name = CLIENT_MESSAGE_SEND_QUEUE_PREFIX @ show_int p,
     msg_recv_queue_name = CLIENT_MESSAGE_RECV_QUEUE_PREFIX @ show_int p,
     msg_shm_name = CLIENT_SHARED_MEMORY_NAME_PREFIX @ show_int p\<rparr>"

definition client_env_ok :: "client_env \<Rightarrow> bool" where
  "client_env_ok env \<longleftrightarrow> - (2 ^ 31) \<le> c_getpid env \<and> c_getpid env < 2 ^ 31 \<and> (\<forall>name. c_mq_open env name \<noteq> None) \<and>
     (\<forall>name. c_shm_open env name) \<and> (\<forall>k. c_ftruncate env k \<and> c_mmap env k \<noteq> None) \<and> c_mq_send env"

lemma initialize_client_ok:
  assumes "client_env_ok env" and "wait_size sizes 0 = Some max_size"
  shows "\<exists>s'. initialize_client env True sizes s = Inr s' \<and> register_entry_c s' = registration_of (c_getpid env) \<and>
    sent_registrations s' = sent_registrations s @ [registration_of (c_getpid env)] \<and> \<not> global_mutex_c s' \<and>
    length (mem s') = num_entries max_size \<and> list_all (\<lambda>en. \<not> mutex en \<and> \<not> is_used en \<and> \<not> is_done en) (mem s')"
proof -
  have l: "length (show_int (c_getpid env)) \<le> 11" using assms(1) by (intro show_pid_length) (simp_all add: client_env_ok_def)
  obtain fd mm where e: "\<And>name. c_mq_open env name = Some (fd name)" "\<And>k. c_mmap env k = Some (mm k)"
    using assms(1) by (simp add: client_env_ok_def) metis
  show ?thesis using assms l
    by (simp add: client_env_ok_def e initialize_client_def open_message_queues_def client_open_shared_memory_def strcpy_def
        CLIENT_MESSAGE_SEND_QUEUE_PREFIX_def CLIENT_MESSAGE_RECV_QUEUE_PREFIX_def CLIENT_SHARED_MEMORY_NAME_PREFIX_def
        Let_def init_memory copy_client_info_to_register_entry_def list_all_length registration_of_def)
qed

subsection \<open>The reservation\<close>

text \<open>The path of the compressed file.\<close>

definition output_path :: "nat \<Rightarrow> string \<Rightarrow> string" where
  "output_path base_len file_path = take base_len file_path @ ''/output/'' @ drop (base_len + 7) file_path @ ''_compressed''"

lemma output_path_length:
  assumes "strstr file_path ''/input/'' = Some b"
  shows "length (output_path b file_path) = length file_path + 12"
proof -
  obtain rest where r: "file_path = take b file_path @ ''/input/'' @ rest" "b \<le> length file_path"
    using strstr_found [OF assms] by blast
  have "length file_path = length (take b file_path) + 7 + length rest" by (subst r(1)) simp
  then have "length file_path = b + 7 + length rest" using r(2) by simp
  then show ?thesis by (simp add: output_path_def)
qed

definition claimed :: "nat \<Rightarrow> string \<Rightarrow> shared_memory_entry \<Rightarrow> shared_memory_entry" where
  "claimed b file_path en = en\<lparr>is_used := True, is_done := False, original_file_path := file_path,
     compressed_file_path := output_path b file_path, mutex := False\<rparr>"

lemma claim_entry_ok:
  assumes "strstr file_path ''/input/'' = Some b" and "length file_path + 12 < 100"
    and "dir_ok (take b file_path @ ''/output/'')"
  shows "claim_entry dir_ok file_path en = Inr (Inr (claimed b file_path en))"
proof -
  have l: "length (output_path b file_path) = length file_path + 12" by (rule output_path_length [OF assms(1)])
  then have "length (take b file_path @ ''/output/'') < 100"
      "length ((take b file_path @ ''/output/'') @ drop (b + 7) file_path) < 100"
    using assms(2) by (simp_all add: output_path_def)
  then show ?thesis using assms l
    by (simp add: claim_entry_def Let_def strcat_def unlock_entry_def claimed_def output_path_def)
qed

lemma claim_entry_no_input:
  assumes "strstr file_path ''/input/'' = None" and "length file_path < 100"
  shows "claim_entry dir_ok file_path en =
    Inr (Inl (en\<lparr>is_used := True, is_done := False, original_file_path := file_path\<rparr>))"
  using assms by (simp add: claim_entry_def Let_def)

text \<open>A path of 88 to 99 characters is accepted for the entry, but the path of its compressed file does not
  fit.\<close>

lemma claim_entry_overflow:
  assumes "strstr file_path ''/input/'' = Some b" and "88 \<le> length file_path" and "length file_path < 100"
    and "dir_ok (take b file_path @ ''/output/'')"
  shows "claim_entry dir_ok file_path en = Inl OutOfBounds"
proof -
  have l: "length (output_path b file_path) = length file_path + 12" by (rule output_path_length [OF assms(1)])
  have b: "length (take b file_path) < 256" using assms(3) by simp
  let ?p1 = "take b file_path @ ''/output/''"
  have "\<not> length ((?p1 @ drop (b + 7) file_path) @ ''_compressed'') < 100"
    using l assms(2) by (simp only: output_path_def append.assoc)
  then have last: "strcat 100 (?p1 @ drop (b + 7) file_path) ''_compressed'' = Inl OutOfBounds"
    by (simp only: strcat_def strcpy_def if_False)
  have "strcat 256 (take b file_path) ''/output/'' = Inr ?p1" using assms(3) by (simp add: strcat_def)
  moreover have "strcpy 100 ?p1 = Inr ?p1 \<or> strcpy 100 ?p1 = Inl OutOfBounds"
      "strcat 100 ?p1 (drop (b + 7) file_path) = Inr (?p1 @ drop (b + 7) file_path) \<or>
       strcat 100 ?p1 (drop (b + 7) file_path) = Inl OutOfBounds"
    by (simp_all only: strcat_def strcpy_def) auto
  ultimately show ?thesis using assms b last
    by (auto simp: claim_entry_def Let_def simp del: append_assoc)
qed

lemma lock_unlock [simp]: "\<not> mutex en \<Longrightarrow> unlock_entry (en\<lparr>mutex := True\<rparr>) = en"
  by (cases en) (simp add: unlock_entry_def)

lemma find_and_set_skip:
  assumes "\<And>k. i \<le> k \<Longrightarrow> k < j \<Longrightarrow> is_used (entries ! k) \<and> \<not> mutex (entries ! k)"
    and "i \<le> j" and "j \<le> n" and "n \<le> length entries"
  shows "find_and_set_loop dir_ok f i n entries = find_and_set_loop dir_ok f j n entries"
  using assms
proof (induction "j - i" arbitrary: i)
  case (Suc d)
  then have "i < j" by simp
  with Suc.prems have i: "is_used (entries ! i)" "\<not> mutex (entries ! i)" by auto
  have "find_and_set_loop dir_ok f i n entries = find_and_set_loop dir_ok f (Suc i) n entries"
    using i \<open>i < j\<close> Suc.prems(3,4) by (subst find_and_set_loop.simps) (simp add: lock_entry_def)
  also have "\<dots> = find_and_set_loop dir_ok f j n entries"
    using Suc.hyps(2) Suc.prems \<open>i < j\<close> by (intro Suc.hyps(1)) auto
  finally show ?case .
qed simp

lemma find_and_set_first_free:
  assumes "\<And>k. k < j \<Longrightarrow> is_used (entries ! k) \<and> \<not> mutex (entries ! k)" and "j < n" and "n \<le> length entries"
    and "\<not> is_used (entries ! j)" and "\<not> mutex (entries ! j)"
  shows "find_and_set_loop dir_ok f 0 n entries =
    rbind (claim_entry dir_ok f ((entries ! j)\<lparr>mutex := True\<rparr>)) (\<lambda>r.
      case r of Inl en \<Rightarrow> Inr (-1, entries[j := en]) | Inr en \<Rightarrow> Inr (int j, entries[j := en]))"
proof -
  have "find_and_set_loop dir_ok f 0 n entries = find_and_set_loop dir_ok f j n entries"
    using assms by (intro find_and_set_skip) auto
  then show ?thesis using assms
    by (simp add: find_and_set_loop.simps [of _ _ j] lock_entry_def)
qed

lemma claimed_mutex [simp]: "claimed b f (en\<lparr>mutex := x\<rparr>) = claimed b f en"
  by (cases en) (simp add: claimed_def)

lemma find_and_set_ok:
  assumes "\<And>k. k < j \<Longrightarrow> is_used (entries ! k)" and "list_all (\<lambda>en. \<not> mutex en) entries"
    and "j < length entries" and "\<not> is_used (entries ! j)"
    and "strstr f ''/input/'' = Some b" and "length f + 12 < 100" and "dir_ok (take b f @ ''/output/'')"
  shows "find_and_set_loop dir_ok f 0 (length entries) entries = Inr (int j, entries[j := claimed b f (entries ! j)])"
proof -
  have "\<not> mutex (entries ! k)" if "k < length entries" for k
    using assms(2) that by (simp add: list_all_length)
  with assms show ?thesis
    by (subst find_and_set_first_free [of j]) (simp_all add: claim_entry_ok [OF assms(5,6)])
qed

lemma find_and_set_full:
  assumes "list_all (\<lambda>en. is_used en \<and> \<not> mutex en) entries"
  shows "find_and_set_loop dir_ok f 0 (length entries) entries = Inr (-1, entries)"
proof -
  have "find_and_set_loop dir_ok f 0 (length entries) entries =
      find_and_set_loop dir_ok f (length entries) (length entries) entries"
    using assms by (intro find_and_set_skip) (auto simp: list_all_length)
  then show ?thesis by (simp add: find_and_set_loop.simps [of _ _ "length entries"])
qed

lemma find_and_set_length:
  "find_and_set_loop dir_ok f i n es = Inr (r, es') \<Longrightarrow> length es' = length es"
proof (induction dir_ok f i n es rule: find_and_set_loop.induct)
  case (1 dir_ok f i n es)
  show ?case
  proof (cases "i < n")
    case True
    then obtain en where i: "i < length es" "lock_entry (es ! i) = Inr en"
      using 1(2) by (auto simp: find_and_set_loop.simps [of _ _ i] in_bounds_def rbind_eq_Inr split: if_splits)
    show ?thesis
    proof (cases "is_used en")
      case used: True
      then have "find_and_set_loop dir_ok f (Suc i) n (es[i := unlock_entry en]) = Inr (r, es')"
        using 1(2) True i by (simp add: find_and_set_loop.simps [of _ _ i])
      from 1(1) [OF True _ this] used show ?thesis by simp
    next
      case False
      then obtain x where "(case x of Inl en1 \<Rightarrow> Inr (-1, es[i := en1]) | Inr en1 \<Rightarrow> Inr (int i, es[i := en1])) = (Inr (r, es') :: _ res)"
        using 1(2) True i by (auto simp: find_and_set_loop.simps [of _ _ i] rbind_eq_Inr)
      then show ?thesis by (cases x) auto
    qed
  qed (use 1(2) in \<open>simp add: find_and_set_loop.simps [of _ _ i]\<close>)
qed

text \<open>A path without an input folder: the call fails, the entry stays reserved and locked, and the next
  reservation waits for its mutex.\<close>

lemma find_and_set_leaks:
  assumes "\<And>k. k < j \<Longrightarrow> is_used (entries ! k)" and "list_all (\<lambda>en. \<not> mutex en) entries"
    and "j < length entries" and "\<not> is_used (entries ! j)"
    and "strstr f ''/input/'' = None" and "length f < 100"
  shows "\<exists>entries'. find_and_set_loop dir_ok f 0 (length entries) entries = Inr (-1, entries') \<and>
    find_and_set_loop dir_ok' f' 0 (length entries') entries' = Inl SpinForever"
proof -
  have m: "\<not> mutex (entries ! k)" if "k < length entries" for k
    using assms(2) that by (simp add: list_all_length)
  let ?en = "(entries ! j)\<lparr>mutex := True, is_used := True, is_done := False, original_file_path := f\<rparr>"
  let ?e = "entries[j := ?en]"
  have "find_and_set_loop dir_ok f 0 (length entries) entries = Inr (-1, ?e)"
    using assms m by (subst find_and_set_first_free [of j]) (simp_all add: claim_entry_no_input)
  moreover have "find_and_set_loop dir_ok' f' 0 (length ?e) ?e = find_and_set_loop dir_ok' f' j (length ?e) ?e"
    using assms(1,3) m by (intro find_and_set_skip) (auto simp: nth_list_update)
  moreover have "find_and_set_loop dir_ok' f' j (length ?e) ?e = Inl SpinForever"
    using assms(3) by (subst find_and_set_loop.simps) (simp add: lock_entry_def)
  ultimately show ?thesis by metis
qed

text \<open>The asynchronous call for such a path never returns, whatever the others do to the memory meanwhile.\<close>

lemma find_and_set_no_input:
  assumes "strstr f ''/input/'' = None" and "length f < 100" and "n \<le> length es"
  shows "find_and_set_loop dir_ok f i n es = Inl SpinForever \<or>
    (\<exists>es'. find_and_set_loop dir_ok f i n es = Inr (-1, es') \<and> length es' = length es)"
  using assms
proof (induction dir_ok f i n es rule: find_and_set_loop.induct)
  case (1 dir_ok f i n es)
  show ?case
  proof (cases "i < n")
    case True
    then have i: "i < length es" using 1(4) by simp
    show ?thesis
    proof (cases "mutex (es ! i)")
      case False
      let ?en = "(es ! i)\<lparr>mutex := True\<rparr>"
      have l: "lock_entry (es ! i) = Inr ?en" using False by (simp add: lock_entry_def)
      show ?thesis
      proof (cases "is_used (es ! i)")
        case used: True
        then show ?thesis
          using 1(1) [OF True, of ?en] 1(2-4) True i l False by (simp add: find_and_set_loop.simps [of _ _ i n es])
      qed (use 1(2,3) True i l in \<open>simp add: find_and_set_loop.simps [of _ _ i n es] claim_entry_no_input\<close>)
    qed (use True i in \<open>simp add: find_and_set_loop.simps [of _ _ i n es] lock_entry_def\<close>)
  qed (simp add: find_and_set_loop.simps [of _ _ i n es])
qed

lemma reserve_no_input:
  assumes "strstr f ''/input/'' = None" and "length f < 100" and "num_entries max_size \<le> length (mem s)"
  shows "reserve dir_ok max_size f s = Inl SpinForever \<or>
    (\<exists>es. reserve dir_ok max_size f s = Inr (-1, s\<lparr>mem := es\<rparr>) \<and> length es = length (mem s))"
  using find_and_set_no_input [OF assms, of dir_ok 0]
  by (auto simp: reserve_def find_and_set_shared_memory_entry_index_def)

lemma reserve_again_no_input:
  assumes f: "strstr f ''/input/'' = None" "length f < 100" and m: "num_entries max_size \<le> length (mem s)"
    and others: "\<And>k m. length (others k m) = length m" and r: "reserve_again dir_ok max_size others f k s = Some r"
  shows "r = Inl SpinForever"
proof -
  have "(strstr f ''/input/'' = None \<and> length f < 100 \<and> num_entries max_size \<le> length (mem s) \<and>
      (\<forall>k m. length (others k m) = length m)) \<longrightarrow> r = Inl SpinForever"
  proof (rule reserve_again.raw_induct [OF _ r, where P = "\<lambda>dir_ok max_size others f k s r.
      (strstr f ''/input/'' = None \<and> length f < 100 \<and> num_entries max_size \<le> length (mem s) \<and>
       (\<forall>k m. length (others k m) = length m)) \<longrightarrow> r = Inl SpinForever"])
    fix loop :: "(string \<Rightarrow> bool) \<Rightarrow> int \<Rightarrow> (nat \<Rightarrow> shared_memory_entry list \<Rightarrow> shared_memory_entry list) \<Rightarrow> string \<Rightarrow> nat \<Rightarrow>
        client_state \<Rightarrow> (int \<times> client_state) res option" and d mx others f k s r
    assume "\<And>d mx others f k s r. loop d mx others f k s = Some r \<Longrightarrow>
        (strstr f ''/input/'' = None \<and> length f < 100 \<and> num_entries mx \<le> length (mem s) \<and>
         (\<forall>k m. length (others k m) = length m)) \<longrightarrow> r = Inl SpinForever"
      and "(case reserve d mx f s of Inl e \<Rightarrow> Some (Inl e)
        | Inr (i, s1) \<Rightarrow> if i = -1 then loop d mx others f (Suc k) (s1\<lparr>mem := others k (mem s1)\<rparr>) else Some (Inr (i, s1))) = Some r"
    then show "(strstr f ''/input/'' = None \<and> length f < 100 \<and> num_entries mx \<le> length (mem s) \<and>
         (\<forall>k m. length (others k m) = length m)) \<longrightarrow> r = Inl SpinForever"
      using reserve_no_input [of f mx s d] by fastforce
  qed
  with f m others show ?thesis by blast
qed

end
