(* ===== verification/TF_Protocol.thy ===== *)
theory TF_Protocol
  imports TF_Client
begin

text \<open>
  One client and its ten worker threads as a state machine over the shared entries. The steps are the
  reservation of an entry for a file, the sending of its message, the receipt by a worker, the treatment
  by that worker, and the successful look of the thread that waits for the entry; each runs the code's
  own functions, and the parts of the code between them touch no shared data. Clients have memories, queues and
  workers of their own, so that one client is enough. Two things are idealised: the pointer to the client that
  \<open>create_worker_threads\<close> gets is that of a local variable, which the workers use after it is gone, and is
  taken to be valid; a reservation that fails and leaves its entry locked is no step here.

  Shown are an invariant (a reserved entry is either being sent, in the queue, with exactly one worker, or
  done, and exactly one thread waits for it) and that every request that was accepted is completed, unless a
  worker comes to a file whose compression stops the server.
\<close>

record tf_state =
  entries :: "shared_memory_entry list"
  fsys :: files
  sending :: "nat list"
  queue :: "client_message_info list"
  handling :: "client_message_info list"
  waiting :: "nat list"

definition compress_message :: "nat \<Rightarrow> client_message_info" where
  "compress_message i = \<lparr>shared_memory_entry_index = int i, request = COMPRESS\<rparr>"

definition msg_index :: "client_message_info \<Rightarrow> nat" where
  "msg_index m = nat (shared_memory_entry_index m)"

definition submit :: "(string \<Rightarrow> bool) \<Rightarrow> string \<Rightarrow> tf_state \<Rightarrow> (int \<times> tf_state) res" where
  "submit dir_ok file_path s =
     rbind (find_and_set_loop dir_ok file_path 0 (length (entries s)) (entries s)) (\<lambda>(i, es).
     Inr (i, s\<lparr>entries := es, sending := nat i # sending s\<rparr>))"

text \<open>The steps of the threads that are already under way.\<close>

inductive tf_work :: "compressor \<Rightarrow> file_env \<Rightarrow> tf_state \<Rightarrow> tf_state \<Rightarrow> bool" for z env where
  Send: "tf_work z env s (s\<lparr>sending := is, queue := queue s @ [compress_message i], waiting := i # waiting s\<rparr>)"
    if "sending s = i # is" and "length (queue s) < 10"
| Receive: "tf_work z env s (s\<lparr>queue := ms, handling := m # handling s\<rparr>)"
    if "queue s = m # ms" and "length (handling s) < NUM_WORKER_THREADS_PER_CLIENT"
| Handle: "tf_work z env s (s\<lparr>entries := es, fsys := fs, handling := remove1 m (handling s)\<rparr>)"
    if "m \<in> set (handling s)" and "handle_message z env m (entries s, fsys s) = Inr (es, fs)"
| Finish: "tf_work z env s (s\<lparr>entries := es, waiting := remove1 i (waiting s)\<rparr>)"
    if "i \<in> set (waiting s)" and "wait_poll i (entries s) = Inr (Some es)"

text \<open>A new request comes when no other is between its reservation and its sending.\<close>

inductive tf_step :: "compressor \<Rightarrow> file_env \<Rightarrow> tf_state \<Rightarrow> tf_state \<Rightarrow> bool" for z env where
  Submit: "tf_step z env s s'"
    if "sending s = []" and "submit dir_ok file_path s = Inr (i, s')" and "i \<noteq> -1"
| Work: "tf_step z env s s'" if "tf_work z env s s'"

inductive_cases tf_workE: "tf_work z env s s'"

subsection \<open>The invariant\<close>

definition in_flight :: "tf_state \<Rightarrow> nat list" where
  "in_flight s = sending s @ map msg_index (queue s) @ map msg_index (handling s)"

definition tf_inv :: "tf_state \<Rightarrow> bool" where
  "tf_inv s \<longleftrightarrow>
     list_all (\<lambda>en. \<not> mutex en) (entries s) \<and>
     distinct (in_flight s) \<and> distinct (waiting s) \<and>
     list_all (\<lambda>m. m = compress_message (msg_index m)) (queue s @ handling s) \<and>
     set (in_flight s) \<subseteq> {..<length (entries s)} \<and>
     set (waiting s) = {i. i < length (entries s) \<and> is_used (entries s ! i)} - set (sending s) \<and>
     (\<forall>i<length (entries s). i \<in> set (in_flight s) \<longleftrightarrow> is_used (entries s ! i) \<and> \<not> is_done (entries s ! i)) \<and>
     (\<forall>i<length (entries s). is_done (entries s ! i) \<longrightarrow> is_used (entries s ! i))"

lemma msg_index_compress [simp]: "msg_index (compress_message i) = i"
  by (simp add: msg_index_def compress_message_def)

definition tf_init :: "tf_state \<Rightarrow> bool" where
  "tf_init s \<longleftrightarrow> list_all (\<lambda>en. \<not> mutex en \<and> \<not> is_used en \<and> \<not> is_done en) (entries s) \<and>
     sending s = [] \<and> queue s = [] \<and> handling s = [] \<and> waiting s = []"

lemma tf_init_inv: "tf_init s \<Longrightarrow> tf_inv s"
  by (auto simp: tf_init_def tf_inv_def in_flight_def list_all_length)

lemma find_and_set_success:
  assumes "find_and_set_loop dir_ok f i n es = Inr (r, es')" and "r \<noteq> -1" and "list_all (\<lambda>en. \<not> mutex en) es"
  shows "\<exists>j b. r = int j \<and> j < length es \<and> \<not> is_used (es ! j) \<and> es' = es[j := claimed b f (es ! j)]"
  using assms
proof (induction dir_ok f i n es rule: find_and_set_loop.induct)
  case (1 dir_ok f i n es)
  have i: "i < n" "i < length es" using 1(2,3) by (auto simp: find_and_set_loop.simps [of _ _ i] in_bounds_def split: if_splits)
  have m: "\<not> mutex (es ! i)" using 1(4) i(2) by (simp add: list_all_length)
  show ?case
  proof (cases "is_used (es ! i)")
    case True
    have "find_and_set_loop dir_ok f (Suc i) n es = Inr (r, es')"
      using 1(2) i m True by (simp add: find_and_set_loop.simps [of _ _ i] lock_entry_def)
    moreover have "es[i := unlock_entry ((es ! i)\<lparr>mutex := True\<rparr>)] = es" using m by simp
    ultimately show ?thesis
      using 1(1) [OF i(1), of "(es ! i)\<lparr>mutex := True\<rparr>"] 1(3,4) True by simp
  next
    case False
    let ?en = "(es ! i)\<lparr>mutex := True\<rparr>"
    from 1(2) obtain x where x: "claim_entry dir_ok f ?en = Inr x"
        "(case x of Inl en \<Rightarrow> Inr (-1, es[i := en]) | Inr en \<Rightarrow> Inr (int i, es[i := en])) = (Inr (r, es') :: _ res)"
      using i m False
      by (auto simp: find_and_set_loop.simps [of _ _ i] lock_entry_def rbind_eq_Inr)
    then obtain en where en: "claim_entry dir_ok f ?en = Inr (Inr en)" "r = int i" "es' = es[i := en]"
      using 1(3) by (cases x) auto
    then obtain b where "en = claimed b f ?en"
      by (auto simp: claim_entry_def Let_def rbind_eq_Inr strcat_def strcpy_def claimed_def output_path_def
          unlock_entry_def split: option.splits if_splits)
    then show ?thesis using en i False by auto
  qed
qed

lemma submit_inv:
  assumes inv: "tf_inv s" and "sending s = []" and "submit dir_ok f s = Inr (i, s')" and "i \<noteq> -1"
  shows "tf_inv s'"
proof -
  from assms(3) obtain es where es: "find_and_set_loop dir_ok f 0 (length (entries s)) (entries s) = Inr (i, es)"
      "s' = s\<lparr>entries := es, sending := [nat i]\<rparr>"
    using assms(2) by (auto simp: submit_def rbind_eq_Inr)
  moreover have "list_all (\<lambda>en. \<not> mutex en) (entries s)" using inv by (simp add: tf_inv_def)
  ultimately obtain j b where j: "i = int j" "j < length (entries s)" "\<not> is_used (entries s ! j)"
      "es = (entries s)[j := claimed b f (entries s ! j)]"
    using find_and_set_success assms(4) by blast
  have c: "is_used (claimed b f en)" "\<not> is_done (claimed b f en)" "\<not> mutex (claimed b f en)" for en
    by (simp_all add: claimed_def)
  have "j \<notin> set (in_flight s)" "j \<notin> set (waiting s)" using inv j(2,3) by (auto simp: tf_inv_def)
  then show ?thesis using inv assms(2) j(1-3) c unfolding es(2) j(4)
    by (auto simp: tf_inv_def in_flight_def list_all_length nth_list_update)
qed

lemma send_inv:
  assumes inv: "tf_inv s" and "sending s = i # is"
  shows "tf_inv (s\<lparr>sending := is, queue := queue s @ [compress_message i], waiting := i # waiting s\<rparr>)"
proof -
  let ?s = "s\<lparr>sending := is, queue := queue s @ [compress_message i], waiting := i # waiting s\<rparr>"
  have d: "distinct (in_flight ?s) = distinct (in_flight s)" and f: "set (in_flight ?s) = set (in_flight s)"
    using assms(2) by (auto simp: in_flight_def)
  have i: "i < length (entries s)" "i \<in> set (in_flight s)" "i \<notin> set is"
    using inv assms(2) by (auto simp: tf_inv_def in_flight_def)
  then have "is_used (entries s ! i)" "i \<notin> set (waiting s)"
    using inv assms(2) by (auto simp: tf_inv_def)
  with i inv assms(2) show ?thesis unfolding tf_inv_def d f
    by (auto simp: list_all_iff)
qed

lemma receive_inv:
  assumes inv: "tf_inv s" and "queue s = m # ms"
  shows "tf_inv (s\<lparr>queue := ms, handling := m # handling s\<rparr>)"
proof -
  let ?s = "s\<lparr>queue := ms, handling := m # handling s\<rparr>"
  have d: "distinct (in_flight ?s) = distinct (in_flight s)" and f: "set (in_flight ?s) = set (in_flight s)"
    using assms(2) by (auto simp: in_flight_def)
  show ?thesis using inv assms(2) unfolding tf_inv_def d f by auto
qed

text \<open>What the treatment of a message and a successful look do, as changes of the entries.\<close>

lemma handle_entries:
  assumes inv: "tf_inv s" and m: "m \<in> set (handling s)" and h: "handle_message z env m (entries s, fsys s) = Inr (es, fs)"
  shows "m = compress_message (msg_index m) \<and> msg_index m < length (entries s) \<and>
    es = (entries s)[msg_index m := (entries s ! msg_index m)\<lparr>is_done := True\<rparr>]"
proof -
  have c: "m = compress_message (msg_index m)" "msg_index m \<in> set (in_flight s)"
    using inv m by (auto simp: tf_inv_def list_all_iff in_flight_def)
  moreover have l: "msg_index m < length (entries s)" using inv c(2) by (auto simp: tf_inv_def)
  moreover have u: "\<not> mutex (entries s ! msg_index m)" using inv l by (simp add: tf_inv_def list_all_length)
  moreover have "request m = COMPRESS" "0 \<le> shared_memory_entry_index m"
    by (subst c(1), simp add: compress_message_def)+
  moreover have "unlock_entry ((entries s ! msg_index m)\<lparr>mutex := True, is_done := True\<rparr>) =
      (entries s ! msg_index m)\<lparr>is_done := True\<rparr>"
    using u by (cases "entries s ! msg_index m") (simp add: unlock_entry_def)
  ultimately show ?thesis using h
    by (auto simp: handle_message_def entry_at_def lock_entry_def rbind_eq_Inr msg_index_def)
qed

lemma poll_entries:
  assumes "wait_poll i es = Inr (Some es')" and "list_all (\<lambda>en. \<not> mutex en) es"
  shows "i < length es \<and> is_done (es ! i) \<and> es' = es[i := (es ! i)\<lparr>is_used := False, is_done := False\<rparr>]"
proof -
  have i: "i < length es" using assms(1) by (auto simp: wait_poll_def in_bounds_def split: if_splits)
  then have "\<not> mutex (es ! i)" using assms(2) by (simp add: list_all_length)
  moreover from this have "unlock_entry ((es ! i)\<lparr>mutex := True, is_used := False, is_done := False\<rparr>) =
      (es ! i)\<lparr>is_used := False, is_done := False\<rparr>" by (cases "es ! i") (simp add: unlock_entry_def)
  ultimately show ?thesis using assms(1) i by (auto simp: wait_poll_def lock_entry_def split: if_splits)
qed

lemma handle_inv:
  assumes inv: "tf_inv s" and m: "m \<in> set (handling s)" and h: "handle_message z env m (entries s, fsys s) = Inr (es, fs)"
  shows "tf_inv (s\<lparr>entries := es, fsys := fs, handling := remove1 m (handling s)\<rparr>)"
proof -
  let ?j = "msg_index m"
  let ?s = "s\<lparr>entries := es, fsys := fs, handling := remove1 m (handling s)\<rparr>"
  obtain as bs where h': "handling s = as @ m # bs" using m by (auto simp: in_set_conv_decomp)
  have dm: "distinct (handling s)" using inv by (auto simp: tf_inv_def in_flight_def distinct_map)
  have rm: "remove1 m (handling s) = as @ bs" using dm by (simp add: h' remove1_append)
  have e: "?j < length (entries s)" "es = (entries s)[?j := (entries s ! ?j)\<lparr>is_done := True\<rparr>]"
    using handle_entries [OF inv m h] by simp_all
  have fl: "distinct (in_flight ?s)" "set (in_flight ?s) = set (in_flight s) - {?j}" "?j \<in> set (in_flight s)"
  proof -
    have fs: "in_flight s = (sending s @ map msg_index (queue s) @ map msg_index as) @ ?j # map msg_index bs"
      and fs': "in_flight ?s = (sending s @ map msg_index (queue s) @ map msg_index as) @ map msg_index bs"
      by (simp_all add: in_flight_def rm) (simp add: h')
    have d: "distinct (in_flight s)" using inv by (simp add: tf_inv_def)
    show "distinct (in_flight ?s)" "set (in_flight ?s) = set (in_flight s) - {?j}" "?j \<in> set (in_flight s)"
      using d unfolding fs fs' by (simp_all only: distinct_append set_append list.set distinct.simps) auto
  qed
  have u: "is_used (entries s ! ?j)" using inv fl(3) e(1) by (auto simp: tf_inv_def)
  have msgs: "list_all (\<lambda>m. m = compress_message (msg_index m)) (queue s @ remove1 m (handling s))"
    using inv unfolding rm by (simp add: tf_inv_def h')
  show ?thesis using inv fl(1) msgs e(1) u unfolding tf_inv_def fl(2)
    by (auto simp: e(2) list_all_length nth_list_update)
qed

lemma finish_inv:
  assumes inv: "tf_inv s" and i: "i \<in> set (waiting s)" and p: "wait_poll i (entries s) = Inr (Some es)"
  shows "tf_inv (s\<lparr>entries := es, waiting := remove1 i (waiting s)\<rparr>)"
proof -
  have e: "i < length (entries s)" "is_done (entries s ! i)"
      "es = (entries s)[i := (entries s ! i)\<lparr>is_used := False, is_done := False\<rparr>]"
    using poll_entries [OF p] inv by (simp_all add: tf_inv_def)
  have "i \<notin> set (in_flight s)" using inv e(1,2) by (auto simp: tf_inv_def)
  moreover from this have "i \<notin> set (sending s)" by (simp add: in_flight_def)
  ultimately show ?thesis using inv e(1,2)
    by (auto simp: tf_inv_def in_flight_def e(3) list_all_length nth_list_update)
qed

lemma tf_work_inv: "tf_work z env s s' \<Longrightarrow> tf_inv s \<Longrightarrow> tf_inv s'"
  by (erule tf_work.cases) (auto intro: send_inv receive_inv handle_inv finish_inv)

lemma tf_step_inv: "tf_step z env s s' \<Longrightarrow> tf_inv s \<Longrightarrow> tf_inv s'"
  by (erule tf_step.cases) (auto intro: tf_work_inv submit_inv)

interpretation tf: invariant_system tf_init "tf_step z env" tf_inv for z env
  by unfold_locales (auto intro: tf_init_inv tf_step_inv)

text \<open>No two workers have the same entry, and no worker has an entry that somebody may reserve again.\<close>

lemma tf_inv_exclusive:
  assumes "tf_inv s"
  shows "distinct (map msg_index (handling s))"
    and "m \<in> set (handling s) \<Longrightarrow> is_used (entries s ! msg_index m) \<and> \<not> is_done (entries s ! msg_index m) \<and>
      msg_index m \<in> set (waiting s)"
proof -
  show "distinct (map msg_index (handling s))" using assms by (auto simp: tf_inv_def in_flight_def)
  assume "m \<in> set (handling s)"
  then have "msg_index m \<in> set (in_flight s)" "msg_index m \<notin> set (sending s)"
    using assms by (auto simp: tf_inv_def in_flight_def)
  moreover from this have "msg_index m < length (entries s)" using assms by (auto simp: tf_inv_def)
  ultimately show "is_used (entries s ! msg_index m) \<and> \<not> is_done (entries s ! msg_index m) \<and>
      msg_index m \<in> set (waiting s)"
    using assms by (auto simp: tf_inv_def)
qed

subsection \<open>Every request is completed\<close>

definition work_left :: "tf_state \<Rightarrow> nat" where
  "work_left s = 4 * length (sending s) + 2 * length (queue s) + length (handling s) + length (waiting s)"

lemma tf_work_measure: "tf_work z env s s' \<Longrightarrow> work_left s = Suc (work_left s')"
proof (induction rule: tf_work.induct)
  case (Handle m s es fs)
  then have "0 < length (handling s)" by (cases "handling s") auto
  with Handle show ?case by (simp add: work_left_def length_remove1)
next
  case (Finish i s es)
  then have "0 < length (waiting s)" by (cases "waiting s") auto
  with Finish show ?case by (simp add: work_left_def length_remove1)
qed (simp_all add: work_left_def)

definition idle :: "tf_state \<Rightarrow> bool" where
  "idle s \<longleftrightarrow> sending s = [] \<and> queue s = [] \<and> handling s = [] \<and> waiting s = [] \<and>
     list_all (\<lambda>en. \<not> is_used en) (entries s)"

lemma no_work_idle: "tf_inv s \<Longrightarrow> work_left s = 0 \<Longrightarrow> idle s"
  by (auto simp: work_left_def idle_def tf_inv_def list_all_length)

text \<open>A worker has taken a message for a file whose compression stops the server.\<close>

definition crash_ahead :: "compressor \<Rightarrow> file_env \<Rightarrow> tf_state \<Rightarrow> bool" where
  "crash_ahead z env s \<longleftrightarrow>
     (\<exists>m\<in>set (handling s). fatal_input z env (original_file_path (entries s ! msg_index m))
        (compressed_file_path (entries s ! msg_index m)) (fsys s))"

lemma handling_message:
  assumes "tf_inv s" and "m \<in> set (handling s)"
  shows "0 \<le> shared_memory_entry_index m" and "nat (shared_memory_entry_index m) = msg_index m"
    and "msg_index m < length (entries s)" and "\<not> mutex (entries s ! msg_index m)" and "request m = COMPRESS"
proof -
  have m: "m = compress_message (msg_index m)" and l: "msg_index m < length (entries s)"
    using assms by (auto simp: tf_inv_def list_all_iff in_flight_def)
  show "0 \<le> shared_memory_entry_index m" "request m = COMPRESS" by (subst m, simp add: compress_message_def)+
  show "nat (shared_memory_entry_index m) = msg_index m" by (simp add: msg_index_def)
  show "msg_index m < length (entries s)" using l .
  show "\<not> mutex (entries s ! msg_index m)" using assms(1) l by (simp add: tf_inv_def list_all_length)
qed

lemma crash_ahead_faults:
  assumes "tf_inv s"
  shows "crash_ahead z env s \<longleftrightarrow> (\<exists>m\<in>set (handling s). \<exists>f. handle_message z env m (entries s, fsys s) = Inl f)"
  using handle_message_fatal [OF handling_message [OF assms]] by (auto simp: crash_ahead_def)

lemma tf_work_progress:
  assumes inv: "tf_inv s" and w: "0 < work_left s"
  shows "crash_ahead z env s \<or> (\<exists>s'. tf_work z env s s')"
proof -
  consider (handle) m where "m \<in> set (handling s)" | (receive) m ms where "handling s = []" "queue s = m # ms"
    | (send) i "is" where "queue s = []" "sending s = i # is"
    | (finish) "handling s = []" "queue s = []" "sending s = []" "waiting s \<noteq> []"
    using w by (cases "handling s"; cases "queue s"; cases "sending s"; cases "waiting s") (auto simp: work_left_def)
  then show ?thesis
  proof cases
    case handle
    show ?thesis
    proof (cases "handle_message z env m (entries s, fsys s)")
      case (Inl f)
      with handle show ?thesis using crash_ahead_faults [OF inv] by blast
    next
      case (Inr r)
      with handle show ?thesis by (cases r) (blast intro: tf_work.Handle)
    qed
  next
    case receive
    then show ?thesis using tf_work.Receive [of s m ms z env] by auto
  next
    case send
    then show ?thesis using tf_work.Send [of s i "is" z env] by auto
  next
    case finish
    then obtain i where i: "i \<in> set (waiting s)" by (cases "waiting s") auto
    have e: "i < length (entries s)" "is_used (entries s ! i)" "i \<notin> set (in_flight s)"
      using inv i finish by (auto simp: tf_inv_def in_flight_def)
    then have "is_done (entries s ! i)" "\<not> mutex (entries s ! i)"
      using inv by (auto simp: tf_inv_def list_all_length)
    then have "\<exists>es. wait_poll i (entries s) = Inr (Some es)"
      using e(1) by (simp add: wait_poll_def lock_entry_def)
    with i show ?thesis by (blast intro: tf_work.Finish)
  qed
qed

interpretation tfw: fallible_work "tf_work z env" tf_inv work_left idle "crash_ahead z env" for z env
  by unfold_locales (auto intro: tf_work_inv tf_work_measure no_work_idle dest: tf_work_progress)

text \<open>With a compressor whose blocks always have a zero byte, and inputs that can be read, nothing stops the server.\<close>

lemma crash_ahead_safe:
  assumes "input_ok env" and "\<And>data. 0 \<in> set (snap z data @ leftover z data)"
  shows "\<not> crash_ahead z env s"
  using assms by (auto simp: crash_ahead_def fatal_input_def)

end
