(* ===== verification/TF_Main.thy ===== *)
theory TF_Main
  imports TF_Server TF_Protocol
begin

text \<open>
  The two main programs of TinyFile: command lines, the start and the end of the server, and the requests of
  a client in synchronous mode up to the line it logs. Results of system calls are parameters, and so is
  what other threads and processes do in between: the registrations that the server handles before it ends,
  and what happens outside a client between its message and the looks at the shared memory.
\<close>

subsection \<open>The server\<close>

fun server_options :: "string list \<Rightarrow> int \<times> int \<Rightarrow> (int \<times> int) res" where
  "server_options [] (n_sms, sms_size) = Inr (n_sms, sms_size)"
| "server_options [arg] (n_sms, sms_size) = Inr (n_sms, sms_size)"
| "server_options (arg # val # args) (n_sms, sms_size) =
     (if arg = ''--n_sms'' then rbind (atoi val) (\<lambda>v. server_options args (v, sms_size))
      else if arg = ''--sms_size'' then rbind (atoi val) (\<lambda>v. server_options args (n_sms, v))
      else server_options (val # args) (n_sms, sms_size))"

definition initialize_register_client_server :: "bool \<Rightarrow> bool \<Rightarrow> server_state \<Rightarrow> server_state res" where
  "initialize_register_client_server queue_opens thread_starts s =
     (if queue_opens \<and> thread_starts then Inr (s\<lparr>register_queue_open := True\<rparr>) else Inl (ProcessExit 1))"

text \<open>The loop that reads the keyboard: \<open>inputs k\<close> is what the \<open>k\<close>-th \<open>fgets\<close> of one character delivers. At the
  end of the input the buffer keeps what it had, at first nothing defined.\<close>

partial_function (option) quit_loop :: "(nat \<Rightarrow> char option) \<Rightarrow> nat \<Rightarrow> char option \<Rightarrow> nat res option" where
  "quit_loop inputs k buffer =
     (case (case inputs k of None \<Rightarrow> buffer | Some c \<Rightarrow> Some c) of
        None \<Rightarrow> Some (Inl Undefined)
      | Some c \<Rightarrow> if c = CHR ''q'' then Some (Inr k) else quit_loop inputs (Suc k) (Some c))"

record main_env =
  shm_opens :: bool
  queue_opens :: bool
  thread_starts :: bool
  keyboard :: "nat \<Rightarrow> char option"

definition server_main :: "main_env \<Rightarrow> (server_state \<Rightarrow> server_state) \<Rightarrow> string list \<Rightarrow> (int \<times> server_state) res" where
  "server_main env served argv =
     rbind (server_options (tl argv) (0, 0)) (\<lambda>(n_sms, sms_size).
     if \<not> shm_opens env then Inl (ProcessExit 1)
     else rbind (initialize_register_client_server (queue_opens env) (thread_starts env) (server_start n_sms)) (\<lambda>s.
          case quit_loop (keyboard env) 0 None of
            None \<Rightarrow> Inl SpinForever
          | Some r \<Rightarrow>
              rbind r (\<lambda>_. rbind (exit_server ((served s)\<lparr>is_exit_register_client_server := 1\<rparr>)) (\<lambda>s1. Inr (sms_size, s1)))))"

text \<open>\<open>remove_worker_threads\<close>, which nothing calls: the workers that can be cancelled are gone.\<close>

definition remove_worker_threads :: "(nat \<Rightarrow> bool) \<Rightarrow> client_t \<Rightarrow> server_state \<Rightarrow> server_state" where
  "remove_worker_threads cancels c s =
     s\<lparr>running_workers := filter (\<lambda>w. \<not> (w \<in> set (workers c) \<and> w \<noteq> 0 \<and> cancels w)) (running_workers s)\<rparr>"

lemma quit_loop_returns:
  assumes "inputs n = Some (CHR ''q'')" and "\<forall>j<n. k \<le> j \<longrightarrow> (\<exists>c. inputs j = Some c \<and> c \<noteq> CHR ''q'')" and "k \<le> n"
  shows "quit_loop inputs k buffer = Some (Inr n)"
  using assms(2,3)
proof (induction "n - k" arbitrary: k buffer)
  case 0
  then show ?case using assms(1) by (subst quit_loop.simps) simp
next
  case (Suc m)
  then have "k < n" by simp
  then obtain c where "inputs k = Some c" "c \<noteq> CHR ''q''" using Suc.prems(1) by blast
  moreover have "quit_loop inputs (Suc k) (Some c) = Some (Inr n)" using Suc by simp
  ultimately show ?case by (subst quit_loop.simps) simp
qed

text \<open>When the input ends without the letter, the loop goes on for ever.\<close>

lemma quit_loop_spins:
  assumes "\<forall>j. inputs j = None" and "c \<noteq> CHR ''q''"
  shows "quit_loop inputs k (Some c) = None"
proof (rule ccontr)
  assume "quit_loop inputs k (Some c) \<noteq> None"
  then obtain r where "quit_loop inputs k (Some c) = Some r" by blast
  then have "(\<forall>j. inputs j = None) \<longrightarrow> Some c \<noteq> Some (CHR ''q'') \<longrightarrow> Some c = None"
    by (rule quit_loop.raw_induct [rotated, where P = "\<lambda>inputs k b r. (\<forall>j. inputs j = None) \<longrightarrow> b \<noteq> Some (CHR ''q'') \<longrightarrow> b = None"])
      (fastforce split: option.splits if_splits)
  then show False using assms by simp
qed

text \<open>The server that is told to stop ends properly only without clients.\<close>

lemma server_main_ends:
  assumes "shm_opens env" and "queue_opens env" and "thread_starts env" and "keyboard env 0 = Some (CHR ''q'')"
    and "server_options (tl argv) (0, 0) = Inr (n, sz)"
    and "registry_ok ((served (server_start n))\<lparr>is_exit_register_client_server := 1\<rparr>) (p # ps)"
  shows "server_main env served argv = Inl (ProcessExit 1)"
proof -
  have "quit_loop (keyboard env) 0 None = Some (Inr 0)" using assms(4) by (intro quit_loop_returns) simp_all
  moreover have "initialize_register_client_server True True (server_start n) = Inr (server_start n)"
    by (simp add: initialize_register_client_server_def server_start_def)
  ultimately show ?thesis
    using assms exit_server_fails [OF assms(6)] by (simp add: server_main_def)
qed

lemma server_options_both:
  assumes "n < 2 ^ 31" and "m < 2 ^ 31"
  shows "server_options [''--n_sms'', show_nat n, ''--sms_size'', show_nat m] (0, 0) = Inr (int n, int m)"
  using atoi_show_nat [OF assms(1), of "[]"] atoi_show_nat [OF assms(2), of "[]"] by simp

subsection \<open>The client\<close>

definition MAX_FILE_PATH_SIZE :: nat where [simp]: "MAX_FILE_PATH_SIZE = 200"

record client_options =
  opt_file_path :: "string option"
  opt_file_list_path :: "string option"
  call_method :: char
  is_file_list :: bool

text \<open>The options as \<open>getopt_long\<close> delivers them. The buffers of the paths are not initialised.\<close>

fun client_option_loop :: "(char \<times> string) list \<Rightarrow> client_options \<Rightarrow> client_options res" where
  "client_option_loop [] o1 =
     (if call_method o1 \<noteq> CHR ''a'' \<and> call_method o1 \<noteq> CHR ''s'' then Inl (ProcessExit 1) else Inr o1)"
| "client_option_loop ((c, optarg) # opts) o1 =
     (if c = CHR ''f'' then
        rbind (strcpy MAX_FILE_PATH_SIZE optarg) (\<lambda>p. client_option_loop opts (o1\<lparr>opt_file_path := Some p\<rparr>))
      else if c = CHR ''l'' then
        rbind (strcpy MAX_FILE_PATH_SIZE optarg) (\<lambda>p.
        client_option_loop opts (o1\<lparr>opt_file_list_path := Some p, is_file_list := True\<rparr>))
      else if c = CHR ''s'' then
        client_option_loop opts (if optarg = ''ASYNC'' then o1\<lparr>call_method := CHR ''a''\<rparr>
                                 else if optarg = ''SYNC'' then o1\<lparr>call_method := CHR ''s''\<rparr> else o1)
      else client_option_loop opts o1)"

definition client_options_start :: client_options where
  "client_options_start = \<lparr>opt_file_path = None, opt_file_list_path = None, call_method = CHR '' '', is_file_list = False\<rparr>"

text \<open>The loop of \<open>wait_response_from_server\<close>: \<open>views k\<close> is the shared memory that the \<open>k\<close>-th look finds.\<close>

partial_function (option) wait_response_from_server ::
  "nat \<Rightarrow> (nat \<Rightarrow> shared_memory_entry list) \<Rightarrow> nat \<Rightarrow> shared_memory_entry list res option" where
  "wait_response_from_server i views k =
     (case wait_poll i (views k) of
        Inl e \<Rightarrow> Some (Inl e)
      | Inr (Some m) \<Rightarrow> Some (Inr m)
      | Inr None \<Rightarrow> wait_response_from_server i views (Suc k))"

text \<open>What happens outside the client after it has sent a message: the memory that each look finds, and the
  state of the outside world \<open>'w\<close> (the files) afterwards.\<close>

type_synonym 'w outside =
  "client_message_info \<Rightarrow> client_state \<Rightarrow> 'w \<Rightarrow> (nat \<Rightarrow> shared_memory_entry list) \<times> 'w"

text \<open>A whole synchronous request.\<close>

definition request_sync ::
  "(string \<Rightarrow> bool) \<Rightarrow> int \<Rightarrow> bool \<Rightarrow> 'w outside \<Rightarrow> string \<Rightarrow> client_state \<times> 'w \<Rightarrow> (client_state \<times> 'w) res" where
  "request_sync dir_ok max_size send_ok outside file_path = (\<lambda>(s, w).
     rbind (communicate_file_sync dir_ok max_size send_ok file_path s) (\<lambda>(msg, s1).
     let (views, w1) = outside msg s1 w
     in case wait_response_from_server (nat (shared_memory_entry_index msg)) views 0 of
          None \<Rightarrow> Inl SpinForever
        | Some r \<Rightarrow> rbind r (\<lambda>m. Inr (s1\<lparr>mem := m\<rparr>, w1))))"

text \<open>The loop over the lines of a file list, which counts the files.\<close>

fun request_all_sync ::
  "(string \<Rightarrow> bool) \<Rightarrow> int \<Rightarrow> bool \<Rightarrow> 'w outside \<Rightarrow> string list \<Rightarrow> int \<Rightarrow> client_state \<times> 'w \<Rightarrow>
    (int \<times> client_state \<times> 'w) res" where
  "request_all_sync dir_ok max_size send_ok outside [] num_files x = Inr (num_files, x)"
| "request_all_sync dir_ok max_size send_ok outside (line # lines) num_files x =
     rbind (request_sync dir_ok max_size send_ok outside line x)
       (request_all_sync dir_ok max_size send_ok outside lines (num_files + 1))"

text \<open>The requests of \<open>main\<close> in synchronous mode, for one file or a list of files: the number of files and the
  state. \<open>fopen\<close> gives the content of a file that can be read.\<close>

definition main_requests_sync ::
  "(string \<Rightarrow> bool) \<Rightarrow> int \<Rightarrow> bool \<Rightarrow> 'w outside \<Rightarrow> (string \<Rightarrow> string option) \<Rightarrow> client_options \<Rightarrow> client_state \<times> 'w \<Rightarrow>
    (int \<times> client_state \<times> 'w) res" where
  "main_requests_sync dir_ok max_size send_ok outside fopen o1 x =
     (if \<not> is_file_list o1 then
        (case opt_file_path o1 of
           None \<Rightarrow> Inl Undefined
         | Some file_path \<Rightarrow>
             (case fopen file_path of
                None \<Rightarrow> Inl (ProcessExit 1)
              | Some text \<Rightarrow> rbind (request_sync dir_ok max_size send_ok outside file_path x) (\<lambda>x1. Inr (0 + 1, x1))))
      else
        (case opt_file_list_path o1 of
           None \<Rightarrow> Inl Undefined
         | Some file_list_path \<Rightarrow>
             (case fopen file_list_path of
                None \<Rightarrow> Inl (ProcessExit 1)
              | Some text \<Rightarrow> request_all_sync dir_ok max_size send_ok outside (fgets_lines text) 0 x)))"

text \<open>The elapsed time from two readings of the clock.\<close>

definition elapsed :: "int \<times> int \<Rightarrow> int \<times> int \<Rightarrow> int \<times> int" where
  "elapsed start end1 =
     (let seconds = fst end1 - fst start; ns = snd end1 - snd start
      in if snd end1 < snd start then (seconds - 1, ns + 1000000000) else (seconds, ns))"

definition client_log_line :: "client_options \<Rightarrow> int \<Rightarrow> string \<Rightarrow> int \<times> int \<Rightarrow> string" where
  "client_log_line o1 num_files path t =
     (if call_method o1 = CHR ''a'' then ''ASYNC'' else ''SYNC'') @ '','' @ show_int num_files @ '','' @ path @ '','' @
     show_int (fst t) @ '','' @ show_int (snd t) @ ''\<newline>''"

lemma elapsed_exact:
  assumes "0 \<le> snd start" and "snd start < 1000000000" and "0 \<le> snd end1" and "snd end1 < 1000000000"
  shows "fst (elapsed start end1) * 1000000000 + snd (elapsed start end1) =
      (fst end1 * 1000000000 + snd end1) - (fst start * 1000000000 + snd start)"
    and "0 \<le> snd (elapsed start end1)" and "snd (elapsed start end1) < 1000000000"
  using assms by (auto simp: elapsed_def Let_def algebra_simps)

text \<open>The waiting ends with the first look that finds the request done; it frees the entry.\<close>

lemma wait_response_returns:
  assumes "\<forall>j<n. wait_poll i (views j) = Inr None" and "wait_poll i (views n) = Inr (Some m)" and "k \<le> n"
  shows "wait_response_from_server i views k = Some (Inr m)"
  using assms(3)
proof (induction "n - k" arbitrary: k)
  case 0
  then show ?case using assms(2) by (subst wait_response_from_server.simps) simp
next
  case (Suc d)
  then have "k < n" by simp
  moreover have "wait_response_from_server i views (Suc k) = Some (Inr m)" using Suc by simp
  ultimately show ?case using assms(1) by (subst wait_response_from_server.simps) simp
qed

text \<open>It does not end when the request is never done.\<close>

lemma wait_response_spins:
  assumes "\<forall>j. wait_poll i (views j) = Inr None"
  shows "wait_response_from_server i views k = None"
proof (rule ccontr)
  assume "wait_response_from_server i views k \<noteq> None"
  then obtain r where "wait_response_from_server i views k = Some r" by blast
  then have "\<not> (\<forall>j. wait_poll i (views j) = Inr None)"
    by (rule wait_response_from_server.raw_induct [rotated, where P = "\<lambda>i views k r. \<not> (\<forall>j. wait_poll i (views j) = Inr None)"])
      (fastforce split: sum.splits option.splits)
  then show False using assms by blast
qed

end
