(* ===== verification/TF_Async.thy ===== *)
theory TF_Async
  imports TF_Main
begin

text \<open>
  The asynchronous mode of the client's \<open>main\<close>. For one file it makes the request and waits. For a list of
  files the main thread goes through the paths: it reserves an entry, again and again while none is free,
  sends the message and starts a thread that waits for the entry; at the end it joins all these threads.

  The list is run as a state machine together with the workers of the server (\<open>TF_Protocol\<close>). A failed
  attempt to reserve changes nothing (\<open>Retry\<close>). Shown is that the client finishes with fewer entries than
  files too, unless the compression of a file stops the server: the machine is never stuck otherwise before all
  threads are joined, and every run of it to the end makes the same number of steps, failed attempts aside.
\<close>

subsection \<open>One file\<close>

definition communicate_file_async_wait ::
  "int \<Rightarrow> (nat \<Rightarrow> shared_memory_entry list) \<Rightarrow> shared_memory_entry list res" where
  "communicate_file_async_wait i views =
     (case wait_response_from_server (nat i) views 0 of None \<Rightarrow> Inl SpinForever | Some r \<Rightarrow> r)"

definition request_async ::
  "(string \<Rightarrow> bool) \<Rightarrow> int \<Rightarrow> (nat \<Rightarrow> shared_memory_entry list \<Rightarrow> shared_memory_entry list) \<Rightarrow> bool \<Rightarrow>
    'w outside \<Rightarrow> string \<Rightarrow> client_state \<times> 'w \<Rightarrow> (client_state \<times> 'w) res" where
  "request_async dir_ok max_size others send_ok outside file_path = (\<lambda>(s, w).
     rbind (communicate_file_async dir_ok max_size others send_ok file_path s) (\<lambda>(i, msg, s1).
     let (views, w1) = outside msg s1 w
     in rbind (communicate_file_async_wait i views) (\<lambda>m. Inr (s1\<lparr>mem := m\<rparr>, w1))))"

subsection \<open>A list of files\<close>

record async_state =
  file_path_list :: "string list"
  next_file :: nat
  shared :: tf_state

text \<open>The state after the paths have been collected.\<close>

definition async_start :: "string \<Rightarrow> tf_state \<Rightarrow> async_state res" where
  "async_start text t = rbind (collect_files text) (\<lambda>files. Inr \<lparr>file_path_list = files, next_file = 0, shared = t\<rparr>)"

text \<open>The thread function \<open>pthread_async_wait\<close>: a look at the entry whose index the argument points to, which
  ends the thread when the entry is done.\<close>

definition pthread_async_wait :: "nat \<Rightarrow> tf_state \<Rightarrow> tf_state option" where
  "pthread_async_wait i t =
     (case wait_poll i (entries t) of
        Inr (Some es) \<Rightarrow> Some (t\<lparr>entries := es, waiting := remove1 i (waiting t)\<rparr>)
      | _ \<Rightarrow> None)"

text \<open>One attempt of the main thread to reserve an entry for the next file.\<close>

definition async_attempt :: "(string \<Rightarrow> bool) \<Rightarrow> async_state \<Rightarrow> (int \<times> async_state) res" where
  "async_attempt dir_ok s =
     in_bounds (next_file s) (length (file_path_list s)) (
     rbind (find_and_set_loop dir_ok (file_path_list s ! next_file s) 0 (length (entries (shared s))) (entries (shared s)))
       (\<lambda>(i, es).
         if i = -1 then Inr (i, s\<lparr>shared := (shared s)\<lparr>entries := es\<rparr>\<rparr>)
         else Inr (i, s\<lparr>shared := (shared s)\<lparr>entries := es, sending := nat i # sending (shared s)\<rparr>, next_file := next_file s + 1\<rparr>)))"

inductive async_step :: "(string \<Rightarrow> bool) \<Rightarrow> compressor \<Rightarrow> file_env \<Rightarrow> async_state \<Rightarrow> async_state \<Rightarrow> bool"
  for dir_ok z env where
  Reserve: "async_step dir_ok z env s s'"
    if "next_file s < length (file_path_list s)" and "sending (shared s) = []" and "async_attempt dir_ok s = Inr (i, s')" and "i \<noteq> -1"
| Others: "async_step dir_ok z env s (s\<lparr>shared := t\<rparr>)" if "tf_work z env (shared s) t"

inductive async_retry :: "(string \<Rightarrow> bool) \<Rightarrow> async_state \<Rightarrow> async_state \<Rightarrow> bool" for dir_ok where
  Retry: "async_retry dir_ok s s'"
    if "next_file s < length (file_path_list s)" and "sending (shared s) = []" and "async_attempt dir_ok s = Inr (-1, s')"

text \<open>All requests are sent and all threads can be joined.\<close>

definition all_joined :: "async_state \<Rightarrow> bool" where
  "all_joined s \<longleftrightarrow> next_file s = length (file_path_list s) \<and> sending (shared s) = [] \<and> waiting (shared s) = []"

lemma pthread_async_wait_finish:
  "i \<in> set (waiting t) \<Longrightarrow> pthread_async_wait i t = Some t' \<Longrightarrow> tf_work z env t t'"
  by (auto simp: pthread_async_wait_def intro: tf_work.Finish split: sum.splits option.splits)

subsection \<open>The client finishes\<close>

text \<open>A path that can be reserved: it has an input folder, its output folder exists or can be made, and the
  output path fits.\<close>

definition good_path :: "(string \<Rightarrow> bool) \<Rightarrow> string \<Rightarrow> bool" where
  "good_path dir_ok f \<longleftrightarrow> length f + 12 < 100 \<and>
     (case strstr f ''/input/'' of None \<Rightarrow> False | Some b \<Rightarrow> dir_ok (take b f @ ''/output/''))"

definition async_inv :: "(string \<Rightarrow> bool) \<Rightarrow> async_state \<Rightarrow> bool" where
  "async_inv dir_ok s \<longleftrightarrow> tf_inv (shared s) \<and> entries (shared s) \<noteq> [] \<and> next_file s \<le> length (file_path_list s) \<and>
     list_all (good_path dir_ok) (file_path_list s)"

text \<open>The steps that are still to come.\<close>

definition async_left :: "async_state \<Rightarrow> nat" where
  "async_left s = 5 * (length (file_path_list s) - next_file s) + work_left (shared s)"

lemma collect_files_eq:
  "collect_files text = (if length (fgets_lines text) \<le> 100 then Inr (fgets_lines text) else Inl OutOfBounds)"
proof -
  let ?ls = "fgets_lines text"
  let ?body = "\<lambda>k list. in_bounds k 100 (Inr (list @ [?ls ! k]))"
  have run: "for_res ?body i n (take i ?ls) = (if n \<le> 100 then Inr (take n ?ls) else Inl OutOfBounds)"
    if "i \<le> n" "n \<le> length ?ls" "i \<le> 100" for i n
    using that
  proof (induction "n - i" arbitrary: i)
    case 0
    then show ?case by (simp add: for_res.simps [of _ i])
  next
    case (Suc d)
    then have "i < n" by simp
    then have t: "take i ?ls @ [?ls ! i] = take (Suc i) ?ls" using Suc.prems(2) by (simp add: take_Suc_conv_app_nth)
    show ?case
    proof (cases "i < 100")
      case True
      then have "for_res ?body i n (take i ?ls) = for_res ?body (Suc i) n (take (Suc i) ?ls)"
        using \<open>i < n\<close> t by (subst for_res.simps) simp
      then show ?thesis using Suc \<open>i < n\<close> True by simp
    next
      case False
      then show ?thesis using \<open>i < n\<close> by (subst for_res.simps) simp
    qed
  qed
  show ?thesis using run [of 0 "length ?ls"] by (simp add: collect_files_def)
qed

lemma async_attempt_good:
  assumes inv: "async_inv dir_ok s" and lt: "next_file s < length (file_path_list s)" and r: "async_attempt dir_ok s = Inr (i, s')"
  shows "if i = -1 then s' = s else
    submit dir_ok (file_path_list s ! next_file s) (shared s) = Inr (i, shared s') \<and> next_file s' = Suc (next_file s) \<and>
    file_path_list s' = file_path_list s"
proof (cases "i = -1")
  case False
  then show ?thesis using r lt by (auto simp: async_attempt_def submit_def rbind_eq_Inr split: if_splits)
next
  case True
  let ?es = "entries (shared s)" and ?f = "file_path_list s ! next_file s"
  have m: "list_all (\<lambda>en. \<not> mutex en) ?es" using inv by (simp add: async_inv_def tf_inv_def)
  have g: "good_path dir_ok ?f" using inv lt by (simp add: async_inv_def list_all_length)
  obtain es where es: "find_and_set_loop dir_ok ?f 0 (length ?es) ?es = Inr (-1, es)" "s' = s\<lparr>shared := (shared s)\<lparr>entries := es\<rparr>\<rparr>"
    using r lt True by (auto simp: async_attempt_def rbind_eq_Inr split: if_splits)
  have "is_used (?es ! j)" if "j < length ?es" for j
  proof (rule ccontr)
    assume "\<not> is_used (?es ! j)"
    then have ex: "\<exists>k. k < length ?es \<and> \<not> is_used (?es ! k)" using that by blast
    define k where "k = (LEAST k. k < length ?es \<and> \<not> is_used (?es ! k))"
    have k: "k < length ?es" "\<not> is_used (?es ! k)" using LeastI_ex [OF ex] by (simp_all add: k_def)
    have below: "is_used (?es ! l)" if "l < k" for l
      using not_less_Least [of l "\<lambda>k. k < length ?es \<and> \<not> is_used (?es ! k)"] that k(1) by (simp add: k_def)
    obtain b where "strstr ?f ''/input/'' = Some b" "length ?f + 12 < 100" "dir_ok (take b ?f @ ''/output/'')"
      using g by (auto simp: good_path_def split: option.splits)
    then have "find_and_set_loop dir_ok ?f 0 (length ?es) ?es = Inr (int k, ?es[k := claimed b ?f (?es ! k)])"
      using find_and_set_ok [OF below m k] by blast
    with es(1) show False by simp
  qed
  then have "list_all (\<lambda>en. is_used en \<and> \<not> mutex en) ?es" using m by (simp add: list_all_length)
  then have "es = ?es" using find_and_set_full es(1) by auto
  then show ?thesis using es(2) True by simp
qed

lemma async_retry_same:
  assumes "async_retry dir_ok s s'" and inv: "async_inv dir_ok s"
  shows "s' = s"
  using assms(1)
proof cases
  case Retry
  then show ?thesis using async_attempt_good [OF inv Retry(1,3)] by simp
qed

lemma tf_work_length: "tf_work z env t t' \<Longrightarrow> tf_inv t \<Longrightarrow> length (entries t') = length (entries t)"
proof (induction rule: tf_work.induct)
  case (Handle m s es fs)
  then show ?case using handle_entries [OF Handle.prems Handle.hyps] by simp
next
  case (Finish i s es)
  then show ?case using poll_entries [OF Finish.hyps(2)] by (simp add: tf_inv_def)
qed simp_all

lemma async_step_inv:
  assumes "async_step dir_ok z env s s'" and inv: "async_inv dir_ok s"
  shows "async_inv dir_ok s' \<and> async_left s = Suc (async_left s') \<and> file_path_list s' = file_path_list s"
  using assms(1)
proof cases
  case (Reserve i)
  then have a: "submit dir_ok (file_path_list s ! next_file s) (shared s) = Inr (i, shared s')"
      "next_file s' = Suc (next_file s)" "file_path_list s' = file_path_list s"
    using async_attempt_good [OF inv Reserve(1,3)] by simp_all
  then have "tf_inv (shared s')" using submit_inv [OF _ Reserve(2) a(1) Reserve(4)] inv by (simp add: async_inv_def)
  moreover obtain es where es: "find_and_set_loop dir_ok (file_path_list s ! next_file s) 0 (length (entries (shared s)))
      (entries (shared s)) = Inr (i, es)" "shared s' = (shared s)\<lparr>entries := es, sending := nat i # sending (shared s)\<rparr>"
    using a(1) by (auto simp: submit_def rbind_eq_Inr)
  then have "entries (shared s') \<noteq> []" "work_left (shared s') = 4 + work_left (shared s)"
    using inv find_and_set_length [OF es(1)] by (auto simp: work_left_def async_inv_def)
  ultimately show ?thesis using inv a(2,3) Reserve(1) by (simp add: async_inv_def async_left_def)
next
  case (Others t)
  then have "tf_inv t" "length (entries t) = length (entries (shared s))" "work_left (shared s) = Suc (work_left t)"
    using inv tf_work_inv tf_work_length tf_work_measure by (auto simp: async_inv_def)
  then show ?thesis using inv Others(1) by (auto simp: async_inv_def async_left_def)
qed

lemma async_progress:
  assumes inv: "async_inv dir_ok s" and more: "\<not> all_joined s"
  shows "crash_ahead z env (shared s) \<or> (\<exists>s'. async_step dir_ok z env s s')"
proof (cases "work_left (shared s) = 0")
  case False
  then show ?thesis using tf_work_progress [of "shared s" z env] inv by (auto simp: async_inv_def intro: async_step.Others)
next
  case True
  then have id: "idle (shared s)" using inv no_work_idle by (simp add: async_inv_def)
  let ?es = "entries (shared s)" and ?f = "file_path_list s ! next_file s"
  have lt: "next_file s < length (file_path_list s)" using more id inv by (auto simp: all_joined_def idle_def async_inv_def)
  obtain b where "strstr ?f ''/input/'' = Some b" "length ?f + 12 < 100" "dir_ok (take b ?f @ ''/output/'')"
    using inv lt by (fastforce simp: async_inv_def list_all_length good_path_def split: option.splits)
  moreover have "0 < length ?es" "\<not> is_used (?es ! 0)" "list_all (\<lambda>en. \<not> mutex en) ?es"
    using inv id by (auto simp: async_inv_def tf_inv_def idle_def list_all_length)
  ultimately have "find_and_set_loop dir_ok ?f 0 (length ?es) ?es = Inr (int 0, ?es[0 := claimed b ?f (?es ! 0)])"
    by (intro find_and_set_ok) simp_all
  then obtain s' where "async_attempt dir_ok s = Inr (0, s')" using lt by (simp add: async_attempt_def)
  then have "async_step dir_ok z env s s'" using lt id by (intro async_step.Reserve [where i = 0]) (simp_all add: idle_def)
  then show ?thesis by blast
qed

lemma async_left_0: "async_inv dir_ok s \<Longrightarrow> async_left s = 0 \<Longrightarrow> all_joined s \<and> idle (shared s)"
  using no_work_idle [of "shared s"] by (simp add: async_inv_def async_left_def all_joined_def idle_def)

lemma async_step_exists:
  assumes "async_inv dir_ok s" and "0 < async_left s"
  shows "crash_ahead z env (shared s) \<or> (\<exists>t. async_step dir_ok z env s t)"
proof -
  have "\<not> all_joined s \<or> 0 < work_left (shared s)" using assms(2) by (auto simp: all_joined_def async_left_def)
  then show ?thesis using async_progress [OF assms(1)] tf_work_progress [of "shared s" z env] assms(1)
    by (auto simp: async_inv_def intro: async_step.Others)
qed

interpretation asw: fallible_work "async_step dir_ok z env" "async_inv dir_ok" async_left
  "\<lambda>s. all_joined s \<and> idle (shared s)" "\<lambda>s. crash_ahead z env (shared s)" for dir_ok z env
  by unfold_locales (auto dest: async_step_inv async_step_exists simp: async_left_0)

definition async_init :: "(string \<Rightarrow> bool) \<Rightarrow> async_state \<Rightarrow> bool" where
  "async_init dir_ok s \<longleftrightarrow> tf_init (shared s) \<and> entries (shared s) \<noteq> [] \<and> next_file s = 0 \<and>
     list_all (good_path dir_ok) (file_path_list s)"

interpretation asy: invariant_system "async_init dir_ok" "\<lambda>s s'. async_step dir_ok z env s s' \<or> async_retry dir_ok s s'"
  "async_inv dir_ok" for dir_ok z env
proof
  show "async_inv dir_ok s" if "async_init dir_ok s" for s
    using that tf_init_inv by (simp add: async_init_def async_inv_def)
  show "async_inv dir_ok t" if "async_inv dir_ok s" "async_step dir_ok z env s t \<or> async_retry dir_ok s t" for s t
    using that async_step_inv async_retry_same by blast
qed

lemma async_left_le:
  assumes "(\<lambda>a b. async_step dir_ok z env a b \<or> async_retry dir_ok a b)\<^sup>*\<^sup>* s s'" and "async_init dir_ok s"
  shows "async_left s' \<le> async_left s"
  using assms(1)
proof (induction rule: rtranclp_induct)
  case (step t u)
  have "async_inv dir_ok t" by (rule asy.reachable_inv [OF assms(2) step.hyps(1)])
  then show ?case using step.hyps(2) step.IH async_step_inv async_retry_same by fastforce
qed simp

end
