(* ===== verification/TF_Session.thy ===== *)
theory TF_Session
  imports TF_Async
begin

text \<open>
  The whole \<open>main\<close> of the client, from its options to the line it logs, and a session in synchronous mode with
  the worker threads of the server: the client registers, makes its requests one after the other, and
  unregisters. What it does to the files is the compression of one file after the other.
\<close>

subsection \<open>The main program\<close>

text \<open>What the system and the server do for a client: whether the memory with the size can be mapped, the
  registration queue, the looks at the size, the folders, \<open>mq_send\<close>, what happens to a message, files that can be
  read, the answers to the unregistration, the log and the two readings of the clock.\<close>

record session_env =
  m_shm :: bool
  m_client :: client_env
  m_register_queue :: bool
  m_sizes :: "nat \<Rightarrow> int"
  m_dir_ok :: "string \<Rightarrow> bool"
  m_send_ok :: bool
  m_outside :: "files outside"
  m_others :: "nat \<Rightarrow> shared_memory_entry list \<Rightarrow> shared_memory_entry list"
  m_fopen :: "string \<Rightarrow> string option"
  m_answers :: "nat \<Rightarrow> bool"
  m_log_opens :: bool
  m_clock :: "(int \<times> int) \<times> (int \<times> int)"

text \<open>The requests of an asynchronous client for one file.\<close>

definition main_request_async ::
  "session_env \<Rightarrow> int \<Rightarrow> client_options \<Rightarrow> client_state \<times> files \<Rightarrow> (int \<times> client_state \<times> files) res" where
  "main_request_async env max_size o1 x =
     (case opt_file_path o1 of
        None \<Rightarrow> Inl Undefined
      | Some p \<Rightarrow>
          (case m_fopen env p of
             None \<Rightarrow> Inl (ProcessExit 1)
           | Some text \<Rightarrow>
               rbind (request_async (m_dir_ok env) max_size (m_others env) (m_send_ok env) (m_outside env) p x) (\<lambda>x1. Inr (0 + 1, x1))))"

text \<open>All requests of \<open>main\<close>. The size is read again for each of them, after the server has set it. For the list of
  an asynchronous client, \<open>list_async\<close> is the result of a run of its state machine.\<close>

type_synonym list_run = "client_options \<Rightarrow> client_state \<times> files \<Rightarrow> (int \<times> client_state \<times> files) res"

definition main_requests ::
  "session_env \<Rightarrow> list_run \<Rightarrow> int \<Rightarrow> client_options \<Rightarrow> client_state \<times> files \<Rightarrow> (int \<times> client_state \<times> files) res" where
  "main_requests env list_async max_size o1 x =
     (if call_method o1 = CHR ''a'' then
        if is_file_list o1 then list_async o1 x else main_request_async env max_size o1 x
      else main_requests_sync (m_dir_ok env) max_size (m_send_ok env) (m_outside env) (m_fopen env) o1 x)"

definition client_main ::
  "session_env \<Rightarrow> list_run \<Rightarrow> int \<Rightarrow> (char \<times> string) list \<Rightarrow> client_state \<times> files \<Rightarrow> (string \<times> client_state \<times> files) res" where
  "client_main env list_async max_size opts = (\<lambda>(s, fs).
     (if \<not> m_shm env then Inl (ProcessExit 1)
      else rbind (client_option_loop opts client_options_start) (\<lambda>o1.
           rbind (initialize_client (m_client env) (m_register_queue env) (m_sizes env) s) (\<lambda>s1.
           rbind (main_requests env list_async max_size o1 (s1, fs)) (\<lambda>(num_files, s2, fs1).
           rbind (exit_client (m_send_ok env) (m_answers env) s2) (\<lambda>s3.
           if \<not> m_log_opens env then Inl (ProcessExit 1)
           else deref (if is_file_list o1 then opt_file_list_path o1 else opt_file_path o1) (\<lambda>p.
                Inr (client_log_line o1 num_files p (elapsed (fst (m_clock env)) (snd (m_clock env))), s3, fs1))))))))"

subsection \<open>Synchronous requests\<close>

definition free_mem :: "shared_memory_entry list \<Rightarrow> bool" where
  "free_mem m \<longleftrightarrow> list_all (\<lambda>en. \<not> is_used en \<and> \<not> mutex en) m"

text \<open>The server outside: a worker receives the message and treats it. The looks up to its end, whose number is
  \<open>delay\<close>, find the memory as it was, the later ones what the worker left. When the worker stops the server,
  nothing changes any more.\<close>

definition served_by :: "compressor \<Rightarrow> file_env \<Rightarrow> (client_message_info \<Rightarrow> client_state \<Rightarrow> nat) \<Rightarrow> files outside" where
  "served_by z fenv delay msg s fs =
     (case worker_thread_handler z [Some (fenv, msg)] (mem s, fs) of
        Inl f \<Rightarrow> (\<lambda>k. mem s, fs)
      | Inr (m, fs1) \<Rightarrow> (\<lambda>k. if k < delay msg s then mem s else m, fs1))"

text \<open>What a session does to the files, without client, shared memory and messages: one file after the other is
  compressed.\<close>

definition output_of :: "string \<Rightarrow> string" where
  "output_of f = (case strstr f ''/input/'' of None \<Rightarrow> f | Some b \<Rightarrow> output_path b f)"

fun compress_all :: "compressor \<Rightarrow> file_env \<Rightarrow> string list \<Rightarrow> files \<Rightarrow> files res" where
  "compress_all z fenv [] fs = Inr fs"
| "compress_all z fenv (f # files) fs =
     rbind (compress_file z fenv f (output_of f) fs) (\<lambda>(rc, fs1). compress_all z fenv files fs1)"

lemma good_pathE:
  assumes "good_path dir_ok f"
  obtains b where "strstr f ''/input/'' = Some b" "length f + 12 < 100" "dir_ok (take b f @ ''/output/'')"
  using assms by (auto simp: good_path_def split: option.splits)

text \<open>One request compresses the file and leaves the entry free, or waits for ever for the server that is gone.\<close>

lemma request_sync_free:
  assumes free: "free_mem (mem s)" and ne: "mem s \<noteq> []" and len: "length (mem s) = num_entries max_size"
    and mut: "\<not> global_mutex_c s" and path: "good_path dir_ok f"
  shows "case compress_file z fenv f (output_of f) fs of
      Inl e \<Rightarrow> request_sync dir_ok max_size True (served_by z fenv delay) f (s, fs) = Inl SpinForever
    | Inr (rc, fs1) \<Rightarrow> \<exists>m. request_sync dir_ok max_size True (served_by z fenv delay) f (s, fs) = Inr (s\<lparr>mem := m\<rparr>, fs1) \<and>
        free_mem m \<and> length m = length (mem s)"
proof -
  obtain b where b: "strstr f ''/input/'' = Some b" "length f + 12 < 100" "dir_ok (take b f @ ''/output/'')"
    using path by (rule good_pathE)
  let ?e = "claimed b f (mem s ! 0)" and ?msg = "\<lparr>shared_memory_entry_index = 0, request = COMPRESS\<rparr>"
  let ?s1 = "s\<lparr>mem := (mem s)[0 := ?e]\<rparr>"
  have 0: "0 < length (mem s)" "\<not> is_used (mem s ! 0)" and m: "list_all (\<lambda>en. \<not> mutex en) (mem s)"
    using free ne by (auto simp: free_mem_def list_all_length)
  have "find_and_set_loop dir_ok f 0 (length (mem s)) (mem s) = Inr (int 0, (mem s)[0 := ?e])"
    using m 0 b by (intro find_and_set_ok) simp_all
  then have c: "communicate_file_sync dir_ok max_size True f s = Inr (?msg, ?s1)"
    using len mut by (simp add: communicate_file_sync_def reserve_def find_and_set_shared_memory_entry_index_def)
  have e: "\<not> mutex ?e" "original_file_path ?e = f" "compressed_file_path ?e = output_of f" "\<not> is_done ?e"
    using b(1) by (simp_all add: claimed_def output_of_def)
  have wait: "wait_poll 0 (mem ?s1) = Inr None" using 0(1) e(1,4) by (simp add: wait_poll_def lock_entry_def)
  show ?thesis
  proof (cases "compress_file z fenv f (output_of f) fs")
    case (Inl x)
    then have "handle_message z fenv ?msg (mem ?s1, fs) = Inl x" using 0(1) e by (simp add: handle_message_def entry_at_def)
    then have "served_by z fenv delay ?msg ?s1 fs = (\<lambda>k. mem ?s1, fs)" by (simp add: served_by_def)
    moreover have "wait_response_from_server 0 (\<lambda>k. mem ?s1) 0 = None" using wait by (intro wait_response_spins) simp
    ultimately show ?thesis using c Inl by (simp add: request_sync_def)
  next
    case (Inr r)
    obtain rc fs1 where r: "r = (rc, fs1)" by (cases r)
    let ?d = "(mem s)[0 := ?e\<lparr>is_done := True\<rparr>]"
    have "handle_message z fenv ?msg (mem ?s1, fs) = Inr ((mem ?s1)[0 := (mem ?s1 ! 0)\<lparr>is_done := True\<rparr>], fs1)"
      using 0(1) e Inr r by (intro handle_message_marks [where rc = rc]) simp_all
    then have "served_by z fenv delay ?msg ?s1 fs = (\<lambda>k. if k < delay ?msg ?s1 then mem ?s1 else ?d, fs1)"
      using 0(1) by (simp add: served_by_def)
    moreover let ?m = "(mem s)[0 := unlock_entry (?e\<lparr>is_done := True, mutex := True, is_used := False, is_done := False\<rparr>)]"
    have "wait_poll 0 ?d = Inr (Some ?m)" using 0(1) e(1) by (simp add: wait_poll_def lock_entry_def)
    then have "wait_response_from_server 0 (\<lambda>k. if k < delay ?msg ?s1 then mem ?s1 else ?d) 0 = Some (Inr ?m)"
      using wait by (intro wait_response_returns [where n = "delay ?msg ?s1"]) simp_all
    ultimately have "request_sync dir_ok max_size True (served_by z fenv delay) f (s, fs) = Inr (s\<lparr>mem := ?m\<rparr>, fs1)"
      using c by (simp add: request_sync_def)
    moreover have "free_mem ?m"
      using free 0(1) by (auto simp: free_mem_def list_all_length nth_list_update unlock_entry_def)
    ultimately show ?thesis using Inr r by (auto intro!: exI [of _ ?m])
  qed
qed

lemma request_all_sync_free:
  assumes "free_mem (mem s)" and "mem s \<noteq> []" and "length (mem s) = num_entries max_size" and "\<not> global_mutex_c s"
    and "list_all (good_path dir_ok) files"
  shows "case compress_all z fenv files fs of
      Inl e \<Rightarrow> request_all_sync dir_ok max_size True (served_by z fenv delay) files k (s, fs) = Inl SpinForever
    | Inr fs1 \<Rightarrow> \<exists>m. request_all_sync dir_ok max_size True (served_by z fenv delay) files k (s, fs) =
        Inr (k + int (length files), s\<lparr>mem := m\<rparr>, fs1)"
  using assms
proof (induction files arbitrary: s fs k)
  case Nil
  then show ?case by (simp add: exI [of _ "mem s"])
next
  case (Cons f files)
  have path: "good_path dir_ok f" "list_all (good_path dir_ok) files" using Cons.prems(5) by simp_all
  note one = request_sync_free [OF Cons.prems(1-4) path(1), where z = z and fenv = fenv and fs = fs and delay = delay]
  show ?case
  proof (cases "compress_file z fenv f (output_of f) fs")
    case (Inl e)
    then show ?thesis using one by simp
  next
    case (Inr r)
    obtain rc fs1 where r: "r = (rc, fs1)" by (cases r)
    obtain m where m: "request_sync dir_ok max_size True (served_by z fenv delay) f (s, fs) = Inr (s\<lparr>mem := m\<rparr>, fs1)"
        "free_mem m" "length m = length (mem s)"
      using one Inr r by auto
    have "m \<noteq> []" using m(3) Cons.prems(2) by auto
    with Cons.IH [where s = "s\<lparr>mem := m\<rparr>" and fs = fs1 and k = "k + 1"] m Cons.prems path(2) Inr r show ?thesis
      by (auto simp: algebra_simps split: sum.splits)
  qed
qed

subsection \<open>A session\<close>

text \<open>What a session in synchronous mode needs of its surroundings.\<close>

definition session_ok :: "session_env \<Rightarrow> int \<Rightarrow> bool" where
  "session_ok env max_size \<longleftrightarrow>
     m_shm env \<and> m_register_queue env \<and> client_env_ok (m_client env) \<and> wait_size (m_sizes env) 0 = Some max_size \<and>
     0 < num_entries max_size \<and> m_send_ok env \<and> (\<exists>k. m_answers env k) \<and> m_log_opens env"

lemma exit_client_ok:
  assumes "answers k"
  shows "\<exists>s'. exit_client True answers s = Inr s' \<and> mem s' = [] \<and>
    sent_registrations s' = sent_registrations s @ [(register_entry_c s)\<lparr>command := UNREGISTER\<rparr>]"
  using wait_unregistered_ends [of answers k 0] assms by (auto simp: exit_client_def)

lemma main_requests_sync_eq:
  assumes "call_method o1 = CHR ''s''" and "(if is_file_list o1 then opt_file_list_path o1 else opt_file_path o1) = Some p"
    and "m_fopen env p = Some text" and "m_send_ok env"
  shows "main_requests env list_async max_size o1 x =
    request_all_sync (m_dir_ok env) max_size True (m_outside env) (if is_file_list o1 then fgets_lines text else [p]) 0 x"
  using assms
  by (cases "request_sync (m_dir_ok env) max_size True (m_outside env) p x")
    (auto simp: main_requests_def main_requests_sync_def split: if_splits)

lemma session_sync:
  assumes env: "session_ok env max_size" and srv: "m_outside env = served_by z fenv delay"
    and o1: "client_option_loop opts client_options_start = Inr o1" "call_method o1 = CHR ''s''"
    and p: "(if is_file_list o1 then opt_file_list_path o1 else opt_file_path o1) = Some p" "m_fopen env p = Some text"
    and files: "files = (if is_file_list o1 then fgets_lines text else [p])" "list_all (good_path (m_dir_ok env)) files"
  shows "case compress_all z fenv files fs of
      Inl e \<Rightarrow> client_main env list_async max_size opts (s, fs) = Inl SpinForever
    | Inr fs1 \<Rightarrow> \<exists>s'. client_main env list_async max_size opts (s, fs) =
        Inr (client_log_line o1 (int (length files)) p (elapsed (fst (m_clock env)) (snd (m_clock env))), s', fs1) \<and> mem s' = [] \<and>
      sent_registrations s' = sent_registrations s @
        [registration_of (c_getpid (m_client env)), (registration_of (c_getpid (m_client env)))\<lparr>command := UNREGISTER\<rparr>]"
proof -
  let ?r = "registration_of (c_getpid (m_client env))"
  obtain s1 where s1: "initialize_client (m_client env) True (m_sizes env) s = Inr s1" "register_entry_c s1 = ?r"
      "sent_registrations s1 = sent_registrations s @ [?r]" "\<not> global_mutex_c s1" "length (mem s1) = num_entries max_size"
      "list_all (\<lambda>en. \<not> mutex en \<and> \<not> is_used en \<and> \<not> is_done en) (mem s1)"
    using initialize_client_ok [of "m_client env" "m_sizes env" max_size s] env by (auto simp: session_ok_def)
  have free: "free_mem (mem s1)" "mem s1 \<noteq> []" using s1(5,6) env by (auto simp: free_mem_def list_all_length session_ok_def)
  have r: "main_requests env list_async max_size o1 (s1, fs) =
      request_all_sync (m_dir_ok env) max_size True (served_by z fenv delay) files 0 (s1, fs)"
    using main_requests_sync_eq [OF o1(2) p] env by (simp add: session_ok_def srv files(1))
  have c: "client_main env list_async max_size opts (s, fs) =
      rbind (main_requests env list_async max_size o1 (s1, fs)) (\<lambda>(num_files, s2, fs1).
      rbind (exit_client True (m_answers env) s2) (\<lambda>s3.
      Inr (client_log_line o1 num_files p (elapsed (fst (m_clock env)) (snd (m_clock env))), s3, fs1)))"
    using env o1(1) p(1) s1(1) by (simp add: client_main_def session_ok_def)
  note all = request_all_sync_free [OF free s1(5,4) files(2), where z = z and fenv = fenv and fs = fs and delay = delay and k = 0]
  show ?thesis
  proof (cases "compress_all z fenv files fs")
    case (Inl e)
    then show ?thesis using all by (simp add: c r)
  next
    case (Inr fs1)
    then obtain m where m: "main_requests env list_async max_size o1 (s1, fs) = Inr (int (length files), s1\<lparr>mem := m\<rparr>, fs1)"
      using all by (auto simp: r)
    obtain k where "m_answers env k" using env by (auto simp: session_ok_def)
    then obtain s' where s': "exit_client True (m_answers env) (s1\<lparr>mem := m\<rparr>) = Inr s'" "mem s' = []"
        "sent_registrations s' = sent_registrations s1 @ [?r\<lparr>command := UNREGISTER\<rparr>]"
      using exit_client_ok [of "m_answers env" k "s1\<lparr>mem := m\<rparr>"] s1(2) by auto
    then show ?thesis using Inr s1(3) by (simp add: c m)
  qed
qed

end
