(* ===== verification/TF_Properties.thy ===== *)
theory TF_Properties
  imports TF_Server TF_Session
begin

text \<open>
  The properties of TinyFile, with a concrete instance of each.
\<close>

section \<open>The TinyFile server\<close>

text \<open>A concrete registration: the queues \<open>s\<close> and \<open>r\<close>, the shared memory \<open>m\<close>, threads 100 to 109.\<close>

definition tfx_client :: client_t where
  "tfx_client = \<lparr>pid = 0, send_q = 0, recv_q = 0, send_queue_name = [], recv_queue_name = [],
     shared_memory_address = 0, shared_memory_size = 0, shm_name = [], is_worker_thread_active = 0,
     workers = replicate 10 0\<rparr>"

definition tfx_env :: server_env where
  "tfx_env = \<lparr>mq_open_r = (\<lambda>name. if name = ''s'' then Some 3 else if name = ''r'' then Some 4 else None),
     shm_open_r = (\<lambda>name. True), st_size_r = (\<lambda>name. 2480), mmap_r = (\<lambda>name. Some 4096),
     pthread_create_r = (\<lambda>i. Some (100 + i)), malloc_r = Some 7, stack_client = tfx_client,
     heap_node = \<lparr>node_client = tfx_client, next_node = None, prev_node = None\<rparr>\<rparr>"

definition tfx_register :: client_register_message_entry where
  "tfx_register = \<lparr>client_pid = 42, command = REGISTER, msg_send_queue_name = ''s'', msg_recv_queue_name = ''r'',
     msg_shm_name = ''m''\<rparr>"

lemma tfx_granted: "message_granted tfx_env tfx_register (server_start n)"
  by (simp add: message_granted_def calls_ok_def tfx_env_def tfx_register_def server_start_def tfx_client_def)

text \<open>C19. From the start of the server with \<open>n\<close> shared memories, the registration thread keeps its
  list of clients as the abstract directory says: a registration appends the client, an unregistration
  removes its first entry, unknown commands change nothing, and the free shared memories are those not
  taken by a registered client. The one exception is a registration when all are taken: the thread then
  waits for a release that only itself could perform.\<close>

theorem registration_refines:
  assumes "0 \<le> n" and "run_granted rs (server_start n)"
  shows "case directory_run n (received rs) [] of
      None \<Rightarrow> register_client_handler rs (server_start n) = Inl SpinForever
    | Some pids \<Rightarrow> \<exists>s ps. register_client_handler rs (server_start n) = Inr s \<and> server_ok n s ps \<and> pids_of s ps = pids"
  using handler_refines [OF server_start_ok [OF assms(1)] _ assms(2)]
  by (simp add: pids_of_def server_start_def)

theorem registration_refines_witness:
  "register_client_handler [None, Some (tfx_env, tfx_register)] (server_start 0) = Inl SpinForever \<and>
   (\<exists>s ps. register_client_handler [None, Some (tfx_env, tfx_register)] (server_start 1) = Inr s \<and>
      server_ok 1 s ps \<and> pids_of s ps = [42])"
proof -
  have g: "run_granted [None, Some (tfx_env, tfx_register)] (server_start n)" for n
    using tfx_granted by (simp split: sum.splits)
  have c: "command tfx_register = REGISTER" "client_pid tfx_register = 42" by (simp_all add: tfx_register_def)
  show ?thesis
    using registration_refines [of 0, OF _ g] registration_refines [of 1, OF _ g] c by simp
qed

text \<open>Leaving the server with a client still registered ends the process with the failure status:
  \<open>exit_server\<close> has closed the client's queue before it sends the notification there, so neither the
  registration queue is removed nor the registration thread joined.\<close>

lemma exit_server_exits:
  assumes "registry_ok s ps"
  shows "exit_server s = (if ps = [] then Inr (s\<lparr>register_queue_open := False\<rparr>) else Inl (ProcessExit 1))"
  using assms exit_server_empty exit_server_fails by (cases ps) simp_all

text \<open>The doubly linked list of clients behaves as a sequence searched by process number:
  appending makes a node findable unless an earlier one has its number, and removing a node of a list
  with different numbers leaves its number without an entry.\<close>

lemma client_list_operations:
  assumes "client_list r ps" and "p \<notin> set ps" and "nodes r p \<noteq> None"
    and "distinct (map (\<lambda>q. pid (client_at r q)) ps)" and "q \<in> set ps"
  shows "(\<exists>r'. append_client_node_to_tail p r = Inr r' \<and> client_list r' (ps @ [p]) \<and>
      find_current_client_node k r' = Inr (case first_with r k ps of
        Some x \<Rightarrow> Some x | None \<Rightarrow> if pid (client_at r p) = k then Some p else None)) \<and>
    (\<exists>r'. remove_client_node q r = Inr r' \<and> client_list r' (remove1 q ps) \<and>
      find_current_client_node (pid (client_at r q)) r' = Inr None)"
  using dir.lookup_added [OF assms(1-3)] dir.lookup_deleted [OF assms(1,4,5)]
  by (simp add: first_with_def)

section \<open>Compression\<close>

text \<open>C24. When the input can be read and the output be written, \<open>compress_file\<close> writes exactly the
  compressed data if and only if these contain no zero byte and the allocated block happens to hold a
  zero byte right after them: the file is written as a string.\<close>

theorem compress_exact:
  assumes "fs input = Some data" and "input_ok env" and "writable env output"
  shows "compress_file z env input output fs = Inr (0, fs(output \<mapsto> snap z data)) \<longleftrightarrow>
    0 \<notin> set (snap z data) \<and> leftover z data \<noteq> [] \<and> hd (leftover z data) = 0"
  using assms by (rule compress_file_exact)

definition tfx_snappy :: compressor where
  "tfx_snappy = \<lparr>max_len = (\<lambda>n. n + 3), snap = (\<lambda>data. 5 # data), fresh = (\<lambda>k. replicate k 0)\<rparr>"

definition tfx_files :: file_env where
  "tfx_files = \<lparr>writable = (\<lambda>name. True), input_ok = True\<rparr>"

lemma tfx_snappy_fits: "snappy_fits tfx_snappy"
  by (simp add: snappy_fits_def tfx_snappy_def)

theorem compress_exact_witness:
  "snappy_fits tfx_snappy \<and>
   compress_file tfx_snappy tfx_files ''a'' ''b'' [''a'' \<mapsto> [7, 8]] = Inr (0, [''a'' \<mapsto> [7, 8], ''b'' \<mapsto> [5, 7, 8]]) \<and>
   compress_file tfx_snappy tfx_files ''a'' ''b'' [''a'' \<mapsto> [7, 0]] \<noteq> Inr (0, [''a'' \<mapsto> [7, 0], ''b'' \<mapsto> [5, 7, 0]])"
  using tfx_snappy_fits compress_exact [of "[''a'' \<mapsto> [7, 8]]" "''a''" "[7, 8]" tfx_files "''b''" tfx_snappy]
    compress_exact [of "[''a'' \<mapsto> [7, 0]]" "''a''" "[7, 0]" tfx_files "''b''" tfx_snappy]
  by (simp add: tfx_snappy_def tfx_files_def leftover_def)

section \<open>Requests of a client\<close>

definition tfx_entry :: shared_memory_entry where
  "tfx_entry = \<lparr>original_file_path = [], compressed_file_path = [], mutex = False, is_used = False, is_done = False\<rparr>"

definition tfx_cenv :: client_env where
  "tfx_cenv = \<lparr>c_getpid = 4711, c_mq_open = (\<lambda>name. Some 3), c_shm_open = (\<lambda>name. True), c_ftruncate = (\<lambda>k. True),
     c_mmap = (\<lambda>k. Some 4096), c_mq_send = True, c_stack_entry = tfx_entry\<rparr>"

definition tfx_cstate :: client_state where
  "tfx_cstate = \<lparr>cl = tfx_client, mem = [], global_mutex_c = False,
     register_entry_c = tfx_register, sent_registrations = []\<rparr>"

text \<open>A reservation takes the first free entry, stores the path of the file and the path of its output in
  the output folder, and unlocks the entry; with all entries in use it changes nothing and reports failure.\<close>

lemma reservation:
  assumes "num_entries max_size = length es" and "list_all (\<lambda>en. \<not> mutex en) es"
    and "strstr f ''/input/'' = Some b" and "length f + 12 < 100" and "dir_ok (take b f @ ''/output/'')"
  shows "find_and_set_shared_memory_entry_index dir_ok max_size f es =
    (case List.find (\<lambda>j. \<not> is_used (es ! j)) [0..<length es] of
       None \<Rightarrow> Inr (-1, es)
     | Some j \<Rightarrow> Inr (int j, es[j := claimed b f (es ! j)]))"
proof (cases "List.find (\<lambda>j. \<not> is_used (es ! j)) [0..<length es]")
  case None
  then have "list_all (\<lambda>en. is_used en \<and> \<not> mutex en) es"
    using assms(2) by (auto simp: find_None_iff list_all_length)
  then show ?thesis using None assms(1) find_and_set_full by (simp add: find_and_set_shared_memory_entry_index_def)
next
  case (Some j)
  then have j: "j < length es" "\<not> is_used (es ! j)" "\<And>k. k < j \<Longrightarrow> is_used (es ! k)"
    by (auto simp: find_Some_iff)
  from find_and_set_ok [of j es f b dir_ok, OF j(3) assms(2) j(1,2) assms(3-5)] Some assms(1) show ?thesis
    by (simp add: find_and_set_shared_memory_entry_index_def)
qed

text \<open>C25. A path without an input folder makes the reservation fail with its entry left reserved and
  locked. The synchronous call then ends the process; the asynchronous one tries again for ever, or waits
  for ever for the mutex it holds itself, whatever the other threads and the server do to the memory.\<close>

theorem reservation_leak:
  assumes "num_entries max_size = length es" and "list_all (\<lambda>en. \<not> mutex en) es"
    and "List.find (\<lambda>j. \<not> is_used (es ! j)) [0..<length es] = Some j"
    and "strstr f ''/input/'' = None" and "length f < 100" and "mem s = es" and "\<not> global_mutex_c s"
    and "\<And>k m. length (others k m) = length m"
  shows "(\<exists>es'. reserve dir_ok max_size f s = Inr (-1, s\<lparr>mem := es'\<rparr>) \<and>
      (\<forall>g. reserve dir_ok max_size g (s\<lparr>mem := es'\<rparr>) = Inl SpinForever)) \<and>
    communicate_file_sync dir_ok max_size send_ok f s = Inl (ProcessExit 1) \<and>
    communicate_file_async dir_ok max_size others send_ok f s = Inl SpinForever"
proof -
  have j: "j < length es" "\<not> is_used (es ! j)" "\<And>k. k < j \<Longrightarrow> is_used (es ! k)"
    using assms(3) by (auto simp: find_Some_iff)
  have "\<exists>es'. find_and_set_loop dir_ok f 0 (length es) es = Inr (-1, es') \<and>
      find_and_set_loop dir_ok g 0 (length es') es' = Inl SpinForever" for g
    using find_and_set_leaks [of j es f dir_ok dir_ok g, OF j(3) assms(2) j(1,2) assms(4,5)] by blast
  then obtain es' where es': "find_and_set_loop dir_ok f 0 (length es) es = Inr (-1, es')"
      "\<And>g. find_and_set_loop dir_ok g 0 (length es') es' = Inl SpinForever" by (metis (no_types) Pair_inject sum.inject(2))
  have "length es' = length es" using find_and_set_length [OF es'(1)] .
  then have r: "reserve dir_ok max_size f s = Inr (-1, s\<lparr>mem := es'\<rparr>)"
      "\<And>g. reserve dir_ok max_size g (s\<lparr>mem := es'\<rparr>) = Inl SpinForever"
    using es' assms(1,6,7) by (simp_all add: reserve_def find_and_set_shared_memory_entry_index_def)
  have n: "num_entries max_size \<le> length (mem s)" using assms(1,6) by simp
  have "r = Inl SpinForever" if "reserve_again dir_ok max_size others f 0 s = Some r" for r
    by (rule reserve_again_no_input [OF assms(4,5) n _ that]) (rule assms(8))
  then have "communicate_file_async dir_ok max_size others send_ok f s = Inl SpinForever"
    by (cases "reserve_again dir_ok max_size others f 0 s") (auto simp: communicate_file_async_def)
  moreover have "communicate_file_sync dir_ok max_size send_ok f s = Inl (ProcessExit 1)"
    using r(1) by (simp add: communicate_file_sync_def)
  ultimately show ?thesis using r by blast
qed

theorem reservation_leak_witness:
  "communicate_file_async (\<lambda>d. True) 248 (\<lambda>_ m. m) True ''Tiny.txt'' (tfx_cstate\<lparr>mem := [tfx_entry]\<rparr>) = Inl SpinForever"
proof -
  have "strstr ''Tiny.txt'' ''/input/'' = None" by (simp add: strstr.simps)
  then show ?thesis
    using reservation_leak [of 248 "[tfx_entry]" 0 "''Tiny.txt''" "tfx_cstate\<lparr>mem := [tfx_entry]\<rparr>" "\<lambda>_ m. m" "\<lambda>d. True" True]
    by (simp add: num_entries_def tfx_entry_def tfx_cstate_def)
qed

text \<open>A path of 88 to 99 characters fits the entry, but the path built for its output does not fit
  the 100 bytes reserved for it.\<close>

lemma output_path_overflow:
  assumes "strstr f ''/input/'' = Some b" and "88 \<le> length f" and "length f < 100"
    and "dir_ok (take b f @ ''/output/'')" and "\<not> is_used (hd es)" and "\<not> mutex (hd es)" and "es \<noteq> []"
    and "num_entries max_size = length es"
  shows "find_and_set_shared_memory_entry_index dir_ok max_size f es = Inl OutOfBounds"
proof -
  obtain e r where e: "es = e # r" using assms(7) by (cases es) auto
  then show ?thesis
    using assms find_and_set_first_free [of 0 es "length es" dir_ok f] claim_entry_overflow [of f b dir_ok]
    by (simp add: find_and_set_shared_memory_entry_index_def)
qed

section \<open>The protocol between client and workers\<close>

text \<open>C23. Whatever the order of reservations, messages, workers and waiting threads: no two workers have
  the same entry, an entry with a worker is reserved and not marked as done, and a thread waits for it, so
  that it is not reserved again meanwhile. Reservations are those that succeed, and the workers' pointer to
  their client is taken to be valid.\<close>

theorem workers_exclusive:
  assumes "tf_init s0" and "(tf_step z env)\<^sup>*\<^sup>* s0 s"
  shows "distinct (map msg_index (handling s)) \<and> tf_inv s \<and>
    (\<forall>m\<in>set (handling s). is_used (entries s ! msg_index m) \<and> \<not> is_done (entries s ! msg_index m) \<and>
       msg_index m \<in> set (waiting s))"
  using tf_inv_exclusive [OF tf.reachable_inv [OF assms]] tf.reachable_inv [OF assms] by blast

definition tfx_state :: tf_state where
  "tfx_state = \<lparr>entries = [tfx_entry], fsys = [''bin/input/a'' \<mapsto> [7, 8]], sending = [], queue = [], handling = [], waiting = []\<rparr>"

lemma tfx_state_init: "tf_init tfx_state"
  by (simp add: tf_init_def tfx_state_def tfx_entry_def)

definition tfx_busy :: tf_state where
  "tfx_busy = \<lparr>entries = [claimed 3 ''bin/input/a'' tfx_entry], fsys = [''bin/input/a'' \<mapsto> [7, 8]], sending = [0],
     queue = [], handling = [], waiting = []\<rparr>"

lemma tfx_submitted: "tf_step z env tfx_state tfx_busy"
proof -
  have "strstr ''bin/input/a'' ''/input/'' = Some 3" by (simp add: strstr.simps)
  then have "find_and_set_loop (\<lambda>d. True) ''bin/input/a'' 0 (length [tfx_entry]) [tfx_entry] =
      Inr (int 0, [tfx_entry][0 := claimed 3 ''bin/input/a'' ([tfx_entry] ! 0)])"
    by (intro find_and_set_ok) (simp_all add: tfx_entry_def)
  then have "submit (\<lambda>d. True) ''bin/input/a'' tfx_state = Inr (0, tfx_busy)"
    by (simp add: submit_def tfx_state_def tfx_busy_def)
  then show ?thesis by (rule tf_step.Submit [rotated]) (simp_all add: tfx_state_def)
qed

lemma tfx_busy_reached: "(tf_step z env)\<^sup>*\<^sup>* tfx_state tfx_busy"
  using tfx_submitted by (rule r_into_rtranclp)

definition tfx_working :: tf_state where
  "tfx_working = tfx_busy\<lparr>sending := [], handling := [compress_message 0], waiting := [0]\<rparr>"

lemma tfx_working_reached: "(tf_step z env)\<^sup>*\<^sup>* tfx_state tfx_working"
proof -
  let ?s = "tfx_busy\<lparr>sending := [], queue := [compress_message 0], waiting := [0]\<rparr>"
  have "tf_work z env tfx_busy ?s" using tf_work.Send [of tfx_busy 0 "[]" z env] by (simp add: tfx_busy_def)
  moreover have "tf_work z env ?s tfx_working"
    using tf_work.Receive [of ?s "compress_message 0" "[]" z env] by (simp add: tfx_working_def tfx_busy_def)
  ultimately show ?thesis using tfx_busy_reached by (meson rtranclp.rtrancl_into_rtrancl tf_step.Work)
qed

theorem workers_exclusive_witness:
  "handling tfx_working = [compress_message 0] \<and> (tf_step tfx_snappy tfx_files)\<^sup>*\<^sup>* tfx_state tfx_working \<and>
   is_used (entries tfx_working ! 0) \<and> \<not> is_done (entries tfx_working ! 0) \<and> 0 \<in> set (waiting tfx_working)"
  using tfx_working_reached workers_exclusive [OF tfx_state_init tfx_working_reached]
  by (simp add: tfx_working_def)

text \<open>C20. Once no new requests come, the threads complete all requests or the server stops: each of their
  steps lowers the work left by one, after as many steps no entry is reserved and nobody waits, and before
  that a step is possible unless a worker has come to a file whose compression stops the server. That is
  just a file that exists and either cannot be read, or whose output can be written and whose block of
  compressed data has no zero byte; the treatment of its message faults. When no worker comes to such a
  file, all requests are completed. The workers' pointer to their client is taken to be valid.\<close>

theorem requests_complete:
  assumes "tf_init s0" and "(tf_step z env)\<^sup>*\<^sup>* s0 s"
  shows "(\<forall>n s'. (tf_work z env ^^ n) s s' \<longrightarrow>
      n \<le> work_left s \<and> (n = work_left s \<longrightarrow> idle s') \<and>
      (n < work_left s \<longrightarrow> crash_ahead z env s' \<or> (\<exists>s''. tf_work z env s' s'')) \<and>
      (crash_ahead z env s' \<longleftrightarrow> (\<exists>m\<in>set (handling s'). \<exists>f. handle_message z env m (entries s', fsys s') = Inl f))) \<and>
    (\<exists>n s'. (tf_work z env ^^ n) s s' \<and> (n = work_left s \<and> idle s' \<or> n < work_left s \<and> crash_ahead z env s')) \<and>
    ((\<forall>s'. (tf_work z env)\<^sup>*\<^sup>* s s' \<longrightarrow> \<not> crash_ahead z env s') \<longrightarrow> (\<exists>s'. (tf_work z env ^^ work_left s) s s' \<and> idle s'))"
proof -
  have inv: "tf_inv s" by (rule tf.reachable_inv [OF assms])
  have "n \<le> work_left s \<and> (n = work_left s \<longrightarrow> idle s') \<and>
      (n < work_left s \<longrightarrow> crash_ahead z env s' \<or> (\<exists>s''. tf_work z env s' s'')) \<and>
      (crash_ahead z env s' \<longleftrightarrow> (\<exists>m\<in>set (handling s'). \<exists>f. handle_message z env m (entries s', fsys s') = Inl f))"
    if "(tf_work z env ^^ n) s s'" for n s'
  proof -
    have s': "tf_inv s'" "work_left s = n + work_left s'" using tfw.run_takes [OF inv that] by simp_all
    then show ?thesis using tf_work_progress [OF s'(1)] no_work_idle [OF s'(1)] crash_ahead_faults [OF s'(1)] by auto
  qed
  then show ?thesis using tfw.run_ends [OF inv] tfw.completes_unblocked [OF inv] by blast
qed

lemma tfx_no_crash: "\<not> crash_ahead tfx_snappy tfx_files s"
proof (rule crash_ahead_safe)
  show "input_ok tfx_files" by (simp add: tfx_files_def)
  fix data :: "byte list"
  have "drop (Suc n) (replicate (n + 3) (0 :: byte)) = [0, 0]" for n
    by (simp add: drop_replicate Suc_diff_le numeral_2_eq_2 del: replicate.simps(2) drop_Suc_Cons)
       (simp add: numeral_2_eq_2)
  then show "0 \<in> set (snap tfx_snappy data @ leftover tfx_snappy data)" by (simp add: tfx_snappy_def leftover_def)
qed

text \<open>A compressor that fills its block with ones.\<close>

definition tfx_full :: compressor where
  "tfx_full = \<lparr>max_len = (\<lambda>n. n + 3), snap = (\<lambda>data. 5 # data), fresh = (\<lambda>k. replicate k 1)\<rparr>"

theorem requests_complete_witness:
  "(\<exists>s'. (tf_work tfx_snappy tfx_files ^^ 4) tfx_busy s' \<and> idle s') \<and>
   handle_message tfx_full tfx_files (compress_message 0) (entries tfx_working, fsys tfx_working) = Inl OutOfBounds"
proof -
  have "work_left tfx_busy = 4" by (simp add: work_left_def tfx_busy_def)
  moreover have "handle_message tfx_full tfx_files (compress_message 0) (entries tfx_working, fsys tfx_working) = Inl OutOfBounds"
    by (simp add: handle_message_def entry_at_def compress_message_def tfx_working_def tfx_busy_def claimed_def compress_file_def
        tfx_files_def tfx_full_def fprintf_s_def)
  ultimately show ?thesis
    using requests_complete [OF tfx_state_init tfx_busy_reached, of tfx_snappy tfx_files] tfx_no_crash by simp
qed

section \<open>The asynchronous client\<close>

text \<open>C21. The asynchronous mode of the client finishes a list of at most 100 files however few
  entries the shared memory has, unless the server stops: whatever the order of attempts, messages, workers and
  waiting threads, as long as a thread is not joined some step is possible or a worker has come to a file whose
  compression stops the server (one that exists and cannot be read, or whose output can be written and whose
  block of compressed data has no zero byte). Every step other than a failed attempt lowers the steps left by
  one, at most five per file are made, and at the end no entry is reserved. When no worker comes to such a file
  the client finishes. The paths must have an input folder and fit their buffers; the workers' pointer to their
  client is taken to be valid.\<close>

theorem async_client_completes:
  assumes "tf_init t" and "entries t \<noteq> []" and "length (fgets_lines text) \<le> 100"
    and "list_all (good_path dir_ok) (fgets_lines text)"
  shows "\<exists>s0. async_start text t = Inr s0 \<and> async_left s0 = 5 * length (fgets_lines text) \<and>
    (\<forall>s. (\<lambda>a b. async_step dir_ok z env a b \<or> async_retry dir_ok a b)\<^sup>*\<^sup>* s0 s \<longrightarrow>
       tf_inv (shared s) \<and> async_left s \<le> async_left s0 \<and>
       (\<not> all_joined s \<longrightarrow> crash_ahead z env (shared s) \<or> (\<exists>s'. async_step dir_ok z env s s')) \<and>
       (\<forall>s'. async_step dir_ok z env s s' \<longrightarrow> async_left s = Suc (async_left s')) \<and>
       (\<exists>n s'. (async_step dir_ok z env ^^ n) s s' \<and>
         (n = async_left s \<and> all_joined s' \<and> idle (shared s') \<or> n < async_left s \<and> crash_ahead z env (shared s'))) \<and>
       ((\<forall>s'. (async_step dir_ok z env)\<^sup>*\<^sup>* s s' \<longrightarrow> \<not> crash_ahead z env (shared s')) \<longrightarrow>
         (\<exists>s'. (async_step dir_ok z env ^^ async_left s) s s' \<and> all_joined s' \<and> idle (shared s'))))"
proof -
  let ?s0 = "\<lparr>file_path_list = fgets_lines text, next_file = 0, shared = t\<rparr>"
  have start: "async_start text t = Inr ?s0" using assms(3) by (simp add: async_start_def collect_files_eq)
  have init: "async_init dir_ok ?s0" using assms(1,2,4) by (simp add: async_init_def)
  have left: "async_left ?s0 = 5 * length (fgets_lines text)"
    using assms(1) by (simp add: async_left_def work_left_def tf_init_def)
  have "tf_inv (shared s) \<and> async_left s \<le> async_left ?s0 \<and>
      (\<not> all_joined s \<longrightarrow> crash_ahead z env (shared s) \<or> (\<exists>s'. async_step dir_ok z env s s')) \<and>
      (\<forall>s'. async_step dir_ok z env s s' \<longrightarrow> async_left s = Suc (async_left s')) \<and>
      (\<exists>n s'. (async_step dir_ok z env ^^ n) s s' \<and>
        (n = async_left s \<and> all_joined s' \<and> idle (shared s') \<or> n < async_left s \<and> crash_ahead z env (shared s'))) \<and>
      ((\<forall>s'. (async_step dir_ok z env)\<^sup>*\<^sup>* s s' \<longrightarrow> \<not> crash_ahead z env (shared s')) \<longrightarrow>
        (\<exists>s'. (async_step dir_ok z env ^^ async_left s) s s' \<and> all_joined s' \<and> idle (shared s')))"
    if "(\<lambda>a b. async_step dir_ok z env a b \<or> async_retry dir_ok a b)\<^sup>*\<^sup>* ?s0 s" for s
  proof -
    have inv: "async_inv dir_ok s" by (rule asy.reachable_inv [OF init that])
    then have "tf_inv (shared s)" by (simp add: async_inv_def)
    then show ?thesis
      using async_left_le [OF that init] async_progress [OF inv] async_step_inv [OF _ inv] asw.run_ends [OF inv]
        asw.completes_unblocked [OF inv] by (intro conjI) blast+
  qed
  with start left show ?thesis by blast
qed

theorem async_client_completes_witness:
  "\<exists>s0. async_start (''/input/a'' @ [CHR 10] @ ''/input/b'') tfx_state = Inr s0 \<and> async_left s0 = 10 \<and>
     (\<exists>s'. (async_step (\<lambda>d. True) tfx_snappy tfx_files ^^ 10) s0 s' \<and> all_joined s')"
proof -
  have l: "fgets_lines (''/input/a'' @ [CHR 10] @ ''/input/b'') = [''/input/a'', ''/input/b'']"
    by (simp add: fgets_lines.simps)
  have g: "list_all (good_path (\<lambda>d. True)) [''/input/a'', ''/input/b'']" by (simp add: good_path_def strstr.simps)
  let ?R = "\<lambda>a b. async_step (\<lambda>d. True) tfx_snappy tfx_files a b \<or> async_retry (\<lambda>d. True) a b"
  have "entries tfx_state \<noteq> []" by (simp add: tfx_state_def)
  moreover have "length [''/input/a'', ''/input/b''] \<le> 100" by simp
  ultimately
  obtain s0 where s0: "async_start (''/input/a'' @ [CHR 10] @ ''/input/b'') tfx_state = Inr s0" "async_left s0 = 5 * length [''/input/a'', ''/input/b'']"
    "\<And>s. ?R\<^sup>*\<^sup>* s0 s \<Longrightarrow> \<exists>s'. (async_step (\<lambda>d. True) tfx_snappy tfx_files ^^ async_left s) s s' \<and> all_joined s'"
    using async_client_completes [OF tfx_state_init, of "''/input/a'' @ [CHR 10] @ ''/input/b''" "\<lambda>d. True" tfx_snappy tfx_files, unfolded l] g
      tfx_no_crash by blast
  have "async_left s0 = 10" using s0(2) by simp
  with s0(1) s0(3) [OF rtranclp.rtrancl_refl] show ?thesis by auto
qed

section \<open>A whole client\<close>

text \<open>C22. A client in synchronous mode, run from its command line to its end with the worker threads of the
  server: the whole exchange (registration, reservation of an entry for each file of the list, message, treatment
  by a worker after any delay, waiting, unregistration) compresses the files of the list to their output paths
  one after the other, in order, and logs how many there were, with the elapsed time; the client has announced
  and withdrawn the queues and the memory named after its process. When the compression of one of them stops
  the server, the client waits for ever. The paths must have an input folder and fit their buffers; the system
  calls of the client succeed, and the server publishes the size and answers the unregistration.\<close>

theorem client_session:
  assumes "session_ok env max_size" and "m_outside env = served_by z fenv delay"
    and "client_option_loop opts client_options_start = Inr o1" and "call_method o1 = CHR ''s''"
    and "(if is_file_list o1 then opt_file_list_path o1 else opt_file_path o1) = Some p" and "m_fopen env p = Some text"
    and "files = (if is_file_list o1 then fgets_lines text else [p])" and "list_all (good_path (m_dir_ok env)) files"
  shows "case compress_all z fenv files fs of
      Inl e \<Rightarrow> client_main env list_async max_size opts (s, fs) = Inl SpinForever
    | Inr fs1 \<Rightarrow> \<exists>s'. client_main env list_async max_size opts (s, fs) =
        Inr (client_log_line o1 (int (length files)) p (elapsed (fst (m_clock env)) (snd (m_clock env))), s', fs1) \<and> mem s' = [] \<and>
      sent_registrations s' = sent_registrations s @
        [registration_of (c_getpid (m_client env)), (registration_of (c_getpid (m_client env)))\<lparr>command := UNREGISTER\<rparr>]"
  using assms by (rule session_sync)

definition tfx_session :: session_env where
  "tfx_session = \<lparr>m_shm = True, m_client = tfx_cenv, m_register_queue = True, m_sizes = (\<lambda>k. 248), m_dir_ok = (\<lambda>d. True),
     m_send_ok = True, m_outside = served_by tfx_snappy tfx_files (\<lambda>msg s. 3), m_others = (\<lambda>k m. m),
     m_fopen = (\<lambda>p. Some (''/input/a'' @ [CHR 10] @ ''/input/b'')), m_answers = (\<lambda>k. True), m_log_opens = True,
     m_clock = ((1, 999999999), (3, 0))\<rparr>"

lemma tfx_session_ok: "session_ok tfx_session 248"
proof -
  have "wait_size (m_sizes tfx_session) 0 = Some 248" by (simp add: tfx_session_def wait_size.simps)
  moreover have "client_env_ok (m_client tfx_session)" by (simp add: client_env_ok_def tfx_session_def tfx_cenv_def)
  moreover have "0 < num_entries 248" by (simp add: num_entries_def)
  ultimately show ?thesis by (simp add: session_ok_def) (simp add: tfx_session_def)
qed

definition tfx_inputs :: files where
  "tfx_inputs = [''/input/a'' \<mapsto> [7, 8], ''/input/b'' \<mapsto> [9]]"

lemma tfx_compressed:
  "compress_all tfx_snappy tfx_files [''/input/a'', ''/input/b''] tfx_inputs =
     Inr (tfx_inputs(''/output/a_compressed'' \<mapsto> [5, 7, 8], ''/output/b_compressed'' \<mapsto> [5, 9]))"
  by (simp add: compress_file_def output_of_def output_path_def strstr.simps tfx_inputs_def tfx_snappy_def tfx_files_def fprintf_s_def)

theorem client_session_witness:
  "\<exists>s' fs1. client_main tfx_session (\<lambda>_ x. Inr (0, x)) 248 [(CHR ''s'', ''SYNC''), (CHR ''l'', ''files'')] (tfx_cstate, tfx_inputs) =
     Inr (''SYNC,2,files,1,1'' @ [CHR 10], s', fs1) \<and> length (sent_registrations s') = 2 \<and>
     fs1 ''/output/a_compressed'' = Some [5, 7, 8] \<and> fs1 ''/output/b_compressed'' = Some [5, 9]"
proof -
  let ?o = "\<lparr>opt_file_path = None, opt_file_list_path = Some ''files'', call_method = CHR ''s'', is_file_list = True\<rparr>"
  have l: "fgets_lines (''/input/a'' @ [CHR 10] @ ''/input/b'') = [''/input/a'', ''/input/b'']"
    by (simp add: fgets_lines.simps)
  have o: "client_option_loop [(CHR ''s'', ''SYNC''), (CHR ''l'', ''files'')] client_options_start = Inr ?o"
    by (simp add: client_options_start_def)
  have g: "list_all (good_path (m_dir_ok tfx_session)) [''/input/a'', ''/input/b'']"
    by (simp add: good_path_def strstr.simps tfx_session_def)
  have f: "m_fopen tfx_session ''files'' = Some (''/input/a'' @ [CHR 10] @ ''/input/b'')" by (simp add: tfx_session_def)
  have srv: "m_outside tfx_session = served_by tfx_snappy tfx_files (\<lambda>msg s. 3)" by (simp add: tfx_session_def)
  have line: "client_log_line ?o (int (length [''/input/a'', ''/input/b''])) ''files'' (elapsed (fst (m_clock tfx_session)) (snd (m_clock tfx_session))) =
      ''SYNC,2,files,1,1'' @ [CHR 10]"
    by (simp add: client_log_line_def elapsed_def tfx_session_def show_int_def show_nat.simps digit_char_def char_of_def bit_simps)
  have "[''/input/a'', ''/input/b''] = (if is_file_list ?o then fgets_lines (''/input/a'' @ [CHR 10] @ ''/input/b'') else [''files''])"
      "(if is_file_list ?o then opt_file_list_path ?o else opt_file_path ?o) = Some ''files''" "call_method ?o = CHR ''s''"
    using l by simp_all
  note client_session [OF tfx_session_ok srv o this(3,2) f this(1) g, where list_async = "\<lambda>_ x. Inr (0, x)" and s = tfx_cstate and fs = tfx_inputs]
  from this [unfolded tfx_compressed sum.case line] show ?thesis by (auto simp: tfx_cstate_def)
qed

end
