(* ===== verification/FS_Core.thy ===== *)
theory FS_Core
  imports C_String TF_Common
begin

text \<open>
  GTFileSystem (Assignment_3, gtfs.cpp and gtfs.hpp): a library that logs writes to files before it
  applies them. The state has the disk (regular files by path, each a sequence of bytes), the objects
  that the library allocates and its four maps. Results of the calls that open, lock or close are
  parameters; the advisory locks are taken and released within one call of the library and leave nothing
  behind; how they keep several processes apart is in \<open>FS_Procs\<close>.

  A pointer to a buffer of the application is an address, with the bytes of the buffer in \<open>bufs\<close>; as a
  string it ends at its first zero byte.
\<close>

subsection \<open>State\<close>

definition MAX_FILENAME_LEN :: nat where [simp]: "MAX_FILENAME_LEN = 255"
definition MAX_NUM_FILES_PER_DIR :: nat where [simp]: "MAX_NUM_FILES_PER_DIR = 1024"

record gtfs_t =
  dirname :: string

record file_t =
  filename :: string
  file_length :: int
  is_open :: int

record write_t =
  w_filename :: string
  w_offset :: int
  w_length :: int
  w_data :: nat
  full_file_path :: string
  full_log_path :: string

record fs_state =
  disk :: "string \<Rightarrow> string option"
  is_dir :: "string \<Rightarrow> bool"
  bufs :: "nat \<Rightarrow> string"
  gtfs_objs :: "nat \<Rightarrow> gtfs_t option"
  file_objs :: "nat \<Rightarrow> file_t option"
  write_objs :: "nat \<Rightarrow> write_t option"
  directory_gtfs_mapping :: "string \<Rightarrow> nat option"
  file_log_updates_mapping :: "string \<Rightarrow> nat list option"
  filename_file_t_mapping :: "string \<Rightarrow> nat option"
  directory_files_mapping :: "string \<Rightarrow> string list"

datatype lock_type = F_WRLCK | F_UNLCK

record fs_env =
  open_ok :: "string \<Rightarrow> bool"
  fcntl :: "lock_type \<Rightarrow> string \<Rightarrow> int"
  closedir_ok :: bool

text \<open>The lock on a whole file is asked for and awaited; the callers ignore the result of its release.\<close>

definition lockFile :: "fs_env \<Rightarrow> string \<Rightarrow> bool" where
  "lockFile env p = (fcntl env F_WRLCK p \<noteq> -1)"

definition path :: "string \<Rightarrow> string \<Rightarrow> string" where
  "path dir name = dir @ ''/'' @ name"

definition log_path :: "string \<Rightarrow> string \<Rightarrow> string" where
  "log_path dir name = dir @ ''/'' @ name @ ''.log''"

text \<open>Access to an object through a pointer that may be null.\<close>

definition obj :: "(nat \<Rightarrow> 'a option) \<Rightarrow> nat \<Rightarrow> ('a \<Rightarrow> 'b res) \<Rightarrow> 'b res" where
  "obj h p f = (case h p of None \<Rightarrow> Inl Undefined | Some x \<Rightarrow> f x)"

text \<open>Bytes written at an offset; a gap beyond the end is filled with zero bytes.\<close>

definition write_at :: "nat \<Rightarrow> string \<Rightarrow> string \<Rightarrow> string" where
  "write_at off bytes content =
     (if bytes = [] then content
      else take off (content @ replicate (off - length content) NUL) @ bytes @ drop (off + length bytes) content)"

subsection \<open>Initialisation\<close>

definition gtfs_init :: "nat \<Rightarrow> string \<Rightarrow> fs_state \<Rightarrow> (nat option \<times> fs_state) res" where
  "gtfs_init new directory s =
     (let s1 = s\<lparr>gtfs_objs := (gtfs_objs s)(new \<mapsto> \<lparr>dirname = directory\<rparr>)\<rparr>
      in if \<not> is_dir s1 directory then Inr (None, s1)
         else case directory_gtfs_mapping s1 directory of
                Some g \<Rightarrow> Inr (Some g, s1)
              | None \<Rightarrow> Inr (Some new, s1\<lparr>directory_gtfs_mapping := (directory_gtfs_mapping s1)(directory \<mapsto> new)\<rparr>))"

subsection \<open>The log\<close>

text \<open>The line that a write leaves in the log, without its end.\<close>

definition log_line :: "string \<Rightarrow> int \<Rightarrow> int \<Rightarrow> string \<Rightarrow> string" where
  "log_line name offset len data = name @ ''|'' @ show_int offset @ ''|'' @ show_int len @ ''|'' @ data"

definition nth_field :: "string list \<Rightarrow> nat \<Rightarrow> string res" where
  "nth_field log_data k = (if k < length log_data then Inr (log_data ! k) else Inl OutOfBounds)"

definition parse_line :: "string \<Rightarrow> (string \<times> int \<times> int \<times> string) res" where
  "parse_line line =
     (let log_data = getlines (CHR ''|'') line
      in rbind (nth_field log_data 0) (\<lambda>name.
         rbind (nth_field log_data 1) (\<lambda>o_text.
         rbind (stoi o_text) (\<lambda>offset.
         rbind (nth_field log_data 2) (\<lambda>l_text.
         rbind (stoi l_text) (\<lambda>len.
         rbind (nth_field log_data 3) (\<lambda>data.
         Inr (name, offset, len, data @ ''\<newline>''))))))))"

text \<open>\<open>fs.seekp(offset); fs.write(data.c_str(), length)\<close>: a stream on a missing file, or after a seek to a
  negative position, writes nothing; the string has one byte beyond its characters, its terminator.\<close>

definition stream_write :: "string \<Rightarrow> int \<Rightarrow> int \<Rightarrow> string \<Rightarrow> (string \<Rightarrow> string option) \<Rightarrow> (string \<Rightarrow> string option) res" where
  "stream_write p offset len data dsk =
     (case dsk p of
        None \<Rightarrow> Inr dsk
      | Some content \<Rightarrow>
          if offset < 0 then Inr dsk
          else if len < 0 then Inl Undefined
          else if nat len \<le> length data + 1
               then Inr (dsk(p \<mapsto> write_at (nat offset) (take (nat len) (data @ [NUL])) content))
               else Inl OutOfBounds)"

definition apply_line :: "string \<Rightarrow> string \<Rightarrow> (string \<Rightarrow> string option) \<Rightarrow> (string \<Rightarrow> string option) res" where
  "apply_line dir line dsk =
     (if line = [] then Inr dsk
      else rbind (parse_line line) (\<lambda>(name, offset, len, data). stream_write (path dir name) offset len data dsk))"

fun apply_lines :: "string \<Rightarrow> string list \<Rightarrow> (string \<Rightarrow> string option) \<Rightarrow> (string \<Rightarrow> string option) res" where
  "apply_lines dir [] dsk = Inr dsk"
| "apply_lines dir (line # lines) dsk = rbind (apply_line dir line dsk) (apply_lines dir lines)"

definition sync_log_to_file :: "string \<Rightarrow> string \<Rightarrow> string \<Rightarrow> fs_state \<Rightarrow> (int \<times> fs_state) res" where
  "sync_log_to_file dir file_path logfile_path s =
     (if disk s file_path = None then Inr (-1, s)
      else case disk s logfile_path of
             None \<Rightarrow> Inr (-1, s)
           | Some text \<Rightarrow>
               rbind (apply_lines dir (getlines (CHR ''\<newline>'') text) (disk s)) (\<lambda>d. Inr (0, s\<lparr>disk := d\<rparr>)))"

text \<open>\<open>gtfs_clean\<close> goes through the entries of the directory in the order of \<open>readdir\<close>; the null pointer of
  the library is \<open>None\<close>.\<close>

fun clean_entries :: "string \<Rightarrow> string list \<Rightarrow> fs_state \<Rightarrow> (int \<times> fs_state) res" where
  "clean_entries dir [] s = Inr (0, s)"
| "clean_entries dir (name # names) s =
     (if strstr name ''.txt'' = None then clean_entries dir names s
      else if strstr name ''.log'' \<noteq> None then clean_entries dir names s
      else rbind (sync_log_to_file dir (path dir name) (log_path dir name) s) (\<lambda>(rc, s1).
           if rc = -1 then Inr (-1, s1)
           else clean_entries dir names (s1\<lparr>disk := (disk s1)(log_path dir name \<mapsto> [])\<rparr>)))"

definition gtfs_clean :: "fs_env \<Rightarrow> string list \<Rightarrow> nat option \<Rightarrow> fs_state \<Rightarrow> (int \<times> fs_state) res" where
  "gtfs_clean env dir_entries gtfs s =
     (case gtfs of
        None \<Rightarrow> Inr (-1, s)
      | Some g \<Rightarrow>
          obj (gtfs_objs s) g (\<lambda>go.
          if \<not> is_dir s (dirname go) then Inr (-1, s)
          else rbind (clean_entries (dirname go) dir_entries s) (\<lambda>(rc, s1).
               if rc = -1 then Inr (-1, s1)
               else let s2 = s1\<lparr>file_log_updates_mapping := (\<lambda>_. None)\<rparr>
                    in Inr (if closedir_ok env then 0 else -1, s2))))"

subsection \<open>Files\<close>

text \<open>\<open>open\<close> with \<open>O_CREAT\<close>.\<close>

definition created :: "string \<Rightarrow> fs_state \<Rightarrow> fs_state" where
  "created p s = (if disk s p = None then s\<lparr>disk := (disk s)(p \<mapsto> [])\<rparr> else s)"

text \<open>The insertion of a new file into the two maps.\<close>

definition recorded :: "nat \<Rightarrow> string \<Rightarrow> string \<Rightarrow> int \<Rightarrow> fs_state \<Rightarrow> fs_state" where
  "recorded new dir name len s =
     s\<lparr>file_objs := (file_objs s)(new \<mapsto> \<lparr>filename = name, file_length = len, is_open = 1\<rparr>),
       filename_file_t_mapping := (filename_file_t_mapping s)(name \<mapsto> new),
       directory_files_mapping := (directory_files_mapping s)(dir := directory_files_mapping s dir @ [name])\<rparr>"

text \<open>The two branches of \<open>gtfs_open_file\<close>: a file that the library knows, and a new one, whose log is applied
  when there is one and then cleared.\<close>

definition open_known :: "nat \<Rightarrow> int \<Rightarrow> fs_state \<Rightarrow> (nat option \<times> fs_state) res" where
  "open_known p len s =
     obj (file_objs s) p (\<lambda>fl.
     if file_length fl > len then Inr (None, s)
     else Inr (Some p, s\<lparr>file_objs := (file_objs s)(p \<mapsto> fl\<lparr>file_length := len, is_open := 1\<rparr>)\<rparr>))"

definition open_new :: "nat \<Rightarrow> string \<Rightarrow> string \<Rightarrow> int \<Rightarrow> fs_state \<Rightarrow> (nat option \<times> fs_state) res" where
  "open_new new dir name len s =
     (let lpath = log_path dir name;
          s1 = recorded new dir name len (created (path dir name) s)
      in rbind (if disk s1 lpath \<noteq> None then sync_log_to_file dir name lpath s1 else Inr (0, s1)) (\<lambda>(rc, s2).
         if rc = -1 then Inr (None, s2)
         else Inr (Some new, s2\<lparr>disk := (disk s2)(lpath \<mapsto> []),
                file_log_updates_mapping := (file_log_updates_mapping s2)(name := None)\<rparr>)))"

definition gtfs_open_file ::
  "fs_env \<Rightarrow> nat \<Rightarrow> nat option \<Rightarrow> string \<Rightarrow> int \<Rightarrow> fs_state \<Rightarrow> (nat option \<times> fs_state) res" where
  "gtfs_open_file env new gtfs name len s =
     (case gtfs of
        None \<Rightarrow> Inr (None, s)
      | Some g \<Rightarrow>
          obj (gtfs_objs s) g (\<lambda>go.
          let dir = dirname go; fpath = path dir name
          in if length name > MAX_FILENAME_LEN then Inr (None, s)
             else if length (directory_files_mapping s dir) > MAX_NUM_FILES_PER_DIR then Inr (None, s)
             else if \<not> open_ok env fpath then Inr (None, s)
             else if \<not> lockFile env fpath then Inr (None, created fpath s)
             else case filename_file_t_mapping s name of
                    Some p \<Rightarrow> open_known p len (created fpath s)
                  | None \<Rightarrow> open_new new dir name len (created fpath s)))"

definition gtfs_close_file :: "nat option \<Rightarrow> nat option \<Rightarrow> fs_state \<Rightarrow> (int \<times> fs_state) res" where
  "gtfs_close_file gtfs fl s =
     (case (gtfs, fl) of
        (Some g, Some p) \<Rightarrow>
          obj (file_objs s) p (\<lambda>fo.
          if is_open fo = 0 then Inr (-1, s)
          else Inr (0, s\<lparr>file_objs := (file_objs s)(p \<mapsto> fo\<lparr>is_open := 0\<rparr>)\<rparr>))
      | _ \<Rightarrow> Inr (-1, s))"

definition gtfs_remove_file :: "fs_env \<Rightarrow> nat option \<Rightarrow> nat option \<Rightarrow> fs_state \<Rightarrow> (int \<times> fs_state) res" where
  "gtfs_remove_file env gtfs fl s =
     (case (gtfs, fl) of
        (Some g, Some p) \<Rightarrow>
          obj (gtfs_objs s) g (\<lambda>go.
          obj (file_objs s) p (\<lambda>fo.
          let dir = dirname go; name = filename fo; fpath = path dir name; lpath = log_path dir name
          in if is_open fo = 1 then Inr (-1, s)
             else if disk s fpath = None \<or> \<not> open_ok env fpath then Inr (-1, s)
             else if \<not> lockFile env fpath then Inr (-1, s)
             else
               let s1 = s\<lparr>disk := (disk s)(fpath := None)\<rparr>
               in if disk s1 lpath = None then Inr (-1, s1)
                  else Inr (0, s1\<lparr>disk := (disk s1)(lpath := None),
                         filename_file_t_mapping := (filename_file_t_mapping s1)(name := None),
                         file_log_updates_mapping := (file_log_updates_mapping s1)(name := None),
                         directory_files_mapping := (directory_files_mapping s1)
                           (dir := remove1 name (directory_files_mapping s1 dir))\<rparr>)))
      | _ \<Rightarrow> Inr (-1, s))"

subsection \<open>Reading and writing\<close>

text \<open>The result of \<open>gtfs_read_file\<close>: the null pointer, an empty string, the buffer of a logged write, or new
  memory with bytes of the file.\<close>

datatype read_result = Read_null | Read_empty | Read_log nat | Read_file string

text \<open>The loop over the logged writes of the file.\<close>

fun find_log :: "(nat \<Rightarrow> write_t option) \<Rightarrow> int \<Rightarrow> int \<Rightarrow> nat list \<Rightarrow> nat option res" where
  "find_log h offset len [] = Inr None"
| "find_log h offset len (w # ws) =
     obj h w (\<lambda>wo. if w_offset wo = offset \<and> w_length wo = len then Inr (Some (w_data wo)) else find_log h offset len ws)"

text \<open>The bytes read from the file, before the terminator is stored at index \<open>length\<close> of an array of
  \<open>length\<close> characters; the sum of the two \<open>int\<close> parameters may overflow.\<close>

definition read_from_file :: "int \<Rightarrow> int \<Rightarrow> string \<Rightarrow> read_result res" where
  "read_from_file offset len content =
     (if offset > int (length content) then Inr Read_empty
      else if offset + len > 2147483647 then Inl Undefined
      else if offset + len > int (length content) then Inr Read_empty
      else in_bounds (nat len) (nat len) (Inr (Read_file (take (nat len) (drop (nat offset) content)))))"

definition gtfs_read_file :: "nat option \<Rightarrow> nat option \<Rightarrow> int \<Rightarrow> int \<Rightarrow> fs_state \<Rightarrow> read_result res" where
  "gtfs_read_file gtfs fl offset len s =
     (if len < 0 then Inl Uncaught
      else case (gtfs, fl) of
        (Some g, Some p) \<Rightarrow>
          obj (gtfs_objs s) g (\<lambda>go.
          obj (file_objs s) p (\<lambda>fo.
          rbind (case file_log_updates_mapping s (filename fo) of
                   None \<Rightarrow> Inr None
                 | Some logs \<Rightarrow> find_log (write_objs s) offset len logs) (\<lambda>found.
          case found of
            Some d \<Rightarrow> Inr (Read_log d)
          | None \<Rightarrow>
              (case disk s (path (dirname go) (filename fo)) of
                 None \<Rightarrow> Inr Read_null
               | Some content \<Rightarrow> read_from_file offset len content))))
      | _ \<Rightarrow> Inr Read_null)"

definition gtfs_write_file ::
  "nat \<Rightarrow> nat option \<Rightarrow> nat option \<Rightarrow> int \<Rightarrow> int \<Rightarrow> nat \<Rightarrow> fs_state \<Rightarrow> (nat option \<times> fs_state) res" where
  "gtfs_write_file new gtfs fl offset len data s =
     (case (gtfs, fl) of
        (Some g, Some p) \<Rightarrow>
          obj (gtfs_objs s) g (\<lambda>go.
          obj (file_objs s) p (\<lambda>fo.
          let w = \<lparr>w_filename = filename fo, w_offset = offset, w_length = len, w_data = data,
                   full_file_path = path (dirname go) (filename fo), full_log_path = log_path (dirname go) (filename fo)\<rparr>;
              logs = (case file_log_updates_mapping s (filename fo) of None \<Rightarrow> [] | Some l \<Rightarrow> l) @ [new]
          in Inr (Some new, s\<lparr>write_objs := (write_objs s)(new \<mapsto> w),
                    file_log_updates_mapping := (file_log_updates_mapping s)(filename fo \<mapsto> logs)\<rparr>)))
      | _ \<Rightarrow> Inr (None, s))"

text \<open>The second half of \<open>gtfs_sync_write_file\<close>: a failing \<open>lseek\<close> leaves the position at 0, and \<open>write\<close> takes
  as many bytes from the buffer as it is told.\<close>

definition sync_data :: "fs_env \<Rightarrow> write_t \<Rightarrow> fs_state \<Rightarrow> (int \<times> fs_state) res" where
  "sync_data env w s =
     (case disk s (full_file_path w) of
        None \<Rightarrow> Inr (-1, s)
      | Some content \<Rightarrow>
          if \<not> open_ok env (full_file_path w) \<or> \<not> lockFile env (full_file_path w) then Inr (-1, s)
          else if w_length w < 0 then Inr (-1, s)
          else if nat (w_length w) > length (bufs s (w_data w)) then Inl OutOfBounds
          else Inr (w_length w, s\<lparr>disk := (disk s)(full_file_path w \<mapsto>
                 write_at (nat (w_offset w)) (take (nat (w_length w)) (bufs s (w_data w))) content)\<rparr>))"

definition gtfs_sync_write_file :: "fs_env \<Rightarrow> nat option \<Rightarrow> fs_state \<Rightarrow> (int \<times> fs_state) res" where
  "gtfs_sync_write_file env write_id s =
     (case write_id of
        None \<Rightarrow> Inr (-1, s)
      | Some i \<Rightarrow>
          obj (write_objs s) i (\<lambda>w.
          if \<not> open_ok env (full_log_path w) then Inr (-1, s)
          else
            let old = (case disk s (full_log_path w) of None \<Rightarrow> [] | Some t \<Rightarrow> t);
                s1 = s\<lparr>disk := (disk s)(full_log_path w \<mapsto> old)\<rparr>
            in if \<not> lockFile env (full_log_path w) then Inr (-1, s1)
               else
                 let log_data = log_line (w_filename w) (w_offset w) (w_length w) (c_str (bufs s (w_data w)))
                 in sync_data env w (s1\<lparr>disk := (disk s1)(full_log_path w \<mapsto> old @ log_data @ ''\<newline>'')\<rparr>)))"

text \<open>The loop of \<open>gtfs_abort_write_file\<close> that erases the first matching write.\<close>

fun erase_log :: "(nat \<Rightarrow> write_t option) \<Rightarrow> write_t \<Rightarrow> nat list \<Rightarrow> nat list res" where
  "erase_log h w [] = Inr []"
| "erase_log h w (x # xs) =
     obj h x (\<lambda>wo.
     if w_offset wo = w_offset w \<and> w_length wo = w_length w \<and> w_data wo = w_data w then Inr xs
     else rbind (erase_log h w xs) (\<lambda>r. Inr (x # r)))"

definition gtfs_abort_write_file :: "nat option \<Rightarrow> fs_state \<Rightarrow> (int \<times> fs_state) res" where
  "gtfs_abort_write_file write_id s =
     (case write_id of
        None \<Rightarrow> Inr (-1, s)
      | Some i \<Rightarrow>
          obj (write_objs s) i (\<lambda>w.
          case file_log_updates_mapping s (w_filename w) of
            None \<Rightarrow> Inr (-1, s)
          | Some logs \<Rightarrow>
              rbind (erase_log (write_objs s) w logs) (\<lambda>logs'.
              Inr (0, s\<lparr>file_log_updates_mapping := (file_log_updates_mapping s)(w_filename w \<mapsto> logs')\<rparr>))))"

text \<open>The two calls that are declared as extensions do nothing.\<close>

definition gtfs_clean_n_bytes :: "nat option \<Rightarrow> int \<Rightarrow> fs_state \<Rightarrow> int \<times> fs_state" where
  "gtfs_clean_n_bytes gtfs bytes s = (-1, s)"

definition gtfs_sync_write_file_n_bytes :: "nat option \<Rightarrow> int \<Rightarrow> fs_state \<Rightarrow> int \<times> fs_state" where
  "gtfs_sync_write_file_n_bytes write_id bytes s = (-1, s)"

end
