(* ===== verification/FS_Log.thy ===== *)
theory FS_Log
  imports FS_Core
begin

text \<open>
  The log of GTFileSystem: a line is read back as it was written, a log is replayed as the sequence of
  its writes, and replaying is idempotent, so that the clean-up repairs a file to which any part of its
  logged writes was applied.
\<close>

subsection \<open>Lines\<close>

text \<open>What the log can represent: data that are not empty, with at most one line end, at their end, and
  without the separator.\<close>

definition body_of :: "string \<Rightarrow> string" where
  "body_of data = (if data \<noteq> [] \<and> last data = CHR ''\<newline>'' then butlast data else data)"

definition loggable :: "string \<Rightarrow> bool" where
  "loggable data \<longleftrightarrow> body_of data \<noteq> [] \<and> CHR ''|'' \<notin> set (body_of data) \<and> CHR ''\<newline>'' \<notin> set (body_of data) \<and>
     NUL \<notin> set data \<and> length data < 2 ^ 31"

definition name_ok :: "string \<Rightarrow> bool" where
  "name_ok name \<longleftrightarrow> CHR ''|'' \<notin> set name \<and> CHR ''\<newline>'' \<notin> set name"

lemma body_cases: "data = body_of data \<or> data = body_of data @ ''\<newline>''"
  by (auto simp: body_of_def) (metis append_butlast_last_id)

lemma parse_log_line:
  assumes "CHR ''|'' \<notin> set name" and "0 \<le> off" "off < 2 ^ 31" and "0 \<le> len" "len < 2 ^ 31"
    and "CHR ''|'' \<notin> set body" and "body \<noteq> []"
  shows "parse_line (log_line name off len body) = Inr (name, off, len, body @ ''\<newline>'')"
proof -
  have f: "CHR ''|'' \<notin> set (show_int i)" for i using show_int_chars by blast
  have "getlines (CHR ''|'') (log_line name off len body) = [name, show_int off, show_int len, body]"
    unfolding log_line_def
    by (simp add: getlines_field [OF assms(1)] getlines_field [OF f] getlines_field(2) [OF assms(6,7)])
  moreover have "stoi (show_int off) = Inr off" "stoi (show_int len) = Inr len"
    using stoi_show_int [of off "[]"] stoi_show_int [of len "[]"] assms(2-5) by simp_all
  ultimately show ?thesis by (simp add: parse_line_def nth_field_def)
qed

lemma log_line_no_newline:
  "name_ok name \<Longrightarrow> CHR ''\<newline>'' \<notin> set body \<Longrightarrow> CHR ''\<newline>'' \<notin> set (log_line name off len body)"
  using show_int_chars by (auto simp: log_line_def name_ok_def)

subsection \<open>Writes\<close>

definition view :: "string \<Rightarrow> nat \<Rightarrow> char" where
  "view c i = (if i < length c then c ! i else NUL)"

lemma content_eqI: "length c = length d \<Longrightarrow> (\<And>i. view c i = view d i) \<Longrightarrow> c = d"
  unfolding view_def by (rule nth_equalityI, simp) (metis (full_types))

lemma length_write_at: "length (write_at off bs c) = (if bs = [] then length c else max (length c) (off + length bs))"
  by (auto simp: write_at_def)

lemma view_append: "view (xs @ ys) i = (if i < length xs then xs ! i else view ys (i - length xs))"
  by (auto simp: view_def nth_append)

lemma view_drop: "view (drop n c) i = view c (n + i)"
  by (auto simp: view_def)

lemma view_write_at: "view (write_at off bs c) i = (if off \<le> i \<and> i < off + length bs then bs ! (i - off) else view c i)"
proof (cases "bs = []")
  case False
  let ?h = "take off (c @ replicate (off - length c) NUL)"
  have h: "length ?h = off" by simp
  have hi: "?h ! i = view c i" if "i < off" using that by (simp add: view_def nth_append)
  have w: "write_at off bs c = ?h @ bs @ drop (off + length bs) c" using False by (simp add: write_at_def)
  show ?thesis unfolding w view_append h view_drop using hi
    by (auto simp: not_less)
qed (auto simp: write_at_def)

type_synonym logged = "nat \<times> string"

definition replay :: "logged list \<Rightarrow> string \<Rightarrow> string" where
  "replay ws c = fold (\<lambda>(off, bs). write_at off bs) ws c"

lemma replay_simps [simp]: "replay [] c = c" "replay ((off, bs) # ws) c = replay ws (write_at off bs c)"
  "replay (ws @ vs) c = replay vs (replay ws c)"
  by (simp_all add: replay_def)

text \<open>The byte that the last write covering a position leaves there, and the end of the writes.\<close>

definition cover :: "logged list \<Rightarrow> nat \<Rightarrow> char option" where
  "cover ws i = fold (\<lambda>(off, bs) acc. if off \<le> i \<and> i < off + length bs then Some (bs ! (i - off)) else acc) ws None"

definition extent :: "logged list \<Rightarrow> nat" where
  "extent ws = fold (\<lambda>(off, bs) acc. if bs = [] then acc else max acc (off + length bs)) ws 0"

lemma view_replay: "view (replay ws c) i = (case cover ws i of None \<Rightarrow> view c i | Some b \<Rightarrow> b)"
proof (induction ws rule: rev_induct)
  case (snoc w ws)
  then show ?case by (cases w) (simp add: view_write_at cover_def)
qed (simp add: cover_def)

lemma length_replay: "length (replay ws c) = max (length c) (extent ws)"
proof (induction ws rule: rev_induct)
  case (snoc w ws)
  then show ?case by (cases w) (simp add: length_write_at extent_def max.assoc)
qed (simp add: extent_def)

lemma cover_None: "cover ws i = None \<longleftrightarrow> (\<forall>(off, bs)\<in>set ws. \<not> (off \<le> i \<and> i < off + length bs))"
proof (induction ws rule: rev_induct)
  case (snoc w ws)
  then show ?case by (cases w) (auto simp: cover_def)
qed (simp add: cover_def)

lemma extent_le: "extent ws \<le> n \<longleftrightarrow> (\<forall>(off, bs)\<in>set ws. bs = [] \<or> off + length bs \<le> n)"
proof (induction ws rule: rev_induct)
  case (snoc w ws)
  then show ?case by (cases w) (auto simp: extent_def)
qed (simp add: extent_def)

text \<open>Replaying repairs a file to which some of the writes were applied, in whatever order.\<close>

lemma replay_repairs:
  assumes "set us \<subseteq> set ws"
  shows "replay ws (replay us c) = replay ws c"
proof (rule content_eqI)
  have "extent us \<le> extent ws" using assms extent_le [of us "extent ws"] extent_le [of ws "extent ws"] by auto
  then show "length (replay ws (replay us c)) = length (replay ws c)" by (simp add: length_replay)
  fix i
  have "cover us i = None" if "cover ws i = None" using that assms by (auto simp: cover_None)
  then show "view (replay ws (replay us c)) i = view (replay ws c) i"
    by (auto simp: view_replay split: option.split)
qed

subsection \<open>Logs\<close>

definition log_entry :: "string \<Rightarrow> logged \<Rightarrow> string" where
  "log_entry name w = log_line name (int (fst w)) (int (length (snd w))) (snd w) @ ''\<newline>''"

definition log_text :: "string \<Rightarrow> logged list \<Rightarrow> string" where
  "log_text name ws = concat (map (log_entry name) ws)"

definition logged_ok :: "logged \<Rightarrow> bool" where
  "logged_ok w \<longleftrightarrow> loggable (snd w) \<and> fst w < 2 ^ 31"

lemma apply_log_entry:
  assumes ok: "name_ok name" "logged_ok w" and d: "d (path dir name) = Some c"
  shows "apply_lines dir (getlines (CHR ''\<newline>'') (log_entry name w @ rest)) d =
    apply_lines dir (getlines (CHR ''\<newline>'') rest) (d(path dir name \<mapsto> write_at (fst w) (snd w) c))"
proof -
  obtain off data where w: "w = (off, data)" by (cases w)
  let ?b = "body_of data" and ?l = "log_line name (int off) (int (length data)) (body_of data)"
  have l: "?b \<noteq> []" "CHR ''|'' \<notin> set ?b" "CHR ''\<newline>'' \<notin> set ?b" "length data < 2 ^ 31" "off < 2 ^ 31"
    using ok(2) by (simp_all add: w logged_ok_def loggable_def)
  have nl: "CHR ''\<newline>'' \<notin> set ?l" using log_line_no_newline [OF ok(1) l(3)] .
  have lines: "getlines (CHR ''\<newline>'') (log_entry name w @ rest) =
      ?l # (if data = ?b then [] else [[]]) @ getlines (CHR ''\<newline>'') rest"
  proof (cases "data = ?b")
    case True
    then have "log_entry name w @ rest = ?l @ CHR ''\<newline>'' # rest" by (simp add: log_entry_def w)
    with True nl show ?thesis by (simp add: getlines_field)
  next
    case False
    then have "data = ?b @ ''\<newline>''" using body_cases by blast
    then have "log_entry name w @ rest = ?l @ CHR ''\<newline>'' # [] @ CHR ''\<newline>'' # rest"
      by (simp add: log_entry_def w log_line_def)
    moreover have "getlines (CHR ''\<newline>'') ([] @ CHR ''\<newline>'' # rest) = [] # getlines (CHR ''\<newline>'') rest"
      by (rule getlines_field) simp
    ultimately show ?thesis using False nl by (simp add: getlines_field)
  qed
  have "parse_line ?l = Inr (name, int off, int (length data), ?b @ ''\<newline>'')"
    using ok(1) l by (intro parse_log_line) (simp_all add: name_ok_def)
  moreover have "take (length data) ((?b @ ''\<newline>'') @ [NUL]) = data" "length data \<le> length (?b @ ''\<newline>'') + 1"
  proof -
    have "take (length data) ((?b @ ''\<newline>'') @ [NUL]) = data \<and> length data \<le> length (?b @ ''\<newline>'') + 1"
    proof (cases "data = ?b")
      case True
      then have "length data = length ?b" by simp
      then show ?thesis using True by simp
    next
      case False
      then have "data = ?b @ ''\<newline>''" using body_cases by blast
      then have "length data = length (?b @ ''\<newline>'')" by (rule arg_cong)
      then show ?thesis using \<open>data = ?b @ ''\<newline>''\<close> by (simp del: append_assoc)
    qed
    then show "take (length data) ((?b @ ''\<newline>'') @ [NUL]) = data" "length data \<le> length (?b @ ''\<newline>'') + 1"
      by blast+
  qed
  moreover have "?l \<noteq> []" by (simp add: log_line_def)
  ultimately have "apply_line dir ?l d = Inr (d(path dir name \<mapsto> write_at off data c))"
    using d by (simp add: apply_line_def stream_write_def)
  moreover have "apply_line dir [] d' = Inr d'" for d' by (simp add: apply_line_def)
  ultimately show ?thesis unfolding lines by (simp add: w)
qed

lemma apply_log_text:
  assumes "name_ok name" and "list_all logged_ok ws" and "d (path dir name) = Some c"
  shows "apply_lines dir (getlines (CHR ''\<newline>'') (log_text name ws)) d = Inr (d(path dir name \<mapsto> replay ws c))"
  using assms(2,3)
proof (induction ws arbitrary: d c)
  case Nil
  then show ?case by (simp add: log_text_def fun_upd_idem)
next
  case (Cons w ws)
  have "log_text name (w # ws) = log_entry name w @ log_text name ws" by (simp add: log_text_def)
  moreover have "replay (w # ws) c = replay ws (write_at (fst w) (snd w) c)" by (cases w) simp
  ultimately show ?case using Cons apply_log_entry [of name w d dir c, OF assms(1)] by (simp add: fun_eq_iff)
qed

subsection \<open>The clean-up\<close>

text \<open>A data file, as the clean-up recognises it.\<close>

definition data_name :: "string \<Rightarrow> bool" where
  "data_name name \<longleftrightarrow> strstr name ''.txt'' \<noteq> None \<and> strstr name ''.log'' = None \<and> name_ok name"

lemma path_neq_log_path: "path dir name \<noteq> log_path dir name"
  by (simp add: path_def log_path_def)

lemma sync_log_ok:
  assumes "name_ok name" and "list_all logged_ok ws" and "disk s (path dir name) = Some c"
    and "disk s (log_path dir name) = Some (log_text name ws)" and "disk s probe \<noteq> None"
  shows "sync_log_to_file dir probe (log_path dir name) s =
    Inr (0, s\<lparr>disk := (disk s)(path dir name \<mapsto> replay ws c)\<rparr>)"
  using assms by (simp add: sync_log_to_file_def apply_log_text)

lemma clean_one:
  assumes "data_name name" and "list_all logged_ok ws" and "disk s (path dir name) = Some c"
    and "disk s (log_path dir name) = Some (log_text name ws)"
  shows "clean_entries dir (name # names) s =
    clean_entries dir names (s\<lparr>disk := (disk s)(path dir name \<mapsto> replay ws c, log_path dir name \<mapsto> [])\<rparr>)"
proof -
  have "sync_log_to_file dir (path dir name) (log_path dir name) s =
      Inr (0, s\<lparr>disk := (disk s)(path dir name \<mapsto> replay ws c)\<rparr>)"
    using assms by (intro sync_log_ok) (simp_all add: data_name_def)
  then show ?thesis using assms(1) by (auto simp: data_name_def)
qed

lemma clean_other: "\<not> data_name name \<Longrightarrow> name_ok name \<Longrightarrow> clean_entries dir (name # names) s = clean_entries dir names s"
  by (auto simp: data_name_def)

text \<open>The clean-up passes over the entries that are not data files, such as the directory itself and the logs.
  \<open>lists_only ns name\<close>: the listing \<open>ns\<close> of the directory has one data file.\<close>

definition data_entry :: "string \<Rightarrow> bool" where
  "data_entry name \<longleftrightarrow> strstr name ''.txt'' \<noteq> None \<and> strstr name ''.log'' = None"

definition lists_only :: "string list \<Rightarrow> string \<Rightarrow> bool" where
  "lists_only ns name \<longleftrightarrow> filter data_entry ns = [name]"

lemma clean_entries_filter: "clean_entries dir ns s = clean_entries dir (filter data_entry ns) s"
  by (induction ns arbitrary: s) (auto simp: data_entry_def rbind_def split: sum.splits)

lemma gtfs_clean_listing: "lists_only ns name \<Longrightarrow> gtfs_clean env ns g s = gtfs_clean env [name] g s"
  using clean_entries_filter [of _ ns] by (auto simp: gtfs_clean_def lists_only_def obj_def split: option.splits)

lemma data_name_not_log: "data_name n \<Longrightarrow> path dir n \<noteq> log_path dir m"
  using strstr_none [of n "''.log''" m "[]"] by (auto simp: data_name_def path_def log_path_def)

lemma path_inj [simp]: "path dir n = path dir m \<longleftrightarrow> n = m" "log_path dir n = log_path dir m \<longleftrightarrow> n = m"
  by (simp_all add: path_def log_path_def)

text \<open>The directory after the clean-up of the names \<open>ns\<close>.\<close>

definition cleaned :: "string \<Rightarrow> (string \<Rightarrow> logged list) \<Rightarrow> (string \<Rightarrow> string) \<Rightarrow> string list \<Rightarrow>
    (string \<Rightarrow> string option) \<Rightarrow> (string \<Rightarrow> string option)" where
  "cleaned dir ws c ns d =
     fold (\<lambda>n d. if data_name n then d(path dir n \<mapsto> replay (ws n) (c n), log_path dir n \<mapsto> []) else d) ns d"

lemma clean_entries_ok:
  assumes "distinct ns" and "list_all name_ok ns"
    and "\<And>n. n \<in> set ns \<Longrightarrow> data_name n \<Longrightarrow> list_all logged_ok (ws n) \<and> disk s (path dir n) = Some (c n) \<and>
      disk s (log_path dir n) = Some (log_text n (ws n))"
  shows "clean_entries dir ns s = Inr (0, s\<lparr>disk := cleaned dir ws c ns (disk s)\<rparr>)"
  using assms
proof (induction ns arbitrary: s)
  case Nil
  then show ?case by (simp add: cleaned_def)
next
  case (Cons n ns)
  show ?case
  proof (cases "data_name n")
    case True
    let ?s = "s\<lparr>disk := (disk s)(path dir n \<mapsto> replay (ws n) (c n), log_path dir n \<mapsto> [])\<rparr>"
    have "clean_entries dir ns ?s = Inr (0, ?s\<lparr>disk := cleaned dir ws c ns (disk ?s)\<rparr>)"
    proof (rule Cons.IH)
      fix m assume "m \<in> set ns" and "data_name m"
      then have "m \<noteq> n" "list_all logged_ok (ws m) \<and> disk s (path dir m) = Some (c m) \<and>
          disk s (log_path dir m) = Some (log_text m (ws m))"
        using Cons.prems(1,3) by auto
      then show "list_all logged_ok (ws m) \<and> disk ?s (path dir m) = Some (c m) \<and>
          disk ?s (log_path dir m) = Some (log_text m (ws m))"
        using data_name_not_log [OF True, of dir m] data_name_not_log [OF \<open>data_name m\<close>, of dir n] by auto
    qed (use Cons.prems in auto)
    moreover have "clean_entries dir (n # ns) s = clean_entries dir ns ?s"
      using True Cons.prems(3) [of n] by (intro clean_one) auto
    ultimately show ?thesis using True by (simp add: cleaned_def)
  next
    case False
    then have "clean_entries dir (n # ns) s = clean_entries dir ns s"
      using Cons.prems(2) by (intro clean_other) auto
    moreover have "clean_entries dir ns s = Inr (0, s\<lparr>disk := cleaned dir ws c ns (disk s)\<rparr>)"
      using Cons.prems by (intro Cons.IH) auto
    ultimately show ?thesis using False by (simp add: cleaned_def)
  qed
qed

lemma cleaned_other:
  assumes "\<And>n. n \<in> set ns \<Longrightarrow> data_name n \<Longrightarrow> q \<noteq> path dir n \<and> q \<noteq> log_path dir n"
  shows "cleaned dir ws c ns d q = d q"
  using assms by (induction ns arbitrary: d) (auto simp: cleaned_def)

lemma cleaned_data:
  assumes "distinct ns" and "n \<in> set ns" and "data_name n"
  shows "cleaned dir ws c ns d (path dir n) = Some (replay (ws n) (c n))"
    and "cleaned dir ws c ns d (log_path dir n) = Some []"
proof -
  obtain as bs where ns: "ns = as @ n # bs" "n \<notin> set bs"
    using assms(1,2) by (auto simp: in_set_conv_decomp)
  have e: "cleaned dir ws c ns d = cleaned dir ws c bs
      ((cleaned dir ws c as d)(path dir n \<mapsto> replay (ws n) (c n), log_path dir n \<mapsto> []))"
    using assms(3) by (simp add: ns(1) cleaned_def)
  have o: "cleaned dir ws c bs d' q = d' q" if "q = path dir n \<or> q = log_path dir n" for d' q
  proof (rule cleaned_other)
    fix m assume "m \<in> set bs" "data_name m"
    then show "q \<noteq> path dir m \<and> q \<noteq> log_path dir m"
      using that ns(2) data_name_not_log [OF \<open>data_name m\<close>, of dir n] data_name_not_log [OF assms(3), of dir m] by auto
  qed
  show "cleaned dir ws c ns d (path dir n) = Some (replay (ws n) (c n))"
    "cleaned dir ws c ns d (log_path dir n) = Some []"
    using path_neq_log_path [of dir n] by (simp_all add: e o)
qed

subsection \<open>Synchronised writes\<close>

text \<open>A write whose buffer holds a string of its length.\<close>

definition holds_write :: "string \<Rightarrow> string \<Rightarrow> fs_state \<Rightarrow> nat \<Rightarrow> logged \<Rightarrow> bool" where
  "holds_write dir name s i w \<longleftrightarrow>
     (\<exists>wo rest. write_objs s i = Some wo \<and> w_filename wo = name \<and> w_offset wo = int (fst w) \<and>
        w_length wo = int (length (snd w)) \<and> full_file_path wo = path dir name \<and> full_log_path wo = log_path dir name \<and>
        bufs s (w_data wo) = snd w @ NUL # rest)"

definition env_ok :: "fs_env \<Rightarrow> bool" where
  "env_ok env \<longleftrightarrow> (\<forall>p. open_ok env p \<and> lockFile env p) \<and> closedir_ok env"

lemma sync_write_ok:
  assumes h: "holds_write dir name s i w" and ok: "logged_ok w" "env_ok env"
    and d: "disk s (path dir name) = Some c" "disk s (log_path dir name) = Some t"
  shows "gtfs_sync_write_file env (Some i) s = Inr (int (length (snd w)),
    s\<lparr>disk := (disk s)(log_path dir name \<mapsto> t @ log_entry name w, path dir name \<mapsto> write_at (fst w) (snd w) c)\<rparr>)"
proof -
  obtain wo rest where w: "write_objs s i = Some wo" "w_filename wo = name" "w_offset wo = int (fst w)"
      "w_length wo = int (length (snd w))" "full_file_path wo = path dir name" "full_log_path wo = log_path dir name"
      "bufs s (w_data wo) = snd w @ NUL # rest"
    using h by (auto simp: holds_write_def)
  have "NUL \<notin> set (snd w)" using ok(1) by (simp add: logged_ok_def loggable_def)
  then have "\<And>x. x \<in> set (snd w) \<Longrightarrow> x \<noteq> NUL" by blast
  then have cs: "c_str (snd w @ NUL # rest) = snd w" by (simp add: c_str_def takeWhile_append2)
  have u: "(disk s)(log_path dir name \<mapsto> t) = disk s" using d(2) by (simp add: fun_upd_idem)
  show ?thesis using w d ok(2) path_neq_log_path [of dir name]
    by (simp add: gtfs_sync_write_file_def obj_def sync_data_def env_ok_def cs Let_def log_entry_def u)
qed

end
