(* ===== verification/FS_Ops.thy ===== *)
theory FS_Ops
  imports FS_Log
begin

text \<open>
  GTFileSystem as a whole: sequences of synchronised writes, the reads and aborts over the writes that are
  only in memory, and the consistency of the library's maps, kept by every call.
\<close>

subsection \<open>Sequences of synchronised writes\<close>

fun sync_all :: "fs_env \<Rightarrow> nat list \<Rightarrow> fs_state \<Rightarrow> fs_state res" where
  "sync_all env [] s = Inr s"
| "sync_all env (i # is) s = rbind (gtfs_sync_write_file env (Some i) s) (\<lambda>(_, s1). sync_all env is s1)"

lemma holds_write_disk [simp]: "holds_write dir name (s\<lparr>disk := d\<rparr>) i w = holds_write dir name s i w"
  by (simp add: holds_write_def)

lemma sync_all_ok:
  assumes "list_all2 (holds_write dir name s) is ws" and "list_all logged_ok ws" and "env_ok env"
    and "disk s (path dir name) = Some c" and "disk s (log_path dir name) = Some t"
  shows "sync_all env is s =
    Inr (s\<lparr>disk := (disk s)(log_path dir name \<mapsto> t @ log_text name ws, path dir name \<mapsto> replay ws c)\<rparr>)"
  using assms
proof (induction "is" ws arbitrary: s c t rule: list_induct2')
  case 1
  then have "(disk s)(log_path dir name \<mapsto> t, path dir name \<mapsto> c) = disk s"
    using path_neq_log_path [of dir name] by (simp add: fun_upd_idem)
  then show ?case unfolding log_text_def by (simp only: sync_all.simps list.map concat.simps append_Nil2 replay_simps) simp
next
  case (4 i "is" w ws)
  then have h: "holds_write dir name s i w" "list_all2 (holds_write dir name s) is ws" by simp_all
  let ?s = "s\<lparr>disk := (disk s)(log_path dir name \<mapsto> t @ log_entry name w, path dir name \<mapsto> write_at (fst w) (snd w) c)\<rparr>"
  have one: "gtfs_sync_write_file env (Some i) s = Inr (int (length (snd w)), ?s)"
    using 4(3-6) h(1) by (intro sync_write_ok) simp_all
  have step: "sync_all env is ?s = Inr (?s\<lparr>disk := (disk ?s)(log_path dir name \<mapsto> (t @ log_entry name w) @ log_text name ws,
      path dir name \<mapsto> replay ws (write_at (fst w) (snd w) c))\<rparr>)"
    using 4(3-6) h(2) path_neq_log_path [of dir name] by (intro 4(1)) simp_all
  have l: "log_text name (w # ws) = log_entry name w @ log_text name ws" by (simp add: log_text_def)
  have r: "replay (w # ws) c = replay ws (write_at (fst w) (snd w) c)" by (cases w) simp
  have d: "(disk ?s)(log_path dir name \<mapsto> (t @ log_entry name w) @ log_text name ws,
      path dir name \<mapsto> replay ws (write_at (fst w) (snd w) c)) =
      (disk s)(log_path dir name \<mapsto> t @ log_text name (w # ws), path dir name \<mapsto> replay (w # ws) c)"
    unfolding l r by (simp add: fun_eq_iff)
  have "sync_all env (i # is) s = sync_all env is ?s" by (simp add: one)
  then show ?case unfolding step d by (simp add: fun_upd_def)
qed simp_all

subsection \<open>Reads\<close>

definition matches :: "int \<Rightarrow> int \<Rightarrow> write_t \<Rightarrow> bool" where
  "matches offset len w \<longleftrightarrow> w_offset w = offset \<and> w_length w = len"

text \<open>A read finds the oldest of the logged writes with its offset and length.\<close>

lemma find_log_oldest:
  assumes "list_all (\<lambda>i. h i \<noteq> None) logs"
  shows "find_log h offset len logs = Inr (map_option w_data (List.find (matches offset len) (map (the \<circ> h) logs)))"
  using assms by (induction logs) (auto simp: obj_def matches_def)

text \<open>The read past the end of its memory when the bytes come from the file.\<close>

lemma read_from_file_overflow:
  assumes "offset + len \<le> min (int (length content)) 2147483647" and "0 \<le> len"
  shows "read_from_file offset len content = Inl OutOfBounds"
  using assms by (simp add: read_from_file_def)

subsection \<open>Aborted writes\<close>

definition same_write :: "write_t \<Rightarrow> write_t \<Rightarrow> bool" where
  "same_write w v \<longleftrightarrow> w_offset v = w_offset w \<and> w_length v = w_length w \<and> w_data v = w_data w"

lemma erase_log_last:
  assumes "list_all (\<lambda>i. \<exists>v. h i = Some v \<and> \<not> same_write w v) logs" and "h x = Some w"
  shows "erase_log h w (logs @ [x]) = Inr logs"
  using assms by (induction logs) (auto simp: obj_def same_write_def)

lemma erase_log_subset:
  "erase_log h w logs = Inr logs' \<Longrightarrow> set logs' \<subseteq> set logs"
proof (induction logs arbitrary: logs')
  case (Cons x xs)
  then show ?case by (auto simp: obj_def rbind_eq_Inr split: option.splits if_splits)
qed simp

lemma erase_log_total: "list_all (\<lambda>i. h i \<noteq> None) logs \<Longrightarrow> \<exists>logs'. erase_log h w logs = Inr logs'"
  by (induction logs) (auto simp: obj_def)

subsection \<open>Consistency of the maps\<close>

definition fs_inv :: "fs_state \<Rightarrow> bool" where
  "fs_inv s \<longleftrightarrow>
     (\<forall>n p. filename_file_t_mapping s n = Some p \<longrightarrow> (\<exists>fo. file_objs s p = Some fo \<and> filename fo = n)) \<and>
     (\<forall>n logs i. file_log_updates_mapping s n = Some logs \<longrightarrow> i \<in> set logs \<longrightarrow>
        (\<exists>w. write_objs s i = Some w \<and> w_filename w = n)) \<and>
     (\<forall>d g. directory_gtfs_mapping s d = Some g \<longrightarrow> (\<exists>go. gtfs_objs s g = Some go \<and> dirname go = d \<and> is_dir s d))"

lemma fs_inv_disk [simp]: "fs_inv (s\<lparr>disk := d\<rparr>) = fs_inv s"
  by (simp add: fs_inv_def)

lemma fs_invD:
  assumes "fs_inv s"
  shows "filename_file_t_mapping s n = Some p \<Longrightarrow> \<exists>fo. file_objs s p = Some fo \<and> filename fo = n"
    and "file_log_updates_mapping s n = Some logs \<Longrightarrow> i \<in> set logs \<Longrightarrow> \<exists>w. write_objs s i = Some w \<and> w_filename w = n"
    and "directory_gtfs_mapping s d = Some g \<Longrightarrow> \<exists>go. gtfs_objs s g = Some go \<and> dirname go = d \<and> is_dir s d"
  using assms by (simp_all add: fs_inv_def)

lemma fs_invI:
  assumes "\<And>n p. filename_file_t_mapping s n = Some p \<Longrightarrow> \<exists>fo. file_objs s p = Some fo \<and> filename fo = n"
    and "\<And>n logs i. file_log_updates_mapping s n = Some logs \<Longrightarrow> i \<in> set logs \<Longrightarrow> \<exists>w. write_objs s i = Some w \<and> w_filename w = n"
    and "\<And>d g. directory_gtfs_mapping s d = Some g \<Longrightarrow> \<exists>go. gtfs_objs s g = Some go \<and> dirname go = d \<and> is_dir s d"
  shows "fs_inv s"
  using assms by (simp add: fs_inv_def)

lemma gtfs_init_ok:
  assumes inv: "fs_inv s" and new: "gtfs_objs s new = None"
  shows "\<exists>r s'. gtfs_init new d s = Inr (r, s') \<and> fs_inv s' \<and> (r \<noteq> None \<longleftrightarrow> is_dir s d) \<and>
    (\<forall>g. r = Some g \<longrightarrow> (\<exists>go. gtfs_objs s' g = Some go \<and> dirname go = d))"
proof -
  let ?s1 = "s\<lparr>gtfs_objs := (gtfs_objs s)(new \<mapsto> \<lparr>dirname = d\<rparr>)\<rparr>"
  have g: "g \<noteq> new" if "directory_gtfs_mapping s e = Some g" for e g
    using fs_invD(3) [OF inv that] new by auto
  have i1: "fs_inv ?s1"
    by (rule fs_invI) (use fs_invD [OF inv] g in fastforce)+
  show ?thesis
  proof (cases "is_dir s d")
    case False
    then show ?thesis using i1 by (simp add: gtfs_init_def)
  next
    case dir: True
    show ?thesis
    proof (cases "directory_gtfs_mapping s d")
      case None
      let ?s2 = "?s1\<lparr>directory_gtfs_mapping := (directory_gtfs_mapping s)(d \<mapsto> new)\<rparr>"
      have "fs_inv ?s2"
      proof (rule fs_invI)
        fix e h assume "directory_gtfs_mapping ?s2 e = Some h"
        then show "\<exists>go. gtfs_objs ?s2 h = Some go \<and> dirname go = e \<and> is_dir ?s2 e"
          using fs_invD(3) [OF inv, of e h] g [of e h] dir by (auto split: if_splits)
      qed (use fs_invD [OF inv] in auto)
      then show ?thesis using dir None by (simp add: gtfs_init_def)
    next
      case (Some h)
      then show ?thesis using i1 dir g fs_invD(3) [OF inv Some] by (auto simp: gtfs_init_def)
    qed
  qed
qed

lemma gtfs_write_ok:
  assumes inv: "fs_inv s" and new: "write_objs s new = None" and g: "gtfs_objs s g = Some go" and p: "file_objs s p = Some fo"
  shows "\<exists>s'. gtfs_write_file new (Some g) (Some p) offset len data s = Inr (Some new, s') \<and> fs_inv s' \<and>
    disk s' = disk s \<and> gtfs_objs s' = gtfs_objs s \<and> file_objs s' = file_objs s \<and>
    write_objs s' = (write_objs s)(new \<mapsto> \<lparr>w_filename = filename fo, w_offset = offset, w_length = len, w_data = data,
      full_file_path = path (dirname go) (filename fo), full_log_path = log_path (dirname go) (filename fo)\<rparr>) \<and>
    file_log_updates_mapping s' = (file_log_updates_mapping s)(filename fo \<mapsto>
      (case file_log_updates_mapping s (filename fo) of None \<Rightarrow> [] | Some l \<Rightarrow> l) @ [new])"
proof -
  let ?w = "\<lparr>w_filename = filename fo, w_offset = offset, w_length = len, w_data = data,
      full_file_path = path (dirname go) (filename fo), full_log_path = log_path (dirname go) (filename fo)\<rparr>"
  let ?old = "case file_log_updates_mapping s (filename fo) of None \<Rightarrow> [] | Some l \<Rightarrow> l"
  let ?s' = "s\<lparr>write_objs := (write_objs s)(new \<mapsto> ?w),
      file_log_updates_mapping := (file_log_updates_mapping s)(filename fo \<mapsto> ?old @ [new])\<rparr>"
  have fresh: "i \<noteq> new" if "file_log_updates_mapping s n = Some logs" "i \<in> set logs" for n logs i
    using fs_invD(2) [OF inv that] new by auto
  have old: "\<exists>w. write_objs s i = Some w \<and> w_filename w = filename fo" "i \<noteq> new" if "i \<in> set ?old" for i
    using that fresh [of "filename fo"] fs_invD(2) [OF inv, of "filename fo"]
    by (cases "file_log_updates_mapping s (filename fo)"; auto)+
  have "fs_inv ?s'"
  proof (rule fs_invI)
    fix n logs i assume "file_log_updates_mapping ?s' n = Some logs" "i \<in> set logs"
    then show "\<exists>w. write_objs ?s' i = Some w \<and> w_filename w = n"
      using old fresh fs_invD(2) [OF inv] by (auto split: if_splits)
  qed (use fs_invD [OF inv] in auto)
  moreover have "gtfs_write_file new (Some g) (Some p) offset len data s = Inr (Some new, ?s')"
    using g p by (simp add: gtfs_write_file_def obj_def Let_def)
  ultimately show ?thesis by (intro exI [of _ ?s']) simp
qed

lemma gtfs_abort_inv:
  assumes "fs_inv s" and "gtfs_abort_write_file i s = Inr (r, s')"
  shows "fs_inv s'"
proof (cases i)
  case None
  then show ?thesis using assms by (simp add: gtfs_abort_write_file_def)
next
  case (Some j)
  obtain w where w: "write_objs s j = Some w" using assms(2) Some
    by (auto simp: gtfs_abort_write_file_def obj_def split: option.splits)
  show ?thesis
  proof (cases "file_log_updates_mapping s (w_filename w)")
    case None
    then show ?thesis using assms Some w by (simp add: gtfs_abort_write_file_def obj_def)
  next
    case (Some logs)
    then obtain logs' where l: "erase_log (write_objs s) w logs = Inr logs'"
        "s' = s\<lparr>file_log_updates_mapping := (file_log_updates_mapping s)(w_filename w \<mapsto> logs')\<rparr>"
      using assms(2) \<open>i = Some j\<close> w by (auto simp: gtfs_abort_write_file_def obj_def rbind_eq_Inr)
    from erase_log_subset [OF l(1)] show ?thesis using assms(1) Some
      by (auto simp: fs_inv_def l(2))
  qed
qed

lemma gtfs_sync_inv: "gtfs_sync_write_file env i s = Inr (r, s') \<Longrightarrow> \<exists>d. s' = s\<lparr>disk := d\<rparr>"
  by (auto simp: gtfs_sync_write_file_def sync_data_def obj_def Let_def split: option.splits if_splits)
     (metis fs_state.surjective fs_state.update_convs(1))+

lemma sync_log_disk: "sync_log_to_file dir f l s = Inr (r, s') \<Longrightarrow> \<exists>d. s' = s\<lparr>disk := d\<rparr>"
  by (auto simp: sync_log_to_file_def rbind_eq_Inr split: option.splits if_splits)
     (metis fs_state.surjective fs_state.update_convs(1))+

lemma clean_entries_disk: "clean_entries dir ns s = Inr (r, s') \<Longrightarrow> \<exists>d. s' = s\<lparr>disk := d\<rparr>"
proof (induction ns arbitrary: s)
  case Nil
  then show ?case by (metis clean_entries.simps(1) sum.inject(2) prod.inject fs_state.surjective fs_state.update_convs(1))
next
  case (Cons n ns)
  show ?case
  proof (cases "strstr n ''.txt'' = None \<or> strstr n ''.log'' \<noteq> None")
    case True
    with Cons show ?thesis by (auto split: if_splits)
  next
    case False
    then obtain rc s1 where s1: "sync_log_to_file dir (path dir n) (log_path dir n) s = Inr (rc, s1)"
        "(if rc = -1 then Inr (-1, s1) else clean_entries dir ns (s1\<lparr>disk := (disk s1)(log_path dir n \<mapsto> [])\<rparr>)) = Inr (r, s')"
      using Cons.prems by (auto simp: rbind_eq_Inr)
    obtain d where "s1 = s\<lparr>disk := d\<rparr>" using sync_log_disk [OF s1(1)] by blast
    with s1(2) Cons.IH show ?thesis by (fastforce split: if_splits)
  qed
qed

lemma gtfs_clean_inv: "fs_inv s \<Longrightarrow> gtfs_clean env ns g s = Inr (r, s') \<Longrightarrow> fs_inv s'"
  by (auto simp: gtfs_clean_def obj_def rbind_eq_Inr Let_def dest!: clean_entries_disk split: option.splits if_splits)
     (auto simp: fs_inv_def)

lemma gtfs_close_inv: "fs_inv s \<Longrightarrow> gtfs_close_file g p s = Inr (r, s') \<Longrightarrow> fs_inv s'"
  by (fastforce simp: gtfs_close_file_def obj_def fs_inv_def split: option.splits if_splits)

lemma gtfs_remove_inv: "fs_inv s \<Longrightarrow> gtfs_remove_file env g p s = Inr (r, s') \<Longrightarrow> fs_inv s'"
  by (fastforce simp: gtfs_remove_file_def obj_def fs_inv_def Let_def split: option.splits if_splits)

lemma new_file_inv:
  assumes inv: "fs_inv s" and new: "file_objs s new = None"
  shows "fs_inv (s\<lparr>file_objs := (file_objs s)(new \<mapsto> fo), filename_file_t_mapping :=
      (filename_file_t_mapping s)(filename fo \<mapsto> new), directory_files_mapping := df\<rparr>)"
proof (rule fs_invI, goal_cases)
  case (1 n p)
  then show ?case using fs_invD(1) [OF inv, of n p] new by (auto split: if_splits)
qed (use fs_invD(2,3) [OF inv] in auto)

lemma reopened_file_inv:
  assumes inv: "fs_inv s" and "file_objs s p = Some fo" and "filename fo' = filename fo"
  shows "fs_inv (s\<lparr>file_objs := (file_objs s)(p \<mapsto> fo')\<rparr>)"
proof (rule fs_invI, goal_cases)
  case (1 n q)
  then show ?case using fs_invD(1) [OF inv, of n q] assms(2,3) by (auto split: if_splits)
qed (use fs_invD(2,3) [OF inv] in auto)

lemma erased_log_inv: "fs_inv s \<Longrightarrow> fs_inv (s\<lparr>file_log_updates_mapping := (file_log_updates_mapping s)(n := None)\<rparr>)"
  by (auto simp: fs_inv_def)

lemma recorded_inv: "fs_inv s \<Longrightarrow> file_objs s new = None \<Longrightarrow> fs_inv (recorded new dir name len s)"
  using new_file_inv [of s new _ "\<lparr>filename = name, file_length = len, is_open = 1\<rparr>"] by (simp add: recorded_def)

lemma created_inv [simp]: "fs_inv (created p s) = fs_inv s"
  by (simp add: created_def)

lemma created_simps [simp]:
  "filename_file_t_mapping (created p s) = filename_file_t_mapping s" "file_objs (created p s) = file_objs s"
  "directory_files_mapping (created p s) = directory_files_mapping s"
  "file_log_updates_mapping (created p s) = file_log_updates_mapping s"
  by (simp_all add: created_def)

lemma created_twice [simp]: "created p (created p s) = created p s"
  by (simp add: created_def)

lemma open_known_inv:
  assumes "fs_inv s" and "open_known p len s = Inr (r, s')"
  shows "fs_inv s'"
  using assms by (auto simp: open_known_def obj_def intro: reopened_file_inv split: option.splits if_splits)

lemma open_new_inv:
  assumes inv: "fs_inv s" and new: "file_objs s new = None" and r: "open_new new dir name len s = Inr (r, s')"
  shows "fs_inv s'"
proof -
  let ?s1 = "recorded new dir name len (created (path dir name) s)" and ?l = "log_path dir name"
  obtain rc s2 where s2: "(if disk ?s1 ?l \<noteq> None then sync_log_to_file dir name ?l ?s1 else Inr (0, ?s1)) = Inr (rc, s2)"
      "(if rc = -1 then Inr (None, s2) else Inr (Some new, s2\<lparr>disk := (disk s2)(?l \<mapsto> []),
         file_log_updates_mapping := (file_log_updates_mapping s2)(name := None)\<rparr>)) = (Inr (r, s') :: _ res)"
    using r by (auto simp: open_new_def Let_def rbind_eq_Inr)
  have i1: "fs_inv ?s1" using inv new by (intro recorded_inv) simp_all
  have i2: "fs_inv s2"
  proof (cases "disk ?s1 ?l = None")
    case True
    with s2(1) i1 show ?thesis by simp
  next
    case False
    with s2(1) have "sync_log_to_file dir name ?l ?s1 = Inr (rc, s2)" by simp
    then obtain d where "s2 = ?s1\<lparr>disk := d\<rparr>" using sync_log_disk by blast
    with i1 show ?thesis by simp
  qed
  then have "fs_inv ((s2\<lparr>disk := d\<rparr>)\<lparr>file_log_updates_mapping := (file_log_updates_mapping s2)(name := None)\<rparr>)" for d
    using erased_log_inv [of "s2\<lparr>disk := d\<rparr>" name] by simp
  with s2(2) i2 show ?thesis by (auto split: if_splits)
qed

lemma gtfs_open_inv:
  assumes "fs_inv s" and "file_objs s new = None" and "gtfs_open_file env new g name len s = Inr (r, s')"
  shows "fs_inv s'"
proof (cases g)
  case None
  then show ?thesis using assms by (simp add: gtfs_open_file_def)
next
  case (Some h)
  obtain go where go: "gtfs_objs s h = Some go"
    using assms(3) Some by (auto simp: gtfs_open_file_def obj_def split: option.splits)
  let ?c = "created (path (dirname go) name) s"
  have c: "fs_inv ?c" "file_objs ?c new = None" using assms(1,2) by simp_all
  consider "s' = s" | "s' = ?c" | p where "open_known p len ?c = Inr (r, s')"
    | "open_new new (dirname go) name len ?c = Inr (r, s')"
    using assms(3) Some go by (simp add: gtfs_open_file_def obj_def Let_def split: option.splits if_splits)
  then show ?thesis
    by cases (use assms(1) c open_known_inv [OF c(1)] open_new_inv [OF c] in auto)
qed

lemma gtfs_write_inv:
  assumes "fs_inv s" and "write_objs s new = None" and "gtfs_write_file new g p offset len data s = Inr (r, s')"
  shows "fs_inv s'"
proof (cases "g = None \<or> p = None")
  case True
  then have "s' = s" using assms(3) by (auto simp: gtfs_write_file_def split: option.splits)
  with assms(1) show ?thesis by simp
next
  case False
  then obtain h q where hq: "g = Some h" "p = Some q" by auto
  then obtain go fo where o: "gtfs_objs s h = Some go" "file_objs s q = Some fo"
    using assms(3) by (auto simp: gtfs_write_file_def obj_def split: option.splits)
  from gtfs_write_ok [OF assms(1,2) this, of offset len data] hq assms(3) show ?thesis by auto
qed

subsection \<open>All calls\<close>

text \<open>The memory for a new object is not in use.\<close>

inductive fs_step :: "fs_env \<Rightarrow> fs_state \<Rightarrow> fs_state \<Rightarrow> bool" for env where
  Init: "fs_step env s s'" if "gtfs_objs s new = None" and "gtfs_init new d s = Inr (r, s')"
| Open: "fs_step env s s'" if "file_objs s new = None" and "gtfs_open_file env new g name len s = Inr (r, s')"
| Close: "fs_step env s s'" if "gtfs_close_file g p s = Inr (rc, s')"
| Remove: "fs_step env s s'" if "gtfs_remove_file env g p s = Inr (rc, s')"
| Write: "fs_step env s s'" if "write_objs s new = None" and "gtfs_write_file new g p offset len data s = Inr (r, s')"
| Sync: "fs_step env s s'" if "gtfs_sync_write_file env i s = Inr (rc, s')"
| Abort: "fs_step env s s'" if "gtfs_abort_write_file i s = Inr (rc, s')"
| Clean: "fs_step env s s'" if "gtfs_clean env names g s = Inr (rc, s')"

definition fs_start :: "fs_state \<Rightarrow> bool" where
  "fs_start s \<longleftrightarrow> directory_gtfs_mapping s = (\<lambda>_. None) \<and> file_log_updates_mapping s = (\<lambda>_. None) \<and>
     filename_file_t_mapping s = (\<lambda>_. None) \<and> directory_files_mapping s = (\<lambda>_. [])"

lemma fs_step_inv: "fs_step env s s' \<Longrightarrow> fs_inv s \<Longrightarrow> fs_inv s'"
proof (induction rule: fs_step.induct)
  case (Init s new d r s')
  then show ?case using gtfs_init_ok [of s new d] by auto
next
  case (Sync i s rc s')
  then show ?case using gtfs_sync_inv by fastforce
qed (auto intro: gtfs_open_inv gtfs_write_inv gtfs_close_inv gtfs_remove_inv gtfs_abort_inv gtfs_clean_inv)

lemma fs_start_inv: "fs_start s \<Longrightarrow> fs_inv s"
  by (simp add: fs_start_def fs_inv_def)

interpretation fsys: invariant_system fs_start "fs_step env" fs_inv for env
  by unfold_locales (auto intro: fs_start_inv fs_step_inv)

end
