(* ===== verification/FS_Procs.thy ===== *)
theory FS_Procs
  imports FS_Log
begin

text \<open>
  Several processes that synchronise writes at the same time. They share the disk; what keeps them apart
  are the record locks that \<open>lockFile\<close> and \<open>unlockFile\<close> of gtfs.cpp put on whole files. \<open>gtfs_sync_write_file\<close>
  is cut into the system calls at which another process can come between.

  A lock belongs to a process and a file. A process that asks for a lock of another process waits. As for
  all locks of this kind, closing any descriptor of the file releases the lock of the process: the stream
  that appends to the log gives up the lock on it when it is closed, before \<open>unlockFile\<close> is called.
\<close>

subsection \<open>Locks on files\<close>

type_synonym file_locks = "string \<Rightarrow> nat option"

text \<open>\<open>fcntl\<close> with \<open>F_SETLKW\<close> and a write lock: \<open>None\<close> while the process waits.\<close>

definition wait_lock :: "nat \<Rightarrow> string \<Rightarrow> file_locks \<Rightarrow> file_locks option" where
  "wait_lock q p l = (if l p = None \<or> l p = Some q then Some (l(p \<mapsto> q)) else None)"

definition unlockFile :: "nat \<Rightarrow> string \<Rightarrow> file_locks \<Rightarrow> file_locks" where
  "unlockFile q p l = (if l p = Some q then l(p := None) else l)"

definition close_file :: "nat \<Rightarrow> string \<Rightarrow> file_locks \<Rightarrow> file_locks" where
  "close_file q p l = (if l p = Some q then l(p := None) else l)"

subsection \<open>One process\<close>

text \<open>Where a process is in \<open>gtfs_sync_write_file\<close>: the call that comes next.\<close>

datatype sync_pc =
    Open_log | Lock_log | Append_line | Close_stream | Unlock_log
  | Open_data | Lock_data | Write_data | Unlock_data int | Returned int

record sync_proc =
  pc :: sync_pc
  wrt :: write_t
  buf :: string

type_synonym shared_files = "(string \<Rightarrow> string option) \<times> file_locks"

text \<open>The next call of the process \<open>q\<close>; \<open>Inr None\<close> when it waits or has returned. A file that was removed
  after it was opened still takes the bytes, but no path leads to them.\<close>

definition sync_next :: "fs_env \<Rightarrow> nat \<Rightarrow> sync_proc \<Rightarrow> shared_files \<Rightarrow> (sync_proc \<times> shared_files) option res" where
  "sync_next env q x y =
     (case y of (d, l) \<Rightarrow>
      let w = wrt x; lp = full_log_path w; fp = full_file_path w;
          old = (case d lp of None \<Rightarrow> [] | Some t \<Rightarrow> t);
          log_data = log_line (w_filename w) (w_offset w) (w_length w) (c_str (buf x))
      in case pc x of
           Open_log \<Rightarrow>
             if \<not> open_ok env lp then Inr (Some (x\<lparr>pc := Returned (-1)\<rparr>, d, l))
             else Inr (Some (x\<lparr>pc := Lock_log\<rparr>, d(lp \<mapsto> old), l))
         | Lock_log \<Rightarrow>
             if \<not> lockFile env lp then Inr (Some (x\<lparr>pc := Returned (-1)\<rparr>, d, close_file q lp l))
             else Inr (map_option (\<lambda>l1. (x\<lparr>pc := Append_line\<rparr>, d, l1)) (wait_lock q lp l))
         | Append_line \<Rightarrow> Inr (Some (x\<lparr>pc := Close_stream\<rparr>, d(lp \<mapsto> old @ log_data @ ''\<newline>''), l))
         | Close_stream \<Rightarrow> Inr (Some (x\<lparr>pc := Unlock_log\<rparr>, d, close_file q lp l))
         | Unlock_log \<Rightarrow> Inr (Some (x\<lparr>pc := Open_data\<rparr>, d, close_file q lp (unlockFile q lp l)))
         | Open_data \<Rightarrow>
             if d fp = None \<or> \<not> open_ok env fp then Inr (Some (x\<lparr>pc := Returned (-1)\<rparr>, d, l))
             else Inr (Some (x\<lparr>pc := Lock_data\<rparr>, d, l))
         | Lock_data \<Rightarrow>
             if \<not> lockFile env fp then Inr (Some (x\<lparr>pc := Returned (-1)\<rparr>, d, close_file q fp l))
             else Inr (map_option (\<lambda>l1. (x\<lparr>pc := Write_data\<rparr>, d, l1)) (wait_lock q fp l))
         | Write_data \<Rightarrow>
             if w_length w < 0 then Inr (Some (x\<lparr>pc := Unlock_data (-1)\<rparr>, d, l))
             else if nat (w_length w) > length (buf x) then Inl OutOfBounds
             else Inr (Some (x\<lparr>pc := Unlock_data (w_length w)\<rparr>,
                    case d fp of
                      None \<Rightarrow> d
                    | Some content \<Rightarrow> d(fp \<mapsto> write_at (nat (w_offset w)) (take (nat (w_length w)) (buf x)) content), l))
         | Unlock_data rc \<Rightarrow> Inr (Some (x\<lparr>pc := Returned rc\<rparr>, d, close_file q fp (unlockFile q fp l)))
         | Returned rc \<Rightarrow> Inr None)"

lemmas lock_defs = wait_lock_def unlockFile_def close_file_def

text \<open>A process that runs alone, for at most \<open>n\<close> calls. Nine are enough, and they do what the whole function
  does.\<close>

primrec sync_alone :: "fs_env \<Rightarrow> nat \<Rightarrow> nat \<Rightarrow> sync_proc \<Rightarrow> shared_files \<Rightarrow> (sync_proc \<times> shared_files) res" where
  "sync_alone env q 0 x y = Inr (x, y)"
| "sync_alone env q (Suc n) x y =
     rbind (sync_next env q x y) (\<lambda>r. case r of None \<Rightarrow> Inr (x, y) | Some (x', y') \<Rightarrow> sync_alone env q n x' y')"

lemma sync_alone_returned [simp]: "pc x = Returned rc \<Longrightarrow> sync_alone env q n x y = Inr (x, y)"
  by (cases n) (simp_all add: sync_next_def split: prod.splits)

lemma sync_alone_eq:
  assumes "write_objs s i = Some w" and "l (full_log_path w) = None" and "l (full_file_path w) = None"
  shows "sync_alone env q 9 \<lparr>pc = Open_log, wrt = w, buf = bufs s (w_data w)\<rparr> (disk s, l) =
    rbind (gtfs_sync_write_file env (Some i) s) (\<lambda>(rc, s').
      Inr (\<lparr>pc = Returned rc, wrt = w, buf = bufs s (w_data w)\<rparr>, disk s', l))"
proof -
  have u: "l(p := None) = l" if "l p = None" for p using that by (simp add: fun_upd_idem)
  show ?thesis using assms
    by (simp add: numeral_eq_Suc sync_next_def gtfs_sync_write_file_def sync_data_def obj_def Let_def lock_defs u
        split: option.split)
qed

subsection \<open>Many processes\<close>

record sync_sys =
  sdisk :: "string \<Rightarrow> string option"
  flocks :: file_locks
  sprocs :: "sync_proc list"

definition sync_move :: "(nat \<Rightarrow> fs_env) \<Rightarrow> nat \<Rightarrow> sync_sys \<Rightarrow> sync_sys option res" where
  "sync_move env q y =
     in_bounds q (length (sprocs y)) (
     rbind (sync_next (env q) q (sprocs y ! q) (sdisk y, flocks y)) (\<lambda>r.
     Inr (map_option (\<lambda>(x, d, l). \<lparr>sdisk = d, flocks = l, sprocs = (sprocs y)[q := x]\<rparr>) r)))"

inductive sync_step :: "(nat \<Rightarrow> fs_env) \<Rightarrow> sync_sys \<Rightarrow> sync_sys \<Rightarrow> bool" for env where
  move: "sync_move env q y = Inr (Some y') \<Longrightarrow> sync_step env y y'"

text \<open>A schedule: the processes that move, one after the other.\<close>

fun sync_schedule :: "(nat \<Rightarrow> fs_env) \<Rightarrow> nat list \<Rightarrow> sync_sys \<Rightarrow> sync_sys option res" where
  "sync_schedule env [] y = Inr (Some y)"
| "sync_schedule env (q # qs) y =
     rbind (sync_move env q y) (\<lambda>r. case r of None \<Rightarrow> Inr None | Some y' \<Rightarrow> sync_schedule env qs y')"

lemma sync_schedule_steps: "sync_schedule env qs y = Inr (Some y') \<Longrightarrow> (sync_step env)\<^sup>*\<^sup>* y y'"
proof (induction qs arbitrary: y)
  case (Cons q qs)
  then obtain z where "sync_move env q y = Inr (Some z)" "sync_schedule env qs z = Inr (Some y')"
    by (auto simp: rbind_def split: sum.splits option.splits)
  with Cons.IH show ?case by (meson converse_rtranclp_into_rtranclp sync_step.move)
qed simp

definition returned :: "sync_proc \<Rightarrow> bool" where
  "returned x \<longleftrightarrow> (\<exists>rc. pc x = Returned rc)"

definition all_returned :: "sync_sys \<Rightarrow> bool" where
  "all_returned y \<longleftrightarrow> list_all returned (sprocs y)"

text \<open>The lock that a process has.\<close>

definition lock_of :: "sync_proc \<Rightarrow> string option" where
  "lock_of x = (case pc x of
       Append_line \<Rightarrow> Some (full_log_path (wrt x)) | Close_stream \<Rightarrow> Some (full_log_path (wrt x))
     | Write_data \<Rightarrow> Some (full_file_path (wrt x)) | Unlock_data rc \<Rightarrow> Some (full_file_path (wrt x))
     | _ \<Rightarrow> None)"

text \<open>The table of locks says what the processes have, and no buffer is too short.\<close>

definition locks_ok :: "sync_sys \<Rightarrow> bool" where
  "locks_ok y \<longleftrightarrow>
     (\<forall>p q. flocks y p = Some q \<longleftrightarrow> q < length (sprocs y) \<and> lock_of (sprocs y ! q) = Some p) \<and>
     list_all (\<lambda>x. w_length (wrt x) \<le> int (length (buf x))) (sprocs y)"

text \<open>The calls left.\<close>

definition calls_left :: "sync_proc \<Rightarrow> nat" where
  "calls_left x = (case pc x of
       Open_log \<Rightarrow> 9 | Lock_log \<Rightarrow> 8 | Append_line \<Rightarrow> 7 | Close_stream \<Rightarrow> 6 | Unlock_log \<Rightarrow> 5
     | Open_data \<Rightarrow> 4 | Lock_data \<Rightarrow> 3 | Write_data \<Rightarrow> 2 | Unlock_data rc \<Rightarrow> 1 | Returned rc \<Rightarrow> 0)"

definition sync_left :: "sync_sys \<Rightarrow> nat" where
  "sync_left y = sum_list (map calls_left (sprocs y))"

lemma calls_left_0: "calls_left x = 0 \<longleftrightarrow> returned x"
  by (cases "pc x") (simp_all add: calls_left_def returned_def)

lemma sync_left_0: "sync_left y = 0 \<longleftrightarrow> all_returned y"
  by (auto simp: sync_left_def all_returned_def calls_left_0 list_all_iff)

text \<open>What one call of a process does to its own state and to the locks: only the lock it has changes.\<close>

lemma sync_next_keeps:
  assumes "sync_next env q x (d, l) = Inr (Some (x', d', l'))"
  shows "wrt x' = wrt x" "buf x' = buf x" "calls_left x' < calls_left x"
  using assms by (cases "pc x"; auto simp: sync_next_def Let_def calls_left_def split: if_splits)+

definition release :: "nat \<Rightarrow> string \<Rightarrow> file_locks \<Rightarrow> file_locks" where
  "release q p l = (if l p = Some q then l(p := None) else l)"

lemma release_eq: "unlockFile q p l = release q p l" "close_file q p l = release q p l" "release q p (release q p l) = release q p l"
  by (simp_all add: lock_defs release_def)

lemma sync_next_locks:
  assumes "sync_next env q x (d, l) = Inr (Some (x', d', l'))"
  shows "lock_of x' = lock_of x \<and> l' = l \<or>
    (\<exists>p. lock_of x = None \<and> lock_of x' = Some p \<and> (l p = None \<or> l p = Some q) \<and> l' = l(p \<mapsto> q)) \<or>
    (\<exists>p. (lock_of x = None \<or> lock_of x = Some p) \<and> lock_of x' = None \<and> l' = release q p l)"
  using assms
  by (cases "pc x"; fastforce simp: sync_next_def Let_def release_eq wait_lock_def lock_of_def split: if_splits)

text \<open>Only the lock of the moving process changes.\<close>

lemma sync_next_own:
  assumes "sync_next env q x (d, l) = Inr (Some (x', d', l'))" and "\<And>p. l p = Some q \<longleftrightarrow> lock_of x = Some p"
  shows "l' p = Some r \<longleftrightarrow> (if r = q then lock_of x' = Some p else l p = Some r)"
proof -
  consider "lock_of x' = lock_of x" "l' = l"
    | a where "lock_of x = None" "lock_of x' = Some a" "l a = None \<or> l a = Some q" "l' = l(a \<mapsto> q)"
    | a where "lock_of x = None \<or> lock_of x = Some a" "lock_of x' = None" "l' = release q a l"
    using sync_next_locks [OF assms(1)] by blast
  then show ?thesis
  proof cases
    case 1
    then show ?thesis using assms(2) by simp
  next
    case (2 a)
    then have "l p \<noteq> Some q" "l a = None" using assms(2) by auto
    then show ?thesis using 2 by auto
  next
    case (3 a)
    then show ?thesis using assms(2) [of p] assms(2) [of a] by (auto simp: release_def)
  qed
qed

subsection \<open>Exclusion and progress\<close>

text \<open>A move of a process: a call of it.\<close>

lemma sync_stepE:
  assumes "sync_step env y y'"
  obtains q x d l where "q < length (sprocs y)" "sync_next (env q) q (sprocs y ! q) (sdisk y, flocks y) = Inr (Some (x, d, l))"
    "y' = \<lparr>sdisk = d, flocks = l, sprocs = (sprocs y)[q := x]\<rparr>"
  using assms
proof cases
  case (move q)
  then show ?thesis
    by (cases "q < length (sprocs y)"; cases "sync_next (env q) q (sprocs y ! q) (sdisk y, flocks y)")
      (auto simp: sync_move_def in_bounds_def intro: that)
qed

lemma sync_stepI:
  assumes "q < length (sprocs y)" and "sync_next (env q) q (sprocs y ! q) (sdisk y, flocks y) = Inr (Some (x, d, l))"
  shows "sync_step env y \<lparr>sdisk = d, flocks = l, sprocs = (sprocs y)[q := x]\<rparr>"
  using assms by (intro sync_step.move [of env q]) (simp add: sync_move_def in_bounds_def)

lemma step_locks_ok:
  assumes "sync_step env y y'" and "locks_ok y"
  shows "locks_ok y'"
proof -
  obtain q x d l where q: "q < length (sprocs y)" and n: "sync_next (env q) q (sprocs y ! q) (sdisk y, flocks y) = Inr (Some (x, d, l))"
    and y': "y' = \<lparr>sdisk = d, flocks = l, sprocs = (sprocs y)[q := x]\<rparr>"
    using assms(1) by (rule sync_stepE)
  have own: "flocks y p = Some q \<longleftrightarrow> lock_of (sprocs y ! q) = Some p" for p using assms(2) q by (simp add: locks_ok_def)
  have "l p = Some r \<longleftrightarrow> r < length (sprocs y') \<and> lock_of (sprocs y' ! r) = Some p" for p r
    using sync_next_own [OF n own, of p r] assms(2) q by (auto simp: y' nth_list_update locks_ok_def)
  moreover have "list_all (\<lambda>x. w_length (wrt x) \<le> int (length (buf x))) (sprocs y')"
    using assms(2) q sync_next_keeps(1,2) [OF n]
    by (auto simp: y' locks_ok_def list_all_length nth_list_update)
  ultimately show ?thesis by (simp add: locks_ok_def y')
qed

lemma step_left:
  assumes "sync_step env y y'"
  shows "sync_left y' < sync_left y"
  using assms
proof (rule sync_stepE)
  fix q x d l
  assume q: "q < length (sprocs y)" and n: "sync_next (env q) q (sprocs y ! q) (sdisk y, flocks y) = Inr (Some (x, d, l))"
    and y': "y' = \<lparr>sdisk = d, flocks = l, sprocs = (sprocs y)[q := x]\<rparr>"
  have "calls_left (sprocs y ! q) \<le> sum_list (map calls_left (sprocs y))"
    using q by (intro member_le_sum_list) simp_all
  then show ?thesis using sync_next_keeps(3) [OF n] q by (simp add: y' sync_left_def map_update sum_list_update)
qed

text \<open>A process without a lock waits only for a lock that another one has, and one with a lock never waits.\<close>

lemma sync_next_moves:
  assumes "\<not> returned x" and "w_length (wrt x) \<le> int (length (buf x))" and "lock_of x = None \<longrightarrow> l = (\<lambda>p. None)"
  shows "\<exists>x' d' l'. sync_next env q x (d, l) = Inr (Some (x', d', l'))"
  using assms by (cases "pc x") (auto simp: sync_next_def Let_def wait_lock_def lock_of_def returned_def)

lemma sync_progress:
  assumes "locks_ok y" and "\<not> all_returned y"
  shows "\<exists>y'. sync_step env y y'"
proof -
  obtain q where q: "q < length (sprocs y)" "\<not> returned (sprocs y ! q)" "lock_of (sprocs y ! q) = None \<longrightarrow> flocks y = (\<lambda>p. None)"
  proof (cases "\<exists>p q. flocks y p = Some q")
    case True
    then obtain p q where "flocks y p = Some q" by blast
    then have q: "q < length (sprocs y)" "lock_of (sprocs y ! q) = Some p" using assms(1) by (auto simp: locks_ok_def)
    then have "\<not> returned (sprocs y ! q)" by (auto simp: returned_def lock_of_def)
    with q show ?thesis by (intro that [of q]) simp_all
  next
    case False
    then have "flocks y = (\<lambda>p. None)" by (simp add: fun_eq_iff)
    with assms(2) show ?thesis by (auto simp: all_returned_def list_all_length intro: that)
  qed
  have b: "w_length (wrt (sprocs y ! q)) \<le> int (length (buf (sprocs y ! q)))"
    using assms(1) q(1) by (simp add: locks_ok_def list_all_length)
  obtain x d l where "sync_next (env q) q (sprocs y ! q) (sdisk y, flocks y) = Inr (Some (x, d, l))"
    using sync_next_moves [OF q(2) b q(3)] by blast
  then show ?thesis using sync_stepI [OF q(1)] by blast
qed

subsection \<open>The contents of the files\<close>

text \<open>Processes that write to one file. The lines of the log and the writes to the data file come each in
  some order of the processes.\<close>

definition proc_holds :: "string \<Rightarrow> string \<Rightarrow> sync_proc \<Rightarrow> logged \<Rightarrow> bool" where
  "proc_holds dir name x w \<longleftrightarrow>
     w_filename (wrt x) = name \<and> w_offset (wrt x) = int (fst w) \<and> w_length (wrt x) = int (length (snd w)) \<and>
     full_file_path (wrt x) = path dir name \<and> full_log_path (wrt x) = log_path dir name \<and>
     c_str (buf x) = snd w \<and> (\<exists>rest. buf x = snd w @ NUL # rest)"

definition rc_ok :: "sync_proc \<Rightarrow> logged \<Rightarrow> bool" where
  "rc_ok x w \<longleftrightarrow> (\<forall>rc. pc x = Unlock_data rc \<or> pc x = Returned rc \<longrightarrow> rc = int (length (snd w)))"

definition order_of :: "(sync_proc \<Rightarrow> bool) \<Rightarrow> sync_proc list \<Rightarrow> nat list \<Rightarrow> bool" where
  "order_of P xs qs \<longleftrightarrow> distinct qs \<and> set qs = {q. q < length xs \<and> P (xs ! q)}"

definition logged_yet :: "sync_proc \<Rightarrow> bool" where
  "logged_yet x \<longleftrightarrow> calls_left x \<le> 6"

definition written_yet :: "sync_proc \<Rightarrow> bool" where
  "written_yet x \<longleftrightarrow> calls_left x \<le> 1"

definition files_hold :: "string \<Rightarrow> string \<Rightarrow> logged list \<Rightarrow> string \<Rightarrow> string \<Rightarrow> nat list \<Rightarrow> nat list \<Rightarrow> sync_sys \<Rightarrow> bool" where
  "files_hold dir name ws t c lo wo y \<longleftrightarrow>
     sdisk y (log_path dir name) = Some (t @ log_text name (map ((!) ws) lo)) \<and>
     sdisk y (path dir name) = Some (replay (map ((!) ws) wo) c)"

definition sync_content :: "string \<Rightarrow> string \<Rightarrow> logged list \<Rightarrow> string \<Rightarrow> string \<Rightarrow> sync_sys \<Rightarrow> bool" where
  "sync_content dir name ws t c y \<longleftrightarrow>
     length (sprocs y) = length ws \<and>
     (\<forall>q<length ws. proc_holds dir name (sprocs y ! q) (ws ! q) \<and> rc_ok (sprocs y ! q) (ws ! q)) \<and>
     (\<exists>lo wo. order_of logged_yet (sprocs y) lo \<and> order_of written_yet (sprocs y) wo \<and> files_hold dir name ws t c lo wo y)"

lemma sync_next_content:
  assumes "sync_next env q x (d, l) = Inr (Some (x', d', l'))" and "env_ok env" and "proc_holds dir name x w" and "rc_ok x w"
    and "d (log_path dir name) = Some T" and "d (path dir name) = Some C"
  shows "calls_left x = Suc (calls_left x') \<and> proc_holds dir name x' w \<and> rc_ok x' w \<and>
    d' = (if pc x = Append_line then d(log_path dir name \<mapsto> T @ log_entry name w)
          else if pc x = Write_data then d(path dir name \<mapsto> write_at (fst w) (snd w) C) else d)"
  using assms
  by (cases "pc x") (auto simp: sync_next_def Let_def env_ok_def proc_holds_def rc_ok_def calls_left_def log_entry_def
      fun_upd_idem split: if_splits)

lemma order_of_move:
  assumes "order_of P xs qs" and "q < length xs" and "\<And>x. P x \<longleftrightarrow> calls_left x \<le> k" and "calls_left (xs ! q) = Suc (calls_left x)"
  shows "order_of P (xs[q := x]) (if calls_left x = k then qs @ [q] else qs)"
proof -
  have "P x \<longleftrightarrow> P (xs ! q) \<or> calls_left x = k" "calls_left x = k \<Longrightarrow> \<not> P (xs ! q)" using assms(4) by (auto simp: assms(3))
  moreover have "set qs = {r. r < length xs \<and> P (xs ! r)}" "distinct qs" using assms(1) by (simp_all add: order_of_def)
  ultimately show ?thesis using assms(2) by (simp add: order_of_def) (auto simp: nth_list_update)
qed

lemma step_content:
  assumes "sync_step env y y'" and "\<And>q. env_ok (env q)" and "sync_content dir name ws t c y"
  shows "sync_content dir name ws t c y'" "sync_left y = Suc (sync_left y')"
proof -
  obtain q x d l where q: "q < length (sprocs y)" and n: "sync_next (env q) q (sprocs y ! q) (sdisk y, flocks y) = Inr (Some (x, d, l))"
    and y': "y' = \<lparr>sdisk = d, flocks = l, sprocs = (sprocs y)[q := x]\<rparr>"
    using assms(1) by (rule sync_stepE)
  obtain lo wo where lo: "order_of logged_yet (sprocs y) lo" and wo: "order_of written_yet (sprocs y) wo"
    and f: "files_hold dir name ws t c lo wo y"
    using assms(3) by (auto simp: sync_content_def)
  let ?x = "sprocs y ! q"
  have len: "length (sprocs y) = length ws" and h: "proc_holds dir name ?x (ws ! q)" "rc_ok ?x (ws ! q)"
    using assms(3) q by (auto simp: sync_content_def)
  note e = sync_next_content [OF n assms(2) h f [unfolded files_hold_def, THEN conjunct1] f [unfolded files_hold_def, THEN conjunct2]]
  have calls: "calls_left ?x = Suc (calls_left x)" using e by simp
  have "calls_left ?x \<le> sum_list (map calls_left (sprocs y))" using q by (intro member_le_sum_list) simp_all
  then show "sync_left y = Suc (sync_left y')" using calls q by (simp add: y' sync_left_def map_update sum_list_update)
  have pcs: "pc ?x = Append_line \<longleftrightarrow> calls_left x = 6" "pc ?x = Write_data \<longleftrightarrow> calls_left x = 1"
    using calls by (cases "pc ?x"; simp add: calls_left_def)+
  have ne: "path dir name \<noteq> log_path dir name" by (rule path_neq_log_path)
  have lo': "order_of logged_yet (sprocs y') (if pc ?x = Append_line then lo @ [q] else lo)"
    using order_of_move [OF lo q logged_yet_def calls] by (simp add: y' pcs)
  have wo': "order_of written_yet (sprocs y') (if pc ?x = Write_data then wo @ [q] else wo)"
    using order_of_move [OF wo q written_yet_def calls] by (simp add: y' pcs)
  have f': "files_hold dir name ws t c (if pc ?x = Append_line then lo @ [q] else lo) (if pc ?x = Write_data then wo @ [q] else wo) y'"
    using e f ne by (cases "ws ! q") (auto simp: y' files_hold_def log_text_def)
  have "\<forall>r<length ws. proc_holds dir name (sprocs y' ! r) (ws ! r) \<and> rc_ok (sprocs y' ! r) (ws ! r)"
    using e assms(3) q by (auto simp: y' nth_list_update sync_content_def)
  with lo' wo' f' show "sync_content dir name ws t c y'" using len by (auto simp: sync_content_def y')
qed

subsection \<open>All runs\<close>

definition sync_init :: "(nat \<Rightarrow> fs_env) \<Rightarrow> string \<Rightarrow> string \<Rightarrow> logged list \<Rightarrow> string \<Rightarrow> string \<Rightarrow> sync_sys \<Rightarrow> bool" where
  "sync_init env dir name ws t c y \<longleftrightarrow>
     (\<forall>q. env_ok (env q)) \<and> length (sprocs y) = length ws \<and> flocks y = (\<lambda>p. None) \<and>
     (\<forall>q<length ws. pc (sprocs y ! q) = Open_log \<and> proc_holds dir name (sprocs y ! q) (ws ! q)) \<and>
     sdisk y (log_path dir name) = Some t \<and> sdisk y (path dir name) = Some c"

definition sync_inv :: "(nat \<Rightarrow> fs_env) \<Rightarrow> string \<Rightarrow> string \<Rightarrow> logged list \<Rightarrow> string \<Rightarrow> string \<Rightarrow> sync_sys \<Rightarrow> bool" where
  "sync_inv env dir name ws t c y \<longleftrightarrow> (\<forall>q. env_ok (env q)) \<and> locks_ok y \<and> sync_content dir name ws t c y"

lemma sync_init_inv: "sync_init env dir name ws t c y \<Longrightarrow> sync_inv env dir name ws t c y"
  by (auto simp: sync_init_def sync_inv_def locks_ok_def sync_content_def lock_of_def rc_ok_def list_all_length
      proc_holds_def order_of_def logged_yet_def written_yet_def calls_left_def files_hold_def log_text_def
      intro!: exI [of _ "[]"])

lemma sync_init_left: "sync_init env dir name ws t c y \<Longrightarrow> sync_left y = 9 * length ws"
proof -
  assume a: "sync_init env dir name ws t c y"
  then have "map calls_left (sprocs y) = replicate (length ws) 9"
    by (auto simp: sync_init_def calls_left_def intro!: nth_equalityI)
  then show ?thesis by (simp add: sync_left_def sum_list_replicate)
qed

interpretation lks: invariant_system locks_ok "sync_step env" locks_ok for env
  by unfold_locales (auto intro: step_locks_ok)

interpretation syn: invariant_system "sync_init env dir name ws t c" "sync_step env" "sync_inv env dir name ws t c"
  for env dir name ws t c
  by unfold_locales (auto simp: sync_inv_def intro: step_locks_ok step_content(1) dest: sync_init_inv [unfolded sync_inv_def])

interpretation syw: work_system "sync_step env" "sync_inv env dir name ws t c" sync_left all_returned for env dir name ws t c
proof
  show "sync_inv env dir name ws t c y'" if "sync_inv env dir name ws t c y" "sync_step env y y'" for y y'
    using syn.inv_step that by blast
  show "sync_left y = Suc (sync_left y')" if "sync_inv env dir name ws t c y" "sync_step env y y'" for y y'
    using step_content(2) [OF that(2)] that(1) by (auto simp: sync_inv_def)
  show "False \<or> (\<exists>y'. sync_step env y y')" if "sync_inv env dir name ws t c y" "0 < sync_left y" for y
    using sync_progress [of y env] that sync_left_0 [of y] by (simp add: sync_inv_def)
qed (simp add: sync_left_0)

lemma locks_exclusive:
  assumes "locks_ok y" and "q < length (sprocs y)" and "r < length (sprocs y)"
    and "lock_of (sprocs y ! q) = Some p" and "lock_of (sprocs y ! r) = Some p"
  shows "q = r"
  using assms unfolding locks_ok_def by (metis option.inject)

text \<open>When all have returned, both files have every write, each in an order of its own.\<close>

lemma all_returned_content:
  assumes "sync_content dir name ws t c y" and "all_returned y"
  shows "(\<forall>q<length ws. pc (sprocs y ! q) = Returned (int (length (snd (ws ! q))))) \<and>
    (\<exists>lo wo. distinct lo \<and> set lo = {..<length ws} \<and> distinct wo \<and> set wo = {..<length ws} \<and> files_hold dir name ws t c lo wo y)"
proof -
  have len: "length (sprocs y) = length ws" using assms(1) by (simp add: sync_content_def)
  have 0: "calls_left (sprocs y ! q) = 0" if "q < length ws" for q
    using assms(2) that len by (simp add: all_returned_def list_all_length calls_left_0)
  have "pc (sprocs y ! q) = Returned (int (length (snd (ws ! q))))" if q: "q < length ws" for q
    using assms q 0 [OF q] by (auto simp: sync_content_def rc_ok_def calls_left_0 returned_def)
  moreover obtain lo wo where o: "order_of logged_yet (sprocs y) lo" "order_of written_yet (sprocs y) wo"
    and f: "files_hold dir name ws t c lo wo y"
    using assms(1) by (auto simp: sync_content_def)
  have "distinct lo" "set lo = {..<length ws}" "distinct wo" "set wo = {..<length ws}"
    using o 0 len by (auto simp: order_of_def logged_yet_def written_yet_def)
  with f have "\<exists>lo wo. distinct lo \<and> set lo = {..<length ws} \<and> distinct wo \<and> set wo = {..<length ws} \<and> files_hold dir name ws t c lo wo y"
    by blast
  ultimately show ?thesis by blast
qed

lemma set_order: "set lo = {..<length ws} \<Longrightarrow> set (map ((!) ws) lo) = set ws"
  by (simp add: set_conv_nth [of ws] lessThan_def image_Collect)

text \<open>The clean-up after such a run leaves the order of the log.\<close>

lemma clean_restores_log_order:
  assumes "files_hold dir name ws (log_text name vs) c lo wo y" and "set lo = {..<length ws}" and "data_name name"
    and "list_all logged_ok (vs @ ws)" and "gtfs_objs s g = Some go" and "dirname go = dir" and "is_dir s dir" and "closedir_ok e"
    and "set us \<subseteq> set (vs @ ws)" and "disk s = (sdisk y)(path dir name \<mapsto> replay us c)"
  shows "\<exists>s'. gtfs_clean e [name] (Some g) s = Inr (0, s') \<and>
    disk s' = (sdisk y)(path dir name \<mapsto> replay (vs @ map ((!) ws) lo) c, log_path dir name \<mapsto> [])"
proof -
  let ?ws = "vs @ map ((!) ws) lo"
  have set: "set ?ws = set (vs @ ws)" using set_order [OF assms(2)] by simp
  have ok: "list_all logged_ok ?ws" using assms(4) set unfolding list_all_iff by blast
  have ne: "path dir name \<noteq> log_path dir name" by (rule path_neq_log_path)
  have d: "disk s (path dir name) = Some (replay us c)" "disk s (log_path dir name) = Some (log_text name ?ws)"
    using assms(1,10) ne by (auto simp: files_hold_def log_text_def)
  have "replay ?ws (replay us c) = replay ?ws c" using assms(9) set by (intro replay_repairs) simp
  then show ?thesis using clean_one [OF assms(3) ok d, of "[]"] assms(5-8,10)
    by (auto simp: gtfs_clean_def obj_def fun_upd_twist [OF ne])
qed

subsection \<open>An overtaking write\<close>

text \<open>The second process synchronises its whole write while the first one is between the two files.\<close>

definition overtaking :: "nat list" where
  "overtaking = [0, 0, 0, 0, 0] @ replicate 9 1 @ [0, 0, 0, 0]"

lemma overtaking_run:
  assumes "\<And>q. env_ok (env q)" and "proc_holds dir name x0 w0" and "proc_holds dir name x1 w1" and "pc x0 = Open_log" and "pc x1 = Open_log"
    and "d (log_path dir name) = Some t" and "d (path dir name) = Some c"
  shows "sync_schedule env overtaking \<lparr>sdisk = d, flocks = (\<lambda>p. None), sprocs = [x0, x1]\<rparr> =
    Inr (Some \<lparr>sdisk = d(log_path dir name \<mapsto> t @ log_text name [w0, w1], path dir name \<mapsto> replay [w1, w0] c), flocks = (\<lambda>p. None),
      sprocs = [x0\<lparr>pc := Returned (int (length (snd w0)))\<rparr>, x1\<lparr>pc := Returned (int (length (snd w1)))\<rparr>]\<rparr>)"
proof -
  have ne: "path dir name \<noteq> log_path dir name" "log_path dir name \<noteq> path dir name" using path_neq_log_path by metis+
  obtain r0 r1 where b: "buf x0 = snd w0 @ NUL # r0" "buf x1 = snd w1 @ NUL # r1" using assms(2,3) by (auto simp: proc_holds_def)
  have e: "\<And>q p. open_ok (env q) p" "\<And>q p. lockFile (env q) p" using assms(1) by (simp_all add: env_ok_def)
  have u: "d(log_path dir name \<mapsto> t) = d" using assms(6) by (simp add: fun_upd_idem)
  show ?thesis using assms(2-7) ne
    by (cases w0; cases w1)
      (simp add: overtaking_def numeral_eq_Suc sync_move_def in_bounds_def sync_next_def Let_def lock_defs e u proc_holds_def
        b log_text_def log_entry_def fun_upd_twist [OF ne(1)])
qed

end
