(* ===== verification/FS_Properties.thy ===== *)
theory FS_Properties
  imports FS_Ops FS_Procs
begin

text \<open>
  The properties of GTFileSystem, with a concrete instance of each.
\<close>

section \<open>A concrete file system\<close>

definition fx_env :: fs_env where
  "fx_env = \<lparr>open_ok = (\<lambda>p. True), fcntl = (\<lambda>t p. 0), closedir_ok = True\<rparr>"

definition fx_start :: fs_state where
  "fx_start = \<lparr>disk = (\<lambda>p. None), is_dir = (\<lambda>d. d = ''d''), bufs = (\<lambda>p. [CHR ''a'', CHR ''b'', NUL]),
     gtfs_objs = [0 \<mapsto> \<lparr>dirname = ''d''\<rparr>], file_objs = [0 \<mapsto> \<lparr>filename = ''f.txt'', file_length = 100, is_open = 1\<rparr>],
     write_objs = (\<lambda>p. None), directory_gtfs_mapping = (\<lambda>d. None), file_log_updates_mapping = (\<lambda>n. None),
     filename_file_t_mapping = (\<lambda>n. None), directory_files_mapping = (\<lambda>d. [])\<rparr>"

definition fx_write :: write_t where
  "fx_write = \<lparr>w_filename = ''f.txt'', w_offset = 1, w_length = 2, w_data = 5, full_file_path = ''d/f.txt'',
     full_log_path = ''d/f.txt.log''\<rparr>"

definition fx_ready :: fs_state where
  "fx_ready = fx_start\<lparr>disk := [path ''d'' ''f.txt'' \<mapsto> ''xyz'', log_path ''d'' ''f.txt'' \<mapsto> []], write_objs := [9 \<mapsto> fx_write]\<rparr>"

lemma fx_env_ok: "env_ok fx_env"
  by (simp add: env_ok_def fx_env_def lockFile_def)

lemma fx_name: "data_name ''f.txt''"
  by (simp add: data_name_def name_ok_def strstr.simps)

lemma fx_logged: "logged_ok (1, ''ab'')"
  by (simp add: logged_ok_def loggable_def body_of_def NUL_def)

lemma fx_holds: "holds_write ''d'' ''f.txt'' fx_ready 9 (1, ''ab'')"
  by (simp add: holds_write_def fx_ready_def fx_write_def fx_start_def path_def log_path_def)

section \<open>The log\<close>

text \<open>C31. A line of the log is read back as it was written: name, offset, length and data, to which the
  reader adds the line end that closed the line. The name and the data must not contain the separator, and
  the data must not be empty.\<close>

theorem log_roundtrip:
  assumes "CHR ''|'' \<notin> set name" and "0 \<le> off" and "off < 2 ^ 31" and "0 \<le> len" and "len < 2 ^ 31"
    and "CHR ''|'' \<notin> set body" and "body \<noteq> []"
  shows "parse_line (log_line name off len body) = Inr (name, off, len, body @ ''\<newline>'')"
  using assms by (rule parse_log_line)

theorem log_roundtrip_witness:
  "parse_line (log_line ''f.txt'' 10 20 ''Hi'') = Inr (''f.txt'', 10, 20, ''Hi'' @ ''\<newline>'')"
  by (rule log_roundtrip) simp_all

text \<open>C26. Writes that were synchronised survive. Let a file with an empty log receive a sequence of
  synchronised writes, and let the data file afterwards hold only some of them, because the machine stopped
  before they reached it. The clean-up returns success, gives the file the content that all the writes in
  their order produce, empties the log and touches no other file. The directory may list any other entries
  beside the file, the log among them, but no other data file; the data must be loggable.\<close>

theorem crash_recovery:
  assumes "gtfs_objs s g = Some go" and "dirname go = dir" and "is_dir s dir" and "env_ok env" and "data_name name"
    and "list_all2 (holds_write dir name s) is ws" and "list_all logged_ok ws"
    and "disk s (path dir name) = Some c" and "disk s (log_path dir name) = Some []" and "set us \<subseteq> set ws" and "lists_only ns name"
  shows "\<exists>s1 s2. sync_all env is s = Inr s1 \<and> disk s1 (path dir name) = Some (replay ws c) \<and>
    gtfs_clean env ns (Some g) (s1\<lparr>disk := (disk s1)(path dir name \<mapsto> replay us c)\<rparr>) = Inr (0, s2) \<and>
    disk s2 = (disk s)(path dir name \<mapsto> replay ws c, log_path dir name \<mapsto> [])"
proof -
  let ?p = "path dir name" and ?l = "log_path dir name"
  have ne: "?p \<noteq> ?l" by (rule path_neq_log_path)
  define s1 where "s1 = s\<lparr>disk := (disk s)(?l \<mapsto> log_text name ws, ?p \<mapsto> replay ws c)\<rparr>"
  define t where "t = s1\<lparr>disk := (disk s1)(?p \<mapsto> replay us c)\<rparr>"
  have s1: "sync_all env is s = Inr s1" using sync_all_ok [OF assms(6,7,4,8,9)] by (simp add: s1_def)
  have "clean_entries dir [name] t = clean_entries dir [] (t\<lparr>disk := (disk t)(?p \<mapsto> replay ws (replay us c), ?l \<mapsto> [])\<rparr>)"
    using assms(5,7) ne by (intro clean_one) (simp_all add: t_def s1_def)
  moreover have "gtfs_objs t g = Some go" "is_dir t dir" using assms(1,3) by (simp_all add: t_def s1_def)
  ultimately have "gtfs_clean env [name] (Some g) t =
      Inr (0, t\<lparr>disk := (disk t)(?p \<mapsto> replay ws c, ?l \<mapsto> []), file_log_updates_mapping := (\<lambda>_. None)\<rparr>)"
    using assms(2,4) by (simp add: gtfs_clean_def obj_def env_ok_def replay_repairs [OF assms(10)])
  moreover have "(disk t)(?p \<mapsto> replay ws c, ?l \<mapsto> []) = (disk s)(?p \<mapsto> replay ws c, ?l \<mapsto> [])"
    by (simp add: fun_eq_iff t_def s1_def)
  ultimately have "\<exists>s2. gtfs_clean env [name] (Some g) t = Inr (0, s2) \<and> disk s2 = (disk s)(?p \<mapsto> replay ws c, ?l \<mapsto> [])"
    by simp
  moreover have "disk s1 ?p = Some (replay ws c)" by (simp add: s1_def)
  ultimately show ?thesis using s1 unfolding t_def gtfs_clean_listing [OF assms(11)] by blast
qed

definition fx_listing :: "string list" where
  "fx_listing = [''.'', ''f.txt.log'', ''f.txt'', ''..'']"

lemma fx_lists: "lists_only fx_listing ''f.txt''"
  by (simp add: lists_only_def fx_listing_def data_entry_def strstr.simps)

theorem crash_recovery_witness:
  "\<exists>s1 s2. sync_all fx_env [9] fx_ready = Inr s1 \<and> disk s1 (path ''d'' ''f.txt'') = Some ''xab'' \<and>
     gtfs_clean fx_env fx_listing (Some 0) (s1\<lparr>disk := (disk s1)(path ''d'' ''f.txt'' \<mapsto> ''xyz'')\<rparr>) = Inr (0, s2) \<and>
     disk s2 (path ''d'' ''f.txt'') = Some ''xab''"
proof -
  have r: "replay [(1, ''ab'')] ''xyz'' = ''xab''" "replay [] ''xyz'' = ''xyz''" by (simp_all add: write_at_def)
  have ne: "path ''d'' ''f.txt'' \<noteq> log_path ''d'' ''f.txt''" by (rule path_neq_log_path)
  show ?thesis
    using crash_recovery [of fx_ready 0 "\<lparr>dirname = ''d''\<rparr>" "''d''" fx_env "''f.txt''" "[9]" "[(1, ''ab'')]" "''xyz''" "[]" fx_listing]
      fx_env_ok fx_lists fx_name fx_holds fx_logged ne r
    by (auto simp: fx_ready_def fx_start_def)
qed

text \<open>C30. The clean-up of a whole directory applies the log of every data file to that file and empties it,
  and leaves everything else as it is, in whatever order the directory lists its entries.\<close>

theorem clean_directory:
  assumes "gtfs_objs s g = Some go" and "is_dir s (dirname go)" and "env_ok env" and "distinct ns" and "list_all name_ok ns"
    and "\<forall>n\<in>set ns. data_name n \<longrightarrow> list_all logged_ok (ws n) \<and> disk s (path (dirname go) n) = Some (c n) \<and>
      disk s (log_path (dirname go) n) = Some (log_text n (ws n))"
  shows "\<exists>s'. gtfs_clean env ns (Some g) s = Inr (0, s') \<and> file_log_updates_mapping s' = (\<lambda>_. None) \<and>
    (\<forall>n\<in>set ns. data_name n \<longrightarrow> disk s' (path (dirname go) n) = Some (replay (ws n) (c n)) \<and>
      disk s' (log_path (dirname go) n) = Some []) \<and>
    (\<forall>q. (\<forall>n\<in>set ns. data_name n \<longrightarrow> q \<noteq> path (dirname go) n \<and> q \<noteq> log_path (dirname go) n) \<longrightarrow> disk s' q = disk s q)"
proof -
  let ?d = "cleaned (dirname go) ws c ns (disk s)"
  have "clean_entries (dirname go) ns s = Inr (0, s\<lparr>disk := ?d\<rparr>)"
    using assms(4-6) by (intro clean_entries_ok) blast+
  then have "gtfs_clean env ns (Some g) s = Inr (0, s\<lparr>disk := ?d, file_log_updates_mapping := (\<lambda>_. None)\<rparr>)"
    using assms(1-3) by (simp add: gtfs_clean_def obj_def env_ok_def)
  moreover have "?d (path (dirname go) n) = Some (replay (ws n) (c n)) \<and> ?d (log_path (dirname go) n) = Some []"
    if "n \<in> set ns" "data_name n" for n using cleaned_data [OF assms(4) that] by blast
  moreover have "?d q = disk s q" if "\<forall>n\<in>set ns. data_name n \<longrightarrow> q \<noteq> path (dirname go) n \<and> q \<noteq> log_path (dirname go) n" for q
    using that by (intro cleaned_other) blast
  ultimately show ?thesis by (intro exI [of _ "s\<lparr>disk := ?d, file_log_updates_mapping := (\<lambda>_. None)\<rparr>"]) simp
qed

definition fx_stopped :: fs_state where
  "fx_stopped = fx_ready\<lparr>disk := [path ''d'' ''f.txt'' \<mapsto> ''xyz'', log_path ''d'' ''f.txt'' \<mapsto> log_text ''f.txt'' [(1, ''ab'')]]\<rparr>"

theorem clean_directory_witness:
  "\<exists>s'. gtfs_clean fx_env [''.'', ''f.txt'', ''f.txt.log''] (Some 0) fx_stopped = Inr (0, s') \<and>
     disk s' (path ''d'' ''f.txt'') = Some ''xab'' \<and> disk s' (log_path ''d'' ''f.txt'') = Some []"
proof -
  have n: "\<not> data_name ''.''" "\<not> data_name ''f.txt.log''" by (simp_all add: data_name_def strstr.simps)
  have ne: "path ''d'' ''f.txt'' \<noteq> log_path ''d'' ''f.txt''" by (rule path_neq_log_path)
  have r: "replay [(1, ''ab'')] ''xyz'' = ''xab''" by (simp add: write_at_def)
  show ?thesis
    using clean_directory [of fx_stopped 0 "\<lparr>dirname = ''d''\<rparr>" fx_env "[''.'', ''f.txt'', ''f.txt.log'']" "\<lambda>n. [(1, ''ab'')]" "\<lambda>n. ''xyz''"]
      fx_env_ok fx_name n ne fx_logged unfolding r
    by (auto simp: fx_stopped_def fx_ready_def fx_start_def name_ok_def)
qed

section \<open>Several processes\<close>

definition fx_proc :: "string \<Rightarrow> sync_proc" where
  "fx_proc bytes = \<lparr>pc = Open_log, wrt = fx_write, buf = bytes @ [NUL]\<rparr>"

definition fx_sys :: sync_sys where
  "fx_sys = \<lparr>sdisk = [path ''d'' ''f.txt'' \<mapsto> ''xyz'', log_path ''d'' ''f.txt'' \<mapsto> []], flocks = (\<lambda>p. None),
     sprocs = [fx_proc ''ab'', fx_proc ''cd'']\<rparr>"

lemma fx_proc_holds: "proc_holds ''d'' ''f.txt'' (fx_proc ''ab'') (1, ''ab'')" "proc_holds ''d'' ''f.txt'' (fx_proc ''cd'') (1, ''cd'')"
  by (simp_all add: proc_holds_def fx_proc_def fx_write_def path_def log_path_def c_str_def NUL_def)

lemma fx_sys_init: "sync_init (\<lambda>q. fx_env) ''d'' ''f.txt'' [(1, ''ab''), (1, ''cd'')] (log_text ''f.txt'' []) ''xyz'' fx_sys"
proof -
  have "pc (fx_proc bytes) = Open_log" for bytes by (simp add: fx_proc_def)
  then show ?thesis using fx_env_ok fx_proc_holds path_neq_log_path [of "''d''" "''f.txt''"]
    by (auto simp: sync_init_def fx_sys_def less_Suc_eq log_text_def)
qed

lemma fx_logged2: "list_all logged_ok [(1, ''ab''), (1, ''cd'')]"
  by (simp add: logged_ok_def loggable_def body_of_def NUL_def)

text \<open>C27. Any number of processes may synchronise writes to one file at the same time. In every
  interleaving of their system calls no two have the lock of the same file, while one has not returned some
  call is possible, and the calls left (nine for each) drop by one with every call. When all have returned,
  each with the length of its write, the log has the line of every write once and whole, and the data file
  has every write, each file in an order of its own.\<close>

theorem concurrent_syncs:
  assumes "sync_init env dir name ws t c y0" and "(sync_step env)\<^sup>*\<^sup>* y0 y"
  shows "sync_left y0 = 9 * length ws \<and>
    (\<forall>q<length ws. \<forall>r<length ws. \<forall>p. lock_of (sprocs y ! q) = Some p \<and> lock_of (sprocs y ! r) = Some p \<longrightarrow> q = r) \<and>
    (\<not> all_returned y \<longrightarrow> (\<exists>y'. sync_step env y y')) \<and>
    (\<forall>y'. sync_step env y y' \<longrightarrow> sync_left y = Suc (sync_left y')) \<and>
    (all_returned y \<longrightarrow> (\<forall>q<length ws. pc (sprocs y ! q) = Returned (int (length (snd (ws ! q))))) \<and>
      (\<exists>lo wo. distinct lo \<and> set lo = {..<length ws} \<and> distinct wo \<and> set wo = {..<length ws} \<and>
        files_hold dir name ws t c lo wo y))"
proof -
  have inv: "\<And>q. env_ok (env q)" "locks_ok y" "sync_content dir name ws t c y"
    using syn.reachable_inv [OF assms] by (simp_all add: sync_inv_def)
  have "length (sprocs y) = length ws" using inv(3) by (simp add: sync_content_def)
  then have excl: "\<forall>q<length ws. \<forall>r<length ws. \<forall>p. lock_of (sprocs y ! q) = Some p \<and> lock_of (sprocs y ! r) = Some p \<longrightarrow> q = r"
    using locks_exclusive [OF inv(2)] by auto
  have down: "\<forall>y'. sync_step env y y' \<longrightarrow> sync_left y = Suc (sync_left y')"
    using step_content(2) [where env = env, OF _ inv(1,3)] by blast
  show ?thesis
    using sync_init_left [OF assms(1)] excl sync_progress [OF inv(2)] down all_returned_content [OF inv(3)] by blast
qed

theorem concurrent_syncs_witness:
  "sync_left fx_sys = 18 \<and> (\<exists>y'. sync_step (\<lambda>q. fx_env) fx_sys y' \<and> sync_left y' = 17)"
proof -
  have "\<not> all_returned fx_sys" by (simp add: all_returned_def fx_sys_def returned_def fx_proc_def)
  with concurrent_syncs [OF fx_sys_init rtranclp.rtrancl_refl] show ?thesis by auto
qed

text \<open>C28. After such a run the file may hold any of the writes that were logged, in any order, because
  the machine stopped or because the processes came in another order to the data file than to the log. The
  clean-up, in a directory with any entries but no other data file, gives the file the content of all the writes
  in the order of the log and empties the log.\<close>

theorem concurrent_recovery:
  assumes "sync_init env dir name ws (log_text name vs) c y0" and "(sync_step env)\<^sup>*\<^sup>* y0 y" and "all_returned y"
    and "data_name name" and "list_all logged_ok (vs @ ws)" and "gtfs_objs s g = Some go" and "dirname go = dir" and "is_dir s dir"
    and "closedir_ok e" and "set us \<subseteq> set (vs @ ws)" and "disk s = (sdisk y)(path dir name \<mapsto> replay us c)"
    and "lists_only ns name"
  shows "\<exists>lo s'. distinct lo \<and> set lo = {..<length ws} \<and>
    sdisk y (log_path dir name) = Some (log_text name (vs @ map ((!) ws) lo)) \<and> gtfs_clean e ns (Some g) s = Inr (0, s') \<and>
    disk s' = (sdisk y)(path dir name \<mapsto> replay (vs @ map ((!) ws) lo) c, log_path dir name \<mapsto> [])"
proof -
  have "sync_content dir name ws (log_text name vs) c y" using syn.reachable_inv [OF assms(1,2)] by (simp add: sync_inv_def)
  then obtain lo wo where lo: "distinct lo" "set lo = {..<length ws}" and f: "files_hold dir name ws (log_text name vs) c lo wo y"
    using all_returned_content assms(3) by blast
  obtain s' where "gtfs_clean e [name] (Some g) s = Inr (0, s')"
      "disk s' = (sdisk y)(path dir name \<mapsto> replay (vs @ map ((!) ws) lo) c, log_path dir name \<mapsto> [])"
    using clean_restores_log_order [OF f lo(2) assms(4-11)] by blast
  with lo f show ?thesis
    by (intro exI [of _ lo] exI [of _ s']) (simp add: files_hold_def log_text_def gtfs_clean_listing [OF assms(12)])
qed

theorem concurrent_recovery_witness:
  "\<exists>y lo s'. (sync_step (\<lambda>q. fx_env))\<^sup>*\<^sup>* fx_sys y \<and> set lo = {..<2} \<and>
     gtfs_clean fx_env fx_listing (Some 0) (fx_start\<lparr>disk := (sdisk y)(path ''d'' ''f.txt'' \<mapsto> ''xyz'')\<rparr>) = Inr (0, s') \<and>
     disk s' (path ''d'' ''f.txt'') = Some (replay (map ((!) [(1, ''ab''), (1, ''cd'')]) lo) ''xyz'')"
proof -
  obtain y where y: "(sync_step (\<lambda>q. fx_env))\<^sup>*\<^sup>* fx_sys y" "all_returned y"
    using syw.completes [OF sync_init_inv [OF fx_sys_init]] by (auto dest: relpowp_imp_rtranclp)
  have c: "closedir_ok fx_env" using fx_env_ok by (simp add: env_ok_def)
  define s where "s = fx_start\<lparr>disk := (sdisk y)(path ''d'' ''f.txt'' \<mapsto> ''xyz'')\<rparr>"
  have s: "gtfs_objs s 0 = Some \<lparr>dirname = ''d''\<rparr>" "is_dir s ''d''" "disk s = (sdisk y)(path ''d'' ''f.txt'' \<mapsto> replay [] ''xyz'')"
    by (simp_all add: s_def fx_start_def)
  have l: "list_all logged_ok ([] @ [(1, ''ab''), (1, ''cd'')])" using fx_logged2 by simp
  show ?thesis
    using concurrent_recovery [OF fx_sys_init y fx_name l s(1) _ s(2) c _ s(3) fx_lists] y(1) path_neq_log_path [of "''d''" "''f.txt''"]
    by (fastforce simp: s_def numeral_2_eq_2)
qed

text \<open>C29. Nothing keeps the two orders together. Of two processes that write to one file the second can
  overtake the first between the log and the data file: both calls return success and the file has the
  second write under the first, but the log has them the other way round, so that the next clean-up changes
  what the file holds although nothing was written since.\<close>

theorem sync_orders_differ:
  assumes "sync_init env dir name [w0, w1] [] c y0" and "data_name name" and "logged_ok w0" and "logged_ok w1"
    and "gtfs_objs s g = Some go" and "dirname go = dir" and "is_dir s dir" and "closedir_ok e" and "lists_only ns name"
  shows "\<exists>y s'. (sync_step env)\<^sup>*\<^sup>* y0 y \<and> map pc (sprocs y) = [Returned (int (length (snd w0))), Returned (int (length (snd w1)))] \<and>
    sdisk y (path dir name) = Some (replay [w1, w0] c) \<and>
    gtfs_clean e ns (Some g) (s\<lparr>disk := sdisk y\<rparr>) = Inr (0, s') \<and> disk s' (path dir name) = Some (replay [w0, w1] c)"
proof -
  obtain x0 x1 where xs: "sprocs y0 = [x0, x1]"
    using assms(1) by (auto simp: sync_init_def numeral_2_eq_2 length_Suc_conv)
  have i: "\<And>q. env_ok (env q)" "proc_holds dir name x0 w0" "proc_holds dir name x1 w1" "pc x0 = Open_log" "pc x1 = Open_log"
      "sdisk y0 (log_path dir name) = Some []" "sdisk y0 (path dir name) = Some c"
    using assms(1) xs by (auto simp: sync_init_def less_Suc_eq)
  have y0: "y0 = \<lparr>sdisk = sdisk y0, flocks = (\<lambda>p. None), sprocs = [x0, x1]\<rparr>" using assms(1) xs by (simp add: sync_init_def)
  define y where "y = \<lparr>sdisk = (sdisk y0)(log_path dir name \<mapsto> [] @ log_text name [w0, w1], path dir name \<mapsto> replay [w1, w0] c),
    flocks = (\<lambda>p. None), sprocs = [x0\<lparr>pc := Returned (int (length (snd w0)))\<rparr>, x1\<lparr>pc := Returned (int (length (snd w1)))\<rparr>]\<rparr>"
  have steps: "(sync_step env)\<^sup>*\<^sup>* y0 y"
    using sync_schedule_steps [OF overtaking_run [where d = "sdisk y0", OF i]] y0 by (simp add: y_def)
  have f: "files_hold dir name [w0, w1] (log_text name []) c [0, 1] [1, 0] y"
    using path_neq_log_path [of dir name] by (auto simp: files_hold_def y_def log_text_def)
  have d: "disk (s\<lparr>disk := sdisk y\<rparr>) = (sdisk y)(path dir name \<mapsto> replay [w1, w0] c)" by (simp add: y_def fun_upd_idem)
  have "\<exists>s'. gtfs_clean e [name] (Some g) (s\<lparr>disk := sdisk y\<rparr>) = Inr (0, s') \<and>
      disk s' = (sdisk y)(path dir name \<mapsto> replay ([] @ map ((!) [w0, w1]) [0, 1]) c, log_path dir name \<mapsto> [])"
    by (rule clean_restores_log_order [OF f _ assms(2) _ _ assms(6) _ assms(8) _ d]) (use assms in auto)
  then obtain s' where s': "gtfs_clean e [name] (Some g) (s\<lparr>disk := sdisk y\<rparr>) = Inr (0, s')"
      "disk s' (path dir name) = Some (replay [w0, w1] c)"
    using path_neq_log_path [of dir name] by auto
  have "map pc (sprocs y) = [Returned (int (length (snd w0))), Returned (int (length (snd w1)))]" by (simp add: y_def)
  moreover have "sdisk y (path dir name) = Some (replay [w1, w0] c)" by (simp add: y_def)
  ultimately show ?thesis
    using steps s' by (intro exI [of _ y] exI [of _ s']) (simp add: gtfs_clean_listing [OF assms(9)])
qed

theorem sync_orders_differ_witness:
  "\<exists>y s'. (sync_step (\<lambda>q. fx_env))\<^sup>*\<^sup>* fx_sys y \<and> sdisk y (path ''d'' ''f.txt'') = Some ''xab'' \<and>
     gtfs_clean fx_env fx_listing (Some 0) (fx_start\<lparr>disk := sdisk y\<rparr>) = Inr (0, s') \<and> disk s' (path ''d'' ''f.txt'') = Some ''xcd''"
proof -
  have r: "replay [(1, ''cd''), (1, ''ab'')] ''xyz'' = ''xab''" "replay [(1, ''ab''), (1, ''cd'')] ''xyz'' = ''xcd''"
    by (simp_all add: write_at_def)
  have i: "sync_init (\<lambda>q. fx_env) ''d'' ''f.txt'' [(1, ''ab''), (1, ''cd'')] [] ''xyz'' fx_sys"
    using fx_sys_init by (simp add: log_text_def)
  have "closedir_ok fx_env" using fx_env_ok by (simp add: env_ok_def)
  moreover have "gtfs_objs fx_start 0 = Some \<lparr>dirname = ''d''\<rparr>" "is_dir fx_start ''d''" by (simp_all add: fx_start_def)
  ultimately show ?thesis
    using sync_orders_differ [OF i fx_name, of fx_start 0 "\<lparr>dirname = ''d''\<rparr>" fx_env fx_listing] fx_logged2 fx_lists
    unfolding r by auto
qed

section \<open>The maps of the library\<close>

text \<open>C32. After any sequence of calls of the library, every file that is recorded under a name is an object
  with that name, every write recorded for a name is a write to that name, and every directory that is
  recorded exists and has its library object.\<close>

theorem maps_consistent:
  assumes "fs_start s0" and "(fs_step env)\<^sup>*\<^sup>* s0 s"
  shows "fs_inv s"
  using assms by (rule fsys.reachable_inv)

lemma fx_start_start: "fs_start fx_start"
  by (simp add: fs_start_def fx_start_def)

theorem maps_consistent_witness:
  "\<exists>s. gtfs_write_file 9 (Some 0) (Some 0) 1 2 5 fx_start = Inr (Some 9, s) \<and> fs_inv s"
proof -
  obtain s where s: "gtfs_write_file 9 (Some 0) (Some 0) 1 2 5 fx_start = Inr (Some 9, s)"
    by (simp add: gtfs_write_file_def obj_def fx_start_def Let_def)
  have "fs_step fx_env fx_start s" by (rule fs_step.Write [OF _ s]) (simp add: fx_start_def)
  then have "(fs_step fx_env)\<^sup>*\<^sup>* fx_start s" by (rule r_into_rtranclp)
  with s maps_consistent [OF fx_start_start] show ?thesis by blast
qed

section \<open>Reads, aborts and opening\<close>

text \<open>A write that is aborted before anything else happens leaves the disk as it was and the logged
  writes of its file as before, provided that none of these has the same offset, length and buffer.\<close>

lemma abort_undoes_write:
  assumes "fs_inv s" and "write_objs s new = None" and "gtfs_objs s g = Some go" and "file_objs s p = Some fo"
    and "logs = (case file_log_updates_mapping s (filename fo) of None \<Rightarrow> [] | Some l \<Rightarrow> l)"
    and "\<forall>i\<in>set logs. \<forall>v. write_objs s i = Some v \<longrightarrow> \<not> (w_offset v = offset \<and> w_length v = len \<and> w_data v = data)"
  shows "\<exists>s1 s2. gtfs_write_file new (Some g) (Some p) offset len data s = Inr (Some new, s1) \<and>
    gtfs_abort_write_file (Some new) s1 = Inr (0, s2) \<and> disk s2 = disk s \<and>
    file_log_updates_mapping s2 = (file_log_updates_mapping s)(filename fo \<mapsto> logs)"
proof -
  let ?w = "\<lparr>w_filename = filename fo, w_offset = offset, w_length = len, w_data = data,
      full_file_path = path (dirname go) (filename fo), full_log_path = log_path (dirname go) (filename fo)\<rparr>"
  obtain s1 where s1: "gtfs_write_file new (Some g) (Some p) offset len data s = Inr (Some new, s1)" "disk s1 = disk s"
      "write_objs s1 = (write_objs s)(new \<mapsto> ?w)"
      "file_log_updates_mapping s1 = (file_log_updates_mapping s)(filename fo \<mapsto> logs @ [new])"
    using gtfs_write_ok [OF assms(1-4), of offset len data] assms(5) by blast
  have "\<exists>v. write_objs s i = Some v" if "i \<in> set logs" for i
    using that assms(5) fs_invD(2) [OF assms(1), of "filename fo"] by (cases "file_log_updates_mapping s (filename fo)") auto
  then have "list_all (\<lambda>i. \<exists>v. write_objs s1 i = Some v \<and> \<not> same_write ?w v) logs"
    using assms(2,6) by (fastforce simp: list_all_iff s1(3) same_write_def)
  then have "erase_log (write_objs s1) ?w (logs @ [new]) = Inr logs"
    by (rule erase_log_last) (simp add: s1(3))
  then have "gtfs_abort_write_file (Some new) s1 = Inr (0, s1\<lparr>file_log_updates_mapping :=
      (file_log_updates_mapping s1)(filename fo \<mapsto> logs)\<rparr>)"
    by (simp add: gtfs_abort_write_file_def obj_def s1(3,4))
  moreover have "disk (s1\<lparr>file_log_updates_mapping := m\<rparr>) = disk s" for m by (simp add: s1(2))
  moreover have "(file_log_updates_mapping s1)(filename fo \<mapsto> logs) = (file_log_updates_mapping s)(filename fo \<mapsto> logs)"
    by (simp add: s1(4))
  ultimately have "\<exists>s2. gtfs_abort_write_file (Some new) s1 = Inr (0, s2) \<and> disk s2 = disk s \<and>
      file_log_updates_mapping s2 = (file_log_updates_mapping s)(filename fo \<mapsto> logs)" by simp
  with s1(1) show ?thesis by blast
qed

text \<open>C33. A read at the place of logged writes returns the buffer of the oldest of them that has exactly
  its offset and length; with no such write, a read of bytes that the file has stores its terminator one
  position behind the memory it allocated.\<close>

theorem read_returns_oldest:
  assumes "fs_inv s" and "gtfs_objs s g = Some go" and "file_objs s p = Some fo" and "0 \<le> len"
    and "file_log_updates_mapping s (filename fo) = Some logs" and "disk s (path (dirname go) (filename fo)) = Some content"
    and "offset + len \<le> min (int (length content)) 2147483647"
  shows "gtfs_read_file (Some g) (Some p) offset len s =
    (case List.find (matches offset len) (map (the \<circ> write_objs s) logs) of
       Some w \<Rightarrow> Inr (Read_log (w_data w))
     | None \<Rightarrow> Inl OutOfBounds)"
proof -
  have "list_all (\<lambda>i. write_objs s i \<noteq> None) logs"
    using fs_invD(2) [OF assms(1,5)] by (fastforce simp: list_all_iff)
  then have "find_log (write_objs s) offset len logs =
      Inr (map_option w_data (List.find (matches offset len) (map (the \<circ> write_objs s) logs)))"
    by (rule find_log_oldest)
  then show ?thesis using assms(2-7) read_from_file_overflow [OF assms(7,4)]
    by (simp add: gtfs_read_file_def obj_def split: option.split)
qed

definition fx_twice :: fs_state where
  "fx_twice = fx_ready\<lparr>write_objs := [8 \<mapsto> fx_write\<lparr>w_data := 4\<rparr>, 9 \<mapsto> fx_write],
     file_log_updates_mapping := [''f.txt'' \<mapsto> [8, 9]]\<rparr>"

theorem read_returns_oldest_witness:
  "gtfs_read_file (Some 0) (Some 0) 1 2 fx_twice = Inr (Read_log 4) \<and>
   gtfs_read_file (Some 0) (Some 0) 0 2 fx_twice = Inl OutOfBounds"
proof -
  have i: "fs_inv fx_twice"
    by (simp add: fs_inv_def fx_twice_def fx_ready_def fx_start_def fx_write_def)
  have ne: "path ''d'' ''f.txt'' \<noteq> log_path ''d'' ''f.txt''" by (rule path_neq_log_path)
  show ?thesis
    using read_returns_oldest [OF i, of 0 "\<lparr>dirname = ''d''\<rparr>" 0 "\<lparr>filename = ''f.txt'', file_length = 100, is_open = 1\<rparr>" 2 "[8, 9]" "''xyz''" 1]
      read_returns_oldest [OF i, of 0 "\<lparr>dirname = ''d''\<rparr>" 0 "\<lparr>filename = ''f.txt'', file_length = 100, is_open = 1\<rparr>" 2 "[8, 9]" "''xyz''" 0] ne
    by (simp add: fx_twice_def fx_ready_def fx_start_def fx_write_def matches_def)
qed

text \<open>C34. Opening a file that has a log, in a new process, gives the null pointer and leaves the log
  unapplied whenever the current directory has no file of that name: the existence check is made on the
  bare name. The file is recorded all the same, so that the next call opens it with its log unapplied.\<close>

theorem open_ignores_log:
  assumes "gtfs_objs s g = Some go" and "length name \<le> 255" and "length (directory_files_mapping s (dirname go)) \<le> 1024"
    and "env_ok env" and "filename_file_t_mapping s name = None"
    and "disk s (log_path (dirname go) name) = Some t" and "disk s name = None"
    and "disk s (path (dirname go) name) = Some c" and "file_length' \<ge> len"
  shows "\<exists>s1 s2. gtfs_open_file env new (Some g) name len s = Inr (None, s1) \<and> disk s1 = disk s \<and>
    filename_file_t_mapping s1 name = Some new \<and>
    (length (directory_files_mapping s1 (dirname go)) \<le> 1024 \<longrightarrow>
      gtfs_open_file env new' (Some g) name file_length' s1 = Inr (Some new, s2) \<and> disk s2 = disk s)"
proof -
  let ?dir = "dirname go"
  let ?s1 = "recorded new ?dir name len s"
  have c: "created (path ?dir name) s = s" using assms(8) by (simp add: created_def)
  have d: "disk ?s1 = disk s" "gtfs_objs ?s1 = gtfs_objs s" "filename_file_t_mapping ?s1 name = Some new"
      "file_objs ?s1 new = Some \<lparr>filename = name, file_length = len, is_open = 1\<rparr>"
    by (simp_all add: recorded_def)
  have "open_new new ?dir name len s = Inr (None, ?s1)"
    using assms(6,7) by (simp add: open_new_def Let_def c d sync_log_to_file_def)
  then have one: "gtfs_open_file env new (Some g) name len s = Inr (None, ?s1)"
    using assms(1-5) by (simp add: gtfs_open_file_def obj_def env_ok_def c)
  have c1: "created (path ?dir name) ?s1 = ?s1" using assms(8) d(1) by (simp add: created_def)
  let ?s2 = "?s1\<lparr>file_objs := (file_objs ?s1)(new \<mapsto> \<lparr>filename = name, file_length = file_length', is_open = 1\<rparr>)\<rparr>"
  have "gtfs_open_file env new' (Some g) name file_length' ?s1 = Inr (Some new, ?s2)"
    if "length (directory_files_mapping ?s1 ?dir) \<le> 1024"
    using that assms(1,2,4,9) d c1 by (simp add: Let_def gtfs_open_file_def obj_def env_ok_def open_known_def)
  then show ?thesis using one d by (intro exI [of _ ?s1] exI [of _ ?s2]) simp
qed

theorem open_ignores_log_witness:
  "\<exists>s1. gtfs_open_file fx_env 3 (Some 0) ''f.txt'' 100 fx_ready = Inr (None, s1) \<and>
     filename_file_t_mapping s1 ''f.txt'' = Some 3"
proof -
  have ne: "path ''d'' ''f.txt'' \<noteq> log_path ''d'' ''f.txt''" by (rule path_neq_log_path)
  have nf: "''f.txt'' \<noteq> path ''d'' ''f.txt''" "''f.txt'' \<noteq> log_path ''d'' ''f.txt''" by (simp_all add: path_def log_path_def)
  show ?thesis
    using open_ignores_log [of fx_ready 0 "\<lparr>dirname = ''d''\<rparr>" "''f.txt''" fx_env "[]" "''xyz''" 100 100 3 4] fx_env_ok ne nf
    by (auto simp: fx_ready_def fx_start_def)
qed

end
