(* ===== verification/KV_Text.thy ===== *)
theory KV_Text
  imports C_String TF_Common
begin

text \<open>
  The text handling of GTStore (Assignment_4): \<open>std::string::find\<close> is \<open>strstr\<close> with a position or nothing,
  \<open>substr\<close> with two positions takes what lies between them (and all of the rest when the difference of the
  positions wraps around), and the loops that cut a string at a separator are one function. Messages arrive
  in buffers of fixed size to which the receiver adds a terminator.
\<close>

subsection \<open>Finding and cutting\<close>

definition substr_between :: "string \<Rightarrow> nat \<Rightarrow> nat \<Rightarrow> string" where
  "substr_between s a b = (if a \<le> b then take (b - a) (drop a s) else drop a s)"

definition contains :: "string \<Rightarrow> string \<Rightarrow> bool" where
  "contains s pat \<longleftrightarrow> strstr s pat \<noteq> None"

lemma strstr_head: "strstr (pat @ s) pat = Some 0"
  by (subst strstr.simps) simp

lemma strstr_skip:
  assumes "pat \<noteq> []" and "hd pat \<notin> set x"
  shows "strstr (x @ s) pat = map_option (\<lambda>i. length x + i) (strstr s pat)"
  using assms(2)
proof (induction x)
  case Nil
  then show ?case by (simp add: option.map_ident)
next
  case (Cons c x)
  have "take (length pat) ((c # x) @ s) \<noteq> pat"
  proof
    assume "take (length pat) ((c # x) @ s) = pat"
    then have "hd (take (length pat) ((c # x) @ s)) = hd pat" by simp
    with assms(1) have "c = hd pat" by (cases pat) simp_all
    with Cons.prems show False by simp
  qed
  then show ?case using Cons by (subst strstr.simps) (cases "strstr s pat"; simp)
qed

lemma strstr_char: "c \<notin> set x \<Longrightarrow> strstr (x @ c # s) [c] = Some (length x)"
  using strstr_skip [of "[c]" x "c # s"] strstr_head [of "[c]" s] by simp

lemma strstr_char_none: "c \<notin> set x \<Longrightarrow> strstr x [c] = None"
  using strstr_skip [of "[c]" x "[]"] by (simp add: strstr.simps)

lemma strstr_char_some:
  assumes "strstr s [c] = Some i"
  shows "i < length s \<and> s = take i s @ c # drop (Suc i) s"
proof -
  obtain rest where r: "s = take i s @ [c] @ rest" "i \<le> length s" using strstr_found [OF assms] by blast
  then have "length s = i + 1 + length rest" by (metis (no_types) length_append length_take min.absorb2 One_nat_def list.size(3,4) add.assoc add.commute plus_1_eq_Suc)
  moreover from r have "drop i s = c # rest" by (metis append_Cons append_Nil append_eq_conv_conj length_take min.absorb2)
  then have "drop (Suc i) s = rest" by (metis drop_Suc drop_tl list.sel(3) tl_drop)
  ultimately show ?thesis using r(1) by simp
qed

text \<open>The loop \<open>while ((pos = s.find(sep)) != npos)\<close> that takes off the text before each separator: the pieces
  and what is left.\<close>

function split_loop :: "char \<Rightarrow> string \<Rightarrow> string list \<times> string" where
  "split_loop sep s =
     (case strstr s [sep] of
        None \<Rightarrow> ([], s)
      | Some pos \<Rightarrow> let (pieces, rest) = split_loop sep (drop (pos + 1) s) in (take pos s # pieces, rest))"
  by pat_completeness auto
termination
proof (relation "measure (\<lambda>(sep, s). length s)", goal_cases)
  case (2 sep s pos)
  then have "pos < length s" using strstr_char_some by blast
  then show ?case by simp
qed simp

declare split_loop.simps [simp del]

text \<open>The loop followed by the treatment of the last piece, which is dropped when it is empty.\<close>

definition split_all :: "char \<Rightarrow> string \<Rightarrow> string list" where
  "split_all sep s = (let (pieces, rest) = split_loop sep s in pieces @ (if rest = [] then [] else [rest]))"

lemma split_loop_step: "sep \<notin> set x \<Longrightarrow> split_loop sep (x @ sep # s) = (x # fst (split_loop sep s), snd (split_loop sep s))"
  by (subst split_loop.simps) (simp add: strstr_char case_prod_beta Let_def)

lemma split_loop_last: "sep \<notin> set x \<Longrightarrow> split_loop sep x = ([], x)"
  by (subst split_loop.simps) (simp add: strstr_char_none)

lemma split_loop_concat:
  assumes "\<forall>x\<in>set xs. sep \<notin> set x" and "sep \<notin> set r"
  shows "split_loop sep (concat (map (\<lambda>x. x @ [sep]) xs) @ r) = (xs, r)"
  using assms
proof (induction xs)
  case (Cons x xs)
  then show ?case using split_loop_step [of sep x "concat (map (\<lambda>x. x @ [sep]) xs) @ r"] by simp
qed (simp add: split_loop_last)

text \<open>The code's own splitting agrees with \<open>std::getline\<close> in a loop.\<close>

lemma split_all_getlines: "split_all sep s = getlines sep s"
proof (induction "length s" arbitrary: s rule: less_induct)
  case less
  show ?case
  proof (cases "sep \<in> set s")
    case True
    then obtain x r where s: "s = x @ sep # r" "sep \<notin> set x" by (metis split_list_first)
    then have "split_all sep r = getlines sep r" by (intro less) simp
    then show ?thesis using s by (simp add: split_all_def split_loop_step getlines_field case_prod_beta Let_def)
  next
    case False
    then show ?thesis
      by (cases "s = []") (simp_all add: split_all_def split_loop_last getlines_field)
  qed
qed

subsection \<open>Buffers\<close>

text \<open>\<open>n = recv(fd, buffer, size, 0); buffer[n] = 0; string s(buffer)\<close>, given the bytes that were received.\<close>

definition recv_string :: "nat \<Rightarrow> string \<Rightarrow> string res" where
  "recv_string cap bytes = in_bounds (length bytes) cap (Inr (c_str bytes))"

text \<open>The path of a socket address has 108 bytes.\<close>

definition SUN_PATH :: nat where [simp]: "SUN_PATH = 108"

lemma recv_string_fits [simp]: "length b < n \<Longrightarrow> NUL \<notin> set b \<Longrightarrow> recv_string n b = Inr b"
  by (simp add: recv_string_def)

lemma recv_string_full [simp]: "n \<le> length b \<Longrightarrow> recv_string n b = Inl OutOfBounds"
  by (simp add: recv_string_def)

end
