(* ===== verification/KV_Manager.thy ===== *)
theory KV_Manager
  imports KV_Text
begin

text \<open>
  The manager of GTStore (Assignment_4, manager.cpp): the nodes that register, the replicas that it tells
  every node of, and its answers to clients. The results of socket calls and the bytes received are
  parameters; a failed receive is \<open>None\<close>.
\<close>

subsection \<open>Constants and state\<close>

definition MANAGER_NODES_SOCKET_BUFFER_SIZE :: nat where [simp]: "MANAGER_NODES_SOCKET_BUFFER_SIZE = 1024"
definition MANAGER_CLIENT_SOCKET_PATH :: string where "MANAGER_CLIENT_SOCKET_PATH = ''/tmp/gtstore_manager_client_socket''"
definition MANAGER_CLIENT_SOCKET_BUFFER_SIZE :: nat where [simp]: "MANAGER_CLIENT_SOCKET_BUFFER_SIZE = 1024"
definition NODE_NODE_SOCKET_PATH_PREFIX :: string where "NODE_NODE_SOCKET_PATH_PREFIX = ''/tmp/gtstore_node_node_socket_''"

record manager_state =
  num_nodes :: int
  m_num_rep :: int
  m_node_address_map :: "string list"
  m_dead_node_ids :: "int list"

subsection \<open>Registration of the nodes\<close>

text \<open>\<open>msg.substr(msg.find(":") + 1)\<close>; without a colon the position wraps around to 0.\<close>

definition after_colon :: "string \<Rightarrow> string" where
  "after_colon msg = (case strstr msg '':'' of Some p \<Rightarrow> drop (p + 1) msg | None \<Rightarrow> msg)"

definition node_connected :: "nat \<Rightarrow> string" where
  "node_connected node_id = ''Node connected to manager:'' @ show_nat node_id"

text \<open>The loop that accepts connections: the list has what is received on each of them, and the call of
  \<open>accept\<close> after the last one fails. The result has the addresses and the answers.\<close>

fun accept_nodes :: "string option list \<Rightarrow> int \<Rightarrow> string list \<Rightarrow> (string list \<times> string option list) res" where
  "accept_nodes [] unconnected addresses = Inl (ProcessExit 1)"
| "accept_nodes (None # conns) unconnected addresses = Inl (ProcessExit 1)"
| "accept_nodes (Some bytes # conns) unconnected addresses =
     rbind (recv_string MANAGER_NODES_SOCKET_BUFFER_SIZE bytes) (\<lambda>received_msg.
     let known = contains received_msg ''NODE_CLIENT_SOCKET_PATH:'';
         addresses' = (if known then addresses @ [after_colon received_msg] else addresses);
         answer = (if known then Some (node_connected (length addresses)) else None);
         unconnected' = (if known then unconnected - 1 else unconnected)
     in if unconnected' = 0 then Inr (addresses', [answer])
        else rbind (accept_nodes conns unconnected' addresses') (\<lambda>(a, answers). Inr (a, answer # answers)))"

definition initialize_manager_nodes_socket ::
  "bool \<Rightarrow> string option list \<Rightarrow> manager_state \<Rightarrow> (string option list \<times> manager_state) res" where
  "initialize_manager_nodes_socket listening conns s =
     (if \<not> listening then Inl (ProcessExit 1)
      else rbind (accept_nodes conns (num_nodes s) (m_node_address_map s)) (\<lambda>(addresses, answers).
           Inr (answers, s\<lparr>m_node_address_map := addresses\<rparr>)))"

subsection \<open>The replicas of the nodes\<close>

definition replica_paths :: "nat \<Rightarrow> int \<Rightarrow> nat \<Rightarrow> string list" where
  "replica_paths n num_rep i =
     map (\<lambda>j. NODE_NODE_SOCKET_PATH_PREFIX @ show_nat ((n + i + j) mod n)) [1..<nat num_rep]"

definition replica_message :: "nat \<Rightarrow> int \<Rightarrow> nat \<Rightarrow> string" where
  "replica_message n num_rep i =
     butlast (''NUM_REPLICAS:'' @ show_int num_rep @ '';'' @ ''REPLICA_PATHS:'' @
              concat (map (\<lambda>path. path @ '','') (replica_paths n num_rep i)))"

text \<open>The loop that tries to connect: the value of \<open>retry_count\<close> after it.\<close>

fun connect_retry :: "(nat \<Rightarrow> bool) \<Rightarrow> nat \<Rightarrow> int" where
  "connect_retry connects 0 = -1"
| "connect_retry connects (Suc retry_count) = (if connects retry_count then int retry_count else connect_retry connects retry_count)"

record manager_net =
  node_socket :: "nat \<Rightarrow> bool"
  node_connect :: "nat \<Rightarrow> nat \<Rightarrow> bool"
  node_send :: "nat \<Rightarrow> bool"

fun send_replicas :: "manager_net \<Rightarrow> manager_state \<Rightarrow> nat list \<Rightarrow> (string \<times> string) list res" where
  "send_replicas net s [] = Inr []"
| "send_replicas net s (i # is) =
     (if \<not> node_socket net i then Inl (ProcessExit 1)
      else rbind (strcpy SUN_PATH (m_node_address_map s ! i)) (\<lambda>address.
           if connect_retry (node_connect net i) 5 < 0 then Inl (ProcessExit 1)
           else rbind (send_replicas net s is) (\<lambda>sent.
                Inr (if node_send net i
                     then (address, replica_message (length (m_node_address_map s)) (m_num_rep s) i) # sent else sent))))"

definition send_node_replica_node_fds :: "manager_net \<Rightarrow> manager_state \<Rightarrow> (string \<times> string) list res" where
  "send_node_replica_node_fds net s = send_replicas net s [0..<length (m_node_address_map s)]"

subsection \<open>Requests of clients\<close>

definition init_response :: "manager_state \<Rightarrow> string" where
  "init_response s =
     butlast (''NUM_REPLICAS:'' @ show_int (m_num_rep s) @ '';HASH_FUNCTION:ADD-ASCII;NODES:'' @
              concat (map (\<lambda>i. show_nat i @ '':'' @ (m_node_address_map s ! i) @ '','') [0..<length (m_node_address_map s)]) @
              concat (map (\<lambda>d. show_int d @ '':DEAD,'') (m_dead_node_ids s)))"

fun stoi_all :: "string list \<Rightarrow> int list res" where
  "stoi_all [] = Inr []"
| "stoi_all (t # ts) = rbind (stoi t) (\<lambda>v. rbind (stoi_all ts) (\<lambda>vs. Inr (v # vs)))"

text \<open>The loop over the reported nodes appends to the vector that it goes through, a local one that hides the
  list of the manager: after an append its iterators are invalid. The comparison of the number with the size
  is one of unsigned values.\<close>

fun report_loop :: "nat \<Rightarrow> int list \<Rightarrow> unit res" where
  "report_loop n [] = Inr ()"
| "report_loop n (node_id # ids) = (if node_id mod 2 ^ 64 < int n then Inl Undefined else report_loop n ids)"

definition manager_request :: "string \<Rightarrow> manager_state \<Rightarrow> (string \<times> manager_state) res" where
  "manager_request received_msg s =
     (if received_msg = ''INITIALIZE_CLIENT'' then Inr (init_response s, s)
      else if strstr received_msg ''DEAD_NODES:'' = Some 0 then
        rbind (stoi_all (split_all (CHR '','') (drop (length ''DEAD_NODES:'') received_msg))) (\<lambda>dead_node_ids.
        rbind (report_loop (length (m_node_address_map s)) dead_node_ids) (\<lambda>_.
        Inr (''DEAD_NODES_RECEIVED'', s)))
      else Inr (''ERROR: Unknown message'', s))"

text \<open>The loop of the manager over the connections of clients, until \<open>accept\<close> fails.\<close>

fun serve_clients :: "string option list \<Rightarrow> manager_state \<Rightarrow> (string option list \<times> manager_state) res" where
  "serve_clients [] s = Inr ([], s)"
| "serve_clients (None # conns) s = rbind (serve_clients conns s) (\<lambda>(answers, s1). Inr (None # answers, s1))"
| "serve_clients (Some bytes # conns) s =
     rbind (recv_string MANAGER_CLIENT_SOCKET_BUFFER_SIZE bytes) (\<lambda>received_msg.
     rbind (manager_request received_msg s) (\<lambda>(answer, s1).
     rbind (serve_clients conns s1) (\<lambda>(answers, s2). Inr (Some answer # answers, s2))))"

definition create_manager_client_socket ::
  "bool \<Rightarrow> string option list \<Rightarrow> manager_state \<Rightarrow> (string option list \<times> manager_state) res" where
  "create_manager_client_socket listening conns s =
     (if \<not> listening then Inl (ProcessExit 1) else serve_clients conns s)"

subsection \<open>Command line\<close>

text \<open>The options as \<open>getopt_long\<close> delivers them, with their arguments.\<close>

fun manager_options :: "(char \<times> string) list \<Rightarrow> manager_state \<Rightarrow> manager_state res" where
  "manager_options [] s =
     (if num_nodes s \<le> 0 \<or> m_num_rep s \<le> 0 then Inl (ProcessExit 1) else Inr s)"
| "manager_options ((opt, optarg) # opts) s =
     (if opt = CHR ''n'' then rbind (atoi optarg) (\<lambda>v. manager_options opts (s\<lparr>num_nodes := v\<rparr>))
      else if opt = CHR ''r'' then rbind (atoi optarg) (\<lambda>v. manager_options opts (s\<lparr>m_num_rep := v\<rparr>))
      else Inl (ProcessExit 1))"

definition manager_start :: manager_state where
  "manager_start = \<lparr>num_nodes = 0, m_num_rep = 0, m_node_address_map = [], m_dead_node_ids = []\<rparr>"

text \<open>What the manager does until it serves clients: the answers to the announcements, in the order of the
  connections, and the messages it then sends, with the addresses they go to.\<close>

definition manager_main ::
  "(char \<times> string) list \<Rightarrow> bool \<Rightarrow> string option list \<Rightarrow> manager_net \<Rightarrow>
    (string option list \<times> (string \<times> string) list \<times> manager_state) res" where
  "manager_main opts listening conns net =
     rbind (manager_options opts manager_start) (\<lambda>s.
     rbind (initialize_manager_nodes_socket listening conns s) (\<lambda>(answers, s1).
     rbind (send_node_replica_node_fds net s1) (\<lambda>sent. Inr (answers, sent, s1))))"

end
