(* ===== verification/KV_Storage.thy ===== *)
theory KV_Storage
  imports KV_Manager
begin

text \<open>
  A storage node of GTStore (Assignment_4, storage.cpp): its set-up with the manager, the table of keys, and
  the treatment of messages from clients and from other nodes. What is received and whether sockets can be
  opened and connected are parameters.
\<close>

subsection \<open>Constants and state\<close>

definition NODE_CLIENT_SOCKET_PATH_PREFIX :: string where "NODE_CLIENT_SOCKET_PATH_PREFIX = ''/tmp/gtstore_node_client_socket_''"
definition NODE_CLIENT_SOCKET_BUFFER_SIZE :: nat where [simp]: "NODE_CLIENT_SOCKET_BUFFER_SIZE = 1100"
definition NODE_NODE_SOCKET_BUFFER_SIZE :: nat where [simp]: "NODE_NODE_SOCKET_BUFFER_SIZE = 1100"

record storage_state =
  node_client_socket_path :: string
  s_node_id :: string
  s_num_rep :: int
  replica_node_addresses :: "string list"
  storage_key_value_map :: "string \<Rightarrow> string list option"

definition storage_start :: "nat \<Rightarrow> storage_state" where
  "storage_start process =
     \<lparr>node_client_socket_path = NODE_CLIENT_SOCKET_PATH_PREFIX @ show_nat process, s_node_id = [], s_num_rep = -1,
      replica_node_addresses = [], storage_key_value_map = (\<lambda>_. None)\<rparr>"

subsection \<open>The table\<close>

definition store_key_value :: "string \<Rightarrow> string \<Rightarrow> storage_state \<Rightarrow> storage_state" where
  "store_key_value key value_list s =
     s\<lparr>storage_key_value_map := (storage_key_value_map s)(key \<mapsto> split_all (CHR '' '') value_list)\<rparr>"

subsection \<open>Set-up\<close>

definition parse_node_connection_msg :: "string \<Rightarrow> storage_state \<Rightarrow> storage_state res" where
  "parse_node_connection_msg buffer s =
     (case (strstr buffer ''NUM_REPLICAS:'', strstr buffer ''REPLICA_PATHS:'') of
        (Some num_replicas_pos, Some replica_paths_pos) \<Rightarrow>
          let num_start = num_replicas_pos + length ''NUM_REPLICAS:'';
              num_rep_str = (case strstr (drop num_start buffer) '';'' of
                               Some k \<Rightarrow> take k (drop num_start buffer) | None \<Rightarrow> drop num_start buffer);
              paths = drop (replica_paths_pos + length ''REPLICA_PATHS:'') buffer
          in rbind (atoi num_rep_str) (\<lambda>r.
             Inr (s\<lparr>s_num_rep := r, replica_node_addresses := replica_node_addresses s @ split_all (CHR '','') paths\<rparr>))
      | _ \<Rightarrow> Inr s)"

definition announcement :: "storage_state \<Rightarrow> string" where
  "announcement s = ''NODE_CLIENT_SOCKET_PATH:'' @ node_client_socket_path s"

text \<open>\<open>connect_to_manager\<close>: the answer of the manager, then its second message on the node's own socket. The two
  flags say whether the socket to the manager connects and whether the own one accepts a connection.\<close>

definition connect_to_manager ::
  "bool \<Rightarrow> bool \<Rightarrow> string option \<Rightarrow> string option \<Rightarrow> storage_state \<Rightarrow> storage_state res" where
  "connect_to_manager connected accepted answer final s =
     (if \<not> connected then Inl (ProcessExit 1)
      else case answer of
        None \<Rightarrow> Inl (ProcessExit 1)
      | Some bytes \<Rightarrow>
          rbind (recv_string MANAGER_NODES_SOCKET_BUFFER_SIZE bytes) (\<lambda>received_msg.
          if \<not> contains received_msg ''Node connected to manager:'' then Inr s
          else
            let s1 = s\<lparr>s_node_id := after_colon received_msg\<rparr>
            in rbind (strcpy SUN_PATH (node_client_socket_path s1)) (\<lambda>_.
               if \<not> accepted then Inl (ProcessExit 1)
               else case final of
                 None \<Rightarrow> Inl (ProcessExit 1)
               | Some bytes2 \<Rightarrow>
                   rbind (recv_string MANAGER_NODES_SOCKET_BUFFER_SIZE bytes2) (\<lambda>final_msg.
                   parse_node_connection_msg final_msg s1))))"

text \<open>The path of the socket for other nodes.\<close>

definition node_socket_path :: "storage_state \<Rightarrow> string" where
  "node_socket_path s = NODE_NODE_SOCKET_PATH_PREFIX @ s_node_id s"

definition run_setup :: "bool \<Rightarrow> storage_state \<Rightarrow> storage_state res" where
  "run_setup listening s =
     rbind (strcpy SUN_PATH (node_client_socket_path s)) (\<lambda>_.
     rbind (strcpy SUN_PATH (node_socket_path s)) (\<lambda>_.
     if listening then Inr s else Inl (ProcessExit 1)))"

subsection \<open>Messages of clients\<close>

text \<open>Key and value of a message: without a blank the position after it wraps around to 0.\<close>

definition key_value :: "string \<Rightarrow> string \<times> string" where
  "key_value received_msg =
     (let kv = after_colon received_msg
      in case strstr kv '' '' of
           Some space_pos \<Rightarrow> (take space_pos kv, drop (space_pos + 1) kv)
         | None \<Rightarrow> (kv, kv))"

text \<open>What \<open>connect\<close> does at a path: it makes a connection, fails (nobody listens there), or waits, because as many
  connections as the queue of the socket holds are waiting to be accepted. \<open>replica_fd\<close> is a blocking socket,
  so the last one stops the node.\<close>

datatype connect_result = Connected | Refused | Blocked

text \<open>The replication: the paths at which a connection was made, each of which gets the message.\<close>

fun replicate_to :: "(string \<Rightarrow> connect_result) \<Rightarrow> string \<Rightarrow> string list \<Rightarrow> (string \<times> string) list res" where
  "replicate_to connects replication_msg [] = Inr []"
| "replicate_to connects replication_msg (replica_path # paths) =
     rbind (strcpy SUN_PATH replica_path) (\<lambda>_.
     case connects replica_path of
       Blocked \<Rightarrow> Inl SpinForever
     | Refused \<Rightarrow> replicate_to connects replication_msg paths
     | Connected \<Rightarrow>
         rbind (replicate_to connects replication_msg paths) (\<lambda>sent. Inr ((replica_path, replication_msg) # sent)))"

datatype answer = Answer string | No_answer | Close

definition handle_put :: "(string \<Rightarrow> connect_result) \<Rightarrow> string \<Rightarrow> storage_state \<Rightarrow> (answer \<times> (string \<times> string) list \<times> storage_state) res" where
  "handle_put connects received_msg s =
     (let (key, val) = key_value received_msg;
          s1 = store_key_value key val s
      in rbind (replicate_to connects (''REPLICATE:'' @ key @ '' '' @ val) (replica_node_addresses s1)) (\<lambda>sent.
         Inr (Answer (''OK, SERVER_'' @ s_node_id s1), sent, s1)))"

definition handle_get :: "string \<Rightarrow> storage_state \<Rightarrow> answer" where
  "handle_get received_msg s =
     (let key = after_colon received_msg
      in case storage_key_value_map s key of
           None \<Rightarrow> Answer ''KEY_NOT_FOUND''
         | Some values \<Rightarrow>
             Answer (key @ '', '' @ concat (map (\<lambda>val. val @ '' '') values) @ '', SERVER_'' @ s_node_id s))"

definition client_message ::
  "(string \<Rightarrow> connect_result) \<Rightarrow> string \<Rightarrow> storage_state \<Rightarrow> (answer \<times> (string \<times> string) list \<times> storage_state) res" where
  "client_message connects received_msg s =
     (if contains received_msg ''PUT:'' then handle_put connects received_msg s
      else if contains received_msg ''GET:'' then Inr (handle_get received_msg s, [], s)
      else if contains received_msg ''CLIENT_CLOSE'' then Inr (Close, [], s)
      else Inr (No_answer, [], s))"

text \<open>The messages on one connection, until it is closed (nothing is received) or fails (the end of the list).\<close>

fun client_connection ::
  "(string \<Rightarrow> connect_result) \<Rightarrow> string list \<Rightarrow> storage_state \<Rightarrow> (answer list \<times> (string \<times> string) list \<times> storage_state) res" where
  "client_connection connects [] s = Inr ([], [], s)"
| "client_connection connects (bytes # rest) s =
     (if bytes = [] then Inr ([], [], s)
      else rbind (recv_string NODE_CLIENT_SOCKET_BUFFER_SIZE bytes) (\<lambda>received_msg.
           rbind (client_message connects received_msg s) (\<lambda>(a, sent, s1).
           if a = Close then Inr ([], sent, s1)
           else rbind (client_connection connects rest s1) (\<lambda>(answers, sent2, s2).
                Inr (a # answers, sent @ sent2, s2)))))"

subsection \<open>Messages of other nodes\<close>

text \<open>The flag says whether the connection is to be closed.\<close>

definition node_message :: "string \<Rightarrow> storage_state \<Rightarrow> bool \<times> storage_state" where
  "node_message received_msg s =
     (if contains received_msg ''REPLICATE:''
      then (False, let (key, val) = key_value received_msg in store_key_value key val s)
      else (contains received_msg ''NODE_CLOSE'', s))"

fun node_connection :: "string list \<Rightarrow> storage_state \<Rightarrow> storage_state res" where
  "node_connection [] s = Inr s"
| "node_connection (bytes # rest) s =
     (if bytes = [] then Inr s
      else rbind (recv_string NODE_NODE_SOCKET_BUFFER_SIZE bytes) (\<lambda>received_msg.
           let (closed, s1) = node_message received_msg s
           in if closed then Inr s1 else node_connection rest s1))"

text \<open>One round of the main loop: a connection of a client (or a failure to accept one, after which the round
  ends), then a connection of another node if one waits by then; what waits may depend on what was sent.\<close>

definition run_round ::
  "(string \<Rightarrow> connect_result) \<Rightarrow> string list option \<Rightarrow> ((string \<times> string) list \<Rightarrow> string list option) \<Rightarrow> storage_state \<Rightarrow>
    (answer list \<times> (string \<times> string) list \<times> storage_state) res" where
  "run_round connects client waiting s =
     (case client of
        None \<Rightarrow> Inr ([], [], s)
      | Some msgs \<Rightarrow>
          rbind (client_connection connects msgs s) (\<lambda>(answers, sent, s1).
          rbind (case waiting sent of None \<Rightarrow> Inr s1 | Some msgs2 \<Rightarrow> node_connection msgs2 s1) (\<lambda>s2.
          Inr (answers, sent, s2))))"

end
