(* ===== verification/KV_Client.thy ===== *)
theory KV_Client
  imports KV_Manager KV_Storage
begin

text \<open>
  The client library of GTStore and its test program (Assignment_4, client.cpp and test_app.cpp). The network
  is a parameter: whether a socket can be made, and what comes back when a message is sent to an address
  (\<open>None\<close> when connecting, sending or receiving fails), with the change this makes to the rest of the system.
\<close>

subsection \<open>State\<close>

record client_kv =
  num_replicas :: int
  node_address_map :: "string list"
  dead_node_ids :: "int list"
  hash_function :: string

definition client_start :: client_kv where
  "client_start = \<lparr>num_replicas = -1, node_address_map = [], dead_node_ids = [], hash_function = []\<rparr>"

record 'net net_ops =
  net_socket :: "'net \<Rightarrow> bool"
  net_exchange :: "string \<Rightarrow> string \<Rightarrow> 'net \<Rightarrow> (string option \<times> 'net) res"

subsection \<open>Initialisation\<close>

text \<open>\<open>node_address_map[node_id] = node_info\<close> after growing the vector: the comparison and the new size are
  unsigned.\<close>

definition set_node :: "int \<Rightarrow> string \<Rightarrow> string list \<Rightarrow> string list res" where
  "set_node node_id node_info addresses =
     (if node_id = 2147483647 then Inl Undefined
      else if node_id < -1 then Inl Uncaught
      else if node_id = -1 then Inl OutOfBounds
      else let k = nat node_id;
               grown = (if k < length addresses then addresses else addresses @ replicate (k + 1 - length addresses) [])
           in Inr (grown[k := node_info]))"

definition node_pair :: "string \<Rightarrow> client_kv \<Rightarrow> client_kv res" where
  "node_pair pair c =
     (case strstr pair '':'' of
        None \<Rightarrow> Inr c
      | Some colon_pos \<Rightarrow>
          let node_info = drop (colon_pos + 1) pair
          in rbind (stoi (take colon_pos pair)) (\<lambda>node_id.
             if node_info = ''DEAD'' then Inr (c\<lparr>dead_node_ids := dead_node_ids c @ [node_id]\<rparr>)
             else rbind (set_node node_id node_info (node_address_map c)) (\<lambda>a. Inr (c\<lparr>node_address_map := a\<rparr>))))"

fun node_pairs :: "string list \<Rightarrow> client_kv \<Rightarrow> client_kv res" where
  "node_pairs [] c = Inr c"
| "node_pairs (pair # pairs) c = rbind (node_pair pair c) (node_pairs pairs)"

definition parse_response :: "string \<Rightarrow> client_kv \<Rightarrow> client_kv res" where
  "parse_response response c =
     (case (strstr response ''NUM_REPLICAS:'', strstr response '';HASH_FUNCTION:'', strstr response '';NODES:'') of
        (Some num_replicas_pos, Some hash_function_pos, Some nodes_pos) \<Rightarrow>
          rbind (stoi (substr_between response (num_replicas_pos + length ''NUM_REPLICAS:'') hash_function_pos)) (\<lambda>r.
          let (pieces, rest) = split_loop (CHR '','') (drop (nodes_pos + length '';NODES:'') response);
              c1 = \<lparr>num_replicas = r, node_address_map = [], dead_node_ids = [],
                hash_function = substr_between response (hash_function_pos + length '';HASH_FUNCTION:'') nodes_pos\<rparr>
          in rbind (node_pairs pieces c1) (\<lambda>c2. if rest = [] then Inr c2 else node_pair rest c2))
      | _ \<Rightarrow> Inr c)"

definition client_init :: "'net net_ops \<Rightarrow> client_kv \<Rightarrow> 'net \<Rightarrow> (client_kv \<times> 'net) res" where
  "client_init ops c net =
     (if \<not> net_socket ops net then Inl (ProcessExit 1)
      else rbind (net_exchange ops MANAGER_CLIENT_SOCKET_PATH ''INITIALIZE_CLIENT'' net) (\<lambda>(r, net1).
           case r of
             None \<Rightarrow> Inl (ProcessExit 1)
           | Some bytes \<Rightarrow>
               rbind (recv_string MANAGER_CLIENT_SOCKET_BUFFER_SIZE bytes) (\<lambda>response.
               rbind (parse_response response c) (\<lambda>c1. Inr (c1, net1)))))"

subsection \<open>The node of a key\<close>

text \<open>Characters are signed; the sum is an \<open>int\<close> that is converted to an unsigned 64-bit value for the remainder.\<close>

definition schar :: "char \<Rightarrow> int" where
  "schar c = (if (of_char c :: int) < 128 then of_char c else of_char c - 256)"

fun add_ascii :: "int \<Rightarrow> string \<Rightarrow> int res" where
  "add_ascii acc [] = Inr acc"
| "add_ascii acc (c # cs) =
     (let v = acc + schar c in if - (2 ^ 31) \<le> v \<and> v < 2 ^ 31 then add_ascii v cs else Inl Undefined)"

definition hash_node :: "string \<Rightarrow> nat \<Rightarrow> nat res" where
  "hash_node key n =
     rbind (add_ascii 0 key) (\<lambda>total. if n = 0 then Inl Undefined else Inr (nat ((total mod 2 ^ 64) mod int n)))"

text \<open>The loop over the known dead nodes moves on by one node at most: its condition fails, or it is left, after
  the first round.\<close>

definition skip_dead :: "client_kv \<Rightarrow> nat \<Rightarrow> nat \<times> int" where
  "skip_dead c node_id =
     (if num_replicas c > 0 \<and> int node_id \<in> set (dead_node_ids c)
      then ((node_id + 1) mod length (node_address_map c), num_replicas c - 1)
      else (node_id, num_replicas c))"

subsection \<open>Requests\<close>

text \<open>One attempt: the text received, or nothing when any of the calls fails or the node closes.\<close>

definition attempt :: "'net net_ops \<Rightarrow> string list \<Rightarrow> nat \<Rightarrow> string \<Rightarrow> 'net \<Rightarrow> (string option \<times> 'net) res" where
  "attempt ops addresses node_id msg net =
     in_bounds node_id (length addresses)
       (if \<not> net_socket ops net then Inr (None, net)
        else rbind (strcpy SUN_PATH (addresses ! node_id)) (\<lambda>address.
             rbind (net_exchange ops address msg net) (\<lambda>(r, net1).
             case r of
               None \<Rightarrow> Inr (None, net1)
             | Some bytes \<Rightarrow>
                 if bytes = [] then Inr (None, net1)
                 else rbind (recv_string NODE_CLIENT_SOCKET_BUFFER_SIZE bytes) (\<lambda>text. Inr (Some text, net1)))))"

text \<open>The loop over the replicas: the text received if any, and the nodes found dead before.\<close>

function request_loop ::
  "'net net_ops \<Rightarrow> string list \<Rightarrow> string \<Rightarrow> int \<Rightarrow> int \<Rightarrow> nat \<Rightarrow> nat list \<Rightarrow> 'net \<Rightarrow> (string option \<times> nat list \<times> 'net) res" where
  "request_loop ops addresses msg current_num_replicas attempts node_id dead_nodes net =
     (if \<not> attempts < current_num_replicas then Inr (None, dead_nodes, net)
      else rbind (attempt ops addresses node_id msg net) (\<lambda>(r, net1).
           case r of
             Some text \<Rightarrow> Inr (Some text, dead_nodes, net1)
           | None \<Rightarrow> request_loop ops addresses msg current_num_replicas (attempts + 1)
                       ((node_id + 1) mod length addresses) (dead_nodes @ [node_id]) net1))"
  by pat_completeness auto
termination
  by (relation "measure (\<lambda>(ops, addresses, msg, cur, attempts, node_id, dead, net). nat (cur - attempts))") auto

declare request_loop.simps [simp del]

definition dead_nodes_message :: "nat list \<Rightarrow> string" where
  "dead_nodes_message dead_nodes =
     ''DEAD_NODES:'' @ concat (map (\<lambda>d. show_nat d @ '','') (butlast dead_nodes)) @ show_nat (last dead_nodes)"

definition notify_manager_of_dead_nodes :: "'net net_ops \<Rightarrow> nat list \<Rightarrow> 'net \<Rightarrow> 'net res" where
  "notify_manager_of_dead_nodes ops dead_nodes net =
     (if \<not> net_socket ops net then Inr net
      else rbind (net_exchange ops MANAGER_CLIENT_SOCKET_PATH (dead_nodes_message dead_nodes) net) (\<lambda>(r, net1).
           case r of
             None \<Rightarrow> Inr net1
           | Some bytes \<Rightarrow> rbind (recv_string MANAGER_CLIENT_SOCKET_BUFFER_SIZE bytes) (\<lambda>_. Inr net1)))"

definition notify_if_any :: "'net net_ops \<Rightarrow> nat list \<Rightarrow> 'net \<Rightarrow> 'net res" where
  "notify_if_any ops dead_nodes net = (if dead_nodes = [] then Inr net else notify_manager_of_dead_nodes ops dead_nodes net)"

text \<open>The values in the answer to a read; \<open>None\<close> is an error.\<close>

definition get_reply :: "string \<Rightarrow> string list option" where
  "get_reply received_msg =
     (if received_msg = ''KEY_NOT_FOUND'' then None
      else case strstr received_msg '','' of
             None \<Rightarrow> None
           | Some first_comma_pos \<Rightarrow>
               (case strstr (drop (first_comma_pos + 1) received_msg) '','' of
                  None \<Rightarrow> None
                | Some k \<Rightarrow>
                    let second_comma_pos = first_comma_pos + 1 + k;
                        value_str = substr_between received_msg (first_comma_pos + 2) second_comma_pos;
                        (pieces, rest) = split_loop (CHR '' '') value_str
                    in Some (filter (\<lambda>val. val \<noteq> []) pieces @ (if rest = [] then [] else [rest]))))"

definition client_get :: "'net net_ops \<Rightarrow> string \<Rightarrow> client_kv \<Rightarrow> 'net \<Rightarrow> (string list \<times> 'net) res" where
  "client_get ops key c net =
     (if hash_function c \<noteq> ''ADD-ASCII'' then Inr ([''ERROR''], net)
      else rbind (hash_node key (length (node_address_map c))) (\<lambda>h.
           let (node_id, current_num_replicas) = skip_dead c h
           in if current_num_replicas = 0 then Inr ([''ERROR''], net)
              else rbind (request_loop ops (node_address_map c) (''GET:'' @ key) current_num_replicas 0 node_id [] net)
                     (\<lambda>(r, dead_nodes, net1).
                     case r of
                       None \<Rightarrow> rbind (notify_if_any ops dead_nodes net1) (\<lambda>net2. Inr ([''ERROR''], net2))
                     | Some received_msg \<Rightarrow>
                         (case get_reply received_msg of
                            None \<Rightarrow> Inr ([''ERROR''], net1)
                          | Some values \<Rightarrow> rbind (notify_if_any ops dead_nodes net1) (\<lambda>net2. Inr (values, net2))))))"

definition put_message :: "string \<Rightarrow> string list \<Rightarrow> string" where
  "put_message key values = ''PUT:'' @ key @ '' '' @ concat (map (\<lambda>v. v @ '' '') values)"

definition client_put :: "'net net_ops \<Rightarrow> string \<Rightarrow> string list \<Rightarrow> client_kv \<Rightarrow> 'net \<Rightarrow> (bool \<times> 'net) res" where
  "client_put ops key values c net =
     (if hash_function c \<noteq> ''ADD-ASCII'' then Inr (False, net)
      else rbind (hash_node key (length (node_address_map c))) (\<lambda>h.
           let (node_id, current_num_replicas) = skip_dead c h
           in if current_num_replicas = 0 then Inr (False, net)
              else rbind (request_loop ops (node_address_map c) (put_message key values) current_num_replicas 0 node_id [] net)
                     (\<lambda>(r, dead_nodes, net1).
                     rbind (notify_if_any ops dead_nodes net1) (\<lambda>net2. Inr (r \<noteq> None, net2)))))"

subsection \<open>The test program\<close>

definition perform_put :: "'net net_ops \<Rightarrow> string \<Rightarrow> string list \<Rightarrow> 'net \<Rightarrow> 'net res" where
  "perform_put ops key values net =
     rbind (client_init ops client_start net) (\<lambda>(c, net1).
     rbind (client_put ops key values c net1) (\<lambda>(_, net2). Inr net2))"

definition perform_get :: "'net net_ops \<Rightarrow> string \<Rightarrow> 'net \<Rightarrow> 'net res" where
  "perform_get ops key net =
     rbind (client_init ops client_start net) (\<lambda>(c, net1).
     rbind (client_get ops key c net1) (\<lambda>(_, net2). Inr net2))"

definition app_main :: "'net net_ops \<Rightarrow> string list \<Rightarrow> 'net \<Rightarrow> (int \<times> 'net) res" where
  "app_main ops argv net =
     (if length argv < 3 then Inr (1, net)
      else if argv ! 1 = ''--put'' then
        (if length argv < 5 \<or> argv ! 3 \<noteq> ''--val'' then Inr (1, net)
         else rbind (perform_put ops (argv ! 2) (split_all (CHR '','') (argv ! 4)) net) (\<lambda>net1. Inr (0, net1)))
      else if argv ! 1 = ''--get'' then rbind (perform_get ops (argv ! 2) net) (\<lambda>net1. Inr (0, net1))
      else Inr (1, net))"

end
