(* ===== verification/KV_Table.thy ===== *)
theory KV_Table
  imports KV_Storage KV_Client
begin

text \<open>
  What the messages of GTStore do to a storage node. The table of a node is a map from keys to lists of
  words; this contract is a locale. A node that gets writes of clients and a replica that gets the
  replication messages that the node sends hold the same map. The answer to a read is cut into the words that
  were written.
\<close>

subsection \<open>Well-formed requests\<close>

definition words_text :: "string list \<Rightarrow> string" where
  "words_text vals = concat (map (\<lambda>v. v @ '' '') vals)"

definition key_ok :: "string \<Rightarrow> bool" where
  "key_ok key \<longleftrightarrow> CHR '' '' \<notin> set key \<and> CHR '','' \<notin> set key \<and> NUL \<notin> set key \<and> \<not> contains (''GET:'' @ key) ''PUT:''"

definition word_ok :: "string \<Rightarrow> bool" where
  "word_ok v \<longleftrightarrow> CHR '' '' \<notin> set v \<and> CHR '','' \<notin> set v \<and> NUL \<notin> set v"

text \<open>The limits of the header file: 20 bytes for the key and 1000 for the value, together.\<close>

definition request_ok :: "string \<Rightarrow> string list \<Rightarrow> bool" where
  "request_ok key vals \<longleftrightarrow> key_ok key \<and> list_all word_ok vals \<and> length key + length (words_text vals) \<le> 1020"

definition replicate_message :: "string \<Rightarrow> string list \<Rightarrow> string" where
  "replicate_message key vals = ''REPLICATE:'' @ key @ '' '' @ words_text vals"

lemma request_okD:
  assumes "request_ok key vals"
  shows "key_ok key" and "list_all word_ok vals" and "length key + length (words_text vals) \<le> 1020"
  using assms by (simp_all add: request_ok_def)

lemma key_okD:
  assumes "key_ok key"
  shows "CHR '' '' \<notin> set key" and "CHR '','' \<notin> set key" and "NUL \<notin> set key" and "\<not> contains (''GET:'' @ key) ''PUT:''"
  using assms by (simp_all add: key_ok_def)

lemma words_text_chars:
  assumes "list_all word_ok vals"
  shows "CHR '','' \<notin> set (words_text vals)" and "NUL \<notin> set (words_text vals)"
  using assms by (auto simp: words_text_def word_ok_def list_all_iff NUL_def)

lemma split_words: "list_all word_ok vals \<Longrightarrow> split_all (CHR '' '') (words_text vals) = vals"
  using getlines_concat [of vals "CHR '' ''" "[]"]
  by (simp add: split_all_getlines words_text_def word_ok_def list_all_iff)

lemma split_loop_words: "list_all word_ok vals \<Longrightarrow> split_loop (CHR '' '') (words_text vals) = (vals, [])"
  using split_loop_concat [of vals "CHR '' ''" "[]"] by (simp add: words_text_def word_ok_def list_all_iff)

subsection \<open>Keys and vals of messages\<close>

lemma after_colon_prefix: "CHR '':'' \<notin> set p \<Longrightarrow> after_colon (p @ CHR '':'' # s) = s"
  by (simp add: after_colon_def strstr_char)

lemma after_colon_kinds:
  "after_colon (''PUT:'' @ s) = s" "after_colon (''GET:'' @ s) = s" "after_colon (''REPLICATE:'' @ s) = s"
  using after_colon_prefix [of "''PUT''" s] after_colon_prefix [of "''GET''" s] after_colon_prefix [of "''REPLICATE''" s]
  by simp_all

lemma key_value_of:
  assumes "after_colon m = key @ '' '' @ v" and "CHR '' '' \<notin> set key"
  shows "key_value m = (key, v)"
  using assms strstr_char [of "CHR '' ''" key v] by (simp add: key_value_def Let_def)

lemma key_value_put: "CHR '' '' \<notin> set key \<Longrightarrow> key_value (put_message key vals) = (key, words_text vals)"
  by (rule key_value_of) (simp_all only: put_message_def after_colon_kinds words_text_def not_False_eq_True)

lemma key_value_replicate: "CHR '' '' \<notin> set key \<Longrightarrow> key_value (replicate_message key vals) = (key, words_text vals)"
  by (rule key_value_of) (simp_all only: replicate_message_def after_colon_kinds not_False_eq_True)

lemma contains_head: "contains (p @ s) p"
  by (simp add: contains_def strstr_head)

subsection \<open>Messages of clients and nodes\<close>

definition stored :: "string \<Rightarrow> string list \<Rightarrow> storage_state \<Rightarrow> storage_state" where
  "stored key vals s = s\<lparr>storage_key_value_map := (storage_key_value_map s)(key \<mapsto> vals)\<rparr>"

lemma store_words: "list_all word_ok vals \<Longrightarrow> store_key_value key (words_text vals) s = stored key vals s"
  by (simp add: store_key_value_def stored_def split_words)

lemma replicate_to_all:
  assumes "\<forall>p\<in>set paths. length p < 108 \<and> connects p \<noteq> Blocked"
  shows "replicate_to connects msg paths = Inr (map (\<lambda>p. (p, msg)) (filter (\<lambda>p. connects p = Connected) paths))"
  using assms by (induction paths) (simp_all split: connect_result.split)

lemma replicate_to_blocked:
  assumes "\<forall>p\<in>set paths. length p < 108" and "q \<in> set paths" and "connects q = Blocked"
  shows "replicate_to connects msg paths = Inl SpinForever"
  using assms by (induction paths) (auto split: connect_result.split)

lemma put_message_effect:
  assumes "key_ok key" and "list_all word_ok vals"
    and "\<forall>p\<in>set (replica_node_addresses s). length p < 108 \<and> connects p \<noteq> Blocked"
  shows "client_message connects (put_message key vals) s =
    Inr (Answer (''OK, SERVER_'' @ s_node_id s),
         map (\<lambda>p. (p, replicate_message key vals)) (filter (\<lambda>p. connects p = Connected) (replica_node_addresses s)),
         stored key vals s)"
proof -
  have kv: "key_value (put_message key vals) = (key, words_text vals)"
    using key_okD(1) [OF assms(1)] by (rule key_value_put)
  have "contains (put_message key vals) ''PUT:''" unfolding put_message_def by (rule contains_head)
  moreover have "replica_node_addresses (stored key vals s) = replica_node_addresses s" "s_node_id (stored key vals s) = s_node_id s"
    by (simp_all add: stored_def)
  ultimately show ?thesis
    using replicate_to_all [OF assms(3)] by (simp add: client_message_def handle_put_def kv store_words [OF assms(2)] replicate_message_def)
qed

lemma put_message_blocked:
  assumes "\<forall>p\<in>set (replica_node_addresses s). length p < 108" and "q \<in> set (replica_node_addresses s)" and "connects q = Blocked"
  shows "client_message connects (put_message key vals) s = Inl SpinForever"
proof -
  have "contains (put_message key vals) ''PUT:''" unfolding put_message_def by (rule contains_head)
  moreover have "replica_node_addresses (store_key_value k v s) = replica_node_addresses s" for k v
    by (simp add: store_key_value_def)
  ultimately show ?thesis
    using replicate_to_blocked [OF assms(1,2), of connects] assms(3) by (simp add: client_message_def handle_put_def Let_def case_prod_beta)
qed

lemma get_message_effect:
  assumes "key_ok key"
  shows "client_message connects (''GET:'' @ key) s =
    Inr (case storage_key_value_map s key of
           None \<Rightarrow> Answer ''KEY_NOT_FOUND''
         | Some vals \<Rightarrow> Answer (key @ '', '' @ words_text vals @ '', SERVER_'' @ s_node_id s), [], s)"
proof -
  have "\<not> contains (''GET:'' @ key) ''PUT:''" by (rule key_okD(4) [OF assms])
  moreover have "contains (''GET:'' @ key) ''GET:''" by (rule contains_head)
  moreover have "handle_get (''GET:'' @ key) s = (case storage_key_value_map s key of
           None \<Rightarrow> Answer ''KEY_NOT_FOUND''
         | Some vals \<Rightarrow> Answer (key @ '', '' @ words_text vals @ '', SERVER_'' @ s_node_id s))"
    unfolding handle_get_def after_colon_kinds Let_def words_text_def ..
  ultimately show ?thesis unfolding client_message_def by (simp only: if_False if_True)
qed

lemma replicate_message_effect:
  assumes "key_ok key" and "list_all word_ok vals"
  shows "node_message (replicate_message key vals) s = (False, stored key vals s)"
proof -
  have "contains (replicate_message key vals) ''REPLICATE:''" unfolding replicate_message_def by (rule contains_head)
  then show ?thesis
    using key_value_replicate [OF key_okD(1) [OF assms(1)], of vals] store_words [OF assms(2)] by (simp add: node_message_def)
qed

text \<open>The answer to a read is cut into the words again; empty words are lost.\<close>

lemma get_reply_words:
  assumes "key_ok key" and "list_all word_ok vals"
  shows "get_reply (key @ '', '' @ words_text vals @ '', SERVER_'' @ node) = Some (filter (\<lambda>v. v \<noteq> []) vals)"
proof -
  let ?V = "words_text vals" and ?c = "CHR '',''"
  let ?m = "key @ ?c # CHR '' '' # ?V @ ?c # '' SERVER_'' @ node"
  have key: "?c \<notin> set key" and V: "?c \<notin> set ?V"
    using key_okD(2) [OF assms(1)] words_text_chars(1) [OF assms(2)] .
  have first: "strstr ?m '','' = Some (length key)" using key by (rule strstr_char)
  have "strstr ((CHR '' '' # ?V) @ ?c # '' SERVER_'' @ node) '','' = Some (length (CHR '' '' # ?V))"
    using V by (intro strstr_char) simp
  then have second: "strstr (drop (length key + 1) ?m) '','' = Some (1 + length ?V)" by simp
  have "?c \<in> set ?m" "?c \<notin> set ''KEY_NOT_FOUND''" by simp_all
  then have ne: "?m \<noteq> ''KEY_NOT_FOUND''" by metis
  have between: "substr_between ?m (length key + 2) (length key + 1 + (1 + length ?V)) = ?V"
    by (simp add: substr_between_def)
  have "get_reply ?m = Some (filter (\<lambda>v. v \<noteq> []) vals)"
    unfolding get_reply_def
    by (simp only: ne if_False first second option.case Let_def between split_loop_words [OF assms(2)] prod.case) simp
  then show ?thesis by simp
qed

lemma get_reply_missing [simp]: "get_reply ''KEY_NOT_FOUND'' = None"
  by (simp add: get_reply_def)

lemma replicate_fits:
  assumes "request_ok k v"
  shows "length (replicate_message k v) < 1100" and "NUL \<notin> set (replicate_message k v)" and "replicate_message k v \<noteq> []"
  using assms words_text_chars(2) [OF request_okD(2) [OF assms]] key_okD(3) [OF request_okD(1) [OF assms]]
  by (simp_all add: replicate_message_def request_ok_def NUL_def)

lemma put_fits:
  assumes "request_ok k v"
  shows "length (put_message k v) < 1100" and "NUL \<notin> set (put_message k v)" and "put_message k v \<noteq> []"
  using replicate_fits [OF assms] by (simp_all add: put_message_def replicate_message_def words_text_def NUL_def)

subsection \<open>The table as a map\<close>

text \<open>A store that takes writes one after the other: a write of a valid request succeeds, updates the key and
  leaves the store ready for the next one.\<close>

locale kv_table =
  fixes "write" :: "string \<Rightarrow> string list \<Rightarrow> 's \<Rightarrow> 's res" and lookup :: "'s \<Rightarrow> string \<Rightarrow> string list option"
    and valid :: "string \<Rightarrow> string list \<Rightarrow> bool" and ready :: "'s \<Rightarrow> bool"
  assumes write_ok: "valid key vals \<Longrightarrow> ready s \<Longrightarrow>
    \<exists>s1. write key vals s = Inr s1 \<and> ready s1 \<and> lookup s1 = (lookup s)(key \<mapsto> vals)"
begin

lemma lookup_writes:
  assumes "\<forall>(k, v)\<in>set kvs. valid k v" and "ready s"
  shows "\<exists>s1. run_all (\<lambda>(k, v). write k v) kvs s = Inr s1 \<and> ready s1 \<and> lookup s1 = lookup s ++ map_of (rev kvs)"
  using assms
proof (induction kvs arbitrary: s)
  case (Cons kv kvs)
  obtain k v where kv: "kv = (k, v)" by (cases kv)
  then obtain s1 where s1: "write k v s = Inr s1" "ready s1" "lookup s1 = (lookup s)(k \<mapsto> v)"
    using write_ok [of k v s] Cons.prems by auto
  obtain s2 where "run_all (\<lambda>(k, v). write k v) kvs s1 = Inr s2" "ready s2" "lookup s2 = lookup s1 ++ map_of (rev kvs)"
    using Cons.IH [of s1] Cons.prems s1(2) by auto
  then show ?case using s1(1,3) kv by simp
qed simp

end

text \<open>A store with a copy, both seen in one state.\<close>

locale kv_replica = primary: kv_table "write" lookup valid ready + copy: kv_table "write" lookup' valid ready
  for "write" :: "string \<Rightarrow> string list \<Rightarrow> 's \<Rightarrow> 's res" and lookup valid ready and lookup'
begin

lemma copies_agree:
  assumes "\<forall>(k, v)\<in>set kvs. valid k v" and "ready s"
  shows "\<exists>s1. run_all (\<lambda>(k, v). write k v) kvs s = Inr s1 \<and>
    lookup s1 = lookup s ++ map_of (rev kvs) \<and> lookup' s1 = lookup' s ++ map_of (rev kvs)"
proof -
  obtain s1 where s1: "run_all (\<lambda>(k, v). write k v) kvs s = Inr s1" "lookup s1 = lookup s ++ map_of (rev kvs)"
    using primary.lookup_writes [OF assms] by blast
  moreover obtain s2 where "run_all (\<lambda>(k, v). write k v) kvs s = Inr s2" "lookup' s2 = lookup' s ++ map_of (rev kvs)"
    using copy.lookup_writes [OF assms] by blast
  ultimately show ?thesis by simp
qed

end

text \<open>A node \<open>s\<close> and its replica \<open>t\<close>, which listens at \<open>path\<close>: the node gets the write on a connection of a client
  and sends its replication messages; those for the path reach the replica, each on a connection of its own.\<close>

fun node_connections :: "string list list \<Rightarrow> storage_state \<Rightarrow> storage_state res" where
  "node_connections [] s = Inr s"
| "node_connections (msgs # conns) s = rbind (node_connection msgs s) (node_connections conns)"

definition replicated_write ::
  "(string \<Rightarrow> connect_result) \<Rightarrow> string \<Rightarrow> string \<Rightarrow> string list \<Rightarrow> storage_state \<times> storage_state \<Rightarrow>
    (storage_state \<times> storage_state) res" where
  "replicated_write connects path key vals = (\<lambda>(s, t).
     rbind (client_connection connects [put_message key vals] s) (\<lambda>(answers, sent, s1).
     rbind (node_connections (map (\<lambda>(_, m). [m]) (filter (\<lambda>(p, _). p = path) sent)) t) (\<lambda>t1.
     Inr (s1, t1))))"

definition replicates_to :: "(string \<Rightarrow> connect_result) \<Rightarrow> string \<Rightarrow> storage_state \<Rightarrow> bool" where
  "replicates_to connects path s \<longleftrightarrow> path \<in> set (replica_node_addresses s) \<and> connects path = Connected \<and>
     (\<forall>p\<in>set (replica_node_addresses s). length p < 108 \<and> connects p \<noteq> Blocked)"

lemma node_connections_replicate:
  assumes "request_ok key vals" and "n \<noteq> 0"
  shows "node_connections (replicate n [replicate_message key vals]) t = Inr (stored key vals t)"
proof -
  have one: "node_connection [replicate_message key vals] t = Inr (stored key vals t)" for t
    using replicate_fits [OF assms(1)] replicate_message_effect [OF request_okD(1,2) [OF assms(1)]] by simp
  have "stored key vals (stored key vals t) = stored key vals t" by (simp add: stored_def)
  then have "node_connections (replicate n [replicate_message key vals]) (stored key vals t) = Inr (stored key vals t)" for n
    by (induction n) (simp_all add: one del: node_connection.simps)
  with assms(2) one show ?thesis by (cases n) (simp_all del: node_connection.simps)
qed

lemma replicated_write_stored:
  assumes "request_ok key vals" and "replicates_to connects path s"
  shows "replicated_write connects path key vals (s, t) = Inr (stored key vals s, stored key vals t)"
proof -
  let ?m = "replicate_message key vals"
  let ?ps = "filter (\<lambda>p. connects p = Connected) (replica_node_addresses s)"
  have put: "client_message connects (put_message key vals) s =
      Inr (Answer (''OK, SERVER_'' @ s_node_id s), map (\<lambda>p. (p, ?m)) ?ps, stored key vals s)"
    using assms(2) by (intro put_message_effect [OF request_okD(1,2) [OF assms(1)]]) (simp add: replicates_to_def)
  then have "client_connection connects [put_message key vals] s =
      Inr ([Answer (''OK, SERVER_'' @ s_node_id s)], map (\<lambda>p. (p, ?m)) ?ps, stored key vals s)"
    using put_fits [OF assms(1)] by simp
  moreover have "map (\<lambda>(_, m). [m]) (filter (\<lambda>(p, _). p = path) (map (\<lambda>p. (p, ?m)) ps)) =
      replicate (length (filter (\<lambda>p. p = path) ps)) [?m]" for ps
    by (induction ps) simp_all
  moreover have "length (filter (\<lambda>p. p = path) ?ps) \<noteq> 0" using assms(2) by (auto simp: replicates_to_def filter_empty_conv)
  ultimately show ?thesis using node_connections_replicate [OF assms(1)] by (simp add: replicated_write_def)
qed

interpretation node: kv_replica "replicated_write connects path" "\<lambda>x. storage_key_value_map (fst x)" request_ok
  "\<lambda>x. replicates_to connects path (fst x)" "\<lambda>x. storage_key_value_map (snd x)" for connects path
  by unfold_locales (auto simp: replicated_write_stored stored_def replicates_to_def)

end
