(* ===== verification/KV_Cluster.thy ===== *)
theory KV_Cluster
  imports KV_Table
begin

text \<open>
  GTStore as a system: the manager and the storage nodes as processes, with the replication messages that
  wait at each node, and the network of the client library defined by what these processes do. A node takes
  one waiting replication message after each connection of a client. While all nodes are up, the system is a
  map: every read returns what the last write of its key stored.
\<close>

subsection \<open>Processes and network\<close>

record node_proc =
  st :: storage_state
  pending :: "string list"
  alive :: bool

record cluster =
  manager :: manager_state
  manager_up :: bool
  procs :: "node_proc list"
  room :: nat

definition find_client_node :: "string \<Rightarrow> node_proc list \<Rightarrow> nat option" where
  "find_client_node address ps =
     List.find (\<lambda>i. alive (ps ! i) \<and> node_client_socket_path (st (ps ! i)) = address) [0..<length ps]"

text \<open>\<open>room\<close> is the number of connections that the system lets wait at a socket of which \<open>listen\<close> set the queue
  to 10.\<close>

definition listens :: "nat \<Rightarrow> node_proc list \<Rightarrow> string \<Rightarrow> connect_result" where
  "listens r ps path =
     (case List.find (\<lambda>p. alive p \<and> node_socket_path (st p) = path) ps of
        None \<Rightarrow> Refused
      | Some p \<Rightarrow> if length (pending p) < r then Connected else Blocked)"

definition deliver :: "(string \<times> string) list \<Rightarrow> node_proc list \<Rightarrow> node_proc list" where
  "deliver sent ps =
     map (\<lambda>p. if alive p
              then p\<lparr>pending := pending p @ map snd (filter (\<lambda>(path, m). path = node_socket_path (st p)) sent)\<rparr>
              else p) ps"

text \<open>A round of node \<open>i\<close> with a client that sends one message, takes the answer and leaves. A client that gets
  no answer waits for ever. The round is one step: the node takes the waiting replication connection before the
  client, which has its answer by then, does anything else.\<close>

definition serve_at :: "nat \<Rightarrow> nat \<Rightarrow> string \<Rightarrow> node_proc list \<Rightarrow> (string option \<times> node_proc list) res" where
  "serve_at r i msg ps =
     rbind (run_round (listens r ps) (Some [take NODE_CLIENT_SOCKET_BUFFER_SIZE msg])
              (\<lambda>sent. case pending (deliver sent ps ! i) of
                        [] \<Rightarrow> None | w # _ \<Rightarrow> Some [take NODE_NODE_SOCKET_BUFFER_SIZE w]) (st (ps ! i)))
       (\<lambda>(answers, sent, s1).
        let ps1 = deliver sent ps
        in case answers of
             [Answer a] \<Rightarrow> Inr (Some (take NODE_CLIENT_SOCKET_BUFFER_SIZE a),
                               ps1[i := (ps1 ! i)\<lparr>st := s1, pending := tl (pending (ps1 ! i))\<rparr>])
           | _ \<Rightarrow> Inl SpinForever)"

definition cluster_exchange :: "string \<Rightarrow> string \<Rightarrow> cluster \<Rightarrow> (string option \<times> cluster) res" where
  "cluster_exchange address msg c =
     (if address = MANAGER_CLIENT_SOCKET_PATH then
        (if \<not> manager_up c then Inr (None, c)
         else rbind (recv_string MANAGER_CLIENT_SOCKET_BUFFER_SIZE (take MANAGER_CLIENT_SOCKET_BUFFER_SIZE msg)) (\<lambda>m.
              rbind (manager_request m (manager c)) (\<lambda>(a, m1).
              Inr (Some (take MANAGER_CLIENT_SOCKET_BUFFER_SIZE a), c\<lparr>manager := m1\<rparr>))))
      else case find_client_node address (procs c) of
             None \<Rightarrow> Inr (None, c)
           | Some i \<Rightarrow> rbind (serve_at (room c) i msg (procs c)) (\<lambda>(r, ps). Inr (r, c\<lparr>procs := ps\<rparr>)))"

definition cluster_ops :: "cluster net_ops" where
  "cluster_ops = \<lparr>net_socket = (\<lambda>c. True), net_exchange = cluster_exchange\<rparr>"

subsection \<open>The node of a key\<close>

definition key_node :: "string \<Rightarrow> nat \<Rightarrow> nat" where
  "key_node key n = nat ((sum_list (map schar key) mod 2 ^ 64) mod int n)"

lemma schar_bounds: "-128 \<le> schar c \<and> schar c \<le> 127"
proof -
  have "(of_char c :: int) = (of_char c :: int) mod 256" by simp
  then have "0 \<le> (of_char c :: int)" "(of_char c :: int) < 256"
    using pos_mod_bound [of 256 "of_char c :: int"] pos_mod_sign [of 256 "of_char c :: int"] by linarith+
  then show ?thesis by (simp add: schar_def)
qed

lemma sum_schar_bounds: "- 128 * int (length key) \<le> sum_list (map schar key) \<and> sum_list (map schar key) \<le> 127 * int (length key)"
proof (induction key)
  case (Cons c key)
  then show ?case using schar_bounds [of c] by (simp add: algebra_simps)
qed simp

lemma add_ascii_ok:
  assumes "\<bar>acc\<bar> + 128 * int (length key) < 2 ^ 31"
  shows "add_ascii acc key = Inr (acc + sum_list (map schar key))"
  using assms
proof (induction key arbitrary: acc)
  case (Cons c key)
  let ?v = "acc + schar c"
  have "\<bar>?v\<bar> \<le> \<bar>acc\<bar> + 128" using schar_bounds [of c] by linarith
  then have "\<bar>?v\<bar> + 128 * int (length key) < 2 ^ 31" using Cons.prems by simp
  moreover from this have "- (2 ^ 31) \<le> ?v" "?v < 2 ^ 31" by simp_all
  ultimately show ?case using Cons.IH [of ?v] by simp
qed simp

lemma hash_node_ok:
  assumes "length key < 2 ^ 24" and "0 < n"
  shows "hash_node key n = Inr (key_node key n)"
proof -
  have "128 * int (length key) < 2 ^ 31" using assms(1) by simp
  then show ?thesis using add_ascii_ok [of 0 key] assms(2) by (simp add: hash_node_def key_node_def)
qed

lemma key_node_less: "0 < n \<Longrightarrow> key_node key n < n"
  by (simp add: key_node_def nat_less_iff)

subsection \<open>Attempts in order\<close>

lemma request_first:
  assumes "attempts < cur" and "attempt ops addresses node_id msg net = Inr (Some text, net1)"
  shows "request_loop ops addresses msg cur attempts node_id dead net = Inr (Some text, dead, net1)"
  using assms by (subst request_loop.simps) simp

lemma request_next:
  assumes "attempts < cur" and "attempt ops addresses node_id msg net = Inr (None, net1)"
  shows "request_loop ops addresses msg cur attempts node_id dead net =
    request_loop ops addresses msg cur (attempts + 1) ((node_id + 1) mod length addresses) (dead @ [node_id]) net1"
  using assms by (subst request_loop.simps) simp

text \<open>The first \<open>k\<close> nodes in cyclic order fail without effect: the loop is at the next one, with these noted.\<close>

lemma request_skips:
  assumes "node_id < length addresses" and "attempts + int k \<le> cur"
    and "\<forall>j<k. attempt ops addresses ((node_id + j) mod length addresses) msg net = Inr (None, net)"
  shows "request_loop ops addresses msg cur attempts node_id dead net =
    request_loop ops addresses msg cur (attempts + int k) ((node_id + k) mod length addresses)
      (dead @ map (\<lambda>j. (node_id + j) mod length addresses) [0..<k]) net"
  using assms(2,3)
proof (induction k)
  case 0
  then show ?case using assms(1) by simp
next
  case (Suc k)
  let ?n = "length addresses"
  have "attempt ops addresses ((node_id + k) mod ?n) msg net = Inr (None, net)" using Suc.prems(2) by blast
  moreover have "attempts + int k < cur" using Suc.prems(1) by simp
  ultimately have "request_loop ops addresses msg cur (attempts + int k) ((node_id + k) mod ?n)
      (dead @ map (\<lambda>j. (node_id + j) mod ?n) [0..<k]) net =
    request_loop ops addresses msg cur (attempts + int k + 1) (((node_id + k) mod ?n + 1) mod ?n)
      ((dead @ map (\<lambda>j. (node_id + j) mod ?n) [0..<k]) @ [(node_id + k) mod ?n]) net" by (intro request_next)
  then show ?case using Suc by (simp add: mod_Suc_eq ac_simps)
qed

end
