(* ===== verification/KV_Refine.thy ===== *)
theory KV_Refine
  imports KV_Cluster
begin

text \<open>
  While all nodes are up, reads and writes of clients on the whole system behave as on one map. The relation
  between the map and the system says that the node of a key has the value of the key, and that no message
  that waits at a node is about a key of that node.
\<close>

subsection \<open>Numbers of nodes\<close>

lemma show_nat_no_NUL: "NUL \<notin> set (show_nat n)"
  using show_nat_digits [of NUL n] by (auto simp: is_digit_def NUL_def)

subsection \<open>The invariant\<close>

definition node_ok :: "nat \<Rightarrow> int \<Rightarrow> nat \<Rightarrow> node_proc \<Rightarrow> bool" where
  "node_ok n num_rep i p \<longleftrightarrow>
     alive p \<and> s_node_id (st p) = show_nat i \<and> replica_node_addresses (st p) = replica_paths n num_rep i"

definition pending_ok :: "nat \<Rightarrow> nat \<Rightarrow> string \<Rightarrow> bool" where
  "pending_ok n i msg \<longleftrightarrow> (\<exists>k v. request_ok k v \<and> msg = replicate_message k v \<and> key_node k n \<noteq> i)"

definition view_ok :: "client_kv \<Rightarrow> node_proc list \<Rightarrow> bool" where
  "view_ok cs ps \<longleftrightarrow>
     hash_function cs = ''ADD-ASCII'' \<and> 0 < num_replicas cs \<and> nat (num_replicas cs) \<le> length ps \<and> length ps < 10 ^ 9 \<and>
     dead_node_ids cs = [] \<and> node_address_map cs = map (\<lambda>p. node_client_socket_path (st p)) ps \<and>
     distinct (node_address_map cs) \<and> (\<forall>a\<in>set (node_address_map cs). length a < 108 \<and> a \<noteq> MANAGER_CLIENT_SOCKET_PATH)"

definition nodes_ok :: "int \<Rightarrow> node_proc list \<Rightarrow> bool" where
  "nodes_ok num_rep ps \<longleftrightarrow>
     (\<forall>i<length ps. node_ok (length ps) num_rep i (ps ! i) \<and> list_all (pending_ok (length ps) i) (pending (ps ! i)))"

definition holds_map :: "(string \<Rightarrow> string list option) \<Rightarrow> node_proc list \<Rightarrow> bool" where
  "holds_map m ps \<longleftrightarrow>
     (\<forall>key. key_ok key \<longrightarrow> storage_key_value_map (st (ps ! key_node key (length ps))) key = m key) \<and>
     (\<forall>key vals. m key = Some vals \<longrightarrow> request_ok key vals)"

definition kv_rel :: "client_kv \<Rightarrow> (string \<Rightarrow> string list option) \<Rightarrow> cluster \<Rightarrow> bool" where
  "kv_rel cs m c \<longleftrightarrow> view_ok cs (procs c) \<and> nodes_ok (num_replicas cs) (procs c) \<and> holds_map m (procs c)"

subsection \<open>Delivery\<close>

lemma deliver_nth:
  assumes "i < length ps" and "alive (ps ! i)"
  shows "deliver sent ps ! i =
    (ps ! i)\<lparr>pending := pending (ps ! i) @ map snd (filter (\<lambda>(path, m). path = node_socket_path (st (ps ! i))) sent)\<rparr>"
  using assms by (simp add: deliver_def)

lemma deliver_static [simp]:
  assumes "i < length ps"
  shows "st (deliver sent ps ! i) = st (ps ! i)" and "alive (deliver sent ps ! i) = alive (ps ! i)"
  using assms by (simp_all add: deliver_def)

lemma length_deliver [simp]: "length (deliver sent ps) = length ps"
  by (simp add: deliver_def)

lemma replica_index_other:
  assumes "0 < d" and "d < (n::nat)" and "h < n"
  shows "(n + h + d) mod n \<noteq> h"
proof -
  have e: "(n + h + d) mod n = (h + d) mod n" by (metis add.assoc mod_add_self1)
  show ?thesis
  proof (cases "h + d < n")
    case True
    then show ?thesis using assms(1) e by simp
  next
    case False
    then have "(h + d) mod n = h + d - n" using assms(2,3) by (simp add: mod_if)
    then show ?thesis using assms(2) False e by linarith
  qed
qed

text \<open>A replication message of node \<open>h\<close> reaches no pending list of \<open>h\<close> itself.\<close>

lemma deliver_pending:
  assumes ok: "nodes_ok r ps" and i: "i < length ps" and h: "h < length ps" and r: "nat r \<le> length ps"
    and sent: "\<forall>(path, m)\<in>set sent. path \<in> set (replica_paths (length ps) r h) \<and> m = msg"
  shows "set (pending (deliver sent ps ! i)) \<subseteq> set (pending (ps ! i)) \<union> (if i = h then {} else {msg})"
proof -
  let ?n = "length ps"
  have p: "alive (ps ! i)" "s_node_id (st (ps ! i)) = show_nat i"
    using ok i by (simp_all add: nodes_ok_def node_ok_def)
  have "m = msg \<and> i \<noteq> h" if "(path, m) \<in> set sent" "path = node_socket_path (st (ps ! i))" for path m
  proof -
    have "path \<in> set (replica_paths ?n r h)" "m = msg" using sent that(1) by auto
    then obtain d where d: "0 < d" "d < nat r" "path = NODE_NODE_SOCKET_PATH_PREFIX @ show_nat ((?n + h + d) mod ?n)"
      unfolding replica_paths_def using that by (fastforce simp: Suc_le_eq)
    then have "i = (?n + h + d) mod ?n" using that(2) p(2) show_nat_inj by (auto simp: node_socket_path_def)
    moreover have "(?n + h + d) mod ?n \<noteq> h" using d(1,2) r h by (intro replica_index_other) simp_all
    ultimately show ?thesis using \<open>m = msg\<close> by simp
  qed
  then have "set (map snd (filter (\<lambda>(path, m). path = node_socket_path (st (ps ! i))) sent)) \<subseteq> (if i = h then {} else {msg})"
    by fastforce
  then show ?thesis using deliver_nth [OF i p(1), of sent] by auto
qed

subsection \<open>One round\<close>

text \<open>What a node does with the first message that waits, if any.\<close>

definition drained :: "storage_state \<Rightarrow> node_proc \<Rightarrow> node_proc" where
  "drained s p =
     p\<lparr>st := (case pending p of [] \<Rightarrow> s | w # _ \<Rightarrow> snd (node_message w s)), pending := tl (pending p)\<rparr>"

lemma serve_at_ok:
  assumes "client_message (listens r ps) msg (st (ps ! i)) = Inr (Answer a, sent, s1)"
    and "msg \<noteq> []" and "length msg < 1100" and "NUL \<notin> set msg" and "length a < 1100"
    and "list_all (pending_ok (length ps) i) (pending (deliver sent ps ! i))"
  shows "serve_at r i msg ps = Inr (Some a, (deliver sent ps)[i := drained s1 (deliver sent ps ! i)])"
proof -
  let ?p = "deliver sent ps ! i"
  have one: "client_connection (listens r ps) [msg] (st (ps ! i)) = Inr ([Answer a], sent, s1)"
    using assms(1-4) by simp
  have two: "(case (case pending ?p of [] \<Rightarrow> None | w # _ \<Rightarrow> Some [take NODE_NODE_SOCKET_BUFFER_SIZE w]) of
        None \<Rightarrow> Inr s1 | Some ms \<Rightarrow> node_connection ms s1) = Inr (st (drained s1 ?p))"
  proof (cases "pending ?p")
    case Nil
    then show ?thesis by (simp add: drained_def)
  next
    case (Cons w ws)
    then obtain k v where "request_ok k v" "w = replicate_message k v"
      using assms(6) by (auto simp: pending_ok_def)
    moreover from this have "node_message w s1 = (False, stored k v s1)"
      using replicate_message_effect request_okD by blast
    ultimately show ?thesis using Cons replicate_fits [of k v] by (simp add: drained_def)
  qed
  have "(?p)\<lparr>st := st (drained s1 ?p), pending := tl (pending ?p)\<rparr> = drained s1 ?p" by (simp add: drained_def)
  then show ?thesis using assms(3,5) by (simp add: serve_at_def run_round_def one two Let_def del: client_connection.simps)
qed

lemma find_client_node_at:
  assumes "view_ok cs ps" and "i < length ps" and "alive (ps ! i)"
  shows "find_client_node (node_client_socket_path (st (ps ! i))) ps = Some i"
proof -
  let ?a = "\<lambda>j. node_client_socket_path (st (ps ! j))"
  have "\<exists>j. j \<in> set [0..<length ps] \<and> alive (ps ! j) \<and> ?a j = ?a i" using assms(2,3) by (intro exI [of _ i]) simp
  then have "find_client_node (?a i) ps \<noteq> None" unfolding find_client_node_def find_None_iff by blast
  then obtain j where j: "find_client_node (?a i) ps = Some j" by blast
  then have "j < length ps" "?a j = ?a i"
    by (auto simp: find_client_node_def find_Some_iff)
  moreover have "distinct (map (\<lambda>p. node_client_socket_path (st p)) ps)" using assms(1) unfolding view_ok_def by metis
  ultimately have "j = i" using assms(2) by (auto simp: distinct_conv_nth)
  then show ?thesis using j by simp
qed

lemma attempt_at:
  assumes "view_ok cs (procs c)" and "i < length (procs c)" and "alive (procs c ! i)"
    and "serve_at (room c) i msg (procs c) = Inr (Some a, ps)" and "a \<noteq> []" and "length a < 1100" and "NUL \<notin> set a"
  shows "attempt cluster_ops (node_address_map cs) i msg c = Inr (Some a, c\<lparr>procs := ps\<rparr>)"
proof -
  let ?a = "node_address_map cs ! i"
  have a: "?a = node_client_socket_path (st (procs c ! i))" "i < length (node_address_map cs)"
    using assms(1,2) by (simp_all add: view_ok_def)
  then have "length ?a < 108" "?a \<noteq> MANAGER_CLIENT_SOCKET_PATH" using assms(1) nth_mem by (auto simp: view_ok_def)
  moreover have "find_client_node ?a (procs c) = Some i" using find_client_node_at [OF assms(1-3)] a(1) by simp
  ultimately show ?thesis using a(2) assms(4-7) by (simp add: attempt_def cluster_ops_def cluster_exchange_def)
qed

lemma attempt_fault:
  assumes "view_ok cs (procs c)" and "i < length (procs c)" and "alive (procs c ! i)"
    and "serve_at (room c) i msg (procs c) = Inl e"
  shows "attempt cluster_ops (node_address_map cs) i msg c = Inl e"
proof -
  let ?a = "node_address_map cs ! i"
  have a: "?a = node_client_socket_path (st (procs c ! i))" "i < length (node_address_map cs)"
    using assms(1,2) by (simp_all add: view_ok_def)
  then have "length ?a < 108" "?a \<noteq> MANAGER_CLIENT_SOCKET_PATH" using assms(1) nth_mem by (auto simp: view_ok_def)
  moreover have "find_client_node ?a (procs c) = Some i" using find_client_node_at [OF assms(1-3)] a(1) by simp
  ultimately show ?thesis using a(2) assms(4) by (simp add: attempt_def cluster_ops_def cluster_exchange_def)
qed

subsection \<open>Preservation\<close>

text \<open>The processes after node \<open>h\<close> has served a client, sent its messages and taken one that waited.\<close>

definition served :: "nat \<Rightarrow> (string \<times> string) list \<Rightarrow> storage_state \<Rightarrow> node_proc list \<Rightarrow> node_proc list" where
  "served h sent s1 ps = (deliver sent ps)[h := drained s1 (deliver sent ps ! h)]"

definition same_node :: "storage_state \<Rightarrow> storage_state \<Rightarrow> bool" where
  "same_node s s1 \<longleftrightarrow> s_node_id s1 = s_node_id s \<and> replica_node_addresses s1 = replica_node_addresses s \<and>
     node_client_socket_path s1 = node_client_socket_path s"

lemma same_node_refl [simp]: "same_node s s" and same_node_stored [simp]: "same_node s (stored key vals s)"
  by (simp_all add: same_node_def stored_def)

lemma same_node_drained:
  assumes "same_node s s1"
  shows "same_node s (st (drained s1 p))" and "alive (drained s1 p) = alive p" and "pending (drained s1 p) = tl (pending p)"
  using assms by (simp_all add: drained_def same_node_def node_message_def store_key_value_def case_prod_beta Let_def split: list.split)

lemma served_nth:
  assumes "i < length ps" and "h < length ps"
  shows "served h sent s1 ps ! i = (if i = h then drained s1 (deliver sent ps ! h) else deliver sent ps ! i)"
  using assms by (simp add: served_def)

lemma length_served [simp]: "length (served h sent s1 ps) = length ps"
  by (simp add: served_def)

lemma served_same:
  assumes "same_node (st (ps ! h)) s1" and "i < length ps" and "h < length ps"
  shows "same_node (st (ps ! i)) (st (served h sent s1 ps ! i))" and "alive (served h sent s1 ps ! i) = alive (ps ! i)"
  using assms same_node_drained [OF assms(1)] by (simp_all add: served_nth)

lemma view_ok_served:
  assumes "view_ok cs ps" and "same_node (st (ps ! h)) s1" and "h < length ps"
  shows "view_ok cs (served h sent s1 ps)"
proof -
  have "map (\<lambda>p. node_client_socket_path (st p)) (served h sent s1 ps) = map (\<lambda>p. node_client_socket_path (st p)) ps"
    using served_same(1) [OF assms(2) _ assms(3)] by (intro nth_equalityI) (simp_all add: same_node_def)
  then show ?thesis using assms(1) unfolding view_ok_def length_served by metis
qed

lemma nodes_ok_served:
  assumes ok: "nodes_ok r ps" and same: "same_node (st (ps ! h)) s1" and h: "h < length ps" and r: "nat r \<le> length ps"
    and sent: "\<forall>(path, m)\<in>set sent. path \<in> set (replica_paths (length ps) r h) \<and> m = replicate_message k v"
    and req: "request_ok k v" "key_node k (length ps) = h"
  shows "nodes_ok r (served h sent s1 ps)" and "list_all (pending_ok (length ps) h) (pending (deliver sent ps ! h))"
proof -
  let ?n = "length ps"
  have pend: "list_all (pending_ok ?n i) (pending (deliver sent ps ! i))" if i: "i < ?n" for i
  proof -
    have "pending_ok ?n i (replicate_message k v)" if "i \<noteq> h" using that req by (auto simp: pending_ok_def)
    moreover have "list_all (pending_ok ?n i) (pending (ps ! i))" using ok i by (simp add: nodes_ok_def)
    ultimately show ?thesis
      using deliver_pending [OF ok i h r sent] by (auto simp: list_all_iff split: if_splits)
  qed
  then show "list_all (pending_ok ?n h) (pending (deliver sent ps ! h))" using h by blast
  have "list_all (pending_ok ?n i) (pending (served h sent s1 ps ! i))" if "i < ?n" for i
    using pend [OF that] pend [OF h] that h list.set_sel(2) same_node_drained(3) [OF same]
    by (cases "pending (deliver sent ps ! h)") (auto simp: served_nth list_all_iff)
  moreover have "node_ok ?n r i (served h sent s1 ps ! i)" if "i < ?n" for i
    using served_same [OF same that h] ok that by (simp add: nodes_ok_def node_ok_def same_node_def)
  ultimately show "nodes_ok r (served h sent s1 ps)" by (simp add: nodes_ok_def)
qed

lemma drained_table:
  assumes "list_all (pending_ok n h) (pending p)" and "key_node key n = h"
  shows "storage_key_value_map (st (drained s p)) key = storage_key_value_map s key"
proof (cases "pending p")
  case Nil
  then show ?thesis by (simp add: drained_def)
next
  case (Cons w ws)
  then obtain k v where k: "request_ok k v" "w = replicate_message k v" "key_node k n \<noteq> h"
    using assms(1) by (auto simp: pending_ok_def)
  then have "node_message w s = (False, stored k v s)" using replicate_message_effect request_okD by blast
  moreover have "k \<noteq> key" using k(3) assms(2) by blast
  ultimately show ?thesis using Cons by (simp add: drained_def stored_def)
qed

lemma holds_map_served:
  assumes "holds_map m ps" and h: "h < length ps" and p: "list_all (pending_ok (length ps) h) (pending (deliver sent ps ! h))"
    and tab: "\<forall>key. key_ok key \<longrightarrow> key_node key (length ps) = h \<longrightarrow> storage_key_value_map s1 key = m' key"
    and same: "\<forall>key. key_node key (length ps) \<noteq> h \<longrightarrow> m' key = m key"
    and req: "\<forall>key vals. m' key = Some vals \<longrightarrow> request_ok key vals"
  shows "holds_map m' (served h sent s1 ps)"
proof -
  let ?n = "length ps"
  have "storage_key_value_map (st (served h sent s1 ps ! key_node key ?n)) key = m' key" if k: "key_ok key" for key
  proof (cases "key_node key ?n = h")
    case True
    then show ?thesis using drained_table [OF p True] tab k h by (simp add: served_nth)
  next
    case False
    have "key_node key ?n < ?n" using h by (intro key_node_less) linarith
    moreover have "storage_key_value_map (st (ps ! key_node key ?n)) key = m key"
      using assms(1) k by (simp add: holds_map_def)
    ultimately show ?thesis using False same h by (simp add: served_nth)
  qed
  then show ?thesis using req by (simp add: holds_map_def)
qed

subsection \<open>Requests on the system\<close>

lemma kv_relD:
  assumes "kv_rel cs m c"
  shows "view_ok cs (procs c)" and "nodes_ok (num_replicas cs) (procs c)" and "holds_map m (procs c)"
    and "0 < length (procs c)" and "nat (num_replicas cs) \<le> length (procs c)"
  using assms by (auto simp: kv_rel_def view_ok_def)

lemma no_dead: "view_ok cs ps \<Longrightarrow> skip_dead cs h = (h, num_replicas cs)"
  by (simp add: skip_dead_def view_ok_def)

lemma view_client:
  assumes "view_ok cs ps" and "length key < 2 ^ 24"
  shows "hash_function cs = ''ADD-ASCII''" and "0 < num_replicas cs"
    and "hash_node key (length (node_address_map cs)) = Inr (key_node key (length ps))"
proof -
  show "hash_function cs = ''ADD-ASCII''" "0 < num_replicas cs" using assms(1) by (simp_all add: view_ok_def)
  then have "0 < length ps" "length (node_address_map cs) = length ps" using assms(1) by (auto simp: view_ok_def)
  then show "hash_node key (length (node_address_map cs)) = Inr (key_node key (length ps))"
    using hash_node_ok assms(2) by simp
qed

text \<open>The node of the key answers: the whole request is that answer.\<close>

lemma request_home:
  assumes "view_ok cs ps" and "attempt ops (node_address_map cs) h msg c = Inr (Some a, c1)"
  shows "request_loop ops (node_address_map cs) msg (num_replicas cs) 0 h [] c = Inr (Some a, [], c1)"
  using assms by (intro request_first) (simp_all add: view_ok_def)

lemma home_node:
  assumes "kv_rel cs m c" and "h < length (procs c)"
  shows "alive (procs c ! h)" and "s_node_id (st (procs c ! h)) = show_nat h" and "length (show_nat h) \<le> 9"
    and "replica_node_addresses (st (procs c ! h)) = replica_paths (length (procs c)) (num_replicas cs) h"
    and "\<forall>q\<in>set (replica_node_addresses (st (procs c ! h))). length q < 108"
proof -
  note D = kv_relD [OF assms(1)]
  show a: "alive (procs c ! h)" "s_node_id (st (procs c ! h)) = show_nat h"
      "replica_node_addresses (st (procs c ! h)) = replica_paths (length (procs c)) (num_replicas cs) h"
    using D(2) assms(2) by (simp_all add: nodes_ok_def node_ok_def)
  have idx: "length (show_nat i) \<le> 9" if "i < length (procs c)" for i
    using D(1) that by (intro show_nat_length) (simp_all add: view_ok_def)
  then show "length (show_nat h) \<le> 9" using assms(2) .
  show "\<forall>q\<in>set (replica_node_addresses (st (procs c ! h))). length q < 108"
  proof
    fix q assume "q \<in> set (replica_node_addresses (st (procs c ! h)))"
    then obtain i where "q = NODE_NODE_SOCKET_PATH_PREFIX @ show_nat i" "i < length (procs c)"
      using a(3) D(4) by (auto simp: replica_paths_def)
    then show "length q < 108" using idx [of i] by (simp add: NODE_NODE_SOCKET_PATH_PREFIX_def)
  qed
qed

text \<open>The node that gets the message answers it, sends what it has to send, and takes one message that waits.\<close>

lemma home_serves:
  assumes "kv_rel cs m c" and "h < length (procs c)"
    and "client_message (listens (room c) (procs c)) msg (st (procs c ! h)) = Inr (Answer a, sent, s1)"
    and "msg \<noteq> []" and "length msg < 1100" and "NUL \<notin> set msg" and "a \<noteq> []" and "length a < 1100" and "NUL \<notin> set a"
    and "list_all (pending_ok (length (procs c)) h) (pending (deliver sent (procs c) ! h))"
  shows "request_loop cluster_ops (node_address_map cs) msg (num_replicas cs) 0 h [] c =
    Inr (Some a, [], c\<lparr>procs := served h sent s1 (procs c)\<rparr>)"
proof -
  note V = kv_relD(1) [OF assms(1)]
  have "serve_at (room c) h msg (procs c) = Inr (Some a, served h sent s1 (procs c))"
    using serve_at_ok [OF assms(3-6,8,10)] by (simp add: served_def)
  then have "attempt cluster_ops (node_address_map cs) h msg c = Inr (Some a, c\<lparr>procs := served h sent s1 (procs c)\<rparr>)"
    by (rule attempt_at [OF V assms(2) home_node(1) [OF assms(1,2)] _ assms(7-9)])
  then show ?thesis by (rule request_home [OF V])
qed

text \<open>The replicas of a node listen; a connection is made unless their queue is full.\<close>

lemma listens_node:
  assumes ok: "nodes_ok r ps" and i: "i < length ps"
  shows "listens k ps (NODE_NODE_SOCKET_PATH_PREFIX @ show_nat i) = (if length (pending (ps ! i)) < k then Connected else Blocked)"
proof -
  have path: "node_socket_path (st (ps ! j)) = NODE_NODE_SOCKET_PATH_PREFIX @ show_nat j" "alive (ps ! j)" if "j < length ps" for j
    using ok that by (simp_all add: nodes_ok_def node_ok_def node_socket_path_def)
  have "node_socket_path (st (ps ! j)) \<noteq> NODE_NODE_SOCKET_PATH_PREFIX @ show_nat i" if "j < i" for j
    using path(1) [of j] that i show_nat_inj [of j i] by auto
  then have "List.find (\<lambda>p. alive p \<and> node_socket_path (st p) = NODE_NODE_SOCKET_PATH_PREFIX @ show_nat i) ps = Some (ps ! i)"
    unfolding find_Some_iff using i path by (intro exI [of _ i]) simp
  then show ?thesis by (simp add: listens_def)
qed

lemma replica_pathE:
  assumes "q \<in> set (replica_paths n r h)" and "nat r \<le> n" and "h < n"
  obtains i where "i < n" and "i \<noteq> h" and "q = NODE_NODE_SOCKET_PATH_PREFIX @ show_nat i"
proof -
  obtain d where d: "0 < d" "d < nat r" "q = NODE_NODE_SOCKET_PATH_PREFIX @ show_nat ((n + h + d) mod n)"
    using assms(1) unfolding replica_paths_def by (fastforce simp: Suc_le_eq)
  then have "(n + h + d) mod n \<noteq> h" using assms(2,3) by (intro replica_index_other) simp_all
  with d(3) assms(3) that [of "(n + h + d) mod n"] show thesis by simp
qed

lemma replica_paths_distinct:
  assumes "nat r \<le> n"
  shows "distinct (replica_paths n r h)"
proof -
  have less: "(n + h + j) mod n \<noteq> (n + h + j') mod n" if "j < j'" "j' < n" for j j'
  proof
    assume "(n + h + j) mod n = (n + h + j') mod n"
    then have "n dvd (n + h + j') - (n + h + j)" using that(1) by (subst mod_eq_dvd_iff_nat [symmetric]) simp_all
    then show False using that by (auto dest: dvd_imp_le)
  qed
  have "inj_on (\<lambda>j. NODE_NODE_SOCKET_PATH_PREFIX @ show_nat ((n + h + j) mod n)) {1..<nat r}"
  proof (rule inj_onI)
    fix j j' assume j: "j \<in> {1..<nat r}" "j' \<in> {1..<nat r}"
      and "NODE_NODE_SOCKET_PATH_PREFIX @ show_nat ((n + h + j) mod n) = NODE_NODE_SOCKET_PATH_PREFIX @ show_nat ((n + h + j') mod n)"
    then have "(n + h + j) mod n = (n + h + j') mod n" using show_nat_inj by auto
    then show "j = j'" using less [of j j'] less [of j' j] j assms by (cases j j' rule: linorder_cases) auto
  qed
  then show ?thesis by (simp add: replica_paths_def distinct_map)
qed

lemma filter_eq_distinct: "distinct xs \<Longrightarrow> filter (\<lambda>q. q = p) xs = (if p \<in> set xs then [p] else [])"
  by (induction xs) (auto simp: filter_empty_conv)

text \<open>What waits at the nodes after a write at node \<open>h\<close>.\<close>

lemma pending_served:
  assumes ok: "nodes_ok r ps" and same: "same_node (st (ps ! h)) s1" and h: "h < length ps" and i: "i < length ps"
    and r: "nat r \<le> length ps" and sent: "sent = map (\<lambda>q. (q, msg)) (replica_paths (length ps) r h)"
  shows "pending (served h sent s1 ps ! i) =
    (if i = h then tl (pending (ps ! h))
     else pending (ps ! i) @ (if NODE_NODE_SOCKET_PATH_PREFIX @ show_nat i \<in> set (replica_paths (length ps) r h) then [msg] else []))"
proof -
  let ?R = "replica_paths (length ps) r h" and ?p = "\<lambda>i. NODE_NODE_SOCKET_PATH_PREFIX @ show_nat i"
  have path: "node_socket_path (st (ps ! j)) = ?p j" "alive (ps ! j)" if "j < length ps" for j
    using ok that by (simp_all add: nodes_ok_def node_ok_def node_socket_path_def)
  have f: "map snd (filter (\<lambda>(path, m). path = p) sent) = (if p \<in> set ?R then [msg] else [])" for p
  proof -
    have "filter (\<lambda>q. q = p) ?R = (if p \<in> set ?R then [p] else [])"
      using replica_paths_distinct [OF r, of h] by (rule filter_eq_distinct)
    then show ?thesis unfolding sent by (simp add: filter_map comp_def)
  qed
  have d: "pending (deliver sent ps ! j) = pending (ps ! j) @ (if ?p j \<in> set ?R then [msg] else [])" if "j < length ps" for j
    using deliver_nth [OF that path(2) [OF that]] path(1) [OF that] f [of "?p j"] by simp
  have "?p h \<notin> set ?R"
  proof
    assume "?p h \<in> set ?R"
    then obtain j where "j \<noteq> h" "?p h = ?p j" using replica_pathE [OF _ r h] by metis
    then show False using show_nat_inj by auto
  qed
  then show ?thesis using d [OF h] d [OF i] same_node_drained(3) [OF same] h i by (simp add: served_nth)
qed

text \<open>A write goes through when no replica of its node has a full queue, and waits for ever otherwise.\<close>

definition replicas_free :: "client_kv \<Rightarrow> string \<Rightarrow> cluster \<Rightarrow> bool" where
  "replicas_free cs key c \<longleftrightarrow>
     (let n = length (procs c)
      in \<forall>q\<in>set (replica_paths n (num_replicas cs) (key_node key n)). listens (room c) (procs c) q \<noteq> Blocked)"

lemma put_step:
  assumes rel: "kv_rel cs m c" and req: "request_ok key vals" and free: "replicas_free cs key c"
  shows "\<exists>c1. client_put cluster_ops key vals cs c = Inr (True, c1) \<and> kv_rel cs (m(key \<mapsto> vals)) c1 \<and> room c1 = room c \<and>
    length (procs c1) = length (procs c) \<and>
    (\<forall>i<length (procs c). pending (procs c1 ! i) =
      (if i = key_node key (length (procs c)) then tl (pending (procs c ! i))
       else pending (procs c ! i) @ (if NODE_NODE_SOCKET_PATH_PREFIX @ show_nat i \<in>
           set (replica_paths (length (procs c)) (num_replicas cs) (key_node key (length (procs c))))
         then [replicate_message key vals] else [])))"
proof -
  note D = kv_relD [OF rel]
  let ?ps = "procs c" and ?r = "num_replicas cs" and ?msg = "replicate_message key vals"
  let ?n = "length ?ps"
  define h where "h = key_node key ?n"
  have h: "h < ?n" using key_node_less [OF D(4)] by (simp add: h_def)
  note H = home_node [OF rel h]
  define s1 where "s1 = stored key vals (st (?ps ! h))"
  define sent where "sent = map (\<lambda>q. (q, ?msg)) (replica_paths ?n ?r h)"
  let ?a = "''OK, SERVER_'' @ show_nat h" and ?c1 = "c\<lparr>procs := served h sent s1 ?ps\<rparr>"
  have conn: "listens (room c) ?ps q = Connected" if q: "q \<in> set (replica_paths ?n ?r h)" for q
  proof -
    obtain i where "i < ?n" "q = NODE_NODE_SOCKET_PATH_PREFIX @ show_nat i" using replica_pathE [OF q D(5) h] by metis
    moreover have "listens (room c) ?ps q \<noteq> Blocked" using free q by (simp add: replicas_free_def h_def Let_def)
    ultimately show ?thesis using listens_node [OF D(2)] by (auto split: if_splits)
  qed
  then have "filter (\<lambda>q. listens (room c) ?ps q = Connected) (replica_paths ?n ?r h) = replica_paths ?n ?r h" by (simp add: filter_id_conv)
  moreover have "\<forall>q\<in>set (replica_node_addresses (st (?ps ! h))). length q < 108 \<and> listens (room c) ?ps q \<noteq> Blocked"
    using H(4,5) conn by auto
  ultimately have m: "client_message (listens (room c) ?ps) (put_message key vals) (st (?ps ! h)) = Inr (Answer ?a, sent, s1)"
    using put_message_effect [OF request_okD(1,2) [OF req], of "st (?ps ! h)" "listens (room c) ?ps"] H(2,4)
    by (simp add: sent_def s1_def)
  have same: "same_node (st (?ps ! h)) s1" by (simp add: s1_def)
  have "\<forall>(path, m)\<in>set sent. path \<in> set (replica_paths ?n ?r h) \<and> m = ?msg" by (auto simp: sent_def)
  note N = nodes_ok_served [OF D(2) same h D(5) this req h_def [symmetric]]
  have fits: "put_message key vals \<noteq> []" "length (put_message key vals) < 1100" "NUL \<notin> set (put_message key vals)"
    using replicate_fits [OF req] by (simp_all add: put_message_def replicate_message_def words_text_def NUL_def)
  have "?a \<noteq> []" "length ?a < 1100" "NUL \<notin> set ?a" using H(3) show_nat_no_NUL by (auto simp: NUL_def)
  then have "request_loop cluster_ops (node_address_map cs) (put_message key vals) ?r 0 h [] c = Inr (Some ?a, [], ?c1)"
    using home_serves [OF rel h m fits _ _ _ N(2)] by blast
  moreover have "length key < 2 ^ 24" using request_okD(3) [OF req] by simp
  ultimately have "client_put cluster_ops key vals cs c = Inr (True, ?c1)"
    using view_client [OF D(1), of key] by (simp add: client_put_def no_dead [OF D(1)] notify_if_any_def h_def)
  moreover have "holds_map (m(key \<mapsto> vals)) (served h sent s1 ?ps)"
  proof (rule holds_map_served [OF D(3) h N(2)])
    show "\<forall>k. key_ok k \<longrightarrow> key_node k ?n = h \<longrightarrow> storage_key_value_map s1 k = (m(key \<mapsto> vals)) k"
      using D(3) by (auto simp: holds_map_def stored_def s1_def)
  qed (use D(3) req in \<open>auto simp: holds_map_def h_def\<close>)
  then have "kv_rel cs (m(key \<mapsto> vals)) ?c1"
    using view_ok_served [OF D(1) same h] N(1) by (simp add: kv_rel_def)
  moreover note pending_served [OF D(2) same h _ D(5) sent_def]
  ultimately show ?thesis by (intro exI [of _ ?c1]) (simp add: h_def)
qed

lemma put_blocks:
  assumes rel: "kv_rel cs m c" and req: "request_ok key vals" and full: "\<not> replicas_free cs key c"
  shows "client_put cluster_ops key vals cs c = Inl SpinForever"
proof -
  note D = kv_relD [OF rel]
  let ?ps = "procs c" and ?r = "num_replicas cs"
  let ?n = "length ?ps"
  define h where "h = key_node key ?n"
  have h: "h < ?n" using key_node_less [OF D(4)] by (simp add: h_def)
  note H = home_node [OF rel h]
  obtain q where q: "q \<in> set (replica_paths ?n ?r h)" "listens (room c) ?ps q = Blocked"
    using full by (auto simp: replicas_free_def h_def Let_def)
  have fits: "put_message key vals \<noteq> []" "length (put_message key vals) < 1100" "NUL \<notin> set (put_message key vals)"
    using replicate_fits [OF req] by (simp_all add: put_message_def replicate_message_def words_text_def NUL_def)
  have "client_message (listens (room c) ?ps) (put_message key vals) (st (?ps ! h)) = Inl SpinForever"
    using put_message_blocked [OF H(5), of q "listens (room c) ?ps" key vals] q H(4) by simp
  then have "serve_at (room c) h (put_message key vals) ?ps = Inl SpinForever"
    using fits by (simp add: serve_at_def run_round_def)
  then have "attempt cluster_ops (node_address_map cs) h (put_message key vals) c = Inl SpinForever"
    by (rule attempt_fault [OF D(1) h H(1)])
  then have "request_loop cluster_ops (node_address_map cs) (put_message key vals) ?r 0 h [] c = Inl SpinForever"
    using D(1) by (subst request_loop.simps) (simp add: view_ok_def)
  moreover have "length key < 2 ^ 24" using request_okD(3) [OF req] by simp
  ultimately show ?thesis
    using view_client [OF D(1), of key] by (simp add: client_put_def no_dead [OF D(1)] h_def)
qed

text \<open>At every node \<open>k\<close> more connections can wait.\<close>

definition room_for :: "nat \<Rightarrow> cluster \<Rightarrow> bool" where
  "room_for k c \<longleftrightarrow> (\<forall>i<length (procs c). length (pending (procs c ! i)) + k \<le> room c)"

lemma room_for_free:
  assumes rel: "kv_rel cs m c" and "room_for (Suc k) c"
  shows "replicas_free cs key c"
proof -
  note D = kv_relD [OF rel]
  let ?n = "length (procs c)"
  have "listens (room c) (procs c) q \<noteq> Blocked" if q: "q \<in> set (replica_paths ?n (num_replicas cs) (key_node key ?n))" for q
  proof -
    obtain i where i: "i < ?n" "q = NODE_NODE_SOCKET_PATH_PREFIX @ show_nat i"
      using replica_pathE [OF q D(5) key_node_less [OF D(4)]] by metis
    then have "length (pending (procs c ! i)) < room c" using assms(2) by (auto simp: room_for_def Suc_le_eq)
    then show ?thesis using listens_node [OF D(2) i(1)] i(2) by simp
  qed
  then show ?thesis by (simp add: replicas_free_def Let_def)
qed

lemma put_refines:
  assumes rel: "kv_rel cs m c" and req: "request_ok key vals" and room: "room_for (Suc k) c"
  shows "\<exists>c1. client_put cluster_ops key vals cs c = Inr (True, c1) \<and> kv_rel cs (m(key \<mapsto> vals)) c1 \<and> room_for k c1"
proof -
  let ?n = "length (procs c)"
  obtain c1 where c1: "client_put cluster_ops key vals cs c = Inr (True, c1)" "kv_rel cs (m(key \<mapsto> vals)) c1"
    "room c1 = room c" "length (procs c1) = ?n"
    and pend: "\<And>i. i < ?n \<Longrightarrow> pending (procs c1 ! i) = (if i = key_node key ?n then tl (pending (procs c ! i))
       else pending (procs c ! i) @ (if NODE_NODE_SOCKET_PATH_PREFIX @ show_nat i \<in>
           set (replica_paths ?n (num_replicas cs) (key_node key ?n)) then [replicate_message key vals] else []))"
    using put_step [OF rel req room_for_free [OF rel room]] by blast
  have "length (pending (procs c1 ! i)) \<le> Suc (length (pending (procs c ! i)))" if "i < ?n" for i
    using pend [OF that] by (auto simp: le_SucI)
  then have "room_for k c1" using room c1(3,4) by (fastforce simp: room_for_def)
  with c1(1,2) show ?thesis by blast
qed

text \<open>The words that a read delivers.\<close>

definition read_result_of :: "string list option \<Rightarrow> string list" where
  "read_result_of v = (case v of None \<Rightarrow> [''ERROR''] | Some vals \<Rightarrow> filter (\<lambda>w. w \<noteq> []) vals)"

definition read_answer :: "string \<Rightarrow> nat \<Rightarrow> string list option \<Rightarrow> string" where
  "read_answer key h v =
     (case v of None \<Rightarrow> ''KEY_NOT_FOUND'' | Some vals \<Rightarrow> key @ '', '' @ words_text vals @ '', SERVER_'' @ show_nat h)"

lemma read_answer_fits:
  assumes "\<forall>vals. v = Some vals \<longrightarrow> request_ok key vals" and "length (show_nat h) \<le> 9"
  shows "read_answer key h v \<noteq> []" and "length (read_answer key h v) < 1100" and "NUL \<notin> set (read_answer key h v)"
proof -
  have "read_answer key h v \<noteq> [] \<and> length (read_answer key h v) < 1100 \<and> NUL \<notin> set (read_answer key h v)"
  proof (cases v)
    case None
    then show ?thesis by (simp add: read_answer_def NUL_def)
  next
    case (Some vals)
    then have r: "request_ok key vals" using assms(1) by blast
    then have "NUL \<notin> set key" "NUL \<notin> set (words_text vals)" "length key + length (words_text vals) \<le> 1020"
      using key_okD(3) words_text_chars(2) by (auto simp: request_ok_def)
    then show ?thesis using Some assms(2) show_nat_no_NUL [of h] by (simp add: read_answer_def NUL_def)
  qed
  then show "read_answer key h v \<noteq> []" "length (read_answer key h v) < 1100" "NUL \<notin> set (read_answer key h v)" by simp_all
qed

lemma get_reply_read_answer:
  assumes "key_ok key" and "\<forall>vals. v = Some vals \<longrightarrow> request_ok key vals"
  shows "get_reply (read_answer key h v) = map_option (filter (\<lambda>w. w \<noteq> [])) v"
proof (cases v)
  case (Some vals)
  then show ?thesis
    using get_reply_words [OF assms(1), of vals "show_nat h"] assms(2) by (simp add: read_answer_def request_ok_def)
qed (simp add: read_answer_def)

lemma get_refines:
  assumes rel: "kv_rel cs m c" and req: "request_ok key []"
  shows "\<exists>c1. client_get cluster_ops key cs c = Inr (read_result_of (m key), c1) \<and> kv_rel cs m c1 \<and>
    (room_for k c \<longrightarrow> room_for k c1)"
proof -
  note D = kv_relD [OF rel] and K = request_okD(1) [OF req]
  let ?ps = "procs c"
  let ?n = "length ?ps"
  define h where "h = key_node key ?n"
  have h: "h < ?n" using key_node_less [OF D(4)] by (simp add: h_def)
  note H = home_node [OF rel h]
  define a where "a = read_answer key h (m key)"
  let ?c1 = "c\<lparr>procs := served h [] (st (?ps ! h)) ?ps\<rparr>"
  have look: "storage_key_value_map (st (?ps ! h)) key = m key" using D(3) K by (simp add: holds_map_def h_def)
  have m: "client_message (listens (room c) ?ps) (''GET:'' @ key) (st (?ps ! h)) = Inr (Answer a, [], st (?ps ! h))"
    unfolding get_message_effect [OF K] look a_def read_answer_def H(2) by (simp split: option.split)
  have vals: "\<forall>vals. m key = Some vals \<longrightarrow> request_ok key vals" using D(3) by (simp add: holds_map_def)
  note a = read_answer_fits [OF vals H(3), folded a_def]
  have fits: "''GET:'' @ key \<noteq> []" "length (''GET:'' @ key) < 1100" "NUL \<notin> set (''GET:'' @ key)"
    using request_okD(3) [OF req] key_okD(3) [OF K] by (simp_all add: NUL_def)
  have same: "same_node (st (?ps ! h)) (st (?ps ! h))" by simp
  note N = nodes_ok_served [OF D(2) same h D(5) _ req h_def [symmetric], of "[]"]
  have "request_loop cluster_ops (node_address_map cs) (''GET:'' @ key) (num_replicas cs) 0 h [] c = Inr (Some a, [], ?c1)"
    using home_serves [OF rel h m fits a] N(2) by simp
  moreover have "get_reply a = map_option (filter (\<lambda>w. w \<noteq> [])) (m key)"
    using get_reply_read_answer [OF K vals] by (simp add: a_def)
  moreover have "length key < 2 ^ 24" using request_okD(3) [OF req] by simp
  ultimately have "client_get cluster_ops key cs c = Inr (read_result_of (m key), ?c1)"
    using view_client [OF D(1), of key]
    by (simp add: client_get_def no_dead [OF D(1)] notify_if_any_def h_def read_result_of_def split: option.split)
  moreover have "holds_map m (served h [] (st (?ps ! h)) ?ps)"
    using D(3) N(2) by (intro holds_map_served [OF D(3) h]) (auto simp: holds_map_def)
  then have "kv_rel cs m ?c1" using view_ok_served [OF D(1) same h] N(1) by (simp add: kv_rel_def)
  moreover have "length (pending (procs ?c1 ! i)) \<le> length (pending (?ps ! i))" if "i < ?n" for i
    using that h by (auto simp: served_nth drained_def deliver_def)
  then have "room_for k c \<longrightarrow> room_for k ?c1" by (fastforce simp: room_for_def)
  ultimately show ?thesis by blast
qed

subsection \<open>Sequences of requests\<close>

datatype kv_op = Put string "string list" | Get string

fun op_ok :: "kv_op \<Rightarrow> bool" where
  "op_ok (Put key vals) = request_ok key vals"
| "op_ok (Get key) = request_ok key []"

text \<open>The results of requests: whether a write succeeded, and the words read.\<close>

fun kv_run :: "client_kv \<Rightarrow> kv_op list \<Rightarrow> cluster \<Rightarrow> ((bool + string list) list \<times> cluster) res" where
  "kv_run cs [] c = Inr ([], c)"
| "kv_run cs (Put key vals # ops) c =
     rbind (client_put cluster_ops key vals cs c) (\<lambda>(b, c1). rbind (kv_run cs ops c1) (\<lambda>(rs, c2). Inr (Inl b # rs, c2)))"
| "kv_run cs (Get key # ops) c =
     rbind (client_get cluster_ops key cs c) (\<lambda>(v, c1). rbind (kv_run cs ops c1) (\<lambda>(rs, c2). Inr (Inr v # rs, c2)))"

fun map_run :: "kv_op list \<Rightarrow> (string \<Rightarrow> string list option) \<Rightarrow> (bool + string list) list \<times> (string \<Rightarrow> string list option)" where
  "map_run [] m = ([], m)"
| "map_run (Put key vals # ops) m = (let (rs, m1) = map_run ops (m(key \<mapsto> vals)) in (Inl True # rs, m1))"
| "map_run (Get key # ops) m = (let (rs, m1) = map_run ops m in (Inr (read_result_of (m key)) # rs, m1))"

text \<open>The number of writes.\<close>

definition num_puts :: "kv_op list \<Rightarrow> nat" where
  "num_puts ops = length (filter (\<lambda>x. case x of Put _ _ \<Rightarrow> True | Get _ \<Rightarrow> False) ops)"

lemma run_refines:
  assumes "kv_rel cs m c" and "list_all op_ok ops" and "room_for (num_puts ops) c"
  shows "\<exists>c1. kv_run cs ops c = Inr (fst (map_run ops m), c1) \<and> kv_rel cs (snd (map_run ops m)) c1"
  using assms
proof (induction ops arbitrary: m c)
  case (Cons x ops)
  show ?case
  proof (cases x)
    case (Put key vals)
    then obtain c1 where c1: "client_put cluster_ops key vals cs c = Inr (True, c1)" "kv_rel cs (m(key \<mapsto> vals)) c1"
      "room_for (num_puts ops) c1"
      using put_refines [OF Cons.prems(1), of key vals "num_puts ops"] Cons.prems(2,3) by (auto simp: num_puts_def)
    then show ?thesis using Cons.IH [OF c1(2)] Cons.prems(2) Put by (auto simp: case_prod_beta Let_def fun_upd_def)
  next
    case (Get key)
    then obtain c1 where c1: "client_get cluster_ops key cs c = Inr (read_result_of (m key), c1)" "kv_rel cs m c1"
      "room_for (num_puts ops) c1"
      using get_refines [OF Cons.prems(1), of key "num_puts ops"] Cons.prems(2,3) by (auto simp: num_puts_def)
    then show ?thesis using Cons.IH [OF c1(2)] Cons.prems(2) Get by (auto simp: case_prod_beta Let_def)
  qed
qed simp

subsection \<open>Too many writes in a row\<close>

text \<open>A node takes a waiting replication message only after a connection of a client. Writes of one key that come
  one after the other fill the queue of the next node; the write after that never returns.\<close>

lemma next_replica:
  assumes "2 \<le> r" and "0 < n"
  shows "NODE_NODE_SOCKET_PATH_PREFIX @ show_nat ((h + 1) mod n) \<in> set (replica_paths n r h)"
proof -
  have "(n + h + 1) mod n = (h + 1) mod n" by (metis add.assoc mod_add_self1)
  moreover have "1 \<in> set [1..<nat r]" using assms(1) by simp
  ultimately show ?thesis unfolding replica_paths_def by force
qed

lemma puts_block:
  assumes "kv_rel cs m c" and r: "2 \<le> num_replicas cs" and req: "request_ok key vals"
    and k: "k = (key_node key (length (procs c)) + 1) mod length (procs c)"
    and "room c < n + length (pending (procs c ! k))" and "0 < n"
  shows "kv_run cs (replicate n (Put key vals)) c = Inl SpinForever"
  using assms(1,4-6)
proof (induction n arbitrary: m c)
  case (Suc n)
  note D = kv_relD [OF Suc.prems(1)]
  let ?n = "length (procs c)"
  define h where "h = key_node key ?n"
  have h: "h < ?n" using key_node_less [OF D(4)] by (simp add: h_def)
  have n: "2 \<le> ?n" using D(5) r by simp
  have kn: "k < ?n" using Suc.prems(2) D(4) by simp
  have kR: "NODE_NODE_SOCKET_PATH_PREFIX @ show_nat k \<in> set (replica_paths ?n (num_replicas cs) h)"
    using next_replica [OF r D(4), of h] Suc.prems(2) by (simp add: h_def)
  have "(?n + h + 1) mod ?n = (h + 1) mod ?n" by (metis add.assoc mod_add_self1)
  then have kh: "k \<noteq> h" using replica_index_other [of 1 ?n h] n h Suc.prems(2) by (simp add: h_def)
  show ?case
  proof (cases "replicas_free cs key c")
    case False
    then show ?thesis using put_blocks [OF Suc.prems(1) req] by simp
  next
    case True
    then have lt: "length (pending (procs c ! k)) < room c"
      using kR listens_node [OF D(2) kn, of "room c"] by (auto simp: replicas_free_def Let_def h_def split: if_splits)
    obtain c1 where c1: "client_put cluster_ops key vals cs c = Inr (True, c1)" "kv_rel cs (m(key \<mapsto> vals)) c1"
      "room c1 = room c" "length (procs c1) = ?n" "pending (procs c1 ! k) = pending (procs c ! k) @ [replicate_message key vals]"
      using put_step [OF Suc.prems(1) req True] kn kh kR by (auto simp: h_def)
    have "kv_run cs (replicate n (Put key vals)) c1 = Inl SpinForever"
      using Suc.prems(2,3) lt c1(3-5) by (intro Suc.IH [OF c1(2)]) simp_all
    then show ?thesis using c1(1) by simp
  qed
qed simp

end
