(* ===== verification/KV_Setup.thy ===== *)
theory KV_Setup
  imports KV_Refine
begin

text \<open>
  The start of GTStore: the manager numbers the nodes in the order in which they announce themselves, tells
  each of them its replicas, and gives clients the addresses. The messages are read back as they were
  written, so that a started system is the empty map of the refinement.
\<close>

subsection \<open>Announcements\<close>

definition address_ok :: "string \<Rightarrow> bool" where
  "address_ok a \<longleftrightarrow> NUL \<notin> set a \<and> CHR '','' \<notin> set a \<and> length a < 108 \<and> a \<noteq> ''DEAD'' \<and> a \<noteq> MANAGER_CLIENT_SOCKET_PATH"

definition announce :: "string \<Rightarrow> string" where
  "announce a = ''NODE_CLIENT_SOCKET_PATH:'' @ a"

lemma announce_received:
  assumes "address_ok a"
  shows "recv_string 1024 (announce a) = Inr (announce a)" and "contains (announce a) ''NODE_CLIENT_SOCKET_PATH:''"
    and "after_colon (announce a) = a"
proof -
  have "length (announce a) < 1024" "NUL \<notin> set (announce a)"
    using assms by (simp_all add: announce_def address_ok_def NUL_def)
  then show "recv_string 1024 (announce a) = Inr (announce a)" by simp
  show "contains (announce a) ''NODE_CLIENT_SOCKET_PATH:''" unfolding announce_def by (rule contains_head)
  show "after_colon (announce a) = a"
    using after_colon_prefix [of "''NODE_CLIENT_SOCKET_PATH''" a] by (simp add: announce_def)
qed

lemma accept_nodes_all:
  assumes "list_all address_ok as" and "as \<noteq> []"
  shows "accept_nodes (map (\<lambda>a. Some (announce a)) as) (int (length as)) known =
    Inr (known @ as, map (\<lambda>i. Some (node_connected (length known + i))) [0..<length as])"
  using assms
proof (induction as arbitrary: known)
  case (Cons a as)
  note a = announce_received [of a]
  have up: "[0..<length (a # as)] = 0 # map Suc [0..<length as]" by (simp add: upt_conv_Cons map_Suc_upt del: upt_Suc)
  show ?case
  proof (cases "as = []")
    case True
    then show ?thesis using Cons.prems a by simp
  next
    case False
    then have "accept_nodes (map (\<lambda>a. Some (announce a)) as) (int (length as)) (known @ [a]) =
        Inr ((known @ [a]) @ as, map (\<lambda>i. Some (node_connected (length (known @ [a]) + i))) [0..<length as])"
      using Cons by simp
    then show ?thesis using Cons.prems a False unfolding up by (simp add: comp_def)
  qed
qed simp

subsection \<open>The message about the replicas\<close>

lemma strstr_Cons: "strstr (c # s) pat = (if take (length pat) (c # s) = pat then Some 0 else map_option Suc (strstr s pat))"
  by (subst strstr.simps) simp

lemma butlast_terminated:
  assumes "xs \<noteq> []"
  shows "butlast (s @ concat (map (\<lambda>x. x @ [c]) xs)) = s @ concat (map (\<lambda>x. x @ [c]) (butlast xs)) @ last xs"
proof -
  have "concat (map (\<lambda>x. x @ [c]) xs) = concat (map (\<lambda>x. x @ [c]) (butlast xs)) @ last xs @ [c]"
    using assms by (cases xs rule: rev_cases) simp_all
  then show ?thesis by (simp add: butlast_append)
qed

lemma split_all_joined:
  assumes "xs \<noteq> []" and "\<forall>x\<in>set xs. sep \<notin> set x \<and> x \<noteq> []"
  shows "split_all sep (concat (map (\<lambda>x. x @ [sep]) (butlast xs)) @ last xs) = xs"
proof -
  have "last xs \<in> set xs" "set (butlast xs) \<subseteq> set xs" using assms(1) by (auto dest: in_set_butlastD)
  then have "split_loop sep (concat (map (\<lambda>x. x @ [sep]) (butlast xs)) @ last xs) = (butlast xs, last xs)"
    using assms(2) by (intro split_loop_concat) auto
  then show ?thesis using assms \<open>last xs \<in> set xs\<close> by (simp add: split_all_def)
qed

lemma show_nat_chars:
  assumes "c \<in> set (show_nat n)"
  shows "c \<noteq> CHR '';'' \<and> c \<noteq> CHR '','' \<and> c \<noteq> CHR '':'' \<and> c \<noteq> CHR ''R''"
  using show_nat_digits [OF assms] by (auto simp: is_digit_def)

lemma show_int_nat [simp]: "show_int (int n) = show_nat n"
  by (simp add: show_int_def)

lemma find_replica_paths:
  "strstr (''NUM_REPLICAS:'' @ s) ''REPLICA_PATHS:'' = map_option (\<lambda>i. 13 + i) (strstr s ''REPLICA_PATHS:'')"
  by (cases "strstr s ''REPLICA_PATHS:''") (simp_all add: strstr_Cons)

lemma parse_replicas:
  assumes "r < 2 ^ 31"
  shows "parse_node_connection_msg (''NUM_REPLICAS:'' @ show_nat r @ '';'' @ ''REPLICA_PATHS:'' @ p) s =
    Inr (s\<lparr>s_num_rep := int r, replica_node_addresses := replica_node_addresses s @ split_all (CHR '','') p\<rparr>)"
proof -
  let ?m = "''NUM_REPLICAS:'' @ show_nat r @ '';'' @ ''REPLICA_PATHS:'' @ p"
  have one: "strstr ?m ''NUM_REPLICAS:'' = Some 0" by (rule strstr_head)
  have "strstr ((show_nat r @ '';'') @ ''REPLICA_PATHS:'' @ p) ''REPLICA_PATHS:'' = Some (length (show_nat r) + 1)"
    using show_nat_chars strstr_head [of "''REPLICA_PATHS:''" p] by (subst strstr_skip) auto
  then have two: "strstr ?m ''REPLICA_PATHS:'' = Some (13 + (length (show_nat r) + 1))" unfolding find_replica_paths by simp
  have "strstr (show_nat r @ CHR '';'' # ''REPLICA_PATHS:'' @ p) '';'' = Some (length (show_nat r))"
    using show_nat_chars by (intro strstr_char) blast
  then have three: "strstr (drop (0 + length ''NUM_REPLICAS:'') ?m) '';'' = Some (length (show_nat r))" by simp
  have num: "take (length (show_nat r)) (drop (0 + length ''NUM_REPLICAS:'') ?m) = show_nat r" by simp
  let ?pre = "''NUM_REPLICAS:'' @ show_nat r @ '';'' @ ''REPLICA_PATHS:''"
  have "?m = ?pre @ p" "13 + (length (show_nat r) + 1) + length ''REPLICA_PATHS:'' = length ?pre" by simp_all
  then have paths: "drop (13 + (length (show_nat r) + 1) + length ''REPLICA_PATHS:'') ?m = p"
    by (metis append_eq_conv_conj)
  have "atoi (show_nat r) = Inr (int r)" using atoi_show_nat [OF assms, of "[]"] by simp
  then show ?thesis
    unfolding parse_node_connection_msg_def one two prod.case option.case Let_def three num paths by simp
qed

lemma replica_paths_fields:
  assumes "p \<in> set (replica_paths n r i)"
  shows "CHR '','' \<notin> set p \<and> p \<noteq> [] \<and> NUL \<notin> set p"
proof -
  have "CHR '','' \<notin> set (show_nat k)" for k using show_nat_chars by blast
  then show ?thesis
    using assms show_nat_no_NUL by (auto simp: replica_paths_def NODE_NODE_SOCKET_PATH_PREFIX_def NUL_def)
qed

lemma replica_message_one: "parse_node_connection_msg (replica_message n 1 i) s = Inr s"
proof -
  have "replica_message n 1 i = ''NUM_REPLICAS:1;REPLICA_PATHS''"
    by (simp add: replica_message_def replica_paths_def show_int_def show_nat.simps digit_char_def char_of_def bit_simps)
  moreover have "strstr ''NUM_REPLICAS:1;REPLICA_PATHS'' ''REPLICA_PATHS:'' = None" by (simp add: strstr.simps)
  ultimately show ?thesis by (simp add: parse_node_connection_msg_def split: option.split)
qed

lemma replica_message_many:
  assumes "2 \<le> r"
  shows "replica_message n (int r) i = ''NUM_REPLICAS:'' @ show_nat r @ '';'' @ ''REPLICA_PATHS:'' @
    concat (map (\<lambda>p. p @ [CHR '','']) (butlast (replica_paths n (int r) i))) @ last (replica_paths n (int r) i)"
proof -
  have "replica_paths n (int r) i \<noteq> []" using assms by (simp add: replica_paths_def)
  from butlast_terminated [OF this, of "''NUM_REPLICAS:'' @ show_nat r @ '';'' @ ''REPLICA_PATHS:''" "CHR '',''"]
  show ?thesis by (simp add: replica_message_def)
qed

text \<open>A node learns the paths of the \<open>r - 1\<close> nodes after it. With one replica the message loses its colon and is
  ignored, which leaves the list empty all the same.\<close>

lemma parse_replica_message:
  assumes "1 \<le> r" and "r < 2 ^ 31" and "replica_node_addresses s = []"
  shows "\<exists>v. parse_node_connection_msg (replica_message n (int r) i) s =
    Inr (s\<lparr>s_num_rep := v, replica_node_addresses := replica_paths n (int r) i\<rparr>)"
proof (cases "r = 1")
  case True
  moreover have "s = s\<lparr>s_num_rep := s_num_rep s, replica_node_addresses := []\<rparr>" using assms(3) by simp
  ultimately show ?thesis
    using replica_message_one [of n i s] by (intro exI [of _ "s_num_rep s"]) (simp add: replica_paths_def)
next
  case False
  let ?ps = "replica_paths n (int r) i"
  from False have r: "2 \<le> r" using assms(1) by simp
  then have "?ps \<noteq> []" by (simp add: replica_paths_def)
  then have "split_all (CHR '','') (concat (map (\<lambda>p. p @ [CHR '','']) (butlast ?ps)) @ last ?ps) = ?ps"
    using replica_paths_fields by (intro split_all_joined) blast+
  then show ?thesis unfolding replica_message_many [OF r] parse_replicas [OF assms(2)] assms(3) by auto
qed

subsection \<open>The answer to a starting client\<close>

lemma node_pair_next:
  assumes "i < 2 ^ 31 - 1" and "length (node_address_map c) = i" and "a \<noteq> ''DEAD''"
  shows "node_pair (show_nat i @ CHR '':'' # a) c = Inr (c\<lparr>node_address_map := node_address_map c @ [a]\<rparr>)"
proof -
  have colon: "strstr (show_nat i @ CHR '':'' # a) '':'' = Some (length (show_nat i))"
    using show_nat_chars by (intro strstr_char) blast
  have "stoi (show_nat i) = Inr (int i)" using stoi_show_int [of "int i" "[]"] assms(1) by simp
  moreover have "set_node (int i) a (node_address_map c) = Inr (node_address_map c @ [a])"
    using assms(1,2) by (auto simp: set_node_def Let_def list_update_append)
  ultimately show ?thesis using assms(3) by (simp add: node_pair_def colon Let_def)
qed

definition node_entry :: "string list \<Rightarrow> nat \<Rightarrow> string" where
  "node_entry as i = show_nat i @ CHR '':'' # as ! i"

lemma node_pairs_all:
  assumes "k \<le> length as" and "length as < 2 ^ 31 - 1" and "list_all address_ok as" and "node_address_map c = []"
  shows "node_pairs (map (node_entry as) [0..<k]) c = Inr (c\<lparr>node_address_map := take k as\<rparr>)"
  using assms(1)
proof (induction k)
  case 0
  then show ?case using assms(4) by simp
next
  case (Suc k)
  have app: "node_pairs (xs @ [x]) c = rbind (node_pairs xs c) (node_pair x)" for xs x c
    by (induction xs arbitrary: c) (simp_all add: rbind_assoc rbind_def split: sum.split)
  have "as ! k \<noteq> ''DEAD''" using Suc.prems assms(3) by (simp add: list_all_length address_ok_def)
  then have "node_pair (node_entry as k) (c\<lparr>node_address_map := take k as\<rparr>) = Inr (c\<lparr>node_address_map := take k as @ [as ! k]\<rparr>)"
    using Suc.prems assms(2) node_pair_next [of k "c\<lparr>node_address_map := take k as\<rparr>" "as ! k"] by (simp add: node_entry_def)
  then show ?case using Suc by (simp add: app take_Suc_conv_app_nth)
qed

lemma node_entry_chars: "list_all address_ok as \<Longrightarrow> i < length as \<Longrightarrow> CHR '','' \<notin> set (node_entry as i)"
  using show_nat_chars [of "CHR '',''" i] by (auto simp: node_entry_def list_all_length address_ok_def)

lemma init_response_text:
  assumes "m_dead_node_ids s = []" and "m_node_address_map s = as" and "as \<noteq> []" and "m_num_rep s = int r"
  shows "init_response s = ''NUM_REPLICAS:'' @ show_nat r @ '';HASH_FUNCTION:ADD-ASCII;NODES:'' @
    concat (map (\<lambda>x. x @ [CHR '','']) (map (node_entry as) [0..<length as - 1])) @ node_entry as (length as - 1)"
proof -
  obtain k where k: "length as = Suc k" using assms(3) by (cases "length as") auto
  let ?es = "map (node_entry as) [0..<length as]"
  have "?es \<noteq> []" "butlast ?es = map (node_entry as) [0..<length as - 1]" "last ?es = node_entry as (length as - 1)"
    by (simp_all add: k)
  with butlast_terminated [of ?es "''NUM_REPLICAS:'' @ show_nat r @ '';HASH_FUNCTION:ADD-ASCII;NODES:''" "CHR '',''"]
  show ?thesis using assms by (simp add: init_response_def node_entry_def comp_def)
qed

lemma init_response_no_NUL:
  assumes "m_dead_node_ids s = []" and "m_node_address_map s = as" and "as \<noteq> []" and "m_num_rep s = int r" and "list_all address_ok as"
  shows "NUL \<notin> set (init_response s)"
proof -
  have "NUL \<notin> set (node_entry as i)" if "i < length as" for i
    using that assms(5) show_nat_no_NUL [of i] by (auto simp: node_entry_def list_all_length address_ok_def NUL_def)
  moreover have "length as - 1 < length as" using assms(3) by simp
  ultimately show ?thesis
    unfolding init_response_text [OF assms(1-4)] using show_nat_no_NUL [of r] by (auto simp: NUL_def)
qed

lemma parse_response_text:
  assumes "r < 2 ^ 31"
  shows "parse_response (''NUM_REPLICAS:'' @ show_nat r @ '';HASH_FUNCTION:ADD-ASCII;NODES:'' @ d) c =
    (let (pieces, rest) = split_loop (CHR '','') d;
         c1 = \<lparr>num_replicas = int r, node_address_map = [], dead_node_ids = [], hash_function = ''ADD-ASCII''\<rparr>
     in rbind (node_pairs pieces c1) (\<lambda>c2. if rest = [] then Inr c2 else node_pair rest c2))"
proof -
  let ?x = "''NUM_REPLICAS:'' @ show_nat r"
  let ?m = "?x @ '';HASH_FUNCTION:'' @ ''ADD-ASCII'' @ '';NODES:'' @ d"
  have x: "CHR '';'' \<notin> set ?x" using show_nat_chars by auto
  have len: "length ?x = 13 + length (show_nat r)" by simp
  have one: "strstr (''NUM_REPLICAS:'' @ show_nat r @ y) ''NUM_REPLICAS:'' = Some 0" for y by (rule strstr_head)
  have two: "strstr ?m '';HASH_FUNCTION:'' = Some (length ?x)"
    using x strstr_head [of "'';HASH_FUNCTION:''"] by (subst strstr_skip) simp_all
  have "strstr ('';HASH_FUNCTION:ADD-ASCII'' @ '';NODES:'' @ d) '';NODES:'' = Some 24"
    using strstr_head [of "'';NODES:''" d] by (simp add: strstr_Cons)
  then have three: "strstr ?m '';NODES:'' = Some (length ?x + 24)" using x by (subst strstr_skip) simp_all
  have num: "substr_between ?m (0 + length ''NUM_REPLICAS:'') (length ?x) = show_nat r"
    by (simp add: substr_between_def)
  have cut: "drop (length ?x + k) ?m = drop k ('';HASH_FUNCTION:'' @ ''ADD-ASCII'' @ '';NODES:'' @ d)" for k
    by (simp only: drop_append length_append) simp
  have fn: "substr_between ?m (length ?x + length '';HASH_FUNCTION:'') (length ?x + 24) = ''ADD-ASCII''"
    unfolding substr_between_def cut by simp
  have dat: "drop (length ?x + 24 + length '';NODES:'') ?m = d" using cut [of 31] by (simp add: add.assoc)
  have "stoi (show_nat r) = Inr (int r)" using stoi_show_int [of "int r" "[]"] assms by simp
  moreover have "''NUM_REPLICAS:'' @ show_nat r @ '';HASH_FUNCTION:ADD-ASCII;NODES:'' @ d = ?m" by simp
  ultimately show ?thesis
    unfolding parse_response_def using one [of "'';HASH_FUNCTION:'' @ ''ADD-ASCII'' @ '';NODES:'' @ d"] two three num fn dat
    by simp
qed

lemma parse_init_response:
  assumes "m_dead_node_ids s = []" and "m_node_address_map s = as" and "as \<noteq> []" and "m_num_rep s = int r"
    and "r < 2 ^ 31" and "length as < 2 ^ 31 - 1" and "list_all address_ok as"
  shows "parse_response (init_response s) c =
    Inr \<lparr>num_replicas = int r, node_address_map = as, dead_node_ids = [], hash_function = ''ADD-ASCII''\<rparr>"
proof -
  obtain k where k: "length as = Suc k" using assms(3) by (cases "length as") auto
  let ?c = "\<lparr>num_replicas = int r, node_address_map = [], dead_node_ids = [], hash_function = ''ADD-ASCII''\<rparr>"
  have split: "split_loop (CHR '','') (concat (map (\<lambda>x. x @ [CHR '','']) (map (node_entry as) [0..<k])) @ node_entry as k) =
      (map (node_entry as) [0..<k], node_entry as k)"
    using node_entry_chars [OF assms(7)] k by (intro split_loop_concat) auto
  have "node_pairs (map (node_entry as) [0..<k]) ?c = Inr (?c\<lparr>node_address_map := take k as\<rparr>)"
    using node_pairs_all [of k as ?c] assms(6,7) k by simp
  moreover have "as ! k \<noteq> ''DEAD''" using assms(7) k by (simp add: list_all_length address_ok_def)
  then have "node_pair (node_entry as k) (?c\<lparr>node_address_map := take k as\<rparr>) = Inr (?c\<lparr>node_address_map := as\<rparr>)"
    using node_pair_next [of k "?c\<lparr>node_address_map := take k as\<rparr>" "as ! k"] assms(6) k
    by (simp add: node_entry_def flip: take_Suc_conv_app_nth)
  moreover have "node_entry as k \<noteq> []" by (simp add: node_entry_def)
  ultimately show ?thesis
    unfolding init_response_text [OF assms(1-4)] parse_response_text [OF assms(5)] k diff_Suc_1 split by simp
qed

subsection \<open>The started system\<close>

definition node_address :: "nat \<Rightarrow> string" where
  "node_address process = node_client_socket_path (storage_start process)"

lemma node_address_ok:
  assumes "process < 10 ^ 9"
  shows "address_ok (node_address process)"
proof -
  have "length (show_nat process) \<le> 9" using assms by (intro show_nat_length) simp_all
  moreover have "CHR '','' \<notin> set (show_nat process)" using show_nat_chars by blast
  ultimately show ?thesis
    using show_nat_no_NUL [of process]
    by (simp add: address_ok_def node_address_def storage_start_def NODE_CLIENT_SOCKET_PATH_PREFIX_def
        MANAGER_CLIENT_SOCKET_PATH_def NUL_def)
qed

lemma node_address_inj: "node_address a = node_address b \<Longrightarrow> a = b"
  by (auto simp: node_address_def storage_start_def intro: show_nat_inj)

lemma replica_message_no_NUL:
  assumes "1 \<le> r"
  shows "NUL \<notin> set (replica_message n (int r) i)"
proof -
  have "set (replica_message n (int r) i) \<subseteq> set (''NUM_REPLICAS:'' @ show_int (int r) @ '';'' @ ''REPLICA_PATHS:'' @
      concat (map (\<lambda>path. path @ '','') (replica_paths n (int r) i)))"
    unfolding replica_message_def by (blast dest: in_set_butlastD)
  moreover have "NUL \<notin> set (''NUM_REPLICAS:'' @ show_int (int r) @ '';'' @ ''REPLICA_PATHS:'' @
      concat (map (\<lambda>path. path @ '','') (replica_paths n (int r) i)))"
    using replica_paths_fields show_nat_no_NUL by (auto simp: NUL_def)
  ultimately show ?thesis by blast
qed

lemma node_starts:
  assumes "1 \<le> r" and "r < 2 ^ 31" and "i < 10 ^ 9" and "process < 10 ^ 9" and "length (replica_message n (int r) i) < 1024"
  shows "\<exists>v. connect_to_manager True True (Some (node_connected i)) (Some (replica_message n (int r) i)) (storage_start process) =
    Inr ((storage_start process)\<lparr>s_node_id := show_nat i, s_num_rep := v, replica_node_addresses := replica_paths n (int r) i\<rparr>)"
proof -
  have "length (show_nat i) \<le> 9" using assms(3) by (intro show_nat_length) simp_all
  then have "recv_string 1024 (node_connected i) = Inr (node_connected i)"
    using show_nat_no_NUL by (intro recv_string_fits) (simp_all add: node_connected_def NUL_def)
  moreover have "contains (node_connected i) ''Node connected to manager:''"
    unfolding node_connected_def by (rule contains_head)
  moreover have "after_colon (node_connected i) = show_nat i"
    using after_colon_prefix [of "''Node connected to manager''" "show_nat i"] by (simp add: node_connected_def)
  moreover have "length (node_client_socket_path (storage_start process)) < 108"
    using node_address_ok [OF assms(4)] by (simp add: address_ok_def node_address_def)
  moreover have "recv_string 1024 (replica_message n (int r) i) = Inr (replica_message n (int r) i)"
    using assms(5) replica_message_no_NUL [OF assms(1)] by simp
  moreover have "replica_node_addresses ((storage_start process)\<lparr>s_node_id := show_nat i\<rparr>) = []"
    by (simp add: storage_start_def)
  from parse_replica_message [OF assms(1,2) this, of n i]
  have "\<exists>v. parse_node_connection_msg (replica_message n (int r) i) ((storage_start process)\<lparr>s_node_id := show_nat i\<rparr>) =
    Inr ((storage_start process)\<lparr>s_node_id := show_nat i, s_num_rep := v, replica_node_addresses := replica_paths n (int r) i\<rparr>)"
    by simp
  ultimately show ?thesis by (simp add: connect_to_manager_def Let_def)
qed

definition net_ok :: "manager_net \<Rightarrow> bool" where
  "net_ok net \<longleftrightarrow> (\<forall>i. node_socket net i \<and> (\<exists>k<5. node_connect net i k) \<and> node_send net i)"

lemma connect_retry_ok: "k < n \<Longrightarrow> connects k \<Longrightarrow> 0 \<le> connect_retry connects n"
  by (induction n) (auto simp: less_Suc_eq)

lemma send_replicas_all:
  assumes "net_ok net" and "\<forall>i\<in>set is. length (m_node_address_map s ! i) < 108"
  shows "send_replicas net s is =
    Inr (map (\<lambda>i. (m_node_address_map s ! i, replica_message (length (m_node_address_map s)) (m_num_rep s) i)) is)"
  using assms(2)
proof (induction "is")
  case (Cons i "is")
  obtain k where "k < 5" "node_connect net i k" using assms(1) by (auto simp: net_ok_def)
  then have "\<not> connect_retry (node_connect net i) 5 < 0" using connect_retry_ok [of k 5] by fastforce
  then show ?case using Cons assms(1) by (simp add: net_ok_def)
qed simp

lemma manager_main_ok:
  assumes "0 < length ps" and "length ps < 10 ^ 9" and "1 \<le> r" and "r < 2 ^ 31" and "\<forall>p\<in>set ps. p < 10 ^ 9" and "net_ok net"
  shows "manager_main [(CHR ''n'', show_nat (length ps)), (CHR ''r'', show_nat r)] True (map (\<lambda>p. Some (announcement (storage_start p))) ps) net =
    Inr (map (\<lambda>i. Some (node_connected i)) [0..<length ps],
         map (\<lambda>i. (node_address (ps ! i), replica_message (length ps) (int r) i)) [0..<length ps],
         \<lparr>num_nodes = int (length ps), m_num_rep = int r, m_node_address_map = map node_address ps, m_dead_node_ids = []\<rparr>)"
proof -
  let ?n = "length ps" and ?as = "map node_address ps"
  have ok: "list_all address_ok ?as" using assms(5) node_address_ok by (auto simp: list_all_iff)
  have opts: "manager_options [(CHR ''n'', show_nat ?n), (CHR ''r'', show_nat r)] manager_start =
      Inr (manager_start\<lparr>num_nodes := int ?n, m_num_rep := int r\<rparr>)"
    using atoi_show_nat [of ?n "[]"] atoi_show_nat [of r "[]"] assms(1-4) by simp
  have msgs: "map (\<lambda>p. Some (announcement (storage_start p))) ps = map (\<lambda>a. Some (announce a)) ?as"
    by (simp add: announcement_def announce_def node_address_def)
  have acc: "accept_nodes (map (\<lambda>p. Some (announcement (storage_start p))) ps) (int ?n) [] =
      Inr (?as, map (\<lambda>i. Some (node_connected i)) [0..<?n])"
    unfolding msgs using accept_nodes_all [OF ok, of "[]"] assms(1) by simp
  let ?s = "\<lparr>num_nodes = int ?n, m_num_rep = int r, m_node_address_map = ?as, m_dead_node_ids = []\<rparr>"
  have "\<forall>i\<in>set [0..<?n]. length (m_node_address_map ?s ! i) < 108"
    using ok by (simp add: list_all_length address_ok_def)
  from send_replicas_all [OF assms(6) this]
  have "send_node_replica_node_fds net ?s =
      Inr (map (\<lambda>i. (?as ! i, replica_message ?n (int r) i)) [0..<?n])"
    by (simp add: send_node_replica_node_fds_def)
  moreover have "map (\<lambda>i. (?as ! i, replica_message ?n (int r) i)) [0..<?n] =
      map (\<lambda>i. (node_address (ps ! i), replica_message ?n (int r) i)) [0..<?n]" by simp
  ultimately show ?thesis
    unfolding manager_main_def opts rbind_Inr initialize_manager_nodes_socket_def by (simp add: acc manager_start_def)
qed

text \<open>What was sent to the address of a node, when the nodes are in different processes.\<close>

lemma sent_to_node:
  assumes "distinct ps" and "i < length ps"
  shows "map_of (map (\<lambda>i. (node_address (ps ! i), f i)) [0..<length ps]) (node_address (ps ! i)) = Some (f i)"
proof (rule map_of_is_SomeI)
  have "inj_on (\<lambda>i. node_address (ps ! i)) {..<length ps}"
    using assms(1) by (intro inj_onI) (metis lessThan_iff node_address_inj nth_eq_iff_index_eq)
  then show "distinct (map fst (map (\<lambda>i. (node_address (ps ! i), f i)) [0..<length ps]))"
    by (simp add: distinct_map comp_def atLeast0LessThan)
qed (use assms(2) in auto)

definition started_proc :: "storage_state \<Rightarrow> node_proc" where
  "started_proc s = \<lparr>st = s, pending = [], alive = True\<rparr>"

text \<open>A system of started nodes is the empty map, for a client that knows their addresses.\<close>

lemma started_rel:
  assumes "length ss = length ps" and "distinct ps" and "\<forall>p\<in>set ps. p < 10 ^ 9" and "1 \<le> r" and "r \<le> length ps"
    and "length ps < 10 ^ 9" and "procs c = map started_proc ss"
    and "\<forall>i<length ps. \<exists>v. ss ! i =
      (storage_start (ps ! i))\<lparr>s_node_id := show_nat i, s_num_rep := v, replica_node_addresses := replica_paths (length ps) (int r) i\<rparr>"
  shows "kv_rel \<lparr>num_replicas = int r, node_address_map = map node_address ps, dead_node_ids = [], hash_function = ''ADD-ASCII''\<rparr>
    (\<lambda>_. None) c"
proof -
  let ?n = "length ps"
  have n: "length (procs c) = ?n" "0 < ?n" using assms by auto
  have s: "s_node_id (ss ! i) = show_nat i \<and> replica_node_addresses (ss ! i) = replica_paths ?n (int r) i \<and>
      node_client_socket_path (ss ! i) = node_address (ps ! i) \<and> storage_key_value_map (ss ! i) = (\<lambda>_. None)" if i: "i < ?n" for i
  proof -
    obtain v where "ss ! i = (storage_start (ps ! i))\<lparr>s_node_id := show_nat i, s_num_rep := v,
        replica_node_addresses := replica_paths ?n (int r) i\<rparr>" using assms(8) i by blast
    then show ?thesis by (simp add: storage_start_def node_address_def)
  qed
  have map: "map (\<lambda>p. node_client_socket_path (st p)) (procs c) = map node_address ps"
    using s assms(1,7) by (intro nth_equalityI) (simp_all add: started_proc_def)
  have "inj_on node_address (set ps)" using node_address_inj by (auto simp: inj_on_def)
  then have "distinct (map node_address ps)" using assms(2) by (simp add: distinct_map)
  moreover have "\<forall>a\<in>set (map node_address ps). length a < 108 \<and> a \<noteq> MANAGER_CLIENT_SOCKET_PATH"
    using assms(3) node_address_ok by (auto simp: address_ok_def)
  moreover have "nodes_ok (int r) (procs c)"
    using s assms(1,7) by (simp add: nodes_ok_def node_ok_def started_proc_def)
  moreover have "holds_map (\<lambda>_. None) (procs c)"
    using s key_node_less [OF n(2)] assms(1,7) by (simp add: holds_map_def started_proc_def)
  ultimately show ?thesis unfolding kv_rel_def view_ok_def using map n assms(4-6) by simp
qed

end
