(* ===== verification/KV_Failover.thy ===== *)
theory KV_Failover
  imports KV_Setup
begin

text \<open>
  What happens in GTStore when a node is down: reports to the manager, and the requests that go to the next
  node.
\<close>

subsection \<open>Reports of dead nodes\<close>

lemma stoi_all_show:
  assumes "\<forall>d\<in>set ds. d < 2 ^ 31"
  shows "stoi_all (map show_nat ds) = Inr (map int ds)"
  using assms
proof (induction ds)
  case (Cons d ds)
  then show ?case using stoi_show_int [of "int d" "[]"] by simp
qed simp

lemma dead_nodes_message_read:
  assumes "ds \<noteq> []" and "\<forall>d\<in>set ds. d < 2 ^ 31"
  shows "strstr (dead_nodes_message ds) ''DEAD_NODES:'' = Some 0"
    and "stoi_all (split_all (CHR '','') (drop (length ''DEAD_NODES:'') (dead_nodes_message ds))) = Inr (map int ds)"
    and "dead_nodes_message ds \<noteq> ''INITIALIZE_CLIENT''"
proof -
  let ?t = "concat (map (\<lambda>x. x @ [CHR '','']) (butlast (map show_nat ds))) @ last (map show_nat ds)"
  have t: "dead_nodes_message ds = ''DEAD_NODES:'' @ ?t"
    using assms(1) by (simp add: dead_nodes_message_def map_butlast [symmetric] last_map comp_def)
  show "strstr (dead_nodes_message ds) ''DEAD_NODES:'' = Some 0" unfolding t by (rule strstr_head)
  have "CHR '','' \<notin> set (show_nat k)" for k using show_nat_chars by blast
  then have "split_all (CHR '','') ?t = map show_nat ds" using assms(1) by (intro split_all_joined) auto
  then show "stoi_all (split_all (CHR '','') (drop (length ''DEAD_NODES:'') (dead_nodes_message ds))) = Inr (map int ds)"
    unfolding t by (simp add: stoi_all_show [OF assms(2)])
  show "dead_nodes_message ds \<noteq> ''INITIALIZE_CLIENT''" by (simp add: t)
qed

text \<open>A report of nodes of the system makes the manager go through a vector that it changes.\<close>

lemma dead_report_undefined:
  assumes "ds \<noteq> []" and "\<forall>d\<in>set ds. d < length (m_node_address_map s)" and "length (m_node_address_map s) < 2 ^ 31"
  shows "manager_request (dead_nodes_message ds) s = Inl Undefined"
proof -
  have small: "\<forall>d\<in>set ds. d < 2 ^ 31" using assms(2,3) by fastforce
  obtain d rest where ds: "ds = d # rest" using assms(1) by (cases ds) auto
  then have "d < length (m_node_address_map s)" "d < 2 ^ 31" using assms(2) small by auto
  then have "report_loop (length (m_node_address_map s)) (map int ds) = Inl Undefined" by (simp add: ds)
  then show ?thesis using dead_nodes_message_read [OF assms(1) small] by (simp add: manager_request_def)
qed

lemma manager_request_keeps:
  assumes "manager_request msg s = Inr (a, s')"
  shows "s' = s"
  using assms by (auto simp: manager_request_def result_simps split: if_splits)

subsection \<open>A node that is down\<close>

lemma attempt_down:
  assumes "view_ok cs (procs c)" and "i < length (procs c)" and "\<not> alive (procs c ! i)"
  shows "attempt cluster_ops (node_address_map cs) i msg c = Inr (None, c)"
proof -
  let ?a = "node_address_map cs ! i" and ?p = "\<lambda>j. node_client_socket_path (st (procs c ! j))"
  have a: "?a = ?p i" "i < length (node_address_map cs)" using assms(1,2) by (simp_all add: view_ok_def)
  then have "length ?a < 108" "?a \<noteq> MANAGER_CLIENT_SOCKET_PATH" using assms(1) nth_mem by (auto simp: view_ok_def)
  moreover have "distinct (map (\<lambda>p. node_client_socket_path (st p)) (procs c))" using assms(1) unfolding view_ok_def by metis
  then have "j = i" if "j < length (procs c)" "?p j = ?p i" for j using that assms(2) by (auto simp: distinct_conv_nth)
  then have "find_client_node ?a (procs c) = None"
    unfolding find_client_node_def find_None_iff a(1) using assms(3) by auto
  ultimately show ?thesis using a(2) by (simp add: attempt_def cluster_ops_def cluster_exchange_def)
qed

text \<open>A read of which the first node is down, and the second answers.\<close>

lemma get_at_second:
  assumes view: "view_ok cs (procs c)" and r: "2 \<le> num_replicas cs" and req: "request_ok key []"
    and h: "h = key_node key (length (procs c))" "\<not> alive (procs c ! h)" and k: "k = (h + 1) mod length (procs c)" "alive (procs c ! k)"
    and node: "s_node_id (st (procs c ! k)) = show_nat k" "storage_key_value_map (st (procs c ! k)) key = v"
    and v: "\<forall>vals. v = Some vals \<longrightarrow> request_ok key vals"
    and pend: "list_all (pending_ok (length (procs c)) k) (pending (procs c ! k))"
  shows "client_get cluster_ops key cs c =
    (let c1 = c\<lparr>procs := served k [] (st (procs c ! k)) (procs c)\<rparr>
     in case v of
          None \<Rightarrow> Inr ([''ERROR''], c1)
        | Some vals \<Rightarrow> rbind (notify_if_any cluster_ops [h] c1) (\<lambda>c2. Inr (filter (\<lambda>w. w \<noteq> []) vals, c2)))"
proof -
  let ?ps = "procs c" and ?a = "read_answer key k v" and ?m = "''GET:'' @ key"
  let ?n = "length ?ps" and ?c1 = "c\<lparr>procs := served k [] (st (procs c ! k)) (procs c)\<rparr>"
  note K = request_okD(1) [OF req]
  have n: "0 < ?n" "length (node_address_map cs) = ?n" using view by (auto simp: view_ok_def)
  then have lt: "h < ?n" "k < ?n" using key_node_less h(1) k(1) by simp_all
  have "length (show_nat k) \<le> 9" using view lt(2) by (intro show_nat_length) (simp_all add: view_ok_def)
  note a = read_answer_fits [OF v this]
  have m: "client_message (listens (room c) ?ps) ?m (st (?ps ! k)) = Inr (Answer ?a, [], st (?ps ! k))"
    unfolding get_message_effect [OF K] node read_answer_def by (simp split: option.split)
  have fits: "?m \<noteq> []" "length ?m < 1100" "NUL \<notin> set ?m"
    using request_okD(3) [OF req] key_okD(3) [OF K] by (simp_all add: NUL_def)
  have "deliver [] ?ps ! k = ?ps ! k" using lt(2) by (simp add: deliver_def)
  then have "serve_at (room c) k ?m ?ps = Inr (Some ?a, served k [] (st (?ps ! k)) ?ps)"
    using serve_at_ok [OF m fits a(2)] pend by (simp add: served_def)
  then have two: "attempt cluster_ops (node_address_map cs) k ?m c = Inr (Some ?a, ?c1)"
    using attempt_at [OF view lt(2) k(2) _ a] by blast
  have "request_loop cluster_ops (node_address_map cs) ?m (num_replicas cs) 0 h [] c = Inr (Some ?a, [h], ?c1)"
    using request_next [OF _ attempt_down [OF view lt(1) h(2)], of 0 "num_replicas cs" ?m "[]"]
      request_first [OF _ two, of 1 "num_replicas cs" "[h]"] r k(1) n(2) by simp
  moreover have "length key < 2 ^ 24" using request_okD(3) [OF req] by simp
  ultimately show ?thesis
    using view_client [OF view, of key] get_reply_read_answer [OF K v, of k]
    by (simp add: client_get_def no_dead [OF view] h(1) Let_def split: option.split)
qed

lemma notify_dead:
  assumes "length (m_node_address_map (manager c)) < 10 ^ 9" and "h < length (m_node_address_map (manager c))"
  shows "notify_if_any cluster_ops [h] c = (if manager_up c then Inl Undefined else Inr c)"
proof -
  have "length (show_nat h) \<le> 9" using assms by (intro show_nat_length) simp_all
  then have "length (dead_nodes_message [h]) < 1024" "NUL \<notin> set (dead_nodes_message [h])"
    using show_nat_no_NUL [of h] by (simp_all add: dead_nodes_message_def NUL_def)
  moreover have "manager_request (dead_nodes_message [h]) (manager c) = Inl Undefined"
    using assms by (intro dead_report_undefined) simp_all
  ultimately show ?thesis
    by (simp add: notify_if_any_def notify_manager_of_dead_nodes_def cluster_ops_def cluster_exchange_def)
qed

end
