(* ===== verification/KV_Properties.thy ===== *)
theory KV_Properties
  imports KV_Failover
begin

text \<open>
  The properties of GTStore, with a concrete instance of each.
\<close>

section \<open>A concrete system\<close>

definition kx_node :: "nat \<Rightarrow> storage_state" where
  "kx_node i = (storage_start ([7, 8, 9] ! i))\<lparr>s_node_id := show_nat i, s_num_rep := 2,
     replica_node_addresses := replica_paths 3 2 i\<rparr>"

definition kx_manager :: manager_state where
  "kx_manager = \<lparr>num_nodes = 3, m_num_rep = 2, m_node_address_map = map node_address [7, 8, 9], m_dead_node_ids = []\<rparr>"

definition kx_cluster :: cluster where
  "kx_cluster = \<lparr>manager = kx_manager, manager_up = True, procs = map started_proc [kx_node 0, kx_node 1, kx_node 2],
     room = 10\<rparr>"

definition kx_client :: client_kv where
  "kx_client = \<lparr>num_replicas = 2, node_address_map = map node_address [7, 8, 9], dead_node_ids = [], hash_function = ''ADD-ASCII''\<rparr>"


lemma kx_rel: "kv_rel kx_client (\<lambda>_. None) kx_cluster"
proof -
  have "\<forall>i<length [7, 8, 9 :: nat]. \<exists>v. [kx_node 0, kx_node 1, kx_node 2] ! i = (storage_start ([7, 8, 9] ! i))\<lparr>s_node_id := show_nat i,
      s_num_rep := v, replica_node_addresses := replica_paths (length [7, 8, 9 :: nat]) (int 2) i\<rparr>"
    by (auto simp: less_Suc_eq numeral_3_eq_3 numeral_2_eq_2 kx_node_def)
  then show ?thesis
    using started_rel [of "[kx_node 0, kx_node 1, kx_node 2]" "[7, 8, 9]" 2 kx_cluster]
    by (simp add: kx_client_def kx_cluster_def)
qed

lemma kx_request: "request_ok ''k'' [''a'', ''b'']" "request_ok ''k'' []"
  by (simp_all add: request_ok_def key_ok_def word_ok_def words_text_def contains_def strstr.simps NUL_def)

lemma kx_digit: "k < 10 \<Longrightarrow> length (show_nat k) = 1"
  by (simp add: show_nat.simps)

lemma kx_key_node: "key_node ''k'' 3 = 2"
  by (simp add: key_node_def schar_def)

section \<open>The system while all nodes are up\<close>



text \<open>C36. A node takes a waiting replication message only after a connection of a client, and connects
  to its replicas with blocking calls: when one key is written more often in a row than the queue of a socket
  has room, with nothing asked of its replicas meanwhile, the last write never returns.\<close>

theorem replication_blocks:
  assumes "kv_rel cs m c" and "2 \<le> num_replicas cs" and "request_ok key vals" and "room c < n"
  shows "kv_run cs (replicate n (Put key vals)) c = Inl SpinForever"
  using puts_block [OF assms(1-3) refl] assms(4) by simp

theorem replication_blocks_witness:
  "kv_run kx_client (replicate 11 (Put ''k'' [''a'', ''b''])) kx_cluster = Inl SpinForever"
  using replication_blocks [OF kx_rel _ kx_request(1), of 11] by (simp add: kx_client_def kx_cluster_def)

text \<open>C37. The start of a system of nodes in processes with different numbers: the manager reads the
  announcements, answers each of them with a number and sends every node its replicas. When every node gets the
  answer to its own announcement and the message sent to its own address, the nodes are numbered from 0 in the
  order of the announcements and each knows the paths of the nodes after it; a client that asks the manager
  gets all the addresses in this order. The result is the empty map. The messages must be shorter than the
  buffers.\<close>

theorem cluster_startup:
  assumes "0 < length ps" and "length ps < 10 ^ 9" and "1 \<le> r" and "r \<le> length ps" and "distinct ps" and "\<forall>p\<in>set ps. p < 10 ^ 9"
    and "net_ok net" and "\<forall>i<length ps. length (replica_message (length ps) (int r) i) < 1024"
    and "m = \<lparr>num_nodes = int (length ps), m_num_rep = int r, m_node_address_map = map node_address ps, m_dead_node_ids = []\<rparr>"
    and "length (init_response m) < 1024"
  shows "\<exists>answers sent ss cs. length answers = length ps \<and> length ss = length ps \<and>
    manager_main [(CHR ''n'', show_nat (length ps)), (CHR ''r'', show_nat r)] True (map (\<lambda>p. Some (announcement (storage_start p))) ps) net =
      Inr (answers, sent, m) \<and>
    (\<forall>i<length ps. connect_to_manager True True (answers ! i) (map_of sent (node_address (ps ! i))) (storage_start (ps ! i)) =
        Inr (ss ! i) \<and>
      s_node_id (ss ! i) = show_nat i \<and> node_client_socket_path (ss ! i) = node_address (ps ! i) \<and>
      replica_node_addresses (ss ! i) =
        map (\<lambda>j. NODE_NODE_SOCKET_PATH_PREFIX @ show_nat ((length ps + i + j) mod length ps)) [1..<r]) \<and>
    (\<forall>c. manager c = m \<longrightarrow> manager_up c \<longrightarrow> procs c = map started_proc ss \<longrightarrow>
      client_init cluster_ops client_start c = Inr (cs, c) \<and> node_address_map cs = map node_address ps \<and> kv_rel cs (\<lambda>_. None) c)"
proof -
  let ?n = "length ps" and ?as = "map node_address ps"
  let ?cs = "\<lparr>num_replicas = int r, node_address_map = ?as, dead_node_ids = [], hash_function = ''ADD-ASCII''\<rparr>"
  have r: "r < 2 ^ 31" using assms(2,4) by simp
  let ?s = "\<lambda>i v. (storage_start (ps ! i))\<lparr>s_node_id := show_nat i, s_num_rep := v, replica_node_addresses := replica_paths ?n (int r) i\<rparr>"
  let ?answers = "map (\<lambda>i. Some (node_connected i)) [0..<?n]"
  let ?sent = "map (\<lambda>i. (node_address (ps ! i), replica_message ?n (int r) i)) [0..<?n]"
  let ?start = "\<lambda>i. connect_to_manager True True (?answers ! i) (map_of ?sent (node_address (ps ! i))) (storage_start (ps ! i))"
  have "\<exists>v. ?start i = Inr (?s i v)" if i: "i < ?n" for i
  proof -
    have "i < 10 ^ 9" "ps ! i < 10 ^ 9" using i assms(2,6) by simp_all
    then show ?thesis
      using node_starts [OF assms(3) r, of i "ps ! i" ?n] sent_to_node [OF assms(5) i, of "replica_message ?n (int r)"] assms(8) i by simp
  qed
  then have "\<forall>i. \<exists>v. i < ?n \<longrightarrow> ?start i = Inr (?s i v)" by blast
  from choice [OF this] obtain f where f: "\<forall>i<?n. ?start i = Inr (?s i (f i))" by blast
  define ss where "ss = map (\<lambda>i. ?s i (f i)) [0..<?n]"
  have ss: "length ss = ?n" "\<forall>i<?n. ?start i = Inr (ss ! i)" "\<forall>i<?n. \<exists>v. ss ! i = ?s i v"
    using f by (auto simp: ss_def)
  have told: "\<forall>i<?n. s_node_id (ss ! i) = show_nat i \<and> node_client_socket_path (ss ! i) = node_address (ps ! i) \<and>
      replica_node_addresses (ss ! i) = map (\<lambda>j. NODE_NODE_SOCKET_PATH_PREFIX @ show_nat ((?n + i + j) mod ?n)) [1..<r]"
    by (simp add: ss_def node_address_def replica_paths_def)
  have ok: "list_all address_ok ?as" using assms(6) node_address_ok by (auto simp: list_all_iff)
  have parse: "parse_response (init_response m) client_start = Inr ?cs"
    using assms(1,2,9) r ok by (intro parse_init_response) auto
  have nul: "NUL \<notin> set (init_response m)"
    using assms(1,9) ok init_response_no_NUL [of m ?as r] by simp
  have "client_init cluster_ops client_start c = Inr (?cs, c) \<and> kv_rel ?cs (\<lambda>_. None) c"
    if c: "manager c = m" "manager_up c" "procs c = map started_proc ss" for c
  proof -
    have "cluster_exchange MANAGER_CLIENT_SOCKET_PATH ''INITIALIZE_CLIENT'' c = Inr (Some (init_response m), c)"
      using c(1,2) assms(10) by (simp add: cluster_exchange_def manager_request_def NUL_def)
    then have "client_init cluster_ops client_start c = Inr (?cs, c)"
      using assms(10) nul parse by (simp add: client_init_def cluster_ops_def)
    then show ?thesis using started_rel [OF ss(1) assms(5,6,3,4,2) c(3) ss(3)] by simp
  qed
  then show ?thesis using ss(1,2) told manager_main_ok [OF assms(1-3) r assms(6,7)] assms(9)
    by (intro exI [of _ ?answers] exI [of _ ?sent] exI [of _ ss] exI [of _ ?cs]) (simp del: manager_options.simps)
qed

definition kx_net :: manager_net where
  "kx_net = \<lparr>node_socket = (\<lambda>i. True), node_connect = (\<lambda>i k. k < 3), node_send = (\<lambda>i. True)\<rparr>"

theorem cluster_startup_witness:
  "\<exists>answers sent m s2. manager_main [(CHR ''n'', show_nat 3), (CHR ''r'', show_nat 2)] True
     [Some (announcement (storage_start 7)), Some (announcement (storage_start 8)), Some (announcement (storage_start 9))] kx_net =
     Inr (answers, sent, m) \<and>
     connect_to_manager True True (answers ! 2) (map_of sent (node_address 9)) (storage_start 9) = Inr s2 \<and> s_node_id s2 = show_nat 2 \<and>
     replica_node_addresses s2 = [NODE_NODE_SOCKET_PATH_PREFIX @ show_nat 0]"
proof -
  have l: "length [7, 8, 9 :: nat] = 3" by simp
  have "net_ok kx_net" by (auto simp: net_ok_def kx_net_def intro: exI [of _ 0])
  moreover have "length (replica_message 3 2 i) < 1024" for i
    using kx_digit [of "(4 + i) mod 3"] kx_digit [of 2]
    by (simp add: replica_message_def replica_paths_def show_int_def NODE_NODE_SOCKET_PATH_PREFIX_def upt_rec less_trans [of _ 3])
  moreover have "length (init_response kx_manager) < 1024"
    by (simp add: init_response_def kx_manager_def node_address_def storage_start_def NODE_CLIENT_SOCKET_PATH_PREFIX_def
        show_int_def upt_rec kx_digit)
  moreover have "kx_manager = \<lparr>num_nodes = int (length [7, 8, 9 :: nat]), m_num_rep = int 2,
      m_node_address_map = map node_address [7, 8, 9], m_dead_node_ids = []\<rparr>" by (simp add: kx_manager_def)
  moreover have "0 < length [7, 8, 9 :: nat]" "length [7, 8, 9 :: nat] < 10 ^ 9" "1 \<le> (2 :: nat)" "2 \<le> length [7, 8, 9 :: nat]"
      "distinct [7, 8, 9 :: nat]" "\<forall>p\<in>set [7, 8, 9 :: nat]. p < 10 ^ 9" by simp_all
  ultimately have "\<exists>answers sent ss cs. length answers = 3 \<and> length ss = 3 \<and>
    manager_main [(CHR ''n'', show_nat 3), (CHR ''r'', show_nat 2)] True (map (\<lambda>p. Some (announcement (storage_start p))) [7, 8, 9]) kx_net =
      Inr (answers, sent, kx_manager) \<and>
    (\<forall>i<3. connect_to_manager True True (answers ! i) (map_of sent (node_address ([7, 8, 9] ! i))) (storage_start ([7, 8, 9] ! i)) =
        Inr (ss ! i) \<and>
      s_node_id (ss ! i) = show_nat i \<and> node_client_socket_path (ss ! i) = node_address ([7, 8, 9] ! i) \<and>
      replica_node_addresses (ss ! i) = map (\<lambda>j. NODE_NODE_SOCKET_PATH_PREFIX @ show_nat ((3 + i + j) mod 3)) [1..<2]) \<and>
    (\<forall>c. manager c = kx_manager \<longrightarrow> manager_up c \<longrightarrow> procs c = map started_proc ss \<longrightarrow>
      client_init cluster_ops client_start c = Inr (cs, c) \<and> node_address_map cs = map node_address [7, 8, 9] \<and>
      kv_rel cs (\<lambda>_. None) c)"
    using cluster_startup [of "[7, 8, 9]" 2 kx_net kx_manager] unfolding of_nat_numeral l by blast
  then obtain answers sent ss where a:
      "manager_main [(CHR ''n'', show_nat 3), (CHR ''r'', show_nat 2)] True (map (\<lambda>p. Some (announcement (storage_start p))) [7, 8, 9]) kx_net =
        Inr (answers, sent, kx_manager)"
      "\<forall>i<3. connect_to_manager True True (answers ! i) (map_of sent (node_address ([7, 8, 9] ! i))) (storage_start ([7, 8, 9] ! i)) =
        Inr (ss ! i) \<and> s_node_id (ss ! i) = show_nat i \<and>
        replica_node_addresses (ss ! i) = map (\<lambda>j. NODE_NODE_SOCKET_PATH_PREFIX @ show_nat ((3 + i + j) mod 3)) [1..<2]"
    by blast
  have "(2 :: nat) < 3" by simp
  with a(2) have "connect_to_manager True True (answers ! 2) (map_of sent (node_address ([7, 8, 9] ! 2))) (storage_start ([7, 8, 9] ! 2)) =
      Inr (ss ! 2) \<and> s_node_id (ss ! 2) = show_nat 2 \<and>
      replica_node_addresses (ss ! 2) = map (\<lambda>j. NODE_NODE_SOCKET_PATH_PREFIX @ show_nat ((3 + 2 + j) mod 3)) [1..<2]" by blast
  with a(1) show ?thesis by (simp add: upt_rec)
qed

text \<open>C40. A node gets writes from clients and sends each of them to its replicas; a replica that listens at
  one of the paths of the node takes the messages sent there. When the connections are made, all the writes
  succeed, and the tables of the node and of the replica are both their old tables with the writes entered in
  order, so that for every key the last one counts.\<close>

theorem replicas_agree:
  assumes "\<forall>(k, v)\<in>set kvs. request_ok k v" and "replicates_to connects path s"
  shows "\<exists>s1 t1. run_all (\<lambda>(k, v). replicated_write connects path k v) kvs (s, t) = Inr (s1, t1) \<and>
    storage_key_value_map s1 = storage_key_value_map s ++ map_of (rev kvs) \<and>
    storage_key_value_map t1 = storage_key_value_map t ++ map_of (rev kvs)"
  using node.copies_agree [of kvs connects path "(s, t)"] assms by auto

theorem replicas_agree_witness:
  "\<exists>s1 t1. run_all (\<lambda>(k, v). replicated_write (\<lambda>_. Connected) (node_socket_path (kx_node 1)) k v)
       [(''k'', []), (''k'', [''a'', ''b''])] (kx_node 0, kx_node 1) = Inr (s1, t1) \<and>
     storage_key_value_map s1 ''k'' = Some [''a'', ''b''] \<and> storage_key_value_map t1 ''k'' = Some [''a'', ''b'']"
proof -
  have "\<forall>(k, v)\<in>set [(''k'', []), (''k'', [''a'', ''b''])]. request_ok k v" using kx_request by simp
  moreover have "replicates_to (\<lambda>_. Connected) (node_socket_path (kx_node 1)) (kx_node 0)"
    by (simp add: replicates_to_def kx_node_def replica_paths_def node_socket_path_def upt_rec NODE_NODE_SOCKET_PATH_PREFIX_def kx_digit)
  ultimately obtain s1 t1 where "run_all (\<lambda>(k, v). replicated_write (\<lambda>_. Connected) (node_socket_path (kx_node 1)) k v)
       [(''k'', []), (''k'', [''a'', ''b''])] (kx_node 0, kx_node 1) = Inr (s1, t1)"
    "storage_key_value_map s1 = storage_key_value_map (kx_node 0) ++ map_of (rev [(''k'', []), (''k'', [''a'', ''b''])])"
    "storage_key_value_map t1 = storage_key_value_map (kx_node 1) ++ map_of (rev [(''k'', []), (''k'', [''a'', ''b''])])"
    using replicas_agree by blast
  then show ?thesis by (intro exI [of _ s1] exI [of _ t1]) simp
qed

text \<open>The node of a key is one of the nodes, for every key of less than 2^24 characters. Characters
  above 127 count as negative; a negative sum is converted to an unsigned value before the remainder is
  taken. Without nodes the remainder is a division by zero.\<close>

lemma hash_in_range:
  assumes "length key < 2 ^ 24"
  shows "hash_node key 0 = Inl Undefined \<and>
    (0 < n \<longrightarrow> (\<exists>i<n. hash_node key n = Inr i \<and>
      int i = (if 0 \<le> sum_list (map schar key) then sum_list (map schar key) mod int n
               else (2 ^ 64 + sum_list (map schar key)) mod int n)))"
proof -
  let ?s = "sum_list (map schar key)"
  have "int (length key) < 16777216" using assms by simp
  then have b: "- 2147483648 \<le> ?s" "?s < 2147483648"
    using conjunct1 [OF sum_schar_bounds [of key]] conjunct2 [OF sum_schar_bounds [of key]] by linarith+
  have w: "?s mod 2 ^ 64 = (if 0 \<le> ?s then ?s else 2 ^ 64 + ?s)"
  proof (cases "0 \<le> ?s")
    case False
    then have "(2 ^ 64 + ?s) mod 2 ^ 64 = 2 ^ 64 + ?s" using b by (intro mod_pos_pos_trivial) simp_all
    then show ?thesis using False by (metis mod_add_self1)
  qed (use b in simp)
  have "hash_node key 0 = Inl Undefined" using add_ascii_ok [of 0 key] assms by (simp add: hash_node_def)
  moreover have "hash_node key n = Inr (key_node key n)" "key_node key n < n" if "0 < n"
    using hash_node_ok [OF assms that] key_node_less [OF that] by simp_all
  moreover have "int (key_node key n) = (?s mod 2 ^ 64) mod int n" if "0 < n" using that by (simp add: key_node_def)
  ultimately show ?thesis using w by auto
qed

section \<open>Nodes that are down\<close>

text \<open>C38. A request goes to the nodes in cyclic order from the node of its key. When the first \<open>k\<close> of
  them fail and the next one answers, the client has that answer and notes exactly these \<open>k\<close> nodes as dead;
  when all the replicas fail, it has none and notes them all.\<close>

theorem requests_fail_over:
  assumes "node_id < length addresses" and "int k \<le> num_rep"
    and "\<forall>j<k. attempt ops addresses ((node_id + j) mod length addresses) msg net = Inr (None, net)"
  shows "(int k = num_rep \<longrightarrow> request_loop ops addresses msg num_rep 0 node_id [] net =
      Inr (None, map (\<lambda>j. (node_id + j) mod length addresses) [0..<k], net)) \<and>
    (int k < num_rep \<longrightarrow> attempt ops addresses ((node_id + k) mod length addresses) msg net = Inr (Some text, net1) \<longrightarrow>
      request_loop ops addresses msg num_rep 0 node_id [] net =
      Inr (Some text, map (\<lambda>j. (node_id + j) mod length addresses) [0..<k], net1))"
proof -
  have skip: "request_loop ops addresses msg num_rep 0 node_id [] net =
      request_loop ops addresses msg num_rep (int k) ((node_id + k) mod length addresses)
        (map (\<lambda>j. (node_id + j) mod length addresses) [0..<k]) net"
    using request_skips [of node_id addresses 0 k num_rep ops msg net "[]"] assms by simp
  have "request_loop ops addresses msg num_rep (int k) ((node_id + k) mod length addresses) dead net = Inr (None, dead, net)"
    if "int k = num_rep" for dead using that by (subst request_loop.simps) simp
  then show ?thesis unfolding skip by (intro conjI impI) (simp, rule request_first)
qed

definition kx_ops :: "unit net_ops" where
  "kx_ops = \<lparr>net_socket = (\<lambda>c. True), net_exchange = (\<lambda>a m c. Inr (if a = ''C'' then Some ''OK'' else None, c))\<rparr>"

theorem requests_fail_over_witness:
  "request_loop kx_ops [''A'', ''B'', ''C''] ''GET:k'' 3 0 1 [] () = Inr (Some ''OK'', [1], ()) \<and>
   request_loop kx_ops [''A'', ''B'', ''C''] ''GET:k'' 2 0 0 [] () = Inr (None, [0, 1], ())"
proof -
  have a: "attempt kx_ops [''A'', ''B'', ''C''] 0 m () = Inr (None, ())" "attempt kx_ops [''A'', ''B'', ''C''] 1 m () = Inr (None, ())"
      "attempt kx_ops [''A'', ''B'', ''C''] 2 m () = Inr (Some ''OK'', ())" for m
    by (simp_all add: attempt_def kx_ops_def NUL_def)
  have one: "\<forall>j<1. attempt kx_ops [''A'', ''B'', ''C''] ((1 + j) mod length [''A'', ''B'', ''C'']) ''GET:k'' () = Inr (None, ())"
    using a(2) by simp
  have two: "\<forall>j<2. attempt kx_ops [''A'', ''B'', ''C''] ((0 + j) mod length [''A'', ''B'', ''C'']) ''GET:k'' () = Inr (None, ())"
    using a(1,2) by (auto simp: less_2_cases_iff)
  have "request_loop kx_ops [''A'', ''B'', ''C''] ''GET:k'' 3 0 1 [] () = Inr (Some ''OK'', [1], ())"
    using requests_fail_over [OF _ _ one, of 3 "''OK''" "()"] a(3) by (simp add: numeral_2_eq_2)
  moreover have "request_loop kx_ops [''A'', ''B'', ''C''] ''GET:k'' 2 0 0 [] () = Inr (None, [0, 1], ())"
    using requests_fail_over [OF _ _ two, of 2 "''OK''" "()"] by (simp add: upt_rec)
  ultimately show ?thesis ..
qed

text \<open>C39. Replication lags behind reads. Let the node of a key be down after a write that it has sent on,
  and let the next node, which has taken no connection since, not know the key. The first read gives an
  error, although the value waits at the node that is asked: the node takes the replication message only after
  it has answered. The second read finds the value; but the report about the dead node, which the client then
  sends, makes the manager go on with undefined behaviour. With the manager down the second read returns the
  words.\<close>

theorem failover_lags:
  assumes "view_ok cs (procs c)" and "2 \<le> num_replicas cs" and "request_ok key vals"
    and "h = key_node key (length (procs c))" and "\<not> alive (procs c ! h)" and "k = (h + 1) mod length (procs c)" and "alive (procs c ! k)"
    and "s_node_id (st (procs c ! k)) = show_nat k" and "storage_key_value_map (st (procs c ! k)) key = None"
    and "pending (procs c ! k) = [replicate_message key vals]" and "length (m_node_address_map (manager c)) = length (procs c)"
  shows "\<exists>c1 c2. client_get cluster_ops key cs c = Inr ([''ERROR''], c1) \<and>
    client_get cluster_ops key cs c1 = (if manager_up c then Inl Undefined else Inr (filter (\<lambda>w. w \<noteq> []) vals, c2))"
proof -
  let ?ps = "procs c" and ?n = "length (procs c)"
  have req: "request_ok key []" using assms(3) by (auto simp: request_ok_def words_text_def)
  have n: "2 \<le> ?n" "?n < 10 ^ 9" using assms(1,2) by (auto simp: view_ok_def)
  then have n0: "0 < ?n" by linarith
  then have lt: "h < ?n" "k < ?n" using key_node_less [OF n0, of key] assms(4,6) by simp_all
  have "(?n + h + 1) mod ?n = (h + 1) mod ?n" by (metis add.assoc mod_add_self1)
  then have hk: "h \<noteq> k" using replica_index_other [of 1 ?n h] n(1) lt(1) assms(6) by simp
  have pend: "pending_ok ?n k (replicate_message key vals)" using assms(3,4) hk by (auto simp: pending_ok_def)
  define ps1 where "ps1 = served k [] (st (?ps ! k)) ?ps"
  let ?c1 = "c\<lparr>procs := ps1\<rparr>" and ?c2 = "c\<lparr>procs := served k [] (st (ps1 ! k)) ps1\<rparr>"
  have one: "client_get cluster_ops key cs c = Inr ([''ERROR''], ?c1)"
    using get_at_second [OF assms(1,2) req assms(4-9)] assms(10) pend by (simp add: ps1_def)
  note same = served_same [OF same_node_refl _ lt(2), where sent = "[]", folded ps1_def]
  have d: "deliver [] ?ps ! k = ?ps ! k" using lt(2) by (simp add: deliver_def)
  have "node_message (replicate_message key vals) (st (?ps ! k)) = (False, stored key vals (st (?ps ! k)))"
    using assms(3) replicate_message_effect request_okD by blast
  then have p1: "ps1 ! k = (?ps ! k)\<lparr>st := stored key vals (st (?ps ! k)), pending := []\<rparr>"
    using lt(2) assms(10) d by (simp add: ps1_def served_nth drained_def)
  have len: "length (procs ?c1) = ?n" by (simp add: ps1_def)
  have "view_ok cs (procs ?c1)" using view_ok_served [OF assms(1) same_node_refl lt(2)] by (simp add: ps1_def)
  moreover have "\<not> alive (procs ?c1 ! h)" "alive (procs ?c1 ! k)" using same(2) lt assms(5,7) by simp_all
  moreover have "s_node_id (st (procs ?c1 ! k)) = show_nat k" "storage_key_value_map (st (procs ?c1 ! k)) key = Some vals"
    using assms(8) by (simp_all add: p1 stored_def)
  ultimately have "client_get cluster_ops key cs ?c1 = rbind (notify_if_any cluster_ops [h] ?c2) (\<lambda>c2. Inr (filter (\<lambda>w. w \<noteq> []) vals, c2))"
    using get_at_second [of cs ?c1 key h k "Some vals"] assms(2-4,6) req len p1 by simp
  moreover have "notify_if_any cluster_ops [h] ?c2 = (if manager_up c then Inl Undefined else Inr ?c2)"
    using notify_dead [of ?c2 h] assms(11) n(2) lt(1) by simp
  ultimately show ?thesis using one by (intro exI [of _ ?c1] exI [of _ ?c2]) simp
qed

definition kx_down :: cluster where
  "kx_down = kx_cluster\<lparr>manager_up := False, procs := [(started_proc (kx_node 0))\<lparr>pending := [replicate_message ''k'' [''a'', ''b'']]\<rparr>,
     started_proc (kx_node 1), (started_proc (kx_node 2))\<lparr>alive := False\<rparr>]\<rparr>"

theorem failover_lags_witness:
  "\<exists>c1 c2. client_get cluster_ops ''k'' kx_client kx_down = Inr ([''ERROR''], c1) \<and>
     client_get cluster_ops ''k'' kx_client c1 = Inr ([''a'', ''b''], c2)"
proof -
  have "view_ok kx_client (procs kx_cluster)" using kx_rel by (simp add: kv_rel_def)
  moreover have "map (\<lambda>p. node_client_socket_path (st p)) (procs kx_down) = map (\<lambda>p. node_client_socket_path (st p)) (procs kx_cluster)"
      "length (procs kx_down) = length (procs kx_cluster)"
    by (simp_all add: kx_down_def kx_cluster_def started_proc_def)
  ultimately have "view_ok kx_client (procs kx_down)" unfolding view_ok_def by metis
  moreover have n: "length (procs kx_down) = 3" by (simp add: kx_down_def)
  moreover have "2 = key_node ''k'' (length (procs kx_down))" "0 = (2 + 1) mod length (procs kx_down)"
    unfolding n by (simp_all add: kx_key_node)
  moreover have "2 \<le> num_replicas kx_client" "\<not> alive (procs kx_down ! 2)" "alive (procs kx_down ! 0)"
      "s_node_id (st (procs kx_down ! 0)) = show_nat 0" "storage_key_value_map (st (procs kx_down ! 0)) ''k'' = None"
      "pending (procs kx_down ! 0) = [replicate_message ''k'' [''a'', ''b'']]"
      "length (m_node_address_map (manager kx_down)) = length (procs kx_down)"
    by (simp_all add: kx_client_def kx_down_def kx_cluster_def kx_manager_def started_proc_def kx_node_def storage_start_def)
  ultimately have "\<exists>c1 c2. client_get cluster_ops ''k'' kx_client kx_down = Inr ([''ERROR''], c1) \<and>
    client_get cluster_ops ''k'' kx_client c1 =
      (if manager_up kx_down then Inl Undefined else Inr (filter (\<lambda>w. w \<noteq> []) [''a'', ''b''], c2))"
    using kx_request(1) by (intro failover_lags)
  moreover have "\<not> manager_up kx_down" by (simp add: kx_down_def)
  ultimately show ?thesis by simp
qed

text \<open>The manager never learns of a dead node: no request of a client changes its state, and a report of
  nodes that exist makes it append to the vector that it goes through.\<close>

lemma dead_reports:
  assumes "ds \<noteq> []" and "\<forall>d\<in>set ds. d < length (m_node_address_map s)" and "length (m_node_address_map s) < 2 ^ 31"
  shows "manager_request (dead_nodes_message ds) s = Inl Undefined \<and>
    (\<forall>msg a s'. manager_request msg s = Inr (a, s') \<longrightarrow> s' = s)"
  using dead_report_undefined [OF assms] manager_request_keeps by blast

section \<open>Keys that are taken for commands\<close>

text \<open>A read of a key that contains the word of a write is taken for a write: the node stores the key
  itself as the value, sends that to its replicas and answers as for a write, which the client reports as an
  error.\<close>

lemma read_overwrites:
  assumes "contains (''GET:'' @ key) ''PUT:''" and "CHR '' '' \<notin> set key" and "key \<noteq> []"
    and "\<forall>p\<in>set (replica_node_addresses s). length p < 108 \<and> connects p \<noteq> Blocked" and "CHR '','' \<notin> set (s_node_id s)"
  shows "client_message connects (''GET:'' @ key) s =
      Inr (Answer (''OK, SERVER_'' @ s_node_id s),
           map (\<lambda>p. (p, ''REPLICATE:'' @ key @ '' '' @ key)) (filter (\<lambda>p. connects p = Connected) (replica_node_addresses s)),
           s\<lparr>storage_key_value_map := (storage_key_value_map s)(key \<mapsto> [key])\<rparr>) \<and>
    get_reply (''OK, SERVER_'' @ s_node_id s) = None"
proof -
  have kv: "key_value (''GET:'' @ key) = (key, key)"
    using after_colon_kinds(2) [of key] strstr_char_none [OF assms(2)] by (simp add: key_value_def)
  have "split_all (CHR '' '') key = [key]" using assms(2,3) by (simp add: split_all_def split_loop_last)
  then have "store_key_value key key s = s\<lparr>storage_key_value_map := (storage_key_value_map s)(key \<mapsto> [key])\<rparr>"
    by (simp add: store_key_value_def)
  then have "client_message connects (''GET:'' @ key) s =
      Inr (Answer (''OK, SERVER_'' @ s_node_id s),
           map (\<lambda>p. (p, ''REPLICATE:'' @ key @ '' '' @ key)) (filter (\<lambda>p. connects p = Connected) (replica_node_addresses s)),
           s\<lparr>storage_key_value_map := (storage_key_value_map s)(key \<mapsto> [key])\<rparr>)"
    unfolding client_message_def handle_put_def kv using assms(1) replicate_to_all [OF assms(4)] by simp
  moreover have "strstr ('' SERVER_'' @ s_node_id s) '','' = None" using assms(5) by (intro strstr_char_none) simp
  moreover have "strstr (''OK'' @ CHR '','' # '' SERVER_'' @ s_node_id s) '','' = Some (length ''OK'')" by (intro strstr_char) simp
  ultimately show ?thesis by (simp add: get_reply_def)
qed

end
