(* ===== verification/Spec2Isabelle.thy ===== *)
theory Spec2Isabelle
  imports GT_Example GT_Matrix TF_Main TF_Properties FS_Properties KV_Properties
begin

unbundle bit_operations_syntax

text \<open>A verification library for the four programs of this repository: the user-level thread library GTThreads
  with its matrix application (Assignment_1), the compression service TinyFile (Assignment_2), the logging
  file library GTFileSystem (Assignment_3) and the replicated key-value store GTStore (Assignment_4). Each
  theory opens with what it holds; definitions have the names of the source where they can.

  \<^bold>\<open>Conventions.\<close> \<open>GT_Prelude\<close> has the result type: a run of the code that follows a null pointer, leaves an
  array, fails an assertion, throws an exception that nothing catches, waits for ever, exits the process or
  is killed by a signal or does something the language leaves undefined is a value \<open>Inl\<close> with that reason, a run that returns is \<open>Inr\<close>.
  State is passed explicitly as records. Results of system calls, of the allocator, of processor
  instructions and of the library \<open>snappy\<close> are parameters. Machine words are words where masks and wrap-around
  matter (\<open>GT_Bitops\<close>); elsewhere integers carry the range checks of the code. \<open>C_Float\<close> models the single
  precision arithmetic of the credits, \<open>C_String\<close> and \<open>KV_Text\<close> the printing, reading and cutting of text.

  \<^bold>\<open>GTThreads.\<close> The state (\<open>GT_State\<close>) is a store of uthreads, kthreads, runqueues and list links; addresses are
  numbers. \<open>GT_Tailq\<close> translates the macros of gt_tailq.h on explicit links and relates them to sequences;
  \<open>GT_Spinlock\<close> has gt_spinlock.c as sequential code and as a step relation of many threads; \<open>GT_Runqueue\<close> and
  \<open>GT_Sched\<close> have gt_pq.c (adding, removing, the selection of the best uthread with load balancing, the
  co-scheduling variant); \<open>GT_Uthread\<close> and \<open>GT_Kthread\<close> have gt_uthread.c and gt_kthread.c (creation, credits,
  scheduling, yielding, the end of uthreads, target selection, signal handlers, start and exit of an
  application). Jumps are outcomes of the operations. \<open>GT_Uthread_Inv\<close> and \<open>GT_System\<close> carry one invariant
  (queues, masks, counters, locks, one place per uthread, credits) through every operation and through all
  reachable states of a step relation whose steps are signals, yields, returns, loop iterations and
  creations, at any time and from anywhere, and characterise exactly which of these events fault. The narrower
  relation \<open>gt_step\<close> has the events of an application within the limits of the library (signals only on
  kthreads that have saved their context, groups below 32, at most 128 uthreads), none of which faults;
  liveness and signals build on it. Events are atomic. \<open>GT_Signal\<close> adds what gt_signal.c works on: the shared table of handlers, the
  mask, the pending signals and the timer of each kthread, and every signal call of the library. Its step
  relation takes a signal only when it is pending and not blocked, refines the one before, and shows that
  running uthreads stay interruptible; signals taken inside a scheduling decision, which the library does
  not prevent, are treated apart. \<open>GT_Liveness\<close> shows that the application can finish from every reachable
  state in which no kthread has quit, and what becomes of uthreads sent to one that has. \<open>GT_Matrix\<close> has gt_matrix.c: the function of the uthreads, the uthreads that main
  creates, the report, the command line. \<open>GT_Example\<close> has the concrete states of the witnesses. The loops that
  search or spin are \<open>partial_function (option)\<close> where the code can run for ever, and recursive functions with
  a measure otherwise.

  \<^bold>\<open>TinyFile.\<close> \<open>TF_Common\<close> has the shared data of common_api.h, \<open>TF_Registry\<close> the doubly linked list of clients
  and the directory it implements, \<open>TF_Server\<close> and \<open>TF_Worker\<close> server.c (registration, unregistration, the
  registration thread, compression, workers, exit), \<open>TF_Client\<close> client.c (set-up, reservation of shared memory
  entries, requests, waiting, file lists, exit). \<open>TF_Protocol\<close> composes clients, queue, shared memory and
  workers into a step relation: workers never share an entry, and every request is completed unless a worker comes
  to a file whose compression stops the server. \<open>TF_Main\<close> has the
  two main programs, the client's in synchronous mode; \<open>TF_Async\<close> has the asynchronous mode, in which main makes
  one request after the other while threads wait for the results, as steps over the protocol; \<open>TF_Session\<close> has the client's main as a whole
  and a complete session, in which the worker code of the server treats every message; its effect on the files is
  the compression of one file after the other. The protocol has one client, since clients share neither memory
  nor workers; the pointer to the client that the workers get, which the code lets dangle (a finding), is taken to
  be valid. Waiting loops
  take the sequence of values they read as an argument; a sequence that never satisfies them is a run that
  does not return.

  \<^bold>\<open>GTFileSystem.\<close> \<open>FS_Core\<close> has gtfs.cpp: a disk of files, the maps of the library, and every call. \<open>FS_Log\<close> shows
  that a log is read back as written and that replaying it repairs a file that holds any part of the logged
  writes; \<open>FS_Ops\<close> shows that every call keeps the maps consistent. \<open>FS_Procs\<close> cuts the synchronisation of a
  write into its system calls, shows that a process alone does what the whole function does, and treats the
  interleavings of many processes under the locks on files; there the other calls do not take part. The listing of
  a directory that the clean-up reads is a parameter; properties of one file take any listing in which it is the
  only data file.

  \<^bold>\<open>GTStore.\<close> \<open>KV_Manager\<close>, \<open>KV_Storage\<close> and \<open>KV_Client\<close> have manager.cpp, storage.cpp, client.cpp and test_app.cpp;
  the client works over an arbitrary network. \<open>KV_Cluster\<close> builds that network from the manager and the nodes,
  with the replication messages that wait at each node. \<open>KV_Table\<close> treats single messages, \<open>KV_Refine\<close> shows
  that the whole system refines one map while all nodes are up, \<open>KV_Setup\<close> that the start establishes this,
  \<open>KV_Failover\<close> what happens when a node is down. Messages are taken to arrive whole. A connection of a client
  and the replication connection that the node takes after it are one round of the node; the client, which
  could go on as soon as it has its answer, goes on after the round. The
  replication socket of a node has room for a number of waiting connections that is a parameter; a node that
  connects to a full one waits for ever, since the replica serves it only after a client.

  \<^bold>\<open>Interfaces.\<close> Locales state what one part relies on in another: families of queues over the list macros,
  invariants along step relations (used for threads, signals, TinyFile and GTFileSystem), step relations that use up
  a stock of work and therefore end, or stop at a fault (the requests of TinyFile, the asynchronous client, processes
  that synchronise writes), the directory of clients, tables of keys and their replicas. Each is interpreted on the definitions of
  the model.

  \<^bold>\<open>Properties.\<close> This theory has those of the threads and the matrix application, \<open>TF_Properties\<close>,
  \<open>FS_Properties\<close> and \<open>KV_Properties\<close> those of the other programs. Each property with hypotheses is followed by
  an instance on concrete data. Some properties state what the code does where it does not do what it means
  to; these are also listed as findings in the manifest. Further lemmas beside the properties cover single
  branches and error paths.

  \<^bold>\<open>Bounds.\<close> Runqueues hold fewer than 2^32 uthreads, as their counters are 32 bits wide; the float arithmetic of
  the credits is exact for slices below 2^24 microseconds; keys of GTStore are shorter than 2^24 characters,
  so that their sum cannot overflow; process numbers and node counts of GTStore are below 10^9, which bounds
  the length of the texts they are printed in.

  \<^bold>\<open>Not modelled.\<close> printing and timing; test programs disabled by
  the preprocessor, the tests and the scripts; getopt itself, whose results are parameters; the mutexes around the maps of GTFileSystem; the memory that the programs never free.\<close>

section \<open>The thread library as a whole\<close>

text \<open>C1. In every state that the library reaches from a started one, by any signals, yields, returns,
  loop iterations and creations that do not fault, the queues, masks, counters and locks are
  consistent, every uthread created is at exactly one place (one queue of one runqueue, one zombie list,
  or current on one kthread), and the credits of every uthread lie between -24 and its initial credits.
  The credits given to a uthread are taken to be at least 0 and less than \<open>2^23\<close>, and time slices to be
  shorter than \<open>2^24\<close> microseconds.\<close>

theorem reachable_invariant:
  assumes "gt_init K (s0, {})" and "gt_any_step\<^sup>*\<^sup>* (s0, {}) (s, U)"
  shows "(\<exists>Q. sys_ok K U s Q) \<and> (\<forall>u\<in>U. credit_ok (uths s u))"
  using gt.reachable_inv [OF assms] by (simp add: gt_inv_def)

theorem reachable_invariant_witness:
  "(\<exists>Q. sys_ok {0} {7} sx_one Q) \<and> credit_ok (uths sx_one 7)"
  using reachable_invariant [OF sx_one_reached(1) gt_any_stepsI [OF sx_one_reached(2)]] by simp



text \<open>C4. In every state that the library reaches, signals included, a kthread that runs a
  uthread takes a pending timer or relayed signal at once: neither is blocked. The handler puts the
  uthread away and dispatches the next one as a scheduling decision does, and leaves every running
  uthread interruptible again; when it finds nothing to run it goes back to the kthread's loop with the
  signal still blocked.\<close>

theorem running_uthread_preempted:
  assumes "sig_init K y0" and "sig_step\<^sup>*\<^sup>* y0 ((s, U), x)" and "apic < 16" and "kthread_cpu_map s apic = Some k"
    and "cur_uthread (krunqs s k) = Some u" and "sg = SIGVTALRM \<or> sg = SIGUSR1" and "sg \<in> sig_pending x k"
    and "sys_fair e k s"
  shows "deliverable k sg x \<and>
    (\<exists>Q out s' x' Q'. take_signal junk e apic sg (s, x) = Inr (Some out, s', x') \<and> sys_ok K U s Q \<and>
       sys_ok K U s' Q' \<and> dispatched K U k s (put_away e k s Q) out s' Q' \<and> sig_ok K s' x' \<and>
       (out = BackToKthread \<longrightarrow> sg \<in> sig_blocked x' k))"
  using reachable_preempted [OF assms] .

theorem running_uthread_preempted_witness:
  "deliverable 0 SIGVTALRM sx_sig2 \<and>
   (\<exists>out s' x'. take_signal (\<lambda>_. {}) sx_env 0 SIGVTALRM (sx_run, sx_sig2) = Inr (Some out, s', x') \<and> sig_ok {0} s' x')"
proof -
  have "(0::nat) < 16" "kthread_cpu_map sx_run 0 = Some 0" "sys_fair sx_env 0 sx_run"
    by (simp_all add: sx_run_ok sx_run_fair)
  with running_uthread_preempted [OF sx_sig_init sx_sig_steps(1) _ _ sx_run_ok(6) _ sx_sig_steps(2)] show ?thesis by blast
qed

text \<open>C8. The main kthread accepts the scheduling signals from \<open>gtthread_app_init\<close> on, but
  saves a context to return to only in \<open>gtthread_app_exit\<close>: a signal that a kthread takes before it has
  entered its loop, while there is no uthread yet, ends in a jump to a context that was never saved.\<close>

theorem early_signal_undefined:
  assumes "sig_init K ((s, U), x)" and "apic < 16" and "kthread_cpu_map s apic = Some k"
    and "\<not> kthread_env (kctxs s k)" and "sg = SIGVTALRM \<or> sg = SIGUSR1"
  shows "take_signal junk e apic sg (s, x) = Inl Undefined"
  using early_signal [OF assms] .

theorem early_signal_undefined_witness:
  "app_init_main (Some 0) 11 12 0 (gt_blank 1 0) = Inr sx_boot \<and>
   deliverable 0 SIGVTALRM (raise_signal SIGVTALRM 0 sx_sig0) \<and>
   take_signal (\<lambda>_. {}) sx_env 0 SIGVTALRM (sx_boot, raise_signal SIGVTALRM 0 sx_sig0) = Inl Undefined"
proof -
  have "sig_init {0} ((sx_boot, {}), raise_signal SIGVTALRM 0 sx_sig0)"
    using sx_sig_init by (simp add: sig_init_def handlers_ok_def raise_signal_def)
  from early_signal_undefined [OF this, of 0 0 SIGVTALRM "\<lambda>_. {}" sx_env]
  have "take_signal (\<lambda>_. {}) sx_env 0 SIGVTALRM (sx_boot, raise_signal SIGVTALRM 0 sx_sig0) = Inl Undefined"
    by (simp add: sx_boot_ok)
  then show ?thesis by (simp add: sx_boot_ok(1) deliverable_def raise_signal_def)
qed

text \<open>C10. The calls that would block the scheduling signals during a scheduling decision are
  commented out. A signal that arrives after the kthread has taken the lock of its runqueue, with its
  current uthread already put away, starts a handler that waits for this lock for ever.\<close>

theorem signal_while_locked_spins:
  assumes "lock_runq k s0 = Inr s" and "cur_uthread (krunqs s0 k) = None" and "apic < 16"
    and "kthread_cpu_map s0 apic = Some k" and "handlers_ok K s0 x" and "sg = SIGVTALRM \<or> sg = SIGUSR1"
  shows "take_signal junk e apic sg (s, x) = Inl SpinForever"
  using signal_after_lock [OF assms] .

theorem signal_while_locked_spins_witness:
  "lock_runq 0 (leave_cur_window sx_env 0 7 sx_run) = Inr (held 0 (leave_cur_window sx_env 0 7 sx_run)) \<and>
   deliverable 0 SIGVTALRM sx_sig2 \<and>
   take_signal (\<lambda>_. {}) sx_env 0 SIGVTALRM (held 0 (leave_cur_window sx_env 0 7 sx_run), sx_sig2) = Inl SpinForever"
proof -
  have l: "lock_runq 0 (leave_cur_window sx_env 0 7 sx_run) = Inr (held 0 (leave_cur_window sx_env 0 7 sx_run))"
    by (rule lock_runq_held) (use sx_run_ok(2) in \<open>auto simp: sys_ok_def kt_ok_def\<close>)
  have h: "handlers_ok {0} (leave_cur_window sx_env 0 7 sx_run) sx_sig2"
    using sx_sig_ok by (simp add: sig_ok_def handlers_ok_def)
  have "take_signal (\<lambda>_. {}) sx_env 0 SIGVTALRM (held 0 (leave_cur_window sx_env 0 7 sx_run), sx_sig2) = Inl SpinForever"
    by (rule signal_while_locked_spins [OF l _ _ _ h]) (simp_all add: sx_run_ok)
  with l show ?thesis using sx_sig_ok sx_sig_steps(2) by (simp add: sig_ok_def preemptible_def deliverable_def sx_run_ok)
qed

text \<open>C11. A signal that arrives between the lines of \<open>uthread_schedule\<close> that take the current
  uthread off its kthread and those that put it on a queue loses it: the handler jumps away, and the
  uthread is on no queue and current nowhere, although it still counts as live, so that the process
  never sees the number of live uthreads drop to 0.\<close>

theorem signal_loses_uthread:
  assumes "sig_init K y0" and "sig_step\<^sup>*\<^sup>* y0 ((s, U), x)" and "apic < 16" and "kthread_cpu_map s apic = Some k"
    and "cur_uthread (krunqs s k) = Some u" and "sg = SIGVTALRM \<or> sg = SIGUSR1" and "sg \<in> sig_pending x k"
    and "sys_calls_ok e"
  shows "deliverable k sg x \<and>
    (\<exists>out s' x' Q'. take_signal junk e apic sg (leave_cur_window e k u s, x) = Inr (Some out, s', x') \<and>
       pq_ok (Hs K) (Rs K) s' Q' \<and> u \<notin> queued (Hs K) Q' \<and> u \<notin> currents K s' \<and>
       kthread_cur_uthreads (ksched_shared_info s') = kthread_cur_uthreads (ksched_shared_info s))"
  using signal_in_window [OF assms] .

theorem signal_loses_uthread_witness:
  "\<exists>out s' x'. take_signal (\<lambda>_. {}) sx_env 0 SIGVTALRM (leave_cur_window sx_env 0 7 sx_run, sx_sig2) = Inr (Some out, s', x') \<and>
     7 \<notin> currents {0} s'"
proof -
  have "(0::nat) < 16" "kthread_cpu_map sx_run 0 = Some 0" by (simp_all add: sx_run_ok)
  with signal_loses_uthread [OF sx_sig_init sx_sig_steps(1) _ _ sx_run_ok(6) _ sx_sig_steps(2) sx_env_ok] show ?thesis by blast
qed



text \<open>C9. A kthread quits as soon as all uthreads created so far are finished, but \<open>ksched_find_target\<close>
  goes on to choose it. Without load balancing there is, for every kthread that is the next one for two
  groups, a run in which it ends the first uthread and quits before the second one is created: whatever the
  other kthreads do then, the second uthread stays on the queue of the kthread that is gone and
  \<open>gtthread_app_exit\<close> waits for ever.\<close>

theorem early_quit_strands:
  assumes "gt_init K (s, {})" and "\<forall>k\<in>K. \<exists>apic<16. kthread_cpu_map s apic = Some k" and "no_quit K s" and "\<not> lb_on s"
    and "t < 16" and "kthread_cpu_map s t = Some k" and "g < 32" and "g' < 32" and "g \<noteq> g'" and "next_cpu s g t" and "next_cpu s g' t"
    and "u \<noteq> v"
  shows "\<exists>s'. gt_step\<^sup>*\<^sup>* (s, {}) (s', {u, v}) \<and> kthread_flags (kctxs s' k) AND KTHREAD_DONE \<noteq> 0 \<and>
    (\<forall>x. (other_step k)\<^sup>*\<^sup>* (s', {u, v}) x \<longrightarrow> \<not> app_exit_wait_done (fst x))"
proof -
  have w: "work_ok K (s, {})" using init_work_ok [OF assms(1)] assms(2) by simp
  obtain s' where s': "gt_step\<^sup>*\<^sup>* (s, {}) (s', {u, v})" "kthread_flags (kctxs s' k) AND KTHREAD_DONE \<noteq> 0" "stranded K k v (s', {u, v})"
    using early_quit [OF w assms(3-12)] by blast
  have "\<forall>x. (other_step k)\<^sup>*\<^sup>* (s', {u, v}) x \<longrightarrow> \<not> app_exit_wait_done (fst x)"
    using strand.reachable_inv [OF s'(3)] stranded_waits by blast
  with s'(1,2) show ?thesis by blast
qed

theorem early_quit_strands_witness:
  "\<exists>s'. gt_step\<^sup>*\<^sup>* (sx_duo, {}) (s', {7, 8}) \<and> kthread_flags (kctxs s' 1) AND KTHREAD_DONE \<noteq> 0 \<and>
     (\<forall>x. (other_step 1)\<^sup>*\<^sup>* (s', {7, 8}) x \<longrightarrow> \<not> app_exit_wait_done (fst x))"
proof (rule early_quit_strands [OF sx_duo_init _ sx_duo_ok(6,5) _ _ _ _ _ sx_duo_next sx_duo_next, where g = 0 and g' = 1])
  show "\<forall>k\<in>{0, 1}. \<exists>apic<16. kthread_cpu_map sx_duo apic = Some k"
    by (intro ballI, elim insertE) (auto simp: sx_duo_ok intro: exI [of _ "0 :: nat"] exI [of _ "1 :: nat"])
qed (simp_all add: sx_duo_ok)

text \<open>C5. A scheduling decision puts the current uthread away (on the zombie list when it is
  finished, else at the tail of the queue that its credits and its yielding ask for) and then runs the
  first uthread of the best non-empty slot of some runqueue, in a saved context and in the state
  \<open>UTHREAD_RUNNING\<close>; or it goes back to the kthread's loop, marking the kthread as done just when all
  uthreads are finished. No uthread is lost or duplicated.\<close>

theorem uthread_schedule_dispatches:
  assumes "sys_ok K U s Q" and "sys_calls_ok e" and "apic < 16" and "kthread_cpu_map s apic = Some k"
    and "lb_on s \<longrightarrow> lb_mapped apic s" and "kthread_env (kctxs s k)"
  shows "\<exists>out s' Q'. uthread_schedule e sched_find_best_uthread apic s = Inr (out, s') \<and>
    sys_ok K U s' Q' \<and> dispatched K U k s (put_away e k s Q) out s' Q'"
  using uthread_schedule_ok [OF assms] by blast

theorem uthread_schedule_dispatches_witness:
  "\<exists>Q out s' Q'. uthread_schedule sx_env sched_find_best_uthread 0 sx_run = Inr (out, s') \<and>
     sys_ok {0} {7} s' Q' \<and> dispatched {0} {7} 0 sx_run (put_away sx_env 0 sx_run Q) out s' Q'"
proof -
  obtain Q where "sys_ok {0} {7} sx_run Q" using sx_run_ok(2) by blast
  from uthread_schedule_dispatches [OF this sx_env_ok, of 0 0] sx_run_ok show ?thesis by auto
qed

text \<open>A uthread that yields with credits left goes to the tail of the expired runqueue of its
  kthread, whatever is queued before it, and the kthread dispatches.\<close>

lemma gt_yield_requeues:
  assumes "sys_ok K U s Q" and "sys_calls_ok e" and "apic < 16" and "kthread_cpu_map s apic = Some k"
    and "lb_on s \<longrightarrow> lb_mapped apic s" and "kthread_env (kctxs s k)" and "cur_uthread (krunqs s k) = Some u"
    and "\<not> finished (uths s u)"
    and "p = unat (uthread_priority (uths s u))" and "g = unat (uthread_gid (uths s u))"
  shows "\<exists>out s' Q'. gt_yield e apic s = Inr (out, s') \<and> sys_ok K U s' Q' \<and>
    dispatched K U k s (Q(PrioGroup (expires s k) p g := Q (PrioGroup (expires s k) p g) @ [u])) out s' Q'"
proof -
  let ?t = "upd_uth u (\<lambda>x. x\<lparr>is_yield_valid := 1\<rparr>) s"
  have "put_away e k ?t Q = Q(PrioGroup (expires s k) p g := Q (PrioGroup (expires s k) p g) @ [u])"
    using assms(7-10) by (simp add: put_away_def leave_head_def stays_active_def finished_def Let_def)
  with gt_yield_ok [OF assms(1-7)] show ?thesis by auto
qed

text \<open>A uthread whose function returns ends on the zombie list of its kthread, and the kthread
  dispatches the next one.\<close>

lemma func_return_retires:
  assumes "sys_ok K U s Q" and "sys_calls_ok e" and "apic < 16" and "kthread_cpu_map s apic = Some k"
    and "lb_on s \<longrightarrow> lb_mapped apic s" and "kthread_env (kctxs s k)" and "cur_uthread (krunqs s k) = Some u"
  shows "\<exists>out s' Q'. uthread_context_exit e now apic u s = Inr (out, s') \<and> sys_ok K U s' Q' \<and>
    dispatched K U k s (Q(Zombies k := Q (Zombies k) @ [u])) out s' Q'"
  using uthread_context_exit_ok [OF assms] by blast

text \<open>C14. \<open>uthread_create\<close> returns 0, numbers the uthreads consecutively, and appends the new
  uthread, in the state \<open>UTHREAD_INIT\<close> and with the credits asked for, to the active queue of the
  default priority of the next kthread in round-robin order for its group. The invariant holds again,
  with the new uthread included.\<close>

theorem uthread_create_enqueues:
  assumes "sys_ok K U s Q" and "u \<notin> U" and "unat gid = g" and "g < 32"
    and "kthread_cpu_map s i \<noteq> None" and "i < 16" and "card U < 128"
  shows "\<exists>t k s'. next_cpu s g t \<and> kthread_cpu_map s t = Some k \<and>
    uthread_create (Some u) (Some sp) (Some timer) now f a gid creds s = Inr (0, Some (of_nat (card U)), s') \<and>
    uths s' = (uths s)(u := new_uthread now f a gid creds (of_nat (card U)) (cpuid (kctxs s k))) \<and>
    sys_ok K (insert u U) s' (Q(PrioGroup (active s k) 16 g := Q (PrioGroup (active s k) 16 g) @ [u]))"
  using uthread_create_ok [OF assms] by blast

theorem uthread_create_enqueues_witness:
  "\<exists>Q t k s'. next_cpu sx_boot 3 t \<and> kthread_cpu_map sx_boot t = Some k \<and>
     uthread_create (Some 7) (Some 9) (Some timer_zero) tv_zero 0 0 3 100 sx_boot = Inr (0, Some 0, s') \<and>
     uths s' = (uths sx_boot)(7 := new_uthread tv_zero 0 0 3 100 0 (cpuid (kctxs sx_boot k))) \<and>
     sys_ok {0} {7} s' (Q(PrioGroup (active sx_boot k) 16 3 := Q (PrioGroup (active sx_boot k) 16 3) @ [7]))"
proof -
  obtain Q where "sys_ok {0} {} sx_boot Q" using sx_boot_ok(2) by blast
  moreover have "kthread_cpu_map sx_boot 0 \<noteq> None" by (simp add: sx_boot_ok(3))
  ultimately show ?thesis
    using uthread_create_enqueues [of "{0}" "{}" sx_boot Q 7 3 3 0 9 timer_zero tv_zero 0 0 100] by simp blast
qed

text \<open>C15. The start-up of \<open>gtthread_app_init\<close>, with its kthreads initialising themselves in any order,
  ends in a consistent state without uthreads, with one kthread for each processor, and sets
  \<open>is_kernel_thread_ready\<close>, provided that memory and clones are granted and that the kthreads find
  themselves on different processors with numbers below 16.\<close>

theorem startup_establishes:
  assumes "n = unat (num_cpus_of sysconf)" and "0 < n"
    and "\<forall>j. 1 \<le> j \<and> j < n \<longrightarrow> (\<exists>st c. sys j = (Some (ks j), Some st, c) \<and> 0 < c) \<and> ks j \<noteq> k0"
    and "inj_on ks {1..<n}" and "set (map fst hs) = ks ` {1..<n}" and "distinct (map fst hs)"
    and "distinct (a0 # map (snd \<circ> snd \<circ> snd) hs)" and "\<forall>a\<in>set (a0 # map (snd \<circ> snd \<circ> snd) hs). a < 16"
  shows "\<exists>s1 s2 s3 Q. app_init_main (Some k0) mypid tid a0 (gt_blank credit lb) = Inr s1 \<and>
    app_init_others sys n 1 s1 = Inr s2 \<and> run_handlers hs s2 = Inr s3 \<and>
    app_init_round (num_cpus_of sysconf) s3 = Inr (Some (s3\<lparr>is_kernel_thread_ready := 1\<rparr>)) \<and>
    sys_ok (insert k0 (ks ` {1..<n})) {} (s3\<lparr>is_kernel_thread_ready := 1\<rparr>) Q"
  using assms by (rule startup_ok)

theorem startup_establishes_witness:
  "\<exists>s1 s2 s3 Q. app_init_main (Some 100) 5 5 0 (gt_blank 1 1) = Inr s1 \<and>
     app_init_others (\<lambda>j. (Some (100 + j), Some 1, 77)) 3 1 s1 = Inr s2 \<and>
     run_handlers [(102, 5, 7, 1), (101, 5, 6, 2)] s2 = Inr s3 \<and>
     app_init_round (num_cpus_of 3) s3 = Inr (Some (s3\<lparr>is_kernel_thread_ready := 1\<rparr>)) \<and>
     sys_ok (insert 100 ((\<lambda>j. 100 + j) ` {1..<3})) {} (s3\<lparr>is_kernel_thread_ready := 1\<rparr>) Q"
proof (rule startup_establishes)
  show "3 = unat (num_cpus_of 3)" by (simp add: num_cpus_of_def)
  show "set (map fst [(102, 5 :: u32, 7 :: u32, 1 :: nat), (101, 5, 6, 2)]) = (\<lambda>j. 100 + j) ` {1..<3 :: nat}"
    by (auto simp: image_iff)
qed auto

text \<open>A kthread whose active runqueue is empty but whose expired runqueue is not: the first
  iteration of its loop only exchanges the two runqueues and comes back without a uthread, the second
  one runs the best uthread of the runqueue that was the expired one.\<close>

lemma second_iteration_runs:
  assumes "sys_ok K U s Q" and "sys_calls_ok e" and "apic < 16" and "kthread_cpu_map s apic = Some k"
    and "cur_uthread (krunqs s k) = None" and "kthread_flags (kctxs s k) AND KTHREAD_DONE = 0" and "\<not> lb_on s"
    and "rq_size Q (active s k) = 0" and "rq_size Q (expires s k) \<noteq> 0"
  shows "\<exists>s1 s2 p g. app_loop_iter e apic k s = Inr (Some (BackToKthread, s1)) \<and>
    best_slot Q (expires s k) p g \<and>
    app_loop_iter e apic k s1 = Inr (Some (RunUthread (hd (Q (PrioGroup (expires s k) p g))), s2))"
  using assms by (rule app_loop_two_iterations)

text \<open>The condition on which \<open>gtthread_app_exit\<close> stops waiting holds exactly when every uthread
  created is finished and on a zombie list.\<close>

lemma exit_waits_for_all:
  assumes "sys_ok K U s Q"
  shows "app_exit_wait_done s \<longleftrightarrow> U \<subseteq> zombies K Q"
proof -
  have "finite U" "unat (kthread_cur_uthreads (ksched_shared_info s)) = card (U - zombies K Q)"
    using sys_okD(3,5) [OF assms] by (simp_all add: places_ok_def info_ok_def)
  then show ?thesis by (simp add: app_exit_wait_done_def unat_eq_zero flip: unat_eq_zero)
qed

text \<open>The timer handler relays its signal to exactly the other kthreads that are not done.\<close>

lemma relay_reaches_others:
  "set (relay_targets apic s) =
     {k_tid (kctxs s c) |c inx. inx < 16 \<and> kthread_cpu_map s inx = Some c \<and> kthread_cpu_map s apic \<noteq> Some c \<and>
        kthread_flags (kctxs s c) AND KTHREAD_DONE = 0}"
  (is "_ = ?others")
proof
  show "set (relay_targets apic s) \<subseteq> ?others"
    by (auto simp: relay_targets_def split: option.splits if_splits) metis
  show "?others \<subseteq> set (relay_targets apic s)"
    by (force simp: relay_targets_def)
qed

section \<open>Selection of the next uthread\<close>

text \<open>C6. With a non-empty active runqueue, \<open>sched_find_best_uthread\<close> returns the first uthread of the
  non-empty queue of lowest priority number and, within it, of lowest group, and takes it off that
  queue; everything else stays as it is and the lock is free again.\<close>

theorem sched_takes_best:
  assumes "pq_ok (Hs K) (Rs K) s Q" and "kt_ok K s" and "k \<in> K" and "apic < 16" and "rq_size Q (active s k) \<noteq> 0"
  shows "\<exists>p g s'. best_slot Q (active s k) p g \<and>
    sched_find_best_uthread apic k s = Inr (Some (hd (Q (PrioGroup (active s k) p g))), s') \<and>
    pq_ok (Hs K) (Rs K) s' (pop (active s k) p g Q) \<and> kt_ok K s' \<and> same_threads s s' \<and> same_pointers s s'"
  using assms by (rule sched_active_ok)

theorem sched_takes_best_witness:
  "\<exists>p g s'. best_slot ex_Q2 (active ex_two 0) p g \<and>
     sched_find_best_uthread 0 0 ex_two = Inr (Some (hd (ex_Q2 (PrioGroup (active ex_two 0) p g))), s') \<and>
     pq_ok (Hs {0}) (Rs {0}) s' (pop (active ex_two 0) p g ex_Q2) \<and> kt_ok {0} s' \<and>
     same_threads ex_two s' \<and> same_pointers ex_two s'"
proof -
  have "(0::nat) \<in> {0}" "(0::nat) < 16" "rq_size ex_Q2 (active ex_two 0) \<noteq> 0"
    using ex_two_ok(5) by simp_all
  then show ?thesis by (rule sched_takes_best [OF ex_two_ok(2,4)])
qed

text \<open>C7. With an empty active runqueue, the result is a uthread stolen from the lowest-numbered
  processor below the caller's own that has one on its active runqueue, when load balancing is on and
  there is such a processor. Otherwise the two runqueues are exchanged and the result is null, even
  when the expired runqueue was not empty: the code tests the runqueue that has just become the
  expired one.\<close>

theorem sched_steals_or_swaps:
  assumes "pq_ok (Hs K) (Rs K) s Q" and "kt_ok K s" and "k \<in> K" and "apic < 16" and "rq_size Q (active s k) = 0"
    and "lb_on s \<longrightarrow> lb_mapped apic s"
  shows "(sched_find_best_uthread apic k s = Inr (None, swapped k (released k 4 s)) \<and>
      (\<nexists>j. first_victim apic s Q j)) \<or>
    (\<exists>j c p g s'. first_victim apic s Q j \<and> kthread_cpu_map s j = Some c \<and> best_slot Q (active s c) p g \<and>
      sched_find_best_uthread apic k s = Inr (Some (hd (Q (PrioGroup (active s c) p g))), s') \<and>
      pq_ok (Hs K) (Rs K) s' (pop (active s c) p g Q) \<and> kt_ok K s' \<and> same_threads s s' \<and> same_pointers s s')"
  using assms by (rule sched_empty_cases)

theorem sched_steals_or_swaps_witness:
  "(sched_find_best_uthread 0 0 (swapped 0 ex_two) = Inr (None, swapped 0 (released 0 4 (swapped 0 ex_two))) \<and>
      (\<nexists>j. first_victim 0 (swapped 0 ex_two) ex_Q2 j)) \<or>
    (\<exists>j c p g s'. first_victim 0 (swapped 0 ex_two) ex_Q2 j \<and> kthread_cpu_map (swapped 0 ex_two) j = Some c \<and>
      best_slot ex_Q2 (active (swapped 0 ex_two) c) p g \<and>
      sched_find_best_uthread 0 0 (swapped 0 ex_two) =
        Inr (Some (hd (ex_Q2 (PrioGroup (active (swapped 0 ex_two) c) p g))), s') \<and>
      pq_ok (Hs {0}) (Rs {0}) s' (pop (active (swapped 0 ex_two) c) p g ex_Q2) \<and> kt_ok {0} s' \<and>
      same_threads (swapped 0 ex_two) s' \<and> same_pointers (swapped 0 ex_two) s')"
proof (rule sched_steals_or_swaps)
  show "pq_ok (Hs {0}) (Rs {0}) (swapped 0 ex_two) ex_Q2" using ex_two_ok(2) by (simp add: swapped_def)
  show "kt_ok {0} (swapped 0 ex_two)" using ex_two_ok(4) by (simp add: kt_ok_swapped)
  show "rq_size ex_Q2 (active (swapped 0 ex_two) 0) = 0"
    using ex_two_ok(6) rq_size_ex(3) by simp
  show "lb_on (swapped 0 ex_two) \<longrightarrow> lb_mapped 0 (swapped 0 ex_two)"
    by (simp add: lb_on_def swapped_def only_queuesD [OF ex_two_ok(3)] ex_base_def kthread_init_runqueue_eq gt_blank_def)
qed simp_all

text \<open>A uthread of group 0 that was the group's only one at its priority leaves the runqueue while the
  group has uthreads at a higher priority number: the bit of \<open>uthread_group_mask\<close> for the vacated
  priority stays set, and with co-scheduling compiled in the next search for the group follows the
  null pointer at the head of the empty queue.\<close>

lemma cosched_follows_null:
  assumes "pq_ok (Hs K) (Rs K) s Q" and "kt_ok K s" and "k \<in> K" and "p < 32" and "p' < 32" and "p' \<noteq> p"
    and "Q (PrioGroup (active s k) p 0) = [u]" and "Q (PrioGroup (active s k) p' 0) \<noteq> []"
    and "\<forall>q<p. \<not> bit (uthread_group_mask (runqs s (active s k)) 0) q"
  shows "\<exists>s'. raw_rem_from_runqueue (active s k) u s = Inr s' \<and>
    sched_find_best_uthread_group True apic k s' = Inl NullDeref"
proof -
  have rq: "active s k \<in> Rs K" using assms(2,3) by (rule kt_ok_active_in_Rs)
  obtain s' where s': "raw_rem_from_runqueue (active s k) u s = Inr s'"
    "TAILQ_FIRST (PrioGroup (active s k) p 0) (links s') = None" "only_queues s s'"
    "pq_ok (Hs K) (Rs K) s' (Q(PrioGroup (active s k) p 0 := []))"
    "uthread_group_mask (runqs s' (active s k)) 0 = uthread_group_mask (runqs s (active s k)) 0"
    "bit (uthread_group_mask (runqs s' (active s k)) 0) p"
    using rem_stale_group_bit [OF assms(1) rq assms(4-6) _ assms(7,8)] by auto
  have act: "active s' k = active s k" by (simp add: only_queuesD [OF s'(3)])
  have "rq_size (Q(PrioGroup (active s k) p 0 := [])) (active s k) \<noteq> 0"
    by (rule rq_size_nonempty [of p' 0]) (use assms(5,6,8) in simp_all)
  then have "uthread_mask (runqs s' (active s' k)) \<noteq> 0"
    by (simp only: uthread_mask_zero [OF s'(4) rq] act) simp
  moreover have "LOWEST_BIT_SET (uthread_group_mask (runqs s' (active s' k)) 0) = Inr p"
    using s'(5,6) assms(4,9) by (simp add: act LOWEST_BIT_SET_Inr)
  ultimately have "sched_find_best_uthread_group True apic k s' = Inl NullDeref"
    by (rule cosched_stale_null) (simp add: act s'(2))
  with s'(1) show ?thesis by blast
qed

text \<open>Two bit scans over the masks find the first uthread of the lexicographically least
  non-empty queue.\<close>

lemma find_best_is_best:
  assumes "pq_ok H R s Q" and "rq \<in> R" and "rq_size Q rq \<noteq> 0"
  shows "\<exists>p g. best_slot Q rq p g \<and> find_best rq s = Inr (Some (hd (Q (PrioGroup rq p g))))"
  using assms by (rule find_best_ok)

section \<open>Runqueues\<close>

text \<open>C12. Adding a uthread that is on no queue appends it to the queue of its priority and group; masks,
  counters and queues agree again afterwards and the lock is released.\<close>

theorem add_to_runqueue_refines:
  assumes "pq_ok (Hs K) (Rs K) s Q" and "kt_ok K s" and "k \<in> K" and "(k, i) \<in> Rs K" and "u \<notin> queued (Hs K) Q"
    and "rq_size Q (k, i) + 1 < 2 ^ 32" and "unat (uthread_priority (uths s u)) = p" and "p < 32"
    and "unat (uthread_gid (uths s u)) = g" and "g < 32"
  shows "\<exists>s'. add_to_runqueue (k, i) k u s = Inr (released k 2 s') \<and> only_queues s s' \<and>
    pq_ok (Hs K) (Rs K) s' (Q(PrioGroup (k, i) p g := Q (PrioGroup (k, i) p g) @ [u]))"
  using assms by (rule add_to_runqueue_ok)

theorem add_to_runqueue_refines_witness:
  "\<exists>s'. add_to_runqueue (0, 1) 0 3 ex_two = Inr (released 0 2 s') \<and> only_queues ex_two s' \<and>
     pq_ok (Hs {0}) (Rs {0}) s' (ex_Q2(PrioGroup (0, 1) 2 0 := ex_Q2 (PrioGroup (0, 1) 2 0) @ [3]))"
proof (rule add_to_runqueue_refines [OF ex_two_ok(2,4)])
  show "3 \<notin> queued (Hs {0}) ex_Q2"
    by (auto simp: queued_def ex_Q2_def ex_Q1_def split: if_splits)
  show "unat (uthread_priority (uths ex_two 3)) = 2" "unat (uthread_gid (uths ex_two 3)) = 0"
    by (simp_all add: only_queuesD [OF ex_two_ok(3)] ex_base_ok ex_uth_def uthread_zero_def)
  show "rq_size ex_Q2 (0, 1) + 1 < 2 ^ 32" using rq_size_ex(3) by simp
qed simp_all

text \<open>C13. Removing a queued uthread takes it out of its queue, never fails the assertion on the group
  counter, and masks, counters and queues agree again afterwards.\<close>

theorem rem_from_runqueue_refines:
  assumes "pq_ok H R s Q" and "rq \<in> R" and "p < 32" and "g < 32" and "u \<in> set (Q (PrioGroup rq p g))"
    and "locked (kthread_runqlock (krunqs s k)) = 0"
  shows "\<exists>s'. rem_from_runqueue rq k u s = Inr (released k 3 s') \<and> only_queues s s' \<and>
    pq_ok H R s' (Q(PrioGroup rq p g := remove1 u (Q (PrioGroup rq p g))))"
proof -
  obtain s' where "raw_rem_from_runqueue rq u s = Inr s'" "pq_ok H R s' (Q(PrioGroup rq p g := remove1 u (Q (PrioGroup rq p g))))"
    "s' = s\<lparr>links := links s', runqs := (runqs s)(rq := runqs s' rq)\<rparr>"
    using raw_rem_from_runqueue_ok [OF assms(1-5)] by blast
  with assms(6) show ?thesis by (auto simp: rem_from_runqueue_eq intro: only_queuesI)
qed

theorem rem_from_runqueue_refines_witness:
  "\<exists>s'. rem_from_runqueue (0, 0) 0 1 ex_two = Inr (released 0 3 s') \<and> only_queues ex_two s' \<and>
     pq_ok (Hs {0}) (Rs {0}) s' (ex_Q2(PrioGroup (0, 0) 2 0 := remove1 1 (ex_Q2 (PrioGroup (0, 0) 2 0))))"
  by (rule rem_from_runqueue_refines [OF ex_two_ok(2)])
     (use kt_okD(1) [OF ex_two_ok(4)] in \<open>simp_all add: ex_Q2_def\<close>)

text \<open>\<open>switch_runqueue\<close> moves a uthread from one runqueue to the tail of the same slot of
  another.\<close>

lemma switch_runqueue_moves:
  assumes "pq_ok H R s Q" and "rq \<in> R" and "rq' \<in> R" and "rq' \<noteq> rq" and "p < 32" and "g < 32"
    and "u \<in> set (Q (PrioGroup rq p g))" and "rq_size Q rq' + 1 < 2 ^ 32"
    and "locked (kthread_runqlock (krunqs s k)) = 0" and "locked (kthread_runqlock (krunqs s k')) = 0"
  shows "\<exists>s'. switch_runqueue rq k rq' k' u s = Inr s' \<and>
    pq_ok H R s' (Q(PrioGroup rq p g := remove1 u (Q (PrioGroup rq p g)),
                    PrioGroup rq' p g := Q (PrioGroup rq' p g) @ [u]))"
  using rem_then_add_ok [OF assms(1-3,5-10)] assms(4) by simp

section \<open>Credits\<close>

text \<open>C16. For a time slice of \<open>us < 2^24\<close> microseconds, the single-precision arithmetic of the credit
  deduction charges exactly one credit per full millisecond, and leaves -1 when the slice was longer
  than the credits allow; the time is added to \<open>run_time_total\<close>.\<close>

theorem charge_is_exact:
  assumes "0 < credits x" and "credits x + 1 < 2 ^ 24"
    and "us = usecs now - usecs (start_running_time_step x)" and "0 \<le> us" and "us < 2 ^ 24"
  shows "credits (charge now x) = (if 1000 * credits x < us then - 1 else credits x - us div 1000) \<and>
    usecs (run_time_total (charge now x)) = usecs (run_time_total x) + us"
  using charge_credits [OF assms(1,2) _ assms(4,5)] by (simp add: assms(3))

theorem charge_is_exact_witness:
  "credits (charge \<lparr>tv_sec = 5, tv_usec = 7999\<rparr>
     (uthread_zero\<lparr>credits := 100, start_running_time_step := \<lparr>tv_sec = 4, tv_usec = 985000\<rparr>\<rparr>)) = 78"
  using charge_is_exact [of "uthread_zero\<lparr>credits := 100, start_running_time_step := \<lparr>tv_sec = 4, tv_usec = 985000\<rparr>\<rparr>"
      22999 "\<lparr>tv_sec = 5, tv_usec = 7999\<rparr>"]
  by (simp add: usecs_def)

text \<open>What a scheduling decision makes of the credits of a uthread that goes on: used up, they are
  refilled and it goes to the expired runqueue; left over after a yield, they are kept and it goes to
  the expired runqueue; left over otherwise, 25 are taken and it stays on the active runqueue.\<close>

lemma credits_by_branch:
  assumes "is_credit_scheduler s = 1" and "\<not> finished x" and "slot = leave_head s k x" and "y = leave_uth 1 x"
    and "p = unat (uthread_priority x)" and "g = unat (uthread_gid x)"
  shows "(credits x \<le> 0 \<longrightarrow> credits y = initial_credits x \<and> is_yield_valid y = 0 \<and> slot = PrioGroup (expires s k) p g) \<and>
    (0 < credits x \<and> is_yield_valid x = 1 \<longrightarrow>
       credits y = credits x \<and> is_yield_valid y = 0 \<and> slot = PrioGroup (expires s k) p g) \<and>
    (0 < credits x \<and> is_yield_valid x \<noteq> 1 \<longrightarrow> credits y = credits x - 25 \<and> slot = PrioGroup (active s k) p g)"
  using assms by (simp add: leave_head_def leave_uth_def requeue_uth_def stays_active_def Let_def)

section \<open>Errors and undefined behaviour\<close>

text \<open>The 129th uthread is created, counted and given a target, and then written beyond the end of
  \<open>uthread_time\<close>.\<close>

lemma create_beyond_128:
  assumes "locked (ksched_lock (ksched_shared_info s)) = 0" and "locked (malloc_lock (ksched_shared_info s)) = 0"
    and "unat gid < 32" and "kthread_cpu_map s i \<noteq> None" and "i < 16"
    and "128 \<le> unat (kthread_tot_uthreads (ksched_shared_info s))"
  shows "uthread_create (Some u) (Some sp) timer now f a gid creds s = Inl OutOfBounds"
  using assms by (rule uthread_create_out_of_bounds)

text \<open>The number that \<open>kthread_apic_id\<close> reads is the top byte of EBX; a kthread that finds itself on
  a processor numbered 16 or above is written beyond the end of \<open>kthread_cpu_map\<close>.\<close>

lemma apic_id_out_of_range:
  "kthread_apic_id r = unat r div 2 ^ 24 \<and>
   (kthread_init mypid tid (kthread_apic_id r) k s = Inl OutOfBounds \<longleftrightarrow> 2 ^ 28 \<le> unat r)"
proof -
  have "kthread_apic_id r < 16 \<longleftrightarrow> unat r < 2 ^ 28"
    unfolding kthread_apic_id_eq by (simp add: div_less_iff_less_mult)
  then show ?thesis
    using kthread_apic_id_eq [of r] by (auto simp: kthread_init_eq kthread_init_range not_less)
qed

text \<open>The search for a target kthread ends exactly when some kthread is registered.\<close>

lemma find_target_diverges:
  "find_target_cpu m t = None \<longleftrightarrow> (\<forall>i<16. m i = None)"
proof
  show "\<forall>i<16. m i = None" if "find_target_cpu m t = None"
    using that find_target_cpu_ex [of m _ t] by fastforce
qed (rule find_target_cpu_none)

text \<open>When one of the system calls that prepare the stack of a new uthread fails, the process ends with
  exit status 0, and the early returns of \<open>uthread_init\<close> leave its lock taken: another call spins.\<close>

lemma init_failure_exits:
  assumes "locked (uthread_init_lock (ksched_shared_info s)) = 0" and "\<not> (sigaction_ok e \<and> sigaltstack_ok e)"
  shows "\<exists>s'. uthread_init e apic u s = Inr (-1, s') \<and> uthread_init e' apic' u' s' = Inl SpinForever"
  using assms by (auto simp: uthread_init_def Let_def spin_lock_at_eq)

section \<open>Locks, lists and bit masks\<close>

text \<open>C17. However many threads use a spinlock, with the read and the exchange of the lock word as separate
  steps, at most one of them is between its lock and its unlock.\<close>

theorem spin_mutual_exclusion:
  assumes "spin_init s" and "spin_step\<^sup>*\<^sup>* s t" and "owns t i" and "owns t j"
  shows "i = j"
  using spin.reachable_inv [OF assms(1,2)] assms(3,4) by (simp add: spin_inv_def)

theorem spin_mutual_exclusion_witness:
  "\<exists>t. spin_step\<^sup>*\<^sup>* \<lparr>lock_word = 0, pcs = (\<lambda>_. Outside)\<rparr> t \<and> owns t 4 \<and> \<not> owns t 5"
proof -
  let ?s = "\<lparr>lock_word = 0, pcs = (\<lambda>_. Outside)\<rparr>" and ?t = "\<lparr>lock_word = 0, pcs = (\<lambda>_. Outside)(4 := Testing)\<rparr>"
  have "spin_step ?s (?s\<lparr>pcs := (pcs ?s)(4 := Testing)\<rparr>)" by (rule spin_step.call) simp
  then have "spin_step ?s ?t" by simp
  moreover obtain t where t: "spin_step\<^sup>*\<^sup>* ?t t" "pcs t 4 = Inside" using unlocked_progress [of ?t 4] by auto
  ultimately have run: "spin_step\<^sup>*\<^sup>* ?s t" by (metis converse_rtranclp_into_rtranclp)
  have own: "owns t 4" using t(2) by (simp add: owns_def)
  have "spin_init ?s" by (simp add: spin_init_def)
  from spin_mutual_exclusion [OF this run own, of 5] have "\<not> owns t 5" by auto
  with run own show ?thesis by blast
qed

text \<open>Run by one thread: a free lock is taken, a held one is waited for without end, a null pointer is
  refused; unlocking frees the lock.\<close>

lemma spin_lock_behaviour:
  "gt_spin_lock None = Inr (-1, None) \<and>
   gt_spin_lock (Some l) = (if locked l = 0 then Inr (0, Some (l\<lparr>locked := 1\<rparr>)) else Inl SpinForever) \<and>
   gt_spin_unlock (Some l) = (0, Some (l\<lparr>locked := 0\<rparr>))"
  by (cases l) (simp add: gt_spin_lock_def gt_spin_unlock_def gt_actual_spinlock_eq)

text \<open>C18. On a family of tail queues that represent the sequences \<open>Q\<close>, with every element on at most one of
  them: insertion at the tail appends, removal takes the element out, first, last and emptiness are
  those of the sequence, the loops visit it forwards and backwards, and no other queue is disturbed.\<close>

theorem tailq_operations:
  assumes "tq_world H hp Q" and "h \<in> H" and "length (Q h) \<le> n"
  shows "(\<forall>e. e \<notin> queued H Q \<longrightarrow>
      (\<exists>hp'. TAILQ_INSERT_TAIL h e hp = Inr hp' \<and> tq_world H hp' (Q(h := Q h @ [e])))) \<and>
    (\<forall>e\<in>set (Q h). \<exists>hp'. TAILQ_REMOVE h e hp = Inr hp' \<and> tq_world H hp' (Q(h := remove1 e (Q h)))) \<and>
    TAILQ_FIRST h hp = (if Q h = [] then None else Some (hd (Q h))) \<and>
    TAILQ_LAST h hp = Inr (if Q h = [] then None else Some (last (Q h))) \<and>
    TAILQ_EMPTY h hp = (Q h = []) \<and>
    TAILQ_FOREACH n h hp = Some (Q h) \<and> TAILQ_FOREACH_REVERSE n h hp = Inr (Some (rev (Q h)))"
proof (intro conjI allI impI ballI)
  have rep: "tq_rep hp h (Q h)" using assms(1,2) by (simp add: tq_world_def)
  show "\<exists>hp'. TAILQ_INSERT_TAIL h e hp = Inr hp' \<and> tq_world H hp' (Q(h := Q h @ [e]))" if "e \<notin> queued H Q" for e
    using tq.insert_tail_law [OF assms(1,2) that] .
  show "\<exists>hp'. TAILQ_REMOVE h e hp = Inr hp' \<and> tq_world H hp' (Q(h := remove1 e (Q h)))" if "e \<in> set (Q h)" for e
    using tq.remove_law [OF assms(1,2) that] .
  show "TAILQ_FIRST h hp = (if Q h = [] then None else Some (hd (Q h)))" using tq.first_law [OF assms(1,2)] .
  show "TAILQ_EMPTY h hp = (Q h = [])" using tq.is_empty_law [OF assms(1,2)] .
  show "TAILQ_LAST h hp = Inr (if Q h = [] then None else Some (last (Q h)))" using rep by (rule TAILQ_LAST_rep)
  show "TAILQ_FOREACH n h hp = Some (Q h)" using rep assms(3) by (rule TAILQ_FOREACH_rep)
  show "TAILQ_FOREACH_REVERSE n h hp = Inr (Some (rev (Q h)))" using rep assms(3) by (rule TAILQ_FOREACH_REVERSE_rep)
qed

theorem tailq_operations_witness:
  "TAILQ_FIRST (PrioGroup (0, 0) 2 0) (links ex_two) = Some 1 \<and>
   TAILQ_FOREACH 1 (PrioGroup (0, 0) 2 0) (links ex_two) = Some [1]"
proof -
  have "PrioGroup (0, 0) 2 0 \<in> Hs {0}" by (simp add: krunq_heads_def rq_heads_def)
  from tailq_operations [OF pq_okD(1) [OF ex_two_ok(2)] this, of 1] show ?thesis by (simp add: ex_Q2_def)
qed

text \<open>Insertion at the head, after an element and before an element put the new element where they
  say.\<close>

lemma tailq_splices:
  assumes "tq_rep hp h (xs @ y # zs)" and "e \<notin> set (xs @ y # zs)"
  shows "tq_rep (TAILQ_INSERT_HEAD h e hp) h (e # xs @ y # zs) \<and>
    tq_rep (TAILQ_INSERT_AFTER h y e hp) h (xs @ y # e # zs) \<and>
    (\<exists>hp'. TAILQ_INSERT_BEFORE y e hp = Inr hp' \<and> tq_rep hp' h (xs @ e # y # zs))"
  using TAILQ_INSERT_HEAD_rep [OF assms] TAILQ_INSERT_AFTER_rep [OF assms] TAILQ_INSERT_BEFORE_rep [OF assms] by blast

text \<open>\<open>LOWEST_BIT_SET\<close> yields the position of the lowest bit set, and is undefined on zero.\<close>

lemma lowest_bit:
  "(LOWEST_BIT_SET m = Inr p \<longleftrightarrow> p < 32 \<and> bit m p \<and> (\<forall>q<p. \<not> bit m q)) \<and>
   (LOWEST_BIT_SET m = Inl Undefined \<longleftrightarrow> m = 0)"
  using LOWEST_BIT_SET_Inr [of m p] LOWEST_BIT_SET_zero [of m] by simp

section \<open>The matrix application\<close>

text \<open>\<open>main\<close> creates 128 uthreads, numbered in order and spread over four groups. Under the
  priority scheduler each quarter of them gets one of the four matrix sizes and no credits; under the
  credit scheduler each quarter gets one of the four amounts of credits and each eighth of the quarter's
  32 one of the sizes.\<close>

lemma main_creates:
  assumes "i < 128"
  shows "length (main_threads cs) = 128 \<and>
    main_threads cs ! i =
      (i, i mod 4, if cs = 0 then [32, 64, 128, 256] ! (i div 32) else [32, 64, 128, 256] ! (i div 8 mod 4),
       if cs = 0 then 0 else [25, 50, 75, 100] ! (i div 32))"
  using main_threads_nth [OF assms] length_main_threads by simp

text \<open>\<open>uthread_mulmat\<close> multiplies nothing: its loops only yield (ten times for the first 33
  uthreads of the credit scheduler), and the assignment that follows them uses an index equal to
  \<open>SIZE\<close>, outside the arrays, for every positive matrix size.\<close>

lemma mulmat_out_of_bounds:
  assumes "0 < arg_matrix_size arg"
  shows "uthread_mulmat cs arg A B C = (if cs = 1 \<and> arg_tid arg \<le> 32 then 10 else 0, Inl OutOfBounds)"
  using assms by (rule uthread_mulmat_out_of_bounds)

text \<open>\<open>write_to_csv\<close> writes one row for each of the 128 uthreads and one row with the means
  for each eight of them, in order, when both files are opened and every uthread has left its times.\<close>

lemma csv_report:
  assumes "\<forall>i<128. \<exists>d. data i = Some d \<and> cpu i = usecs (cpu_time d) \<and> exec i = usecs (running_time d)"
  shows "write_to_csv True data =
    Inr (Some (map (csv_row cpu exec) [0..<128], map (csv_group cpu exec) [0..<16]))"
  using assms by (rule write_to_csv_ok)

text \<open>The label of a row names the credits and the matrix size that \<open>main\<close> gave to the uthread only
  for some of the uthreads, because the report runs through the credits within a size and \<open>main\<close>
  through the sizes within an amount of credits.\<close>

lemma csv_labels:
  assumes "i < 128"
  shows "fst (csv_row cpu exec i) = snd (snd (snd (main_threads 1 ! i))) \<and>
      fst (snd (csv_row cpu exec i)) = fst (snd (snd (main_threads 1 ! i))) \<longleftrightarrow>
    i div 8 mod 4 = i div 32 \<and> (i - 1) div 32 = i div 32"
  using assms by (rule csv_labels_agree)

text \<open>On complete options \<open>parse_args\<close> sets the load balancing flag just when \<open>-lb\<close> is there, and
  the credit flag just when \<open>-s 1\<close> is there; a last argument \<open>-s\<close> makes it read through the null pointer
  that ends the argument vector.\<close>

lemma command_line:
  assumes "list_all complete_option opts"
  shows "parse_args (concat opts) (0, 0) =
      Inr (if [''-lb''] \<in> set opts then 1 else 0, if [''-s'', ''1''] \<in> set opts then 1 else 0) \<and>
    parse_args (concat opts @ [''-s'']) (0, 0) = Inl NullDeref"
  using parse_args_complete [OF assms, of "[]"] parse_args_complete [OF assms, of "[''-s'']"] by simp

end
